(* ===== verification/Prelude.thy ===== *)
theory Prelude
  imports Main "HOL-Library.Word"
begin

text \<open>
  Shared vocabulary of the xv6 development: the machine's integer types, the
  outcome of a kernel computation and its sequencing, weakest preconditions over
  outcomes, the search loop that most of the kernel's table walks are instances of,
  byte memory with little-endian 32-bit access, and array splicing.
\<close>

unbundle bit_operations_syntax

section \<open>Machine integers\<close>

type_synonym u8 = "8 word"
type_synonym u16 = "16 word"
type_synonym u32 = "32 word"

lemma unat_u32_less: "unat (x :: u32) < 2 ^ 32"
  using unsigned_less [where 'a = nat, of x] by simp

text \<open>Memory is a byte per 32-bit address.\<close>

type_synonym memory = "u32 \<Rightarrow> u8"

section \<open>Outcomes of kernel code\<close>

text \<open>
  A kernel function runs in a state and ends in one of four ways. \<open>Ret x t\<close>: it
  returns \<open>x\<close> to its caller in state \<open>t\<close>. \<open>Panic m\<close>: it called
  \<open>panic(m)\<close>, which never returns. \<open>Switch t\<close>: it reached \<open>swtch()\<close> into the
  scheduler, in state \<open>t\<close>; what the code does when the process is chosen again is a
  definition of its own (the \<open>..._resume\<close> functions), so a function up to its switch
  and its resumption are the two halves of the C function. \<open>Hang\<close>: it spins forever
  on a condition only another CPU or a device can change.
\<close>

datatype ('a, 's) outcome = Ret 'a 's | Panic string | Switch 's | Hang

type_synonym ('a, 's) kern = "'s \<Rightarrow> ('a, 's) outcome"

definition return :: "'a \<Rightarrow> ('a, 's) kern" where
  "return x s = Ret x s"

definition bind :: "('a, 's) kern \<Rightarrow> ('a \<Rightarrow> ('b, 's) kern) \<Rightarrow> ('b, 's) kern" where
  "bind m f s = (case m s of Ret x t \<Rightarrow> f x t | Panic e \<Rightarrow> Panic e | Switch t \<Rightarrow> Switch t | Hang \<Rightarrow> Hang)"

definition andthen :: "('a, 's) kern \<Rightarrow> ('b, 's) kern \<Rightarrow> ('b, 's) kern" where
  "andthen m k = bind m (\<lambda>_. k)"

definition panic :: "string \<Rightarrow> ('a, 's) kern" where
  "panic e s = Panic e"

definition hang :: "('a, 's) kern" where
  "hang s = Hang"

definition switch_away :: "('a, 's) kern" where
  "switch_away s = Switch s"

definition modify :: "('s \<Rightarrow> 's) \<Rightarrow> (unit, 's) kern" where
  "modify f s = Ret () (f s)"

definition gets :: "('s \<Rightarrow> 'a) \<Rightarrow> ('a, 's) kern" where
  "gets f s = Ret (f s) s"

definition whenk :: "bool \<Rightarrow> (unit, 's) kern \<Rightarrow> (unit, 's) kern" where
  "whenk b m = (if b then m else return ())"

named_theorems kern "unfolding of the sequencing of kernel computations"

declare return_def [kern] bind_def [kern] andthen_def [kern] panic_def [kern] hang_def [kern]
  switch_away_def [kern] modify_def [kern] gets_def [kern] whenk_def [kern]

lemma bind_cong [fundef_cong]:
  assumes "s = s'" and "m s' = m' s'" and "\<And>x t. m' s' = Ret x t \<Longrightarrow> f x t = f' x t"
  shows "bind m f s = bind m' f' s'"
  using assms by (auto simp: bind_def split: outcome.splits)

lemma andthen_cong [fundef_cong]:
  assumes "s = s'" and "m s' = m' s'" and "\<And>x t. m' s' = Ret x t \<Longrightarrow> k t = k' t"
  shows "andthen m k s = andthen m' k' s'"
  using assms by (auto simp: andthen_def bind_def split: outcome.splits)

lemma bind_assoc: "bind (bind m f) g = bind m (\<lambda>x. bind (f x) g)"
  by (rule ext) (simp add: bind_def split: outcome.splits)

lemma bind_Ret_iff: "bind m f s = Ret y u \<longleftrightarrow> (\<exists>x t. m s = Ret x t \<and> f x t = Ret y u)"
  by (simp add: bind_def split: outcome.splits)

lemma andthen_Ret_iff: "andthen m k s = Ret y u \<longleftrightarrow> (\<exists>x t. m s = Ret x t \<and> k t = Ret y u)"
  by (simp add: andthen_def bind_Ret_iff)

lemma bind_Switch_iff:
  "bind m f s = Switch u \<longleftrightarrow> m s = Switch u \<or> (\<exists>x t. m s = Ret x t \<and> f x t = Switch u)"
  by (simp add: bind_def split: outcome.splits)

lemma andthen_Switch_iff:
  "andthen m k s = Switch u \<longleftrightarrow> m s = Switch u \<or> (\<exists>x t. m s = Ret x t \<and> k t = Switch u)"
  by (simp add: andthen_def bind_Switch_iff)

subsection \<open>Weakest preconditions\<close>

text \<open>
  \<open>wp m Q R s\<close>: started in \<open>s\<close>, \<open>m\<close> neither panics nor hangs; if it returns \<open>x\<close> in
  \<open>t\<close> then \<open>Q x t\<close>, and if it switches to the scheduler in \<open>t\<close> then \<open>R t\<close>.
\<close>

definition wp :: "('a, 's) kern \<Rightarrow> ('a \<Rightarrow> 's \<Rightarrow> bool) \<Rightarrow> ('s \<Rightarrow> bool) \<Rightarrow> 's \<Rightarrow> bool" where
  "wp m Q R s = (case m s of Ret x t \<Rightarrow> Q x t | Panic e \<Rightarrow> False | Switch t \<Rightarrow> R t | Hang \<Rightarrow> False)"

named_theorems wps "weakest preconditions of kernel operations"

lemma wp_return [wps]: "wp (return x) Q R s = Q x s"
  by (simp add: wp_def return_def)

lemma wp_bind [wps]: "wp (bind m f) Q R s = wp m (\<lambda>x. wp (f x) Q R) R s"
  by (simp add: wp_def bind_def split: outcome.splits)

lemma wp_andthen [wps]: "wp (andthen m k) Q R s = wp m (\<lambda>_. wp k Q R) R s"
  by (simp add: andthen_def wp_bind)

lemma wp_panic [wps]: "wp (panic e) Q R s = False"
  by (simp add: wp_def panic_def)

lemma wp_hang [wps]: "wp hang Q R s = False"
  by (simp add: wp_def hang_def)

lemma wp_switch_away [wps]: "wp switch_away Q R s = R s"
  by (simp add: wp_def switch_away_def)

lemma wp_modify [wps]: "wp (modify f) Q R s = Q () (f s)"
  by (simp add: wp_def modify_def)

lemma wp_gets [wps]: "wp (gets f) Q R s = Q (f s) s"
  by (simp add: wp_def gets_def)

lemma wp_whenk [wps]: "wp (whenk b m) Q R s = (if b then wp m Q R s else Q () s)"
  by (simp add: whenk_def wp_return)

lemma wp_if [wps]: "wp (if b then m else m') Q R s = (if b then wp m Q R s else wp m' Q R s)"
  by simp

lemma wp_mono:
  assumes "wp m Q R s" and "\<And>x t. Q x t \<Longrightarrow> Q' x t" and "\<And>t. R t \<Longrightarrow> R' t"
  shows "wp m Q' R' s"
  using assms by (auto simp: wp_def split: outcome.splits)

lemma wp_Ret: "m s = Ret x t \<Longrightarrow> wp m Q R s = Q x t"
  by (simp add: wp_def)

lemma wp_RetD: "wp m Q R s \<Longrightarrow> m s = Ret x t \<Longrightarrow> Q x t"
  by (simp add: wp_def)

lemma wp_SwitchD: "wp m Q R s \<Longrightarrow> m s = Switch t \<Longrightarrow> R t"
  by (simp add: wp_def)

text \<open>A computation that can only return: its precondition excludes every other ending.\<close>

lemma wp_returns:
  assumes "wp m Q (\<lambda>_. False) s"
  obtains x t where "m s = Ret x t" and "Q x t"
  using assms by (auto simp: wp_def split: outcome.splits)

subsection \<open>What a computation leaves alone\<close>

text \<open>\<open>frame v f\<close>: however \<open>f\<close> ends, the part \<open>v\<close> of the state is what it was.\<close>

definition frame :: "('s \<Rightarrow> 'v) \<Rightarrow> ('a, 's) kern \<Rightarrow> bool" where
  "frame v f \<longleftrightarrow> (\<forall>s. case f s of Ret x t \<Rightarrow> v t = v s | Panic e \<Rightarrow> True | Switch t \<Rightarrow> v t = v s | Hang \<Rightarrow> True)"

named_theorems frames "computations that leave a part of the state alone"

lemma frameD: "frame v f \<Longrightarrow> f s = Ret x t \<Longrightarrow> v t = v s" "frame v f \<Longrightarrow> f s = Switch t \<Longrightarrow> v t = v s"
  unfolding frame_def by (auto dest!: spec [of _ s])

lemma frame_bind [frames]:
  assumes "frame v f" and "\<And>x. frame v (g x)"
  shows "frame v (bind f g)"
  unfolding frame_def bind_def
proof (rule allI)
  fix s
  show "case (case f s of Ret x t \<Rightarrow> g x t | Panic e \<Rightarrow> Panic e | Switch t \<Rightarrow> Switch t | Hang \<Rightarrow> Hang) of
      Ret x t \<Rightarrow> v t = v s | Panic e \<Rightarrow> True | Switch t \<Rightarrow> v t = v s | Hang \<Rightarrow> True"
  proof (cases "f s")
    case (Ret x t)
    then have "v t = v s" using frameD(1) [OF assms(1)] by simp
    then show ?thesis
      using Ret frameD [OF assms(2), of x t] by (auto split: outcome.split)
  next
    case (Switch t)
    then show ?thesis using frameD(2) [OF assms(1)] by simp
  qed simp_all
qed

lemma frame_andthen [frames]: "frame v f \<Longrightarrow> frame v g \<Longrightarrow> frame v (andthen f g)"
  unfolding andthen_def by (rule frame_bind)

lemma frame_basic [frames]:
  "frame v (return x)" "frame v (panic e)" "frame v hang" "frame v switch_away" "frame v (gets h)"
  by (simp_all add: frame_def kern)

lemma frame_modify [frames]: "(\<And>s. v (h s) = v s) \<Longrightarrow> frame v (modify h)"
  by (simp add: frame_def modify_def)

lemma frame_whenk [frames]: "frame v f \<Longrightarrow> frame v (whenk b f)"
  by (simp add: whenk_def frame_basic)

lemma frame_if [frames]: "frame v f \<Longrightarrow> frame v g \<Longrightarrow> frame v (if b then f else g)"
  by simp

lemma frame_option [frames]:
  "frame v f \<Longrightarrow> (\<And>x. frame v (g x)) \<Longrightarrow> frame v (case z of None \<Rightarrow> f | Some x \<Rightarrow> g x)"
  by (cases z) simp_all

section \<open>The search loop\<close>

text \<open>
  \<open>for(i = lo; i < hi; i++) if(P(i)) return i;\<close> and, when the loop runs out,
  \<open>None\<close>: the shape of the walks over the process, file, inode, semaphore and CPU
  tables.
\<close>

function scan :: "(nat \<Rightarrow> bool) \<Rightarrow> nat \<Rightarrow> nat \<Rightarrow> nat option" where
  "scan P lo hi = (if lo < hi then (if P lo then Some lo else scan P (Suc lo) hi) else None)"
  by pat_completeness auto
termination
  by (relation "measure (\<lambda>(P, lo, hi). hi - lo)") auto

declare scan.simps [simp del]

lemma scan_None_iff: "scan P lo hi = None \<longleftrightarrow> (\<forall>i. lo \<le> i \<and> i < hi \<longrightarrow> \<not> P i)"
proof (induction P lo hi rule: scan.induct)
  case (1 P lo hi)
  show ?case
  proof (cases "lo < hi \<and> \<not> P lo")
    case True
    with "1.IH" have "scan P lo hi = None \<longleftrightarrow> (\<forall>i. Suc lo \<le> i \<and> i < hi \<longrightarrow> \<not> P i)"
      by (simp add: scan.simps [of P lo hi])
    moreover have "(\<forall>i. Suc lo \<le> i \<and> i < hi \<longrightarrow> \<not> P i) \<longleftrightarrow> (\<forall>i. lo \<le> i \<and> i < hi \<longrightarrow> \<not> P i)"
      using True by (metis Suc_le_eq le_eq_less_or_eq)
    ultimately show ?thesis by simp
  next
    case False
    then show ?thesis by (auto simp: scan.simps [of P lo hi])
  qed
qed

lemma scan_Some_iff:
  "scan P lo hi = Some k \<longleftrightarrow> lo \<le> k \<and> k < hi \<and> P k \<and> (\<forall>i. lo \<le> i \<and> i < k \<longrightarrow> \<not> P i)"
proof (induction P lo hi rule: scan.induct)
  case (1 P lo hi)
  show ?case
  proof (cases "lo < hi \<and> \<not> P lo")
    case True
    with "1.IH" have "scan P lo hi = Some k \<longleftrightarrow>
        Suc lo \<le> k \<and> k < hi \<and> P k \<and> (\<forall>i. Suc lo \<le> i \<and> i < k \<longrightarrow> \<not> P i)"
      by (simp add: scan.simps [of P lo hi])
    moreover have "Suc lo \<le> k \<and> k < hi \<and> P k \<and> (\<forall>i. Suc lo \<le> i \<and> i < k \<longrightarrow> \<not> P i) \<longleftrightarrow>
        lo \<le> k \<and> k < hi \<and> P k \<and> (\<forall>i. lo \<le> i \<and> i < k \<longrightarrow> \<not> P i)"
      using True by (metis Suc_le_eq le_eq_less_or_eq)
    ultimately show ?thesis by simp
  next
    case False
    then show ?thesis
      by (auto simp: scan.simps [of P lo hi] le_eq_less_or_eq)
  qed
qed

lemma scan_cong:
  assumes "\<And>i. lo \<le> i \<Longrightarrow> i < hi \<Longrightarrow> P i = Q i"
  shows "scan P lo hi = scan Q lo hi"
  using assms
proof (induction P lo hi rule: scan.induct)
  case (1 P lo hi)
  then show ?case by (auto simp: scan.simps [of P lo hi] scan.simps [of Q lo hi])
qed

lemma scan_SomeD:
  assumes "scan P lo hi = Some k"
  shows "lo \<le> k" and "k < hi" and "P k" and "\<And>i. lo \<le> i \<Longrightarrow> i < k \<Longrightarrow> \<not> P i"
  using assms by (auto simp: scan_Some_iff)

section \<open>Byte memory\<close>

definition load32 :: "memory \<Rightarrow> u32 \<Rightarrow> u32" where
  "load32 m a = ucast (m a) OR push_bit 8 (ucast (m (a + 1)))
     OR push_bit 16 (ucast (m (a + 2))) OR push_bit 24 (ucast (m (a + 3)))"

definition store32 :: "memory \<Rightarrow> u32 \<Rightarrow> u32 \<Rightarrow> memory" where
  "store32 m a v = m(a := ucast v, a + 1 := ucast (drop_bit 8 v),
     a + 2 := ucast (drop_bit 16 v), a + 3 := ucast (drop_bit 24 v))"

lemma load32_store32 [simp]: "load32 (store32 m a v) a = v"
proof (rule bit_word_eqI)
  fix n
  assume "n < LENGTH(32)"
  then show "bit (load32 (store32 m a v) a) n = bit v n"
    by (cases "n < 8"; cases "n < 16"; cases "n < 24")
      (auto simp: load32_def store32_def bit_or_iff bit_push_bit_iff bit_ucast_iff bit_drop_bit_eq)
qed

lemma load32_cong:
  "m a = m' a \<Longrightarrow> m (a + 1) = m' (a + 1) \<Longrightarrow> m (a + 2) = m' (a + 2) \<Longrightarrow> m (a + 3) = m' (a + 3)
    \<Longrightarrow> load32 m a = load32 m' a"
  by (simp add: load32_def)

lemma store32_other:
  "b \<noteq> a \<Longrightarrow> b \<noteq> a + 1 \<Longrightarrow> b \<noteq> a + 2 \<Longrightarrow> b \<noteq> a + 3 \<Longrightarrow> store32 m a v b = m b"
  by (simp add: store32_def)

section \<open>Arrays\<close>

text \<open>Overwriting part of an array, \<open>memmove(xs + off, ys, length ys)\<close> on distinct arrays.\<close>

definition blit :: "'a list \<Rightarrow> nat \<Rightarrow> 'a list \<Rightarrow> 'a list" where
  "blit xs off ys = take off xs @ ys @ drop (off + length ys) xs"

lemma length_blit [simp]: "off + length ys \<le> length xs \<Longrightarrow> length (blit xs off ys) = length xs"
  by (simp add: blit_def)

lemma nth_blit:
  assumes "off + length ys \<le> length xs" and "i < length xs"
  shows "blit xs off ys ! i = (if off \<le> i \<and> i < off + length ys then ys ! (i - off) else xs ! i)"
  using assms by (auto simp: blit_def nth_append min_def)

lemma take_drop_blit:
  "off + length ys \<le> length xs \<Longrightarrow> take (length ys) (drop off (blit xs off ys)) = ys"
  by (simp add: blit_def)

text \<open>One entry of a table changed by a function.\<close>

definition upd :: "nat \<Rightarrow> ('a \<Rightarrow> 'a) \<Rightarrow> 'a list \<Rightarrow> 'a list" where
  "upd i f xs = xs[i := f (xs ! i)]"

lemma length_upd [simp]: "length (upd i f xs) = length xs"
  by (simp add: upd_def)

lemma nth_upd: "j < length xs \<Longrightarrow> upd i f xs ! j = (if j = i then f (xs ! j) else xs ! j)"
  by (simp add: upd_def nth_list_update)

lemma nth_upd_eq [simp]: "i < length xs \<Longrightarrow> upd i f xs ! i = f (xs ! i)"
  by (simp add: upd_def)

lemma nth_upd_neq [simp]: "i \<noteq> j \<Longrightarrow> upd i f xs ! j = xs ! j"
  by (simp add: upd_def)

lemma upd_upd_same [simp]: "i < length xs \<Longrightarrow> upd i f (upd i g xs) = upd i (f \<circ> g) xs"
  by (simp add: upd_def)

lemma upd_id_same: "i < length xs \<Longrightarrow> f (xs ! i) = xs ! i \<Longrightarrow> upd i f xs = xs"
  by (simp add: upd_def list_update_same_conv)

end
