(* ===== verification/Kstring.thy ===== *)
theory Kstring
  imports Prelude
begin

text \<open>
  The kernel's string and memory routines, \<^verbatim>\<open>src/string.c\<close>. The \<open>mem\<close> routines act on
  byte memory, where source and destination may overlap and addresses wrap. The \<open>str\<close>
  routines read a C string given as the list of its bytes: the byte after the list's end
  reads as NUL, so a list is either a NUL-terminated string or a fixed array whose length
  bounds the reads. A routine that writes returns the bytes it writes, in order, from the
  start of its destination.
\<close>

section \<open>Memory routines\<close>

text \<open>\<open>rep stosb\<close> and \<open>rep stosl\<close> of \<^verbatim>\<open>src/x86.h\<close>.\<close>

fun stosb :: "memory \<Rightarrow> u32 \<Rightarrow> u8 \<Rightarrow> nat \<Rightarrow> memory" where
  "stosb m addr data 0 = m"
| "stosb m addr data (Suc cnt) = stosb (m(addr := data)) (addr + 1) data cnt"

fun stosl :: "memory \<Rightarrow> u32 \<Rightarrow> u32 \<Rightarrow> nat \<Rightarrow> memory" where
  "stosl m addr data 0 = m"
| "stosl m addr data (Suc cnt) = stosl (store32 m addr data) (addr + 4) data cnt"

definition memset :: "memory \<Rightarrow> u32 \<Rightarrow> u32 \<Rightarrow> u32 \<Rightarrow> memory" where
  "memset m dst c n =
     (if dst mod 4 = 0 \<and> n mod 4 = 0
      then let c = c AND 0xFF
           in stosl m dst (push_bit 24 c OR push_bit 16 c OR push_bit 8 c OR c) (unat (n div 4))
      else stosb m dst (ucast c) (unat n))"

fun memcmp :: "memory \<Rightarrow> u32 \<Rightarrow> u32 \<Rightarrow> nat \<Rightarrow> int" where
  "memcmp m s1 s2 0 = 0"
| "memcmp m s1 s2 (Suc n) =
     (if m s1 \<noteq> m s2 then uint (m s1) - uint (m s2) else memcmp m (s1 + 1) (s2 + 1) n)"

text \<open>The two copy loops of \<open>memmove\<close>: \<open>*d++ = *s++\<close> and \<open>*--d = *--s\<close>.\<close>

fun copy_up :: "memory \<Rightarrow> u32 \<Rightarrow> u32 \<Rightarrow> nat \<Rightarrow> memory" where
  "copy_up m d s 0 = m"
| "copy_up m d s (Suc n) = copy_up (m(d := m s)) (d + 1) (s + 1) n"

fun copy_down :: "memory \<Rightarrow> u32 \<Rightarrow> u32 \<Rightarrow> nat \<Rightarrow> memory" where
  "copy_down m d s 0 = m"
| "copy_down m d s (Suc n) = copy_down (m(d - 1 := m (s - 1))) (d - 1) (s - 1) n"

definition memmove :: "memory \<Rightarrow> u32 \<Rightarrow> u32 \<Rightarrow> u32 \<Rightarrow> memory" where
  "memmove m dst src n =
     (if src < dst \<and> src + n > dst
      then copy_down m (dst + n) (src + n) (unat n)
      else copy_up m dst src (unat n))"

definition memcpy :: "memory \<Rightarrow> u32 \<Rightarrow> u32 \<Rightarrow> u32 \<Rightarrow> memory" where
  "memcpy m dst src n = memmove m dst src n"

section \<open>String routines\<close>

text \<open>The byte a string pointer points at, and the string itself up to its NUL.\<close>

definition ch :: "u8 list \<Rightarrow> u8" where
  "ch s = (case s of [] \<Rightarrow> 0 | c # _ \<Rightarrow> c)"

definition cstr :: "u8 list \<Rightarrow> u8 list" where
  "cstr s = takeWhile (\<lambda>c. c \<noteq> 0) s"

fun strncmp :: "u8 list \<Rightarrow> u8 list \<Rightarrow> nat \<Rightarrow> int" where
  "strncmp p q 0 = 0"
| "strncmp p q (Suc n) =
     (if ch p \<noteq> 0 \<and> ch p = ch q then strncmp (tl p) (tl q) n
      else uint (ch p) - uint (ch q))"

text \<open>The bytes \<open>strncpy\<close> writes: the copy loop, then the zero fill.\<close>

fun strncpy :: "u8 list \<Rightarrow> nat \<Rightarrow> u8 list" where
  "strncpy t 0 = []"
| "strncpy t (Suc n) = (if ch t \<noteq> 0 then ch t # strncpy (tl t) n else 0 # replicate n 0)"

text \<open>
  \<open>while(--n > 0 && (*s++ = *t++) != 0); *s = 0;\<close> with \<open>k = n - 1\<close> left before the
  test. When the loop stops at the source's NUL it has already copied it, and the last
  assignment writes a second one behind it.
\<close>

fun safestrcpy_loop :: "u8 list \<Rightarrow> nat \<Rightarrow> u8 list" where
  "safestrcpy_loop t 0 = [0]"
| "safestrcpy_loop t (Suc k) = (if ch t = 0 then [0, 0] else ch t # safestrcpy_loop (tl t) k)"

definition safestrcpy :: "u8 list \<Rightarrow> int \<Rightarrow> u8 list" where
  "safestrcpy t n = (if n \<le> 0 then [] else safestrcpy_loop t (nat n - 1))"

fun strlen :: "u8 list \<Rightarrow> nat" where
  "strlen [] = 0"
| "strlen (c # s) = (if c = 0 then 0 else Suc (strlen s))"

section \<open>Correctness of the memory routines\<close>

lemma word_diff_less_Suc_iff:
  fixes a d :: u32
  assumes "Suc n \<le> 2 ^ 32"
  shows "unat (a - d) < Suc n \<longleftrightarrow> a = d \<or> unat (a - (d + 1)) < n"
proof (cases "a = d")
  case False
  then have "a - d \<noteq> 0" by simp
  then have "unat (a - d - 1) = unat (a - d) - 1" and "0 < unat (a - d)"
    by (rule unat_minus_one, simp add: unat_gt_0)
  moreover have "a - d - 1 = a - (d + 1)" by simp
  ultimately show ?thesis using False by auto
qed simp

lemma stosb_apply:
  "n \<le> 2 ^ 32 \<Longrightarrow> stosb m d c n a = (if unat (a - d) < n then c else m a)"
proof (induction n arbitrary: m d)
  case (Suc n)
  then have "stosb m d c (Suc n) a = (if unat (a - (d + 1)) < n then c else (m(d := c)) a)"
    by simp
  then show ?case
    using word_diff_less_Suc_iff [OF Suc.prems, of a d] by auto
qed simp

lemma store32_stosb:
  "store32 m d v = stosb m d c 4"
  if "ucast v = c" "ucast (drop_bit 8 v) = c" "ucast (drop_bit 16 v) = c" "ucast (drop_bit 24 v) = c"
  using that by (simp add: store32_def eval_nat_numeral add.assoc)

lemma stosb_add: "stosb m d c (k + n) = stosb (stosb m d c k) (d + of_nat k) c n"
  by (induction k arbitrary: m d) (simp_all add: algebra_simps)

lemma stosl_stosb:
  assumes "ucast v = c" "ucast (drop_bit 8 v) = c" "ucast (drop_bit 16 v) = c" "ucast (drop_bit 24 v) = c"
  shows "stosl m d v n = stosb m d c (4 * n)"
proof (induction n arbitrary: m d)
  case (Suc n)
  have "stosl m d v (Suc n) = stosb (stosb m d c 4) (d + 4) c (4 * n)"
    by (simp add: Suc store32_stosb [OF assms])
  also have "\<dots> = stosb m d c (4 + 4 * n)"
    by (subst stosb_add) simp
  finally show ?case by simp
qed simp

lemma splat_byte:
  fixes c :: u32
  defines "b \<equiv> c AND 0xFF"
  defines "v \<equiv> push_bit 24 b OR push_bit 16 b OR push_bit 8 b OR b"
  shows "ucast v = (ucast c :: u8)" and "ucast (drop_bit 8 v) = (ucast c :: u8)"
    and "ucast (drop_bit 16 v) = (ucast c :: u8)" and "ucast (drop_bit 24 v) = (ucast c :: u8)"
proof -
  have b: "bit b n \<longleftrightarrow> n < 8 \<and> bit c n" for n
    using bit_mask_iff [where 'a = "32 word", of 8 n]
    by (auto simp: b_def bit_and_iff mask_numeral dest: bit_imp_le_length)
  show "ucast v = (ucast c :: u8)" "ucast (drop_bit 8 v) = (ucast c :: u8)"
    "ucast (drop_bit 16 v) = (ucast c :: u8)" "ucast (drop_bit 24 v) = (ucast c :: u8)"
    by (rule bit_word_eqI; auto simp: v_def bit_ucast_iff bit_drop_bit_eq bit_or_iff bit_push_bit_iff b)+
qed

lemma memset_apply:
  "memset m dst c n a = (if unat (a - dst) < unat n then ucast c else m a)"
proof (cases "dst mod 4 = 0 \<and> n mod 4 = 0")
  case True
  then have "unat (n mod 4) = 0" by simp
  then have "unat n mod 4 = 0" by (simp add: unat_mod)
  then have four: "4 * unat (n div 4) = unat n"
    using mult_div_mod_eq [of 4 "unat n"] by (simp add: unat_div)
  have "memset m dst c n = stosb m dst (ucast c) (unat n)"
    by (simp only: memset_def Let_def True simp_thms if_True stosl_stosb [OF splat_byte] four)
  then show ?thesis
    using unat_u32_less [of n] by (simp add: stosb_apply)
next
  case False
  then show ?thesis
    using unat_u32_less [of n] by (auto simp: memset_def stosb_apply)
qed

text \<open>
  The upward copy is right when no byte is overwritten before it is read: the
  destination starts at the source or at least \<open>n\<close> bytes after it, counted around the
  address space. The downward copy is its mirror image.
\<close>

lemma copy_up_apply:
  assumes "n \<le> 2 ^ 32" and "d = s \<or> n \<le> unat (d - s)"
  shows "copy_up m d s n a = (if unat (a - d) < n then m (s + (a - d)) else m a)"
  using assms
proof (induction n arbitrary: m d s)
  case (Suc n)
  let ?m = "m(d := m s)"
  have IH: "copy_up m d s (Suc n) a =
      (if unat (a - (d + 1)) < n then ?m (s + (a - d)) else ?m a)"
  proof -
    have "copy_up ?m (d + 1) (s + 1) n a =
        (if unat (a - (d + 1)) < n then ?m (s + 1 + (a - (d + 1))) else ?m a)"
      using Suc.prems by (intro Suc.IH) auto
    moreover have "s + 1 + (a - (d + 1)) = s + (a - d)" by simp
    ultimately show ?thesis by (simp only: copy_up.simps)
  qed
  have keep: "?m (s + (a - d)) = m (s + (a - d))" if "unat (a - d) < Suc n"
  proof (cases "s + (a - d) = d")
    case True
    then have "a - d = d - s" by (simp add: algebra_simps)
    with that Suc.prems(2) have "d = s" by auto
    then show ?thesis using True by simp
  qed simp
  show ?case
    using IH keep word_diff_less_Suc_iff [OF Suc.prems(1), of a d] by auto
qed simp

lemma copy_down_apply:
  assumes "n \<le> 2 ^ 32" and "d = s \<or> n \<le> unat (s - d)"
  shows "copy_down m d s n a = (if unat (d - 1 - a) < n then m (s - d + a) else m a)"
  using assms
proof (induction n arbitrary: m d s)
  case (Suc n)
  let ?m = "m(d - 1 := m (s - 1))"
  have IH: "copy_down m d s (Suc n) a =
      (if unat (d - 1 - 1 - a) < n then ?m (s - d + a) else ?m a)"
  proof -
    have "copy_down ?m (d - 1) (s - 1) n a =
        (if unat (d - 1 - 1 - a) < n then ?m (s - 1 - (d - 1) + a) else ?m a)"
      using Suc.prems by (intro Suc.IH) auto
    moreover have "s - 1 - (d - 1) + a = s - d + a" by simp
    ultimately show ?thesis by (simp only: copy_down.simps)
  qed
  have keep: "?m (s - d + a) = m (s - d + a)" if "unat (d - 1 - a) < Suc n"
  proof (cases "s - d + a = d - 1")
    case True
    then have "d - 1 - a = s - d" by (simp add: algebra_simps)
    with that Suc.prems(2) have "d = s" by auto
    then show ?thesis using True by simp
  qed simp
  have split: "unat (d - 1 - a) < Suc n \<longleftrightarrow> a = d - 1 \<or> unat (d - 1 - 1 - a) < n"
  proof -
    have "d - 1 - (a + 1) = d - 1 - 1 - a" by simp
    then show ?thesis
      using word_diff_less_Suc_iff [OF Suc.prems(1), of "d - 1" a] by (simp only:) auto
  qed
  show ?case
  proof (cases "a = d - 1")
    case True
    have "s - d + a = s - 1" using True by simp
    then show ?thesis using IH keep split True by (simp split: if_splits)
  next
    case False
    then show ?thesis using IH keep split by (simp del: copy_down.simps split: if_splits)
  qed
qed simp

lemma word_mirror_less:
  fixes n x :: u32
  shows "unat (n - 1 - x) < unat n \<longleftrightarrow> unat x < unat n"
proof (cases "n = 0")
  case False
  then have n: "unat (n - 1) = unat n - 1" "0 < unat n"
    by (simp_all add: unat_minus_one unat_gt_0)
  then show ?thesis
    using unat_u32_less [of x] unat_u32_less [of n] by (auto simp: unat_sub_if' n)
qed simp

lemma memmove_apply:
  assumes src: "unat src + unat n < 2 ^ 32" and dst: "unat dst + unat n \<le> 2 ^ 32"
  shows "memmove m dst src n a = (if unat (a - dst) < unat n then m (src + (a - dst)) else m a)"
proof (cases "src < dst \<and> src + n > dst")
  case True
  have "unat n \<le> unat (src - dst)"
    using True dst by (simp add: word_less_nat_alt unat_sub_if')
  then have "memmove m dst src n a =
      (if unat (dst + n - 1 - a) < unat n then m (src - dst + a) else m a)"
    using True unat_u32_less [of n] by (simp add: memmove_def copy_down_apply)
  moreover have "unat (dst + n - 1 - a) < unat n \<longleftrightarrow> unat (a - dst) < unat n"
  proof -
    have "dst + n - 1 - a = n - 1 - (a - dst)" by simp
    then show ?thesis by (simp only: word_mirror_less)
  qed
  ultimately show ?thesis by (simp add: algebra_simps)
next
  case False
  have "dst = src \<or> unat n \<le> unat (dst - src)"
  proof (cases "src < dst")
    case True
    with False have "src + n \<le> dst" by auto
    with True src have "unat n \<le> unat dst - unat src" and "unat src \<le> unat dst"
      by (simp_all add: word_less_nat_alt word_le_nat_alt unat_word_ariths)
    then show ?thesis by (simp add: unat_sub_if')
  next
    case False
    then have "unat dst \<le> unat src" by (simp add: word_less_nat_alt)
    moreover have "unat dst = unat src \<Longrightarrow> dst = src" by (rule unsigned_word_eqI)
    ultimately show ?thesis
      using src unat_sub_if' [of dst src] by (cases "unat dst = unat src") auto
  qed
  moreover have "memmove m dst src n = copy_up m dst src (unat n)"
    by (simp only: memmove_def False if_False)
  ultimately show ?thesis
    using unat_u32_less [of n] by (simp add: copy_up_apply)
qed

section \<open>Correctness of the string routines\<close>

lemma cstr_ch: "cstr s = (if ch s = 0 then [] else ch s # cstr (tl s))"
  by (cases s) (auto simp: cstr_def ch_def)

lemma strncmp_eq_0_iff: "strncmp p q n = 0 \<longleftrightarrow> take n (cstr p) = take n (cstr q)"
proof (induction p q n rule: strncmp.induct)
  case (2 p q n)
  show ?case
  proof (cases "ch p \<noteq> 0 \<and> ch p = ch q")
    case True
    then have p: "ch p \<noteq> 0" and q: "ch q = ch p" by auto
    have "cstr p = ch p # cstr (tl p)" "cstr q = ch p # cstr (tl q)"
      using p q cstr_ch [of p] cstr_ch [of q] by simp_all
    with 2 p q show ?thesis by simp
  next
    case False
    then have "strncmp p q (Suc n) = uint (ch p) - uint (ch q)"
      by (simp only: strncmp.simps if_False)
    then have "strncmp p q (Suc n) = 0 \<longleftrightarrow> ch p = ch q"
      by (simp add: word_uint_eq_iff)
    moreover have "take (Suc n) (cstr p) = take (Suc n) (cstr q) \<longleftrightarrow> ch p = ch q"
      using False by (subst cstr_ch [of p], subst cstr_ch [of q]) auto
    ultimately show ?thesis by simp
  qed
qed simp

lemma length_strncpy [simp]: "length (strncpy t n) = n"
  by (induction t n rule: strncpy.induct) auto

lemma cstr_strncpy: "cstr (strncpy t n) = take n (cstr t)"
proof (induction t n rule: strncpy.induct)
  case (2 t n)
  then show ?case
    by (subst cstr_ch [of "strncpy t (Suc n)"]) (simp add: cstr_ch [of t] ch_def)
qed (simp add: cstr_def)

lemma length_safestrcpy_loop: "length (safestrcpy_loop t k) \<le> Suc k"
  by (induction t k rule: safestrcpy_loop.induct) auto

lemma cstr_safestrcpy_loop: "cstr (safestrcpy_loop t k) = take k (cstr t)"
proof (induction t k rule: safestrcpy_loop.induct)
  case (2 t k)
  then show ?case
    by (subst cstr_ch [of "safestrcpy_loop t (Suc k)"]) (simp add: cstr_ch [of t] ch_def)
qed (simp add: cstr_def)

lemma safestrcpy_loop_nul: "0 \<in> set (safestrcpy_loop t k)"
  by (induction t k rule: safestrcpy_loop.induct) auto

lemma strlen_cstr: "strlen s = length (cstr s)"
  by (induction s) (auto simp: cstr_def)

section \<open>Properties\<close>

text \<open>\<open>memset\<close>'s word-wise fast path is an optimisation only: for every destination, length and
  fill value it gives the memory of the byte loop, each byte of the range set to the low byte of \<open>c\<close>
  and every other byte untouched.\<close>

theorem memset_correct:
  "memset m dst c n = stosb m dst (ucast c) (unat n) \<and>
    (\<forall>a. memset m dst c n a = (if unat (a - dst) < unat n then ucast c else m a))"
  using unat_u32_less [of n] by (auto simp: memset_apply stosb_apply fun_eq_iff)

text \<open>\<open>memmove\<close> copies correctly even when source and destination overlap, in either direction, as
  long as neither range wraps around the address space.\<close>

theorem memmove_correct:
  assumes "unat src + unat n < 2 ^ 32" and "unat dst + unat n \<le> 2 ^ 32"
  shows "memmove m dst src n a = (if unat (a - dst) < unat n then m (src + (a - dst)) else m a)"
  using assms by (rule memmove_apply)

theorem memmove_correct_witness:
  "memmove (\<lambda>a. ucast a) 5 3 4 8 = 6 \<and> memmove (\<lambda>a. ucast a) 3 5 4 3 = 5"
  using memmove_correct [of 3 4 5 "\<lambda>a. ucast a" 8] memmove_correct [of 5 4 3 "\<lambda>a. ucast a" 3] by simp

text \<open>\<open>safestrcpy\<close> never writes more than \<open>n\<close> bytes, always NUL-terminates what it writes, and the
  string it leaves is the source cut to at most \<open>n - 1\<close> bytes.\<close>

theorem safestrcpy_correct:
  assumes "0 < n"
  shows "int (length (safestrcpy t n)) \<le> n \<and> 0 \<in> set (safestrcpy t n) \<and>
    cstr (safestrcpy t n) = take (nat n - 1) (cstr t)"
  using assms length_safestrcpy_loop [of t "nat n - 1"] safestrcpy_loop_nul
  by (simp add: safestrcpy_def cstr_safestrcpy_loop)

theorem safestrcpy_correct_witness: "cstr (safestrcpy [104, 105, 33, 0] 3) = [104, 105]"
  using safestrcpy_correct [of 3 "[104, 105, 33, 0]"] by (simp add: cstr_def)

end
