(* ===== verification/Fcntl.thy ===== *)
theory Fcntl
  imports Prelude
begin

text \<open>The open modes of \<^verbatim>\<open>src/fcntl.h\<close>, which the kernel and the user programs share.\<close>

definition O_RDONLY :: u32 where "O_RDONLY = 0"
definition O_WRONLY :: u32 where "O_WRONLY = 1"
definition O_RDWR :: u32 where "O_RDWR = 2"
definition O_CREATE :: u32 where "O_CREATE = 0x200"

end
