(* ===== verification/Ulib.thy ===== *)
theory Ulib
  imports Kstring Fcntl
begin

text \<open>
  The C library of the user programs, \<^verbatim>\<open>src/ulib.c\<close> and \<^verbatim>\<open>src/printf.c\<close>. A user program runs in a world of
  type \<open>'w\<close>: its system calls, the stubs of \<^verbatim>\<open>src/usys.S\<close>, are the fields of a record that every
  program takes as a parameter. \<open>Switch w\<close> is a call that does not return to the program, \<open>exit\<close> or an
  \<open>exec\<close> that succeeds, in the world \<open>w\<close> it leaves. Strings are lists of bytes as in the
  kernel's string routines. A loop that ends only when a system call says so takes fuel, and
  running out of it is \<open>Hang\<close>.
\<close>

section \<open>System calls\<close>

text \<open>\<open>read\<close> returns its result and the bytes stored in the caller's buffer.\<close>

record ustat =
  us_type :: int
  us_dev :: int
  us_ino :: u32
  us_nlink :: int
  us_size :: u32

record upstats =
  up_cpu_ticks :: u32
  up_sleep_ticks :: u32
  up_runnable_ticks :: u32
  up_ctx_switches :: u32
  up_preemptions :: u32

record uprocinfo =
  ui_pid :: u32
  ui_name :: "u8 list"
  ui_state :: u32
  ui_timeslice :: u32
  ui_cpu_ticks :: u32
  ui_sleep_ticks :: u32
  ui_ctx_switches :: u32
  ui_preemptions :: u32

record 'w os =
  os_fork :: "(int, 'w) kern"
  os_exit :: "(unit, 'w) kern"
  os_wait :: "(int, 'w) kern"
  os_pipe :: "(int \<times> int \<times> int, 'w) kern"
  os_write :: "int \<Rightarrow> u8 list \<Rightarrow> (int, 'w) kern"
  os_read :: "int \<Rightarrow> nat \<Rightarrow> (int \<times> u8 list, 'w) kern"
  os_close :: "int \<Rightarrow> (int, 'w) kern"
  os_kill :: "int \<Rightarrow> (int, 'w) kern"
  os_exec :: "u8 list \<Rightarrow> u8 list list \<Rightarrow> (int, 'w) kern"
  os_open :: "u8 list \<Rightarrow> u32 \<Rightarrow> (int, 'w) kern"
  os_mknod :: "u8 list \<Rightarrow> int \<Rightarrow> int \<Rightarrow> (int, 'w) kern"
  os_unlink :: "u8 list \<Rightarrow> (int, 'w) kern"
  os_fstat :: "int \<Rightarrow> (int \<times> ustat, 'w) kern"
  os_link :: "u8 list \<Rightarrow> u8 list \<Rightarrow> (int, 'w) kern"
  os_mkdir :: "u8 list \<Rightarrow> (int, 'w) kern"
  os_chdir :: "u8 list \<Rightarrow> (int, 'w) kern"
  os_dup :: "int \<Rightarrow> (int, 'w) kern"
  os_getpid :: "(int, 'w) kern"
  os_sbrk :: "int \<Rightarrow> (u32, 'w) kern"
  os_sleep :: "int \<Rightarrow> (int, 'w) kern"
  os_uptime :: "(int, 'w) kern"
  os_getyear :: "(int, 'w) kern"
  os_setquantum_pid :: "int \<Rightarrow> int \<Rightarrow> (int, 'w) kern"
  os_gettimeslice :: "int \<Rightarrow> (int, 'w) kern"
  os_getpstats :: "int \<Rightarrow> (int \<times> upstats, 'w) kern"
  os_getprocinfo :: "int \<Rightarrow> (int \<times> uprocinfo, 'w) kern"
  os_sem_init :: "int \<Rightarrow> (int, 'w) kern"
  os_sem_wait :: "int \<Rightarrow> (int, 'w) kern"
  os_sem_signal :: "int \<Rightarrow> (int, 'w) kern"

text \<open>\<open>exit()\<close> does not return: what would follow it is never run.\<close>

definition exit_u :: "'w os \<Rightarrow> ('a, 'w) kern" where
  "exit_u os = bind (os_exit os) (\<lambda>_. switch_away)"

section \<open>Strings\<close>

text \<open>The bytes \<open>strcpy\<close> writes, its NUL included.\<close>

fun strcpy :: "u8 list \<Rightarrow> u8 list" where
  "strcpy [] = [0]"
| "strcpy (c # t) = (if c = 0 then [0] else c # strcpy t)"

fun strcmp :: "u8 list \<Rightarrow> u8 list \<Rightarrow> int" where
  "strcmp [] q = - uint (ch q)"
| "strcmp (c # p) q = (if c \<noteq> 0 \<and> c = ch q then strcmp p (tl q) else uint c - uint (ch q))"

text \<open>\<open>strchr\<close>, as the offset of the byte it finds.\<close>

fun strchr :: "u8 list \<Rightarrow> u8 \<Rightarrow> nat option" where
  "strchr [] c = None"
| "strchr (d # s) c = (if d = 0 then None else if d = c then Some 0 else map_option Suc (strchr s c))"

text \<open>\<open>int\<close> arithmetic, which the machine does modulo \<open>2 ^ 32\<close>.\<close>

fun atoi_loop :: "u8 list \<Rightarrow> u32 \<Rightarrow> u32" where
  "atoi_loop [] n = n"
| "atoi_loop (c # s) n = (if 48 \<le> c \<and> c \<le> 57 then atoi_loop s (n * 10 + ucast c - 48) else n)"

definition atoi :: "u8 list \<Rightarrow> u32" where
  "atoi s = atoi_loop s 0"

text \<open>This \<open>memmove\<close> copies upwards whatever the two regions are.\<close>

definition memmove_u :: "memory \<Rightarrow> u32 \<Rightarrow> u32 \<Rightarrow> int \<Rightarrow> memory" where
  "memmove_u m dst src n = copy_up m dst src (nat n)"

definition memset_u :: "memory \<Rightarrow> u32 \<Rightarrow> u32 \<Rightarrow> u32 \<Rightarrow> memory" where
  "memset_u m dst c n = stosb m dst (ucast c) (unat n)"

section \<open>Input\<close>

text \<open>\<open>gets\<close> returns the bytes it puts into the buffer, the NUL apart.\<close>

fun gets_loop :: "'w os \<Rightarrow> nat \<Rightarrow> u8 list \<Rightarrow> (u8 list, 'w) kern" where
  "gets_loop os 0 buf = return buf"
| "gets_loop os (Suc k) buf =
    bind (os_read os 0 1) (\<lambda>(cc, bs).
    if cc < 1 then return buf
    else if ch bs = 10 \<or> ch bs = 13 then return (buf @ [ch bs])
    else gets_loop os k (buf @ [ch bs]))"

definition gets_u :: "'w os \<Rightarrow> int \<Rightarrow> (u8 list, 'w) kern" where
  "gets_u os n = gets_loop os (nat (n - 1)) []"

definition stat_u :: "'w os \<Rightarrow> u8 list \<Rightarrow> (int \<times> ustat option, 'w) kern" where
  "stat_u os n =
    bind (os_open os n 0) (\<lambda>fd.
    if fd < 0 then return (-1, None) else
    bind (os_fstat os fd) (\<lambda>(r, st).
    andthen (os_close os fd) (return (r, Some st))))"

section \<open>Formatted output\<close>

definition putc :: "'w os \<Rightarrow> int \<Rightarrow> u8 \<Rightarrow> (unit, 'w) kern" where
  "putc os fd c = andthen (os_write os fd [c]) (return ())"

fun putcs :: "'w os \<Rightarrow> int \<Rightarrow> u8 list \<Rightarrow> (unit, 'w) kern" where
  "putcs os fd [] = return ()"
| "putcs os fd (c # cs) = andthen (putc os fd c) (putcs os fd cs)"

text \<open>Upper-case digits, least significant first; the buffer has 16 bytes.\<close>

definition digit_u :: "nat \<Rightarrow> u8" where
  "digit_u d = (if d < 10 then of_nat (48 + d) else of_nat (55 + d))"

function digits_u :: "nat \<Rightarrow> nat \<Rightarrow> u8 list" where
  "digits_u base x = digit_u (x mod base) # (if base < 2 \<or> x div base = 0 then [] else digits_u base (x div base))"
  by pat_completeness auto
termination
  by (relation "measure snd") (auto simp: div_eq_0_iff)

declare digits_u.simps [simp del]

definition int_text :: "u32 \<Rightarrow> nat \<Rightarrow> bool \<Rightarrow> u8 list" where
  "int_text xx base sg =
    (let neg = sg \<and> xx <s 0;
         x = (if neg then - xx else xx);
         buf = digits_u base (unat x)
     in rev (if neg then buf @ [45] else buf))"

definition printint_u :: "'w os \<Rightarrow> int \<Rightarrow> u32 \<Rightarrow> nat \<Rightarrow> bool \<Rightarrow> (unit, 'w) kern" where
  "printint_u os fd xx base sg = putcs os fd (int_text xx base sg)"

text \<open>An argument word and, when it is a pointer to a string, the bytes there.\<close>

datatype uarg = UArg (ua_word: u32) (ua_text: "u8 list")

definition next_uarg :: "uarg list \<Rightarrow> uarg" where
  "next_uarg ap = (case ap of [] \<Rightarrow> UArg 0 [] | a # _ \<Rightarrow> a)"

definition null_str :: "u8 list" where
  "null_str = [40, 110, 117, 108, 108, 41]"

text \<open>The loop over the format in its two states; \<open>pct\<close> is \<open>state == '%'\<close>.\<close>

fun printf_loop :: "'w os \<Rightarrow> int \<Rightarrow> bool \<Rightarrow> u8 list \<Rightarrow> uarg list \<Rightarrow> (unit, 'w) kern" where
  "printf_loop os fd pct [] ap = return ()"
| "printf_loop os fd pct (c # fmt) ap =
    (if c = 0 then return ()
     else if \<not> pct then
       if c = 37 then printf_loop os fd True fmt ap
       else andthen (putc os fd c) (printf_loop os fd False fmt ap)
     else if c = 100 then andthen (printint_u os fd (ua_word (next_uarg ap)) 10 True) (printf_loop os fd False fmt (tl ap))
     else if c = 120 \<or> c = 112 then
       andthen (printint_u os fd (ua_word (next_uarg ap)) 16 False) (printf_loop os fd False fmt (tl ap))
     else if c = 115 then
       andthen (putcs os fd (if ua_word (next_uarg ap) = 0 then null_str else cstr (ua_text (next_uarg ap))))
         (printf_loop os fd False fmt (tl ap))
     else if c = 99 then andthen (putc os fd (ucast (ua_word (next_uarg ap)))) (printf_loop os fd False fmt (tl ap))
     else if c = 37 then andthen (putc os fd c) (printf_loop os fd False fmt ap)
     else andthen (putc os fd 37) (andthen (putc os fd c) (printf_loop os fd False fmt ap)))"

definition printf :: "'w os \<Rightarrow> int \<Rightarrow> u8 list \<Rightarrow> uarg list \<Rightarrow> (unit, 'w) kern" where
  "printf os fd fmt ap = printf_loop os fd False fmt ap"

text \<open>String literals and arguments.\<close>

definition text_of :: "string \<Rightarrow> u8 list" where
  "text_of s = map (\<lambda>c. of_nat (of_char c)) s"

definition sarg :: "u8 list \<Rightarrow> uarg" where "sarg s = UArg 1 s"
definition narg :: "u32 \<Rightarrow> uarg" where "narg x = UArg x []"

section \<open>A small world\<close>

text \<open>A world of a program that only reads and writes: the chunks its reads will return, and its output.\<close>

definition still_os :: "'w os" where
  "still_os = \<lparr>os_fork = return (-1), os_exit = return (), os_wait = return (-1), os_pipe = return (-1, 0, 0),
     os_write = (\<lambda>fd bs. return (-1)), os_read = (\<lambda>fd n. return (-1, [])), os_close = (\<lambda>fd. return (-1)),
     os_kill = (\<lambda>pid. return (-1)), os_exec = (\<lambda>path argv. return (-1)), os_open = (\<lambda>path mode. return (-1)),
     os_mknod = (\<lambda>path a b. return (-1)), os_unlink = (\<lambda>path. return (-1)),
     os_fstat = (\<lambda>fd. return (-1, \<lparr>us_type = 0, us_dev = 0, us_ino = 0, us_nlink = 0, us_size = 0\<rparr>)),
     os_link = (\<lambda>a b. return (-1)), os_mkdir = (\<lambda>path. return (-1)), os_chdir = (\<lambda>path. return (-1)),
     os_dup = (\<lambda>fd. return (-1)), os_getpid = return 1, os_sbrk = (\<lambda>n. return (-1)), os_sleep = (\<lambda>n. return (-1)),
     os_uptime = return 0, os_getyear = return 0, os_setquantum_pid = (\<lambda>a b. return (-1)), os_gettimeslice = (\<lambda>a. return (-1)),
     os_getpstats = (\<lambda>a. return (-1, \<lparr>up_cpu_ticks = 0, up_sleep_ticks = 0, up_runnable_ticks = 0, up_ctx_switches = 0, up_preemptions = 0\<rparr>)),
     os_getprocinfo = (\<lambda>a. return (-1, \<lparr>ui_pid = 0, ui_name = [], ui_state = 0, ui_timeslice = 0, ui_cpu_ticks = 0,
       ui_sleep_ticks = 0, ui_ctx_switches = 0, ui_preemptions = 0\<rparr>)),
     os_sem_init = (\<lambda>n. return (-1)), os_sem_wait = (\<lambda>n. return (-1)), os_sem_signal = (\<lambda>n. return (-1))\<rparr>"

definition chunk_read :: "nat \<Rightarrow> (int \<times> u8 list, u8 list list \<times> u8 list) kern" where
  "chunk_read n w = (case fst w of [] \<Rightarrow> Ret (0, []) w | c # cs \<Rightarrow> Ret (int (length (take n c)), take n c) (cs, snd w))"

definition chunk_write :: "u8 list \<Rightarrow> u8 list list \<times> u8 list \<Rightarrow> u8 list list \<times> u8 list" where
  "chunk_write bs w = (fst w, snd w @ bs)"

definition chunk_os :: "(u8 list list \<times> u8 list) os" where
  "chunk_os = still_os\<lparr>os_read := \<lambda>fd. chunk_read, os_write := \<lambda>fd bs w. Ret (int (length bs)) (chunk_write bs w)\<rparr>"

lemma fold_chunk_write: "fold chunk_write u w = (fst w, snd w @ concat u)"
  by (induction u arbitrary: w) (simp_all add: chunk_write_def)

end
