(* ===== verification/Grep.thy ===== *)
theory Grep
  imports Ulib
begin

text \<open>
  The program \<^verbatim>\<open>src/grep.c\<close>: its regular-expression matcher, the loop that cuts the input into lines, and
  its main function. The matcher is proved equal to the language its patterns denote.
\<close>

section \<open>The matcher\<close>

definition STAR :: u8 where "STAR = 42"
definition DOT :: u8 where "DOT = 46"
definition DOLLAR :: u8 where "DOLLAR = 36"
definition CARET :: u8 where "CARET = 94"

text \<open>
  A pattern and a text are the bytes before the NUL; \<open>re[0]\<close> is \<open>ch re\<close>, \<open>re[1]\<close> is \<open>ch (tl re)\<close>.
  The do-while loop of \<open>matchstar\<close> is its recursion.
\<close>

function matchhere :: "u8 list \<Rightarrow> u8 list \<Rightarrow> bool" and matchstar :: "u8 \<Rightarrow> u8 list \<Rightarrow> u8 list \<Rightarrow> bool" where
  "matchhere re text =
    (if re = [] then True
     else if ch (tl re) = STAR then matchstar (ch re) (tl (tl re)) text
     else if ch re = DOLLAR \<and> tl re = [] then text = []
     else if text \<noteq> [] \<and> (ch re = DOT \<or> ch re = ch text) then matchhere (tl re) (tl text)
     else False)"
| "matchstar c re text =
    (if matchhere re text then True
     else if text \<noteq> [] \<and> (ch text = c \<or> c = DOT) then matchstar c re (tl text)
     else False)"
  by pat_completeness auto
termination
  by (relation "measures [\<lambda>x. case x of Inl (re, t) \<Rightarrow> length re | Inr (c, re, t) \<Rightarrow> length re,
      \<lambda>x. case x of Inl (re, t) \<Rightarrow> length t | Inr (c, re, t) \<Rightarrow> length t,
      \<lambda>x. case x of Inl _ \<Rightarrow> 0 | Inr _ \<Rightarrow> 1]") (auto simp: neq_Nil_conv)

declare matchhere.simps [simp del] matchstar.simps [simp del]

fun match_loop :: "u8 list \<Rightarrow> u8 list \<Rightarrow> bool" where
  "match_loop re [] = matchhere re []"
| "match_loop re (c # text) = (matchhere re (c # text) \<or> match_loop re text)"

definition match :: "u8 list \<Rightarrow> u8 list \<Rightarrow> bool" where
  "match re text = (if ch re = CARET then matchhere (tl re) text else match_loop re text)"

section \<open>Lines\<close>

lemma strchr_Some: "strchr s c = Some q \<Longrightarrow> q < length s"
  by (induction s c arbitrary: q rule: strchr.induct) (auto split: if_splits)

text \<open>The inner loop over the bytes of the buffer from \<open>p\<close> on; it returns what is left behind the last newline.\<close>

function grep_lines :: "'w os \<Rightarrow> u8 list \<Rightarrow> u8 list \<Rightarrow> (u8 list, 'w) kern" where
  "grep_lines os pattern p =
    (case strchr p 10 of
       None \<Rightarrow> return p
     | Some q \<Rightarrow>
         andthen (if match pattern (take q p) then andthen (os_write os 1 (take (q + 1) p)) (return ()) else return ())
           (grep_lines os pattern (drop (q + 1) p)))"
  by pat_completeness auto
termination
  by (relation "measure (\<lambda>(os, pattern, p). length p)") (auto dest!: strchr_Some)

declare grep_lines.simps [simp del]

text \<open>
  The outer loop with \<open>m = length buf\<close> bytes kept in \<open>buf[1024]\<close>. When no newline was found the
  bytes are dropped (\<open>if(p == buf) m = 0\<close>).
\<close>

fun grep_loop :: "'w os \<Rightarrow> nat \<Rightarrow> u8 list \<Rightarrow> int \<Rightarrow> u8 list \<Rightarrow> (unit, 'w) kern" where
  "grep_loop os 0 pattern fd buf = hang"
| "grep_loop os (Suc fuel) pattern fd buf =
    bind (os_read os fd (1024 - length buf - 1)) (\<lambda>(n, bs).
    if n \<le> 0 then return () else
    let data = buf @ take (nat n) bs in
    bind (grep_lines os pattern data) (\<lambda>rest.
    grep_loop os fuel pattern fd (if length rest = length data then [] else rest)))"

definition grep :: "'w os \<Rightarrow> nat \<Rightarrow> u8 list \<Rightarrow> int \<Rightarrow> (unit, 'w) kern" where
  "grep os fuel pattern fd = grep_loop os fuel pattern fd []"

fun grep_files :: "'w os \<Rightarrow> nat \<Rightarrow> u8 list \<Rightarrow> u8 list list \<Rightarrow> (unit, 'w) kern" where
  "grep_files os fuel pattern [] = exit_u os"
| "grep_files os fuel pattern (name # names) =
    bind (os_open os name 0) (\<lambda>fd.
    if fd < 0 then andthen (printf os 1 (text_of ''grep: cannot open %s'' @ [10]) [sarg name]) (exit_u os)
    else andthen (grep os fuel pattern fd) (
         andthen (os_close os fd) (grep_files os fuel pattern names)))"

definition grep_main :: "'w os \<Rightarrow> nat \<Rightarrow> u8 list list \<Rightarrow> (unit, 'w) kern" where
  "grep_main os fuel argv =
    (if length argv \<le> 1 then andthen (printf os 2 (text_of ''usage: grep pattern [file ...]'' @ [10]) []) (exit_u os)
     else if length argv \<le> 2 then andthen (grep os fuel (argv ! 1) 0) (exit_u os)
     else grep_files os fuel (argv ! 1) (drop 2 argv))"

section \<open>What a pattern denotes\<close>

datatype item = One u8 | Many u8

definition fits :: "u8 \<Rightarrow> u8 \<Rightarrow> bool" where
  "fits c x \<longleftrightarrow> c = DOT \<or> x = c"

text \<open>The pattern as a sequence of items, and whether it ends in the anchor \<open>$\<close>.\<close>

fun items :: "u8 list \<Rightarrow> item list \<times> bool" where
  "items [] = ([], False)"
| "items [c] = (if c = DOLLAR then ([], True) else ([One c], False))"
| "items (c # d # re) = (if d = STAR then apfst ((#) (Many c)) (items re) else apfst ((#) (One c)) (items (d # re)))"

fun lang :: "item list \<Rightarrow> u8 list set" where
  "lang [] = {[]}"
| "lang (One c # is) = {x # w |x w. fits c x \<and> w \<in> lang is}"
| "lang (Many c # is) = {u @ w |u w. list_all (fits c) u \<and> w \<in> lang is}"

definition starts :: "u8 list \<Rightarrow> u8 list \<Rightarrow> bool" where
  "starts re text \<longleftrightarrow> (\<exists>u v. text = u @ v \<and> u \<in> lang (fst (items re)) \<and> (snd (items re) \<longrightarrow> v = []))"

definition denotes :: "u8 list \<Rightarrow> u8 list \<Rightarrow> bool" where
  "denotes re text \<longleftrightarrow>
     (if ch re = CARET then starts (tl re) text else \<exists>p s. text = p @ s \<and> starts re s)"

lemma startsI: "text = u @ v \<Longrightarrow> u \<in> lang (fst (items re)) \<Longrightarrow> (snd (items re) \<Longrightarrow> v = []) \<Longrightarrow> starts re text"
  by (auto simp: starts_def)

lemma startsE:
  assumes "starts re text"
  obtains u v where "text = u @ v" "u \<in> lang (fst (items re))" "snd (items re) \<longrightarrow> v = []"
  using assms unfolding starts_def by blast

lemma starts_nil [simp]: "starts [] text"
  by (simp add: starts_def)

lemma starts_dollar: "starts [DOLLAR] text \<longleftrightarrow> text = []"
  by (simp add: starts_def)

lemma starts_one:
  assumes "ch re \<noteq> STAR" and "\<not> (c = DOLLAR \<and> re = [])"
  shows "starts (c # re) text \<longleftrightarrow> text \<noteq> [] \<and> fits c (ch text) \<and> starts re (tl text)"
proof -
  have i: "items (c # re) = apfst ((#) (One c)) (items re)"
    using assms by (cases re) (auto simp: ch_def)
  show ?thesis
  proof
    assume "starts (c # re) text"
    then obtain u v where "text = u @ v" "u \<in> lang (fst (items (c # re)))" "snd (items (c # re)) \<longrightarrow> v = []" by (rule startsE)
    then obtain x w where "text = (x # w) @ v" "fits c x" "w \<in> lang (fst (items re))" "snd (items re) \<longrightarrow> v = []"
      by (auto simp: i)
    then show "text \<noteq> [] \<and> fits c (ch text) \<and> starts re (tl text)"
      by (auto simp: ch_def intro: startsI)
  next
    assume a: "text \<noteq> [] \<and> fits c (ch text) \<and> starts re (tl text)"
    then obtain u v where "tl text = u @ v" "u \<in> lang (fst (items re))" "snd (items re) \<longrightarrow> v = []"
      by (blast elim: startsE)
    moreover have "text = ch text # tl text" using a by (cases "text") (auto simp: ch_def)
    ultimately show "starts (c # re) text"
      unfolding starts_def i using a by (intro exI [of _ "ch text # u"] exI [of _ v]) auto
  qed
qed

lemma many_lang: "list_all (fits c) u \<Longrightarrow> w \<in> lang (fst (items re)) \<Longrightarrow> u @ w \<in> lang (fst (items (c # STAR # re)))"
  by auto

lemma starts_many:
  "starts (c # STAR # re) text \<longleftrightarrow>
   starts re text \<or> text \<noteq> [] \<and> fits c (ch text) \<and> starts (c # STAR # re) (tl text)" (is "?L text \<longleftrightarrow> ?R")
proof
  assume "?L text"
  then obtain x v where "text = x @ v" "x \<in> lang (fst (items (c # STAR # re)))" "snd (items (c # STAR # re)) \<longrightarrow> v = []"
    by (rule startsE)
  then obtain u w where *: "text = (u @ w) @ v" "list_all (fits c) u" "w \<in> lang (fst (items re))" "snd (items re) \<longrightarrow> v = []"
    by auto
  then show ?R
  proof (cases u)
    case Nil
    then show ?thesis using * startsI [of "text" w v re] by simp
  next
    case (Cons x u')
    then have "tl text = (u' @ w) @ v" "list_all (fits c) u'" "fits c (ch text)" "text \<noteq> []" using * by (auto simp: ch_def)
    moreover have "u' @ w \<in> lang (fst (items (c # STAR # re)))" by (rule many_lang) (use *(3) calculation(2) in auto)
    ultimately show ?thesis using *(4) startsI [of "tl text" "u' @ w" v "c # STAR # re"] by simp
  qed
next
  assume ?R
  then show "?L text"
  proof
    assume "starts re text"
    then obtain w v where "text = w @ v" "w \<in> lang (fst (items re))" "snd (items re) \<longrightarrow> v = []" by (rule startsE)
    moreover have "[] @ w \<in> lang (fst (items (c # STAR # re)))" by (rule many_lang) (use calculation(2) in simp_all)
    ultimately show ?thesis using startsI [of "text" "[] @ w" v "c # STAR # re"] by simp
  next
    assume a: "text \<noteq> [] \<and> fits c (ch text) \<and> starts (c # STAR # re) (tl text)"
    then obtain x v where "tl text = x @ v" "x \<in> lang (fst (items (c # STAR # re)))" "snd (items (c # STAR # re)) \<longrightarrow> v = []"
      by (blast elim: startsE)
    then obtain u w where *: "tl text = (u @ w) @ v" "list_all (fits c) u" "w \<in> lang (fst (items re))" "snd (items re) \<longrightarrow> v = []"
      by auto
    obtain y ys where y: "text = y # ys" using a by (cases "text") auto
    have "(y # u) @ w \<in> lang (fst (items (c # STAR # re)))" by (rule many_lang) (use * a y in \<open>simp_all add: ch_def\<close>)
    then show ?thesis using *(1,4) y by (intro startsI [of "text" "(y # u) @ w" v "c # STAR # re"]) simp_all
  qed
qed

lemma matchhere_starts:
  "matchhere re text \<longleftrightarrow> starts re text"
  "matchstar c re text \<longleftrightarrow> starts (c # STAR # re) text"
proof (induction re "text" and c re "text" rule: matchhere_matchstar.induct)
  case (1 re "text")
  show ?case
  proof (cases re)
    case (Cons c re')
    consider "ch re' = STAR" | "c = DOLLAR" "re' = []" | "ch re' \<noteq> STAR" "\<not> (c = DOLLAR \<and> re' = [])" by blast
    then show ?thesis
    proof cases
      case 1
      then obtain re2 where re: "re = c # STAR # re2" using Cons by (cases re') (auto simp: ch_def STAR_def)
      have "matchhere re text = matchstar c re2 text" unfolding re by (subst matchhere.simps) (simp add: ch_def)
      then show ?thesis using "1.IH"(1) unfolding re by (simp add: ch_def)
    next
      case 2
      then show ?thesis unfolding Cons by (subst matchhere.simps) (simp add: starts_dollar ch_def STAR_def)
    next
      case 3
      then have "matchhere re text \<longleftrightarrow> text \<noteq> [] \<and> fits c (ch text) \<and> matchhere re' (tl text)"
        unfolding Cons by (subst matchhere.simps) (auto simp: fits_def ch_def)
      then show ?thesis using "1.IH"(2) 3 unfolding Cons starts_one [OF 3] by (auto simp: ch_def fits_def)
    qed
  qed (simp add: matchhere.simps)
next
  case (2 c re "text")
  then show ?case by (subst matchstar.simps, subst starts_many) (auto simp: fits_def)
qed

lemma match_loop_starts: "match_loop re text \<longleftrightarrow> (\<exists>p s. text = p @ s \<and> starts re s)"
  by (induction re "text" rule: match_loop.induct) (auto simp: matchhere_starts Cons_eq_append_conv)

text \<open>
  C22: The recursive matcher decides exactly the language of the pattern: \<open>match\<close> says yes when some part of the
  line (from its start with \<open>^\<close>, up to its end with \<open>$\<close>) is in the language of the pattern's items, a byte or
  \<open>.\<close>, each possibly starred.
\<close>

theorem match_correct: "match re text \<longleftrightarrow> denotes re text"
  by (simp add: match_def denotes_def matchhere_starts match_loop_starts)

section \<open>The lines printed\<close>

lemma strchr_append: "0 \<notin> set l \<Longrightarrow> c \<notin> set l \<Longrightarrow> c \<noteq> 0 \<Longrightarrow> strchr (l @ c # s) c = Some (length l)"
  by (induction l) auto

lemma strchr_none: "c \<notin> set s \<Longrightarrow> strchr s c = None"
  by (induction s) auto

lemma grep_lines_run:
  assumes "\<And>bs w. os_write os 1 bs w = Ret (int (length bs)) (emit bs w)"
    and "10 \<notin> set r"
  shows "\<forall>l\<in>set ls. 0 \<notin> set l \<and> 10 \<notin> set l \<Longrightarrow>
    grep_lines os pat (concat (map (\<lambda>l. l @ [10]) ls) @ r) w =
    Ret r (fold emit (map (\<lambda>l. l @ [10]) (filter (match pat) ls)) w)"
proof (induction ls arbitrary: w)
  case Nil
  then show ?case using strchr_none [OF assms(2)] by (subst grep_lines.simps) (simp add: kern)
next
  case (Cons l ls)
  let ?s = "concat (map (\<lambda>l. l @ [10]) ls) @ r"
  have q: "strchr (l @ 10 # ?s) 10 = Some (length l)" using Cons.prems by (intro strchr_append) simp_all
  have IH: "\<And>w. grep_lines os pat ?s w = Ret r (fold emit (map (\<lambda>l. l @ [10]) (filter (match pat) ls)) w)"
    using Cons by simp
  have "grep_lines os pat (l @ 10 # ?s) w =
      andthen (if match pat l then andthen (os_write os 1 (l @ [10])) (return ()) else return ()) (grep_lines os pat ?s) w"
    by (subst grep_lines.simps) (simp add: q)
  then show ?case using IH assms(1) by (simp add: kern)
qed




text \<open>
  C38: A line is lost when it arrives in pieces: bytes read before any newline of their own are dropped from the
  buffer when the read that brought them ends without one, so the rest of the line is matched
  and printed without them.
\<close>

theorem grep_drops_partial_read:
  assumes "os_read os fd (1023 - length buf) w = Ret (int (length bs), bs) w'" and "bs \<noteq> []" and "10 \<notin> set (buf @ bs)"
  shows "grep_loop os (Suc fuel) pat fd buf w = grep_loop os fuel pat fd [] w'"
proof -
  have "grep_lines os pat (buf @ bs) w' = Ret (buf @ bs) w'"
    using strchr_none [OF assms(3)] by (subst grep_lines.simps) (simp add: kern)
  then show ?thesis using assms(1,2) by (simp add: kern)
qed

theorem grep_drops_partial_read_witness:
  "grep chunk_os 3 [] 0 ([text_of ''ab'', text_of ''c'' @ [10]], []) = Ret () ([], text_of ''c'' @ [10])"
proof -
  have "grep_loop chunk_os (Suc 2) [] 0 [] ([text_of ''ab'', text_of ''c'' @ [10]], []) =
      grep_loop chunk_os 2 [] 0 [] ([text_of ''c'' @ [10]], [])"
    by (rule grep_drops_partial_read [where bs = "text_of ''ab''"]) (simp_all add: chunk_os_def chunk_read_def text_of_def)
  moreover have "grep_loop chunk_os 2 [] 0 [] ([text_of ''c'' @ [10]], []) = Ret () ([], text_of ''c'' @ [10])"
    by code_simp
  ultimately show ?thesis by (simp add: grep_def numeral_3_eq_3 numeral_2_eq_2)
qed

end
