(* ===== verification/Umalloc.thy ===== *)
theory Umalloc
  imports Kstring
begin

text \<open>
  The memory allocator of the user programs, \<^verbatim>\<open>src/umalloc.c\<close>, over the bytes of the process. A header is
  two words, \<open>s.ptr\<close> and \<open>s.size\<close>, and sizes count headers (8 bytes). \<open>base\<close> is the address of the static
  header; the system call \<open>sbrk\<close> is a parameter.
\<close>

section \<open>The allocator\<close>

record heap =
  hp_mem :: memory
  freep :: u32

definition h_ptr :: "memory \<Rightarrow> u32 \<Rightarrow> u32" where "h_ptr m p = load32 m p"
definition h_size :: "memory \<Rightarrow> u32 \<Rightarrow> u32" where "h_size m p = load32 m (p + 4)"
definition put_ptr :: "u32 \<Rightarrow> u32 \<Rightarrow> memory \<Rightarrow> memory" where "put_ptr p v m = store32 m p v"
definition put_size :: "u32 \<Rightarrow> u32 \<Rightarrow> memory \<Rightarrow> memory" where "put_size p v m = store32 m (p + 4) v"

text \<open>The search loop of \<open>free\<close> for the block to insert behind; \<open>None\<close> when it goes round forever.\<close>

partial_function (option) free_find :: "memory \<Rightarrow> u32 \<Rightarrow> u32 \<Rightarrow> u32 option" where
  "free_find m bp p =
    (if bp > p \<and> bp < h_ptr m p \<or> p \<ge> h_ptr m p \<and> (bp > p \<or> bp < h_ptr m p) then Some p
     else free_find m bp (h_ptr m p))"

definition free_join :: "u32 \<Rightarrow> u32 \<Rightarrow> memory \<Rightarrow> memory" where
  "free_join bp p m =
    (let m1 = (if bp + 8 * h_size m bp = h_ptr m p
               then let m' = put_size bp (h_size m bp + h_size m (h_ptr m p)) m in put_ptr bp (h_ptr m' (h_ptr m' p)) m'
               else put_ptr bp (h_ptr m p) m)
     in if p + 8 * h_size m1 p = bp
        then let m' = put_size p (h_size m1 p + h_size m1 bp) m1 in put_ptr p (h_ptr m' bp) m'
        else put_ptr p bp m1)"

definition free :: "u32 \<Rightarrow> (unit, heap) kern" where
  "free ap =
    bind (gets (\<lambda>h. free_find (hp_mem h) (ap - 8) (freep h))) (\<lambda>r. case r of
      None \<Rightarrow> hang
    | Some p \<Rightarrow> modify (\<lambda>h. h\<lparr>hp_mem := free_join (ap - 8) p (hp_mem h), freep := p\<rparr>))"

definition morecore :: "(u32 \<Rightarrow> (u32, heap) kern) \<Rightarrow> u32 \<Rightarrow> (u32, heap) kern" where
  "morecore sbrk nu0 =
    (let nu = (if nu0 < 4096 then 4096 else nu0) in
     bind (sbrk (nu * 8)) (\<lambda>p.
     if p = -1 then return 0 else
     andthen (modify (\<lambda>h. h\<lparr>hp_mem := put_size p nu (hp_mem h)\<rparr>)) (
     andthen (free (p + 8)) (gets freep))))"

definition nunits :: "u32 \<Rightarrow> u32" where
  "nunits nbytes = (nbytes + 8 - 1) div 8 + 1"

text \<open>
  The search of \<open>malloc\<close> from \<open>p\<close>: \<open>Some (Some (prevp, p))\<close> is a block that is large enough and the one
  before it, \<open>Some None\<close> that \<open>p\<close> has come back to \<open>freep\<close>.
\<close>

partial_function (option) malloc_find :: "memory \<Rightarrow> u32 \<Rightarrow> u32 \<Rightarrow> u32 \<Rightarrow> u32 \<Rightarrow> (u32 \<times> u32) option option" where
  "malloc_find m n fp prevp p =
    (if h_size m p \<ge> n then Some (Some (prevp, p))
     else if p = fp then Some None
     else malloc_find m n fp p (h_ptr m p))"

definition malloc_take :: "u32 \<Rightarrow> u32 \<Rightarrow> u32 \<Rightarrow> (u32, heap) kern" where
  "malloc_take n prevp p =
    bind (gets (\<lambda>h. h_size (hp_mem h) p)) (\<lambda>s.
    if s = n then
      andthen (modify (\<lambda>h. h\<lparr>hp_mem := put_ptr prevp (h_ptr (hp_mem h) p) (hp_mem h), freep := prevp\<rparr>)) (return (p + 8))
    else
      andthen (modify (\<lambda>h. h\<lparr>hp_mem := put_size (p + 8 * (s - n)) n (put_size p (s - n) (hp_mem h)), freep := prevp\<rparr>))
        (return (p + 8 * (s - n) + 8)))"

text \<open>
  The loop of \<open>malloc\<close>, one level of fuel for each call of \<open>morecore\<close>: a block it adds is large enough, so the
  second round finds one.
\<close>

fun malloc_loop :: "(u32 \<Rightarrow> (u32, heap) kern) \<Rightarrow> nat \<Rightarrow> u32 \<Rightarrow> u32 \<Rightarrow> (u32, heap) kern" where
  "malloc_loop sbrk 0 n prevp = hang"
| "malloc_loop sbrk (Suc k) n prevp =
    bind (gets (\<lambda>h. malloc_find (hp_mem h) n (freep h) prevp (h_ptr (hp_mem h) prevp))) (\<lambda>r. case r of
      None \<Rightarrow> hang
    | Some (Some (q, p)) \<Rightarrow> malloc_take n q p
    | Some None \<Rightarrow>
        bind (morecore sbrk n) (\<lambda>p.
        if p = 0 then return 0 else malloc_loop sbrk k n p))"

definition malloc :: "(u32 \<Rightarrow> (u32, heap) kern) \<Rightarrow> u32 \<Rightarrow> u32 \<Rightarrow> (u32, heap) kern" where
  "malloc sbrk base nbytes =
    bind (gets freep) (\<lambda>fp.
    andthen (whenk (fp = 0) (modify (\<lambda>h. h\<lparr>hp_mem := put_size base 0 (put_ptr base base (hp_mem h)), freep := base\<rparr>)))
      (bind (gets freep) (malloc_loop sbrk 2 (nunits nbytes))))"

section \<open>Headers\<close>

definition hfits :: "u32 \<Rightarrow> bool" where "hfits p \<longleftrightarrow> unat p + 8 \<le> 2 ^ 32"
definition apart :: "u32 \<Rightarrow> u32 \<Rightarrow> bool" where
  "apart p q \<longleftrightarrow> hfits p \<and> hfits q \<and> (unat p + 8 \<le> unat q \<or> unat q + 8 \<le> unat p)"

lemma apart_sym: "apart p q \<Longrightarrow> apart q p" by (auto simp: apart_def)

lemma unat_off: "unat (p :: u32) + k < 2 ^ 32 \<Longrightarrow> unat (p + of_nat k) = unat p + k"
  by (simp add: unat_word_ariths unat_of_nat)

lemma unat_off4: "hfits p \<Longrightarrow> unat (p + 4) = unat p + 4"
  using unat_off [of p 4] by (simp add: hfits_def)

lemma load32_apart:
  assumes "unat a + 4 \<le> 2 ^ 32" "unat b + 4 \<le> 2 ^ 32" "unat a + 4 \<le> unat b \<or> unat b + 4 \<le> unat a"
  shows "load32 (store32 m a v) b = load32 m b"
proof -
  have o: "unat (a + 1) = unat a + 1" "unat (a + 2) = unat a + 2" "unat (a + 3) = unat a + 3"
    "unat (b + 1) = unat b + 1" "unat (b + 2) = unat b + 2" "unat (b + 3) = unat b + 3"
    using assms(1,2) unat_off [of a 1] unat_off [of a 2] unat_off [of a 3] unat_off [of b 1] unat_off [of b 2] unat_off [of b 3]
    by simp_all
  show ?thesis
    by (rule load32_cong; rule store32_other; unfold word_unat_eq_iff o; use assms(3) in linarith)
qed

lemma header_frame:
  assumes "apart p q"
  shows "h_ptr (put_ptr p v m) q = h_ptr m q" "h_size (put_ptr p v m) q = h_size m q"
    "h_ptr (put_size p v m) q = h_ptr m q" "h_size (put_size p v m) q = h_size m q"
  using assms unat_off4 [of p] unat_off4 [of q]
  by (auto simp: apart_def h_ptr_def h_size_def put_ptr_def put_size_def hfits_def intro!: load32_apart)

lemma header_same:
  assumes "hfits p"
  shows "h_ptr (put_ptr p v m) p = v" "h_size (put_size p v m) p = v"
    "h_size (put_ptr p v m) p = h_size m p" "h_ptr (put_size p v m) p = h_ptr m p"
  using assms unat_off4 [of p] by (auto simp: h_ptr_def h_size_def put_ptr_def put_size_def hfits_def intro!: load32_apart)

section \<open>The free list\<close>

text \<open>A list of blocks, address and size, linked from each to the next, the last to \<open>z\<close>.\<close>

type_synonym block = "u32 \<times> u32"

fun seg :: "memory \<Rightarrow> block list \<Rightarrow> u32 \<Rightarrow> bool" where
  "seg m [] z = True"
| "seg m ((a, s) # bs) z = (h_size m a = s \<and> h_ptr m a = (if bs = [] then z else fst (hd bs)) \<and> seg m bs z)"

lemma seg_append: "seg m (xs @ ys) z \<longleftrightarrow> seg m xs (if ys = [] then z else fst (hd ys)) \<and> seg m ys z"
  by (induction xs) auto

lemma seg_cong:
  "\<forall>a\<in>fst ` set xs. h_ptr m' a = h_ptr m a \<and> h_size m' a = h_size m a \<Longrightarrow> seg m' xs z = seg m xs z"
proof (induction xs)
  case (Cons x xs)
  obtain a s where x: "x = (a, s)" by (cases x)
  have "h_ptr m' a = h_ptr m a" "h_size m' a = h_size m a" "seg m' xs z = seg m xs z" using Cons x by simp_all
  then show ?case by (simp add: x)
qed simp

text \<open>
  Blocks in address order: a block, and its header, end before the next one begins, and two blocks never touch,
  as they would have been joined. The first block is the static header, of size 0.
\<close>

definition below :: "block \<Rightarrow> block \<Rightarrow> bool" where
  "below x y \<longleftrightarrow> unat (fst x) + 8 * unat (snd x) < unat (fst y) \<and> unat (fst x) + 8 \<le> unat (fst y)"

definition inside :: "block \<Rightarrow> bool" where
  "inside x \<longleftrightarrow> hfits (fst x) \<and> unat (fst x) + 8 * unat (snd x) \<le> 2 ^ 32"

definition blocks_ok :: "block list \<Rightarrow> bool" where
  "blocks_ok bs \<longleftrightarrow> sorted_wrt below bs \<and> (\<forall>x\<in>set bs. inside x)"

definition free_list :: "u32 \<Rightarrow> memory \<Rightarrow> block list \<Rightarrow> bool" where
  "free_list base m bs \<longleftrightarrow> base \<noteq> 0 \<and> seg m ((base, 0) # bs) base \<and> blocks_ok ((base, 0) # bs) \<and> (\<forall>x\<in>set bs. snd x \<noteq> 0)"

definition cover :: "block list \<Rightarrow> nat set" where
  "cover bs = (\<Union>(a, s)\<in>set bs. {unat a..<unat a + 8 * unat s})"

lemma cover_simps [simp]:
  "cover [] = {}" "cover ((a, s) # bs) = {unat a..<unat a + 8 * unat s} \<union> cover bs" "cover (bs @ cs) = cover bs \<union> cover cs"
  by (auto simp: cover_def)

lemma blocks_ok_append:
  "blocks_ok (us @ x # vs) \<longleftrightarrow> blocks_ok us \<and> inside x \<and> blocks_ok vs \<and>
     (\<forall>u\<in>set us. below u x) \<and> (\<forall>v\<in>set vs. below x v) \<and> (\<forall>u\<in>set us. \<forall>v\<in>set vs. below u v)"
  by (auto simp: blocks_ok_def sorted_wrt_append)

lemma blocks_ok_simps [simp]:
  "blocks_ok []" "blocks_ok (x # xs) \<longleftrightarrow> inside x \<and> (\<forall>v\<in>set xs. below x v) \<and> blocks_ok xs"
  by (auto simp: blocks_ok_def)

lemma below_apart: "below x y \<Longrightarrow> inside x \<Longrightarrow> inside y \<Longrightarrow> apart (fst x) (fst y)"
  by (auto simp: below_def inside_def apart_def)

section \<open>Finding the place\<close>

definition stops :: "memory \<Rightarrow> u32 \<Rightarrow> u32 \<Rightarrow> bool" where
  "stops m bp p \<longleftrightarrow> bp > p \<and> bp < h_ptr m p \<or> p \<ge> h_ptr m p \<and> (bp > p \<or> bp < h_ptr m p)"

lemma find_stops: "stops m bp p \<Longrightarrow> free_find m bp p = Some p"
  by (subst free_find.simps) (simp add: stops_def)

lemma find_next: "\<not> stops m bp p \<Longrightarrow> free_find m bp p = free_find m bp (h_ptr m p)"
  by (subst free_find.simps) (auto simp: stops_def)

lemma find_walk:
  "seg m xs z \<Longrightarrow> xs \<noteq> [] \<Longrightarrow> \<forall>c\<in>fst ` set xs. \<not> stops m bp c \<Longrightarrow> free_find m bp (fst (hd xs)) = free_find m bp z"
proof (induction xs)
  case (Cons x xs)
  obtain c t where x: "x = (c, t)" by (cases x)
  have "free_find m bp c = free_find m bp (h_ptr m c)" using Cons.prems x by (intro find_next) auto
  then show ?case using Cons x by (cases xs) auto
qed simp

lemma next_of: "seg m (ps @ (c, t) # qs) z \<Longrightarrow> h_ptr m c = (if qs = [] then z else fst (hd qs))"
  by (simp add: seg_append)

text \<open>\<open>bp\<close> lies behind the block \<open>(a, s)\<close> and before the blocks \<open>vs\<close>.\<close>

definition between :: "block list \<Rightarrow> u32 \<Rightarrow> block list \<Rightarrow> bool" where
  "between us bp vs \<longleftrightarrow> (\<forall>u\<in>set us. unat (fst u) < unat bp) \<and> (\<forall>v\<in>set vs. unat bp < unat (fst v))"

lemma stops_here:
  assumes "seg m (us @ (a, s) # vs) base" "blocks_ok (us @ (a, s) # vs)" "us @ (a, s) # vs = (base, 0) # bs"
    and "between (us @ [(a, s)]) bp vs"
  shows "stops m bp a"
proof (cases vs)
  case Nil
  have "base = a \<or> below (base, 0) (a, s)" using assms(2,3) by (cases us) (auto simp: blocks_ok_append)
  then have "base \<le> a" by (auto simp: below_def word_le_nat_alt)
  then show ?thesis using Nil next_of [OF assms(1)] assms(4) by (auto simp: stops_def between_def word_less_nat_alt)
next
  case (Cons v vs')
  then show ?thesis using next_of [OF assms(1)] assms(4) by (auto simp: stops_def between_def word_less_nat_alt)
qed

lemma not_before:
  assumes "seg m (us @ (a, s) # vs) base" "blocks_ok (us @ (a, s) # vs)" "between (us @ [(a, s)]) bp vs" and "(c, t) \<in> set us"
  shows "\<not> stops m bp c"
proof -
  obtain ps qs where us: "us = ps @ (c, t) # qs" using assms(4) by (auto simp: in_set_conv_decomp)
  let ?r = "qs @ (a, s) # vs"
  let ?n = "hd (qs @ [(a, s)])"
  have "h_ptr m c = fst (hd ?r)" using assms(1) next_of [of m ps c t ?r base] by (simp add: us)
  moreover have "hd ?r = ?n" by (cases qs) auto
  moreover have n: "?n \<in> set (qs @ [(a, s)])" by (cases qs) auto
  then have "below (c, t) ?n" using assms(2) by (auto simp: us blocks_ok_append)
  moreover have "unat (fst ?n) < unat bp" using n assms(3) by (auto simp: us between_def)
  ultimately show ?thesis by (auto simp: stops_def below_def word_less_nat_alt word_le_nat_alt)
qed

lemma not_after:
  assumes "seg m (us @ (a, s) # vs) base" "blocks_ok (us @ (a, s) # vs)" "us @ (a, s) # vs = (base, 0) # bs"
    "between (us @ [(a, s)]) bp vs" and "(c, t) \<in> set vs"
  shows "\<not> stops m bp c"
proof -
  obtain ps qs where vs: "vs = ps @ (c, t) # qs" using assms(5) by (auto simp: in_set_conv_decomp)
  have n: "h_ptr m c = (if qs = [] then base else fst (hd qs))"
    using assms(1) next_of [of m "us @ (a, s) # ps" c t qs base] by (simp add: vs)
  have c: "unat bp < unat c" using assms(4) by (simp add: vs between_def)
  have "unat base \<le> unat a" using assms(2,3) by (cases us) (auto simp: blocks_ok_append below_def)
  then have b: "unat base < unat bp" using assms(4) by (simp add: between_def)
  show ?thesis
  proof (cases qs)
    case Nil
    then show ?thesis using n b c by (auto simp: stops_def word_less_nat_alt)
  next
    case (Cons q qs')
    then have "below (c, t) q" using assms(2) by (auto simp: vs blocks_ok_append)
    then show ?thesis using n c Cons by (auto simp: stops_def below_def word_less_nat_alt word_le_nat_alt)
  qed
qed

lemma find_place:
  assumes N: "us @ (a, s) # vs = (base, 0) # bs" "seg m (us @ (a, s) # vs) base" "blocks_ok (us @ (a, s) # vs)"
    "between (us @ [(a, s)]) bp vs" and fp: "fp \<in> fst ` set (us @ (a, s) # vs)"
  shows "free_find m bp fp = Some a"
proof -
  have here: "free_find m bp a = Some a" by (rule find_stops [OF stops_here [OF N(2,3,1,4)]])
  have walk: "free_find m bp (fst (hd xs)) = free_find m bp z" if "seg m xs z" "xs \<noteq> []" "set xs \<subseteq> set us \<or> set xs \<subseteq> set vs" for xs z
    using that not_before [OF N(2-4)] not_after [OF N(2,3,1,4)] by (intro find_walk) auto
  have front: "free_find m bp base = Some a"
  proof (cases us)
    case (Cons u us')
    have "seg m us a" using N(2) by (simp add: seg_append)
    then show ?thesis using walk [of us a] here Cons N(1) by simp
  qed (use N(1) here in simp)
  obtain x where x: "x \<in> set (us @ (a, s) # vs)" "fp = fst x" using fp by blast
  consider "x \<in> set us" | "x = (a, s)" | "x \<in> set vs" using x(1) by auto
  then show ?thesis
  proof cases
    case 1
    then obtain ps qs where us: "us = ps @ x # qs" by (auto simp: in_set_conv_decomp)
    have "seg m us a" using N(2) by (simp add: seg_append)
    then have "seg m (x # qs) a" using seg_append [of m ps "x # qs" a] us by simp
    then show ?thesis using walk [of "x # qs" a] here x(2) us by auto
  next
    case 3
    then obtain ps qs where vs: "vs = ps @ x # qs" by (auto simp: in_set_conv_decomp)
    have "seg m (us @ (a, s) # ps @ x # qs) base" using N(2) vs by simp
    then have "seg m (x # qs) base" using seg_append [of m "us @ (a, s) # ps" "x # qs" base] by simp
    then show ?thesis using walk [of "x # qs" base] front x(2) vs by auto
  qed (use here x(2) in simp)
qed

section \<open>Joining\<close>

fun glue :: "u32 \<Rightarrow> u32 \<Rightarrow> block list \<Rightarrow> block list" where
  "glue b n [] = [(b, n)]"
| "glue b n ((c, t) # ws) = (if unat b + 8 * unat n = unat c then (b, n + t) # ws else (b, n) # (c, t) # ws)"

lemma glue_head: "fst (hd (glue b n vs)) = b" "glue b n vs \<noteq> []"
  by (induction b n vs rule: glue.induct) auto

definition fits_in :: "u32 \<Rightarrow> u32 \<Rightarrow> block \<Rightarrow> block list \<Rightarrow> bool" where
  "fits_in bp n x vs \<longleftrightarrow> n \<noteq> 0 \<and> unat bp + 8 * unat n \<le> 2 ^ 32 \<and> (\<forall>v\<in>set vs. unat bp + 8 * unat n \<le> unat (fst v)) \<and>
     unat (fst x) + 8 * unat (snd x) \<le> unat bp \<and> unat (fst x) + 8 \<le> unat bp"

lemma fits_in_pos: "fits_in bp n x vs \<Longrightarrow> 8 \<le> 8 * unat n"
  by (simp add: fits_in_def Suc_le_eq unat_gt_0)

lemma unat_sum: "unat n + unat t < 2 ^ 32 \<Longrightarrow> unat (n + t :: u32) = unat n + unat t"
  by (simp add: unat_word_ariths)

lemma word_sum_eq:
  assumes "unat b + 8 * unat n \<le> 2 ^ 32" and "c \<noteq> 0"
  shows "b + 8 * n = (c :: u32) \<longleftrightarrow> unat b + 8 * unat n = unat c"
proof -
  have "unat (b + 8 * n) = (unat b + 8 * unat n) mod 2 ^ 32"
    by (simp add: unat_word_ariths mod_add_right_eq)
  moreover have "unat c < 2 ^ 32" "unat c \<noteq> 0" using unat_u32_less [of c] assms(2) by (simp_all add: unat_eq_0)
  ultimately show ?thesis using assms(1) by (cases "unat b + 8 * unat n = 2 ^ 32") (auto simp: word_unat_eq_iff)
qed

lemma glue_ok:
  assumes "blocks_ok vs" "\<forall>v\<in>set vs. snd v \<noteq> 0" "fits_in bp n x vs" "\<forall>v\<in>set vs. below x v" "inside x"
  shows "blocks_ok (glue bp n vs)" "\<forall>v\<in>set (glue bp n vs). snd v \<noteq> 0"
    "cover (glue bp n vs) = {unat bp..<unat bp + 8 * unat n} \<union> cover vs"
proof -
  note F = assms(3) [unfolded fits_in_def] and pos = fits_in_pos [OF assms(3)]
  have bp: "unat bp + 8 \<le> 2 ^ 32" using F pos by linarith
  have all: "blocks_ok (glue bp n vs) \<and> (\<forall>v\<in>set (glue bp n vs). snd v \<noteq> 0) \<and>
      cover (glue bp n vs) = {unat bp..<unat bp + 8 * unat n} \<union> cover vs"
  proof (cases vs)
    case Nil
    then show ?thesis using F bp by (simp add: inside_def hfits_def)
  next
    case (Cons v ws)
    obtain c t where v: "v = (c, t)" by (cases v)
    have c: "unat bp + 8 * unat n \<le> unat c" "inside (c, t)" "\<forall>w\<in>set ws. below (c, t) w" "blocks_ok ws" "t \<noteq> 0"
      using F assms(1,2) Cons v by auto
    show ?thesis
    proof (cases "unat bp + 8 * unat n = unat c")
      case True
      have "unat (n + t) = unat n + unat t"
        using True c(2) by (intro unat_sum) (auto simp: inside_def)
      note u = this
      have "inside (bp, n + t)" using c(2) bp True by (simp add: inside_def hfits_def u)
      moreover have "below (bp, n + t) w" if "w \<in> set ws" for w
        using c(3) that True pos by (auto simp: below_def u)
      moreover have "n + t \<noteq> 0" using u pos by (auto simp: unat_eq_0 [symmetric])
      moreover have "{unat bp..<unat bp + 8 * unat (n + t)} = {unat bp..<unat bp + 8 * unat n} \<union> {unat c..<unat c + 8 * unat t}"
        using True unfolding u by auto
      ultimately show ?thesis using True c(4) assms(2) unfolding Cons v by (auto simp: Un_assoc)
    next
      case False
      have "inside (bp, n)" using F bp by (simp add: inside_def hfits_def)
      moreover have "below (bp, n) w" if "w \<in> set vs" for w
        using c(1,3) that False pos unfolding Cons v by (auto simp: below_def)
      ultimately show ?thesis using False assms(1,2) F unfolding Cons v by auto
    qed
  qed
  then show "blocks_ok (glue bp n vs)" "\<forall>v\<in>set (glue bp n vs). snd v \<noteq> 0"
    "cover (glue bp n vs) = {unat bp..<unat bp + 8 * unat n} \<union> cover vs" by blast+
qed

definition joined :: "u32 \<Rightarrow> u32 \<Rightarrow> u32 \<Rightarrow> u32 \<Rightarrow> block list \<Rightarrow> block list" where
  "joined a s bp n vs = (let X = glue bp n vs in
     if unat a + 8 * unat s = unat bp then (a, s + snd (hd X)) # tl X else (a, s) # X)"

lemma joined_ok:
  assumes "blocks_ok vs" "\<forall>v\<in>set vs. snd v \<noteq> 0" "fits_in bp n (a, s) vs" "\<forall>v\<in>set vs. below (a, s) v" "inside (a, s)"
  shows "blocks_ok (joined a s bp n vs)" "\<forall>v\<in>set (tl (joined a s bp n vs)). snd v \<noteq> 0"
    "cover (joined a s bp n vs) = {unat bp..<unat bp + 8 * unat n} \<union> cover ((a, s) # vs)"
    "fst (hd (joined a s bp n vs)) = a" "s \<noteq> 0 \<Longrightarrow> snd (hd (joined a s bp n vs)) \<noteq> 0"
proof -
  obtain n' ws where X: "glue bp n vs = (bp, n') # ws" using glue_head [of bp n vs] by (cases "glue bp n vs") auto
  note G = glue_ok [OF assms, unfolded X]
  have F: "unat a + 8 * unat s \<le> unat bp" "unat a + 8 \<le> unat bp" using assms(3) by (simp_all add: fits_in_def)
  have n': "n' \<noteq> 0" "inside (bp, n')" "\<forall>w\<in>set ws. below (bp, n') w" "blocks_ok ws" using G(1,2) by auto
  show "fst (hd (joined a s bp n vs)) = a" by (simp add: joined_def Let_def)
  have all: "blocks_ok (joined a s bp n vs) \<and> (\<forall>v\<in>set (tl (joined a s bp n vs)). snd v \<noteq> 0) \<and>
     cover (joined a s bp n vs) = {unat bp..<unat bp + 8 * unat n} \<union> cover ((a, s) # vs) \<and>
     (s \<noteq> 0 \<longrightarrow> snd (hd (joined a s bp n vs)) \<noteq> 0)"
  proof (cases "unat a + 8 * unat s = unat bp")
    case True
    have u: "unat (s + n') = unat s + unat n'" using True n'(2) by (intro unat_sum) (auto simp: inside_def)
    have "inside (a, s + n')" using n'(2) assms(5) True by (simp add: inside_def u)
    moreover have "below (a, s + n') w" if "w \<in> set ws" for w using n'(3) that True F by (auto simp: below_def u)
    moreover have "{unat a..<unat a + 8 * unat (s + n')} = {unat bp..<unat bp + 8 * unat n'} \<union> {unat a..<unat a + 8 * unat s}"
      using True unfolding u by auto
    moreover have "s + n' \<noteq> 0" using n'(1) u by (auto simp: unat_eq_0 [symmetric])
    ultimately show ?thesis using True n'(4) G(2,3) by (auto simp: joined_def Let_def X)
  next
    case False
    then have "below (a, s) (bp, n')" using F by (auto simp: below_def)
    moreover have "below (a, s) w" if "w \<in> set ws" for w using n'(3) that F False by (auto simp: below_def)
    ultimately show ?thesis using False G assms(5) by (auto simp: joined_def Let_def X)
  qed
  then show "blocks_ok (joined a s bp n vs)" "\<forall>v\<in>set (tl (joined a s bp n vs)). snd v \<noteq> 0"
    "cover (joined a s bp n vs) = {unat bp..<unat bp + 8 * unat n} \<union> cover ((a, s) # vs)"
    "s \<noteq> 0 \<Longrightarrow> snd (hd (joined a s bp n vs)) \<noteq> 0" by blast+
qed

lemma seg_frame: "seg m xs z \<Longrightarrow> \<forall>x\<in>set xs. apart p (fst x) \<Longrightarrow> seg (put_ptr p v m) xs z" "seg m xs z \<Longrightarrow> \<forall>x\<in>set xs. apart p (fst x) \<Longrightarrow> seg (put_size p v m) xs z"
  using seg_cong [of xs "put_ptr p v m" m z] seg_cong [of xs "put_size p v m" m z] by (auto simp: header_frame)

definition first_half :: "u32 \<Rightarrow> u32 \<Rightarrow> memory \<Rightarrow> memory" where
  "first_half bp p m = (if bp + 8 * h_size m bp = h_ptr m p
               then let m' = put_size bp (h_size m bp + h_size m (h_ptr m p)) m in put_ptr bp (h_ptr m' (h_ptr m' p)) m'
               else put_ptr bp (h_ptr m p) m)"

lemma first_half_frame:
  assumes "apart bp q"
  shows "h_ptr (first_half bp p m) q = h_ptr m q" "h_size (first_half bp p m) q = h_size m q"
  using header_frame [OF assms] by (simp_all add: first_half_def Let_def)

lemma first_half_seg:
  assumes "seg m vs base" "h_ptr m a = (if vs = [] then base else fst (hd vs))" "base \<noteq> 0" "unat base \<le> unat a"
    and fit: "fits_in bp n (a, s) vs" and "h_size m bp = n" and "apart bp a" "\<forall>v\<in>set vs. apart bp (fst v)"
  shows "seg (first_half bp a m) (glue bp n vs) base"
proof -
  note F = fit [unfolded fits_in_def] and pos = fits_in_pos [OF fit]
  have hb: "hfits bp" using assms(7) by (simp add: apart_def)
  show ?thesis
  proof (cases vs)
    case Nil
    have "bp + 8 * n \<noteq> base" using word_sum_eq [of bp n base] F assms(3,4) pos by auto
    then show ?thesis using Nil assms(2,6) header_same [OF hb] by (simp add: first_half_def)
  next
    case (Cons v ws)
    obtain c t where v: "v = (c, t)" by (cases v)
    have c: "apart bp c" "h_ptr m a = c" "h_ptr m c = (if ws = [] then base else fst (hd ws))" "h_size m c = t" "seg m ws base"
      using assms Cons v by auto
    have "c \<noteq> 0" using F Cons v by auto
    then have cond: "bp + 8 * n = c \<longleftrightarrow> unat bp + 8 * unat n = unat c" using F by (intro word_sum_eq) simp_all
    have ws: "\<forall>w\<in>set ws. apart bp (fst w)" using assms(8) Cons by simp
    show ?thesis
      using c cond assms(6,7) header_same [OF hb] header_frame [OF c(1)] header_frame [OF assms(7)] seg_frame [OF _ ws]
      by (simp add: Cons v first_half_def Let_def)
  qed
qed

lemma free_join_seg:
  assumes N: "us @ (a, s) # vs = (base, 0) # bs" and sg: "seg m (us @ (a, s) # vs) base" and ok: "blocks_ok (us @ (a, s) # vs)"
    and b0: "base \<noteq> 0" and fit: "fits_in bp n (a, s) vs" and sz: "h_size m bp = n"
  shows "seg (free_join bp a m) (us @ joined a s bp n vs) base"
proof -
  note F = fit [unfolded fits_in_def] and pos = fits_in_pos [OF fit]
  have P: "inside (a, s)" "\<forall>u\<in>set us. below u (a, s) \<and> inside u" "\<forall>v\<in>set vs. below (a, s) v \<and> inside v"
    using ok by (auto simp: blocks_ok_append) (auto simp: blocks_ok_def)
  have hb: "hfits bp" using F pos by (simp add: hfits_def)
  have ab: "apart bp a" using P(1) hb F by (simp add: apart_def inside_def)
  have ub: "apart bp (fst u)" if "u \<in> set us" for u using P(2) that hb F by (auto simp: apart_def inside_def below_def)
  have vb: "apart bp (fst v)" if "v \<in> set vs" for v using P(3) that hb F pos by (auto simp: apart_def inside_def)
  have ua: "apart a (fst u)" if "u \<in> set us" for u using P(1,2) that below_apart [of u "(a, s)"] by (auto intro: apart_sym)
  have va: "apart a (fst v)" if "v \<in> set vs" for v using P(1,3) that below_apart [of "(a, s)" v] by auto
  have pa: "h_ptr m a = (if vs = [] then base else fst (hd vs))" "h_size m a = s" using sg by (simp_all add: seg_append)
  have sv: "seg m vs base" "seg m us a" using sg by (simp_all add: seg_append)
  have "unat base \<le> unat a" using N P(2) by (cases us) (auto simp: below_def)
  then have G: "seg (first_half bp a m) (glue bp n vs) base"
    using first_half_seg [OF sv(1) pa(1) b0 _ fit sz ab] vb by blast
  let ?m1 = "first_half bp a m"
  obtain n' ws where X: "glue bp n vs = (bp, n') # ws" using glue_head [of bp n vs] by (cases "glue bp n vs") auto
  have "set ws \<subseteq> set vs" using X by (cases vs) (auto split: if_splits)
  then have wa: "\<forall>w\<in>set ws. apart a (fst w)" using va by blast
  have ha: "hfits a" using P(1) by (simp add: inside_def)
  have b: "h_size ?m1 bp = n'" "h_ptr ?m1 bp = (if ws = [] then base else fst (hd ws))" "seg ?m1 ws base" using G X by simp_all
  have us1: "seg ?m1 us a" using sv(2) seg_cong [of us ?m1 m a] first_half_frame ub by auto
  have sa: "h_size ?m1 a = s" using first_half_frame [OF ab] pa(2) by simp
  have bz: "bp \<noteq> 0" using F by auto
  have cond: "a + 8 * s = bp \<longleftrightarrow> unat a + 8 * unat s = unat bp"
    using F unat_u32_less [of bp] bz by (intro word_sum_eq) simp_all
  have fj: "free_join bp a m = (if unat a + 8 * unat s = unat bp
      then let m' = put_size a (s + n') ?m1 in put_ptr a (h_ptr m' bp) m' else put_ptr a bp ?m1)"
    by (simp add: free_join_def first_half_def [symmetric] sa b(1) cond Let_def)
  show ?thesis
    using us1 b sa header_same [OF ha] header_frame [OF apart_sym [OF ab]] seg_frame [OF us1] seg_frame [OF b(3) wa] ua
      seg_frame [OF seg_frame(2) [OF us1]] seg_frame [OF seg_frame(2) [OF b(3) wa] wa] 
    by (auto simp: fj joined_def X seg_append Let_def)
qed

section \<open>free\<close>

lemma cover_mem: "y \<in> set bs \<Longrightarrow> {unat (fst y)..<unat (fst y) + 8 * unat (snd y)} \<subseteq> cover bs"
  by (cases y) (auto simp: cover_def)

lemma ivl_apart: "{a..<b} \<inter> {c..<d} = {} \<Longrightarrow> a < b \<Longrightarrow> c < d \<Longrightarrow> d \<le> a \<or> b \<le> (c :: nat)"
proof (rule ccontr)
  assume "{a..<b} \<inter> {c..<d} = {}" "a < b" "c < d" "\<not> (d \<le> a \<or> b \<le> c)"
  then have "max a c \<in> {a..<b} \<inter> {c..<d}" by auto
  then show False using \<open>{a..<b} \<inter> {c..<d} = {}\<close> by blast
qed

lemma split_at:
  assumes ok: "blocks_ok ((base, 0) # bs)" and nz: "\<forall>x\<in>set bs. snd x \<noteq> 0" and n: "n \<noteq> 0" "unat bp + 8 * unat n \<le> 2 ^ 32"
    and dis: "{unat bp..<unat bp + 8 * unat n} \<inter> cover bs = {}" and b: "unat base + 8 \<le> unat bp"
  obtains us a s vs where "us @ (a, s) # vs = (base, 0) # bs" "fits_in bp n (a, s) vs" "between (us @ [(a, s)]) bp vs"
proof -
  let ?N = "(base, 0) # bs" and ?P = "\<lambda>x. unat (fst x) < unat bp"
  have pos: "8 \<le> 8 * unat n" using n(1) by (simp add: Suc_le_eq unat_gt_0)
  have "takeWhile ?P ?N \<noteq> []" using b by simp
  then obtain us x where us: "takeWhile ?P ?N = us @ [x]" by (metis append_butlast_last_id)
  obtain a s where x: "x = (a, s)" by (cases x)
  define vs where "vs = dropWhile ?P ?N"
  have N: "us @ (a, s) # vs = ?N" using takeWhile_dropWhile_id [of ?P ?N] us x vs_def by simp
  have lt: "\<forall>y\<in>set (us @ [(a, s)]). ?P y" using set_takeWhileD [of _ ?P ?N] us x by metis
  have out: "unat (fst y) + 8 * unat (snd y) \<le> unat bp \<or> unat bp + 8 * unat n \<le> unat (fst y)" if "y \<in> set bs" for y
  proof -
    have "snd y \<noteq> 0" using nz that by blast
    then have p: "0 < unat (snd y)" by (simp add: unat_gt_0)
    have "{unat bp..<unat bp + 8 * unat n} \<inter> {unat (fst y)..<unat (fst y) + 8 * unat (snd y)} = {}"
      using dis cover_mem [OF that] by blast
    then show ?thesis using p pos ivl_apart [of "unat bp"] by auto
  qed
  have okN: "blocks_ok (us @ (a, s) # vs)" using ok N by simp
  have nP: "\<not> ?P v" if v: "v \<in> set vs" for v
  proof (cases vs)
    case (Cons h r)
    then have h: "\<not> ?P h" using hd_dropWhile [of ?P ?N] unfolding vs_def by auto
    have "v = h \<or> below h v" using v okN unfolding Cons by (auto simp: blocks_ok_append)
    then show ?thesis using h by (auto simp: below_def)
  qed (use v in simp)
  have ge: "unat bp + 8 * unat n \<le> unat (fst v)" if v: "v \<in> set vs" for v
  proof -
    have "v \<in> set ?N" using v set_dropWhileD unfolding vs_def by metis
    then have "v \<in> set bs" using nP [OF v] b by auto
    moreover then have "0 < unat (snd v)" using nz by (auto simp: unat_gt_0)
    ultimately show ?thesis using out [of v] nP [OF v] by auto
  qed
  have as: "unat a + 8 * unat s \<le> unat bp \<and> unat a + 8 \<le> unat bp"
  proof (cases "(a, s) = (base, 0)")
    case False
    have "(a, s) \<in> set ?N" unfolding N [symmetric] by simp
    then have m: "(a, s) \<in> set bs" using False by auto
    then have "0 < unat s" using nz by (auto simp: unat_gt_0)
    then show ?thesis using out [OF m] lt pos by auto
  qed (use b in simp)
  have "fits_in bp n (a, s) vs" using n ge as by (simp add: fits_in_def)
  moreover have "between (us @ [(a, s)]) bp vs" using lt ge pos unfolding between_def by fastforce
  ultimately show ?thesis using that [OF N] by blast
qed

lemma put_frame:
  assumes "hfits p" and "unat x \<notin> {unat p..<unat p + 8}"
  shows "put_ptr p v m x = m x" "put_size p v m x = m x"
proof -
  have o: "unat (p + 1) = unat p + 1" "unat (p + 2) = unat p + 2" "unat (p + 3) = unat p + 3" "unat (p + 4) = unat p + 4"
    "unat (p + 4 + 1) = unat p + 5" "unat (p + 4 + 2) = unat p + 6" "unat (p + 4 + 3) = unat p + 7"
    using assms(1) unat_off [of p 1] unat_off [of p 2] unat_off [of p 3] unat_off [of p 4] unat_off [of p 5] unat_off [of p 6]
      unat_off [of p 7] by (simp_all add: hfits_def add.assoc)
  show "put_ptr p v m x = m x" unfolding put_ptr_def
    by (rule store32_other; unfold word_unat_eq_iff o; use assms(2) in auto)
  show "put_size p v m x = m x" unfolding put_size_def
    by (rule store32_other; unfold word_unat_eq_iff o; use assms(2) in auto)
qed

lemma free_join_frame:
  assumes "hfits bp" "hfits p" "unat x \<notin> {unat bp..<unat bp + 8}" "unat x \<notin> {unat p..<unat p + 8}"
  shows "free_join bp p m x = m x"
  using put_frame [OF assms(1,3)] put_frame [OF assms(2,4)] by (simp add: free_join_def Let_def)

text \<open>The heap of a process: the free list, with \<open>freep\<close> one of its blocks or the static header.\<close>

definition heap_ok :: "u32 \<Rightarrow> heap \<Rightarrow> block list \<Rightarrow> bool" where
  "heap_ok base h bs \<longleftrightarrow> free_list base (hp_mem h) bs \<and> freep h \<in> fst ` set ((base, 0) # bs)"

lemma glue_big: "unat b + 8 * unat n \<le> 2 ^ 32 \<Longrightarrow> (\<forall>v\<in>set vs. inside v) \<Longrightarrow> unat n \<le> unat (snd (hd (glue b n vs)))"
proof (induction b n vs rule: glue.induct)
  case (2 b n c t ws)
  show ?case
  proof (cases "unat b + 8 * unat n = unat c")
    case True
    then have "unat (n + t) = unat n + unat t" using 2 by (intro unat_sum) (auto simp: inside_def)
    then show ?thesis using True by simp
  qed simp
qed simp

lemma joined_shape:
  assumes ok: "blocks_ok vs" "inside (a, s)" and fit: "fits_in bp n (a, s) vs"
  obtains t X where "joined a s bp n vs = (a, t) # X" "unat s \<le> unat t" "s = 0 \<longrightarrow> t = 0"
    "\<exists>x\<in>set ((a, t) # X). n \<le> snd x \<and> (x = (a, t) \<longrightarrow> s \<noteq> 0)"
proof -
  obtain n' ws where X: "glue bp n vs = (bp, n') # ws" using glue_head [of bp n vs] by (cases "glue bp n vs") auto
  note F = fit [unfolded fits_in_def]
  have vs: "\<forall>v\<in>set vs. inside v" using ok(1) by (simp add: blocks_ok_def)
  have n': "unat n \<le> unat n'" using glue_big [of bp n vs] vs F X by simp
  have i: "unat bp + 8 * unat n' \<le> 2 ^ 32"
    using X F vs by (cases vs) (auto simp: inside_def unat_word_ariths split: if_splits)
  show ?thesis
  proof (cases "unat a + 8 * unat s = unat bp")
    case True
    have "unat (s + n') = unat s + unat n'" using True i F by (intro unat_sum) auto
    moreover have "s \<noteq> 0" using True F by auto
    ultimately show ?thesis using that [of "s + n'" ws] True n' X by (auto simp: joined_def word_le_nat_alt)
  next
    case False
    have "bp \<noteq> a" using F by auto
    then show ?thesis using that [of s "glue bp n vs"] False n' X by (auto simp: joined_def word_le_nat_alt)
  qed
qed

lemma joined_list:
  assumes N: "us @ (a, s) # vs = (base, 0) # bs" and ok: "blocks_ok (us @ (a, s) # vs)" and fit: "fits_in bp n (a, s) vs"
    and nz: "\<forall>x\<in>set bs. snd x \<noteq> 0"
  obtains bs' where "us @ joined a s bp n vs = (base, 0) # bs'" "blocks_ok ((base, 0) # bs')" "\<forall>x\<in>set bs'. snd x \<noteq> 0"
    "cover bs' = cover bs \<union> {unat bp..<unat bp + 8 * unat n}" "\<exists>x\<in>set bs'. n \<le> snd x" "a \<in> fst ` set ((base, 0) # bs')"
proof -
  have P: "blocks_ok vs" "blocks_ok us" "inside (a, s)" "\<forall>v\<in>set vs. below (a, s) v" "\<forall>u\<in>set us. below u (a, s)"
    using ok by (simp_all add: blocks_ok_append)
  have nv: "\<forall>v\<in>set vs. snd v \<noteq> 0" using N nz by (cases us) auto
  note J = joined_ok [OF P(1) nv fit P(4,3)]
  obtain t X where X: "joined a s bp n vs = (a, t) # X" "unat s \<le> unat t" "s = 0 \<longrightarrow> t = 0"
    "\<exists>x\<in>set ((a, t) # X). n \<le> snd x \<and> (x = (a, t) \<longrightarrow> s \<noteq> 0)" using joined_shape [OF P(1,3) fit] by blast
  have B: "blocks_ok ((a, t) # X)" using J(1) X(1) by simp
  have ua: "below u (a, t)" if "u \<in> set us" for u using P(5) that by (auto simp: below_def)
  moreover have "below u x" if "u \<in> set us" "x \<in> set X" for u x
  proof -
    have "below (a, t) x" using B that(2) by simp
    then show ?thesis using ua [OF that(1)] by (auto simp: below_def)
  qed
  ultimately have bo: "blocks_ok (us @ (a, t) # X)" using P(2) B by (simp add: blocks_ok_append)
  have cov: "cover ((a, t) # X) = {unat bp..<unat bp + 8 * unat n} \<union> cover ((a, s) # vs)" using J(3) X(1) by simp
  show ?thesis
  proof (cases us)
    case Nil
    then have as: "a = base" "s = 0" "vs = bs" "t = 0" using N X(3) by simp_all
    then have c: "cover X = cover bs \<union> {unat bp..<unat bp + 8 * unat n}" using cov by auto
    have "blocks_ok ((base, 0) # X)" "\<exists>x\<in>set X. n \<le> snd x" "\<forall>x\<in>set X. snd x \<noteq> 0" using B X as J(2) by auto
    then show ?thesis using that [of X] c as Nil X(1) by simp
  next
    case (Cons u us')
    then have u: "u = (base, 0)" "bs = us' @ (a, s) # vs" using N by simp_all
    have "s \<noteq> 0" using nz u by simp
    then have "t \<noteq> 0" "\<forall>x\<in>set us'. snd x \<noteq> 0" "\<forall>x\<in>set X. snd x \<noteq> 0" using J(2,5) X(1) nz u by auto
    moreover have "cover (us' @ (a, t) # X) = cover bs \<union> {unat bp..<unat bp + 8 * unat n}" unfolding u cover_simps(3) cov by auto
    moreover have "\<exists>x\<in>set (us' @ (a, t) # X). n \<le> snd x" using X(4) by auto
    ultimately show ?thesis using that [of "us' @ (a, t) # X"] bo X(1) u Cons by (simp add: ball_Un)
  qed
qed

lemma free_ok:
  assumes H: "heap_ok base h bs" and n: "n \<noteq> 0" "unat bp + 8 * unat n \<le> 2 ^ 32" "h_size (hp_mem h) bp = n"
    and dis: "{unat bp..<unat bp + 8 * unat n} \<inter> cover bs = {}" and b: "unat base + 8 \<le> unat bp"
  obtains h' bs' where "free (bp + 8) h = Ret () h'" "heap_ok base h' bs'" "cover bs' = cover bs \<union> {unat bp..<unat bp + 8 * unat n}"
    "\<exists>x\<in>set bs'. n \<le> snd x"
    "\<And>x. unat x \<notin> cover bs' \<Longrightarrow> unat x \<notin> {unat base..<unat base + 8} \<Longrightarrow> hp_mem h' x = hp_mem h x"
proof -
  have L: "base \<noteq> 0" "seg (hp_mem h) ((base, 0) # bs) base" "blocks_ok ((base, 0) # bs)" "\<forall>x\<in>set bs. snd x \<noteq> 0"
    "freep h \<in> fst ` set ((base, 0) # bs)"
    using H unfolding heap_ok_def free_list_def by blast+
  obtain us a s vs where N: "us @ (a, s) # vs = (base, 0) # bs" "fits_in bp n (a, s) vs" "between (us @ [(a, s)]) bp vs"
    using split_at [OF L(3,4) n(1,2) dis b] by blast
  have find: "free_find (hp_mem h) bp (freep h) = Some a" using N L by (intro find_place [of us a s vs base bs]) simp_all
  obtain bs' where B: "us @ joined a s bp n vs = (base, 0) # bs'" "blocks_ok ((base, 0) # bs')" "\<forall>x\<in>set bs'. snd x \<noteq> 0"
    "cover bs' = cover bs \<union> {unat bp..<unat bp + 8 * unat n}" "\<exists>x\<in>set bs'. n \<le> snd x" "a \<in> fst ` set ((base, 0) # bs')"
    using joined_list [OF N(1) _ N(2) L(4)] L(3) N(1) by metis
  define h' where "h' = h\<lparr>hp_mem := free_join bp a (hp_mem h), freep := a\<rparr>"
  have seg: "seg (free_join bp a (hp_mem h)) ((base, 0) # bs') base"
    using free_join_seg [OF N(1) _ _ L(1) N(2) n(3)] L(2,3) N(1) B(1) by metis
  show ?thesis
  proof (rule that [of h' bs'])
    show "free (bp + 8) h = Ret () h'" by (simp add: free_def kern find h'_def)
    show "heap_ok base h' bs'" using L(1) seg B(2,3,6) by (simp add: heap_ok_def free_list_def h'_def)
    show "hp_mem h' x = hp_mem h x" if x: "unat x \<notin> cover bs'" "unat x \<notin> {unat base..<unat base + 8}" for x
    proof -
      have p: "8 \<le> 8 * unat n" using fits_in_pos [OF N(2)] .
      have bp: "hfits bp" using n(2) p by (simp add: hfits_def)
      have "inside (a, s)" using N(1) L(3) by (metis blocks_ok_append)
      then have a: "hfits a" by (simp add: inside_def)
      have "unat x \<notin> {unat bp..<unat bp + 8}" using x(1) B(4) p by auto
      moreover have "unat x \<notin> {unat a..<unat a + 8}"
      proof (cases "a = base")
        case False
        then obtain t where t: "(a, t) \<in> set bs'" using B(6) by auto
        then have "0 < unat t" using B(3) by (auto simp: unat_gt_0)
        then have "{unat a..<unat a + 8} \<subseteq> {unat a..<unat a + 8 * unat t}" by auto
        then show ?thesis using x(1) cover_mem [OF t] unfolding fst_conv snd_conv by blast
      qed (use x(2) in simp)
      ultimately show ?thesis using free_join_frame [OF bp a] by (simp add: h'_def)
    qed
  qed (use B in simp_all)
qed

section \<open>malloc\<close>

lemma malloc_finds:
  "seg m xs z \<Longrightarrow> h_ptr m q = fst (hd xs) \<Longrightarrow> \<exists>x\<in>set xs. n \<le> snd x \<Longrightarrow> fp \<notin> fst ` set (butlast xs) \<Longrightarrow>
   \<exists>q' p. malloc_find m n fp q (fst (hd xs)) = Some (Some (q', p)) \<and> q' \<in> insert q (fst ` set xs) \<and> h_ptr m q' = p \<and>
     p \<in> fst ` set xs \<and> n \<le> h_size m p"
proof (induction xs arbitrary: q)
  case (Cons x xs)
  obtain c t where x: "x = (c, t)" by (cases x)
  have c: "h_size m c = t" "seg m xs z" "h_ptr m c = (if xs = [] then z else fst (hd xs))" using Cons.prems(1) x by simp_all
  show ?case
  proof (cases "n \<le> t")
    case True
    then have "malloc_find m n fp q c = Some (Some (q, c))" by (subst malloc_find.simps) (simp add: c(1))
    then show ?thesis using True Cons.prems(2) c(1) x by simp
  next
    case False
    then have ne: "xs \<noteq> []" "\<exists>x\<in>set xs. n \<le> snd x" using Cons.prems(3) x by auto
    then have fp: "c \<noteq> fp" "fp \<notin> fst ` set (butlast xs)" using Cons.prems(4) x by auto
    have "malloc_find m n fp q c = malloc_find m n fp c (fst (hd xs))"
      by (subst malloc_find.simps) (use False fp(1) c ne in simp)
    then show ?thesis using Cons.IH [OF c(2) _ ne(2) fp(2), of c] c(3) ne(1) x by auto
  qed
qed simp

lemma malloc_misses:
  "seg m xs z \<Longrightarrow> xs \<noteq> [] \<Longrightarrow> \<forall>x\<in>set xs. \<not> n \<le> snd x \<Longrightarrow> fp \<notin> fst ` set (butlast xs) \<Longrightarrow> fst (last xs) = fp \<Longrightarrow>
   malloc_find m n fp q (fst (hd xs)) = Some None"
proof (induction xs arbitrary: q)
  case (Cons x xs)
  obtain c t where x: "x = (c, t)" by (cases x)
  have c: "h_size m c = t" "seg m xs z" "h_ptr m c = (if xs = [] then z else fst (hd xs))" using Cons.prems(1) x by simp_all
  show ?case
  proof (cases "xs = []")
    case True
    then show ?thesis using Cons.prems x c(1) by (subst malloc_find.simps) simp
  next
    case False
    then have "c \<noteq> fp" using Cons.prems(4) x by auto
    then have "malloc_find m n fp q c = malloc_find m n fp c (fst (hd xs))"
      using False Cons.prems(3) x c by (subst malloc_find.simps) simp
    then show ?thesis using Cons.IH [OF c(2) False, of c] Cons.prems False x by simp
  qed
qed simp

lemma seg_rotate: "seg m (xs @ ys) (fst (hd (xs @ ys))) \<Longrightarrow> seg m (ys @ xs) (fst (hd (ys @ xs)))"
  by (cases "xs = []"; cases "ys = []") (simp_all add: seg_append)

lemma blocks_distinct: "blocks_ok xs \<Longrightarrow> distinct (map fst xs)"
  by (induction xs) (auto simp: below_def)

text \<open>The search visits every block of the ring, \<open>freep\<close> last: it finds one that is large enough when there is one.\<close>

lemma malloc_find_ring:
  assumes H: "heap_ok base h bs" and n: "n \<noteq> 0"
  shows "(\<exists>us q t p s vs. malloc_find (hp_mem h) n (freep h) (freep h) (h_ptr (hp_mem h) (freep h)) = Some (Some (q, p)) \<and>
      (base, 0) # bs = us @ (q, t) # (p, s) # vs \<and> n \<le> s) \<or>
    malloc_find (hp_mem h) n (freep h) (freep h) (h_ptr (hp_mem h) (freep h)) = Some None \<and> (\<forall>x\<in>set bs. \<not> n \<le> snd x)"
proof -
  let ?m = "hp_mem h" and ?fp = "freep h" and ?N = "(base, 0) # bs"
  have L: "seg ?m ?N base" "blocks_ok ?N" "?fp \<in> fst ` set ?N" using H unfolding heap_ok_def free_list_def by blast+
  obtain ps t qs where N: "?N = ps @ (?fp, t) # qs" using L(3) by (metis (no_types, lifting) imageE in_set_conv_decomp prod.collapse)
  define R where "R = qs @ ps @ [(?fp, t)]"
  have sR: "set R = set ?N" unfolding N R_def by auto
  have seg: "seg ?m R (fst (hd R))" using seg_rotate [of ?m "ps @ [(?fp, t)]" qs] L(1) N unfolding R_def
    by (metis append.assoc append_Cons append_Nil fst_conv list.sel(1))
  have "distinct (map fst ?N)" by (rule blocks_distinct [OF L(2)])
  then have fp: "?fp \<notin> fst ` set (butlast R)" unfolding N R_def by (simp add: butlast_append) auto
  have nx: "h_ptr ?m ?fp = fst (hd R)" using seg unfolding R_def by (cases qs; cases ps) (auto simp: seg_append)
  show ?thesis
  proof (cases "\<exists>x\<in>set R. n \<le> snd x")
    case True
    obtain q p where F: "malloc_find ?m n ?fp ?fp (fst (hd R)) = Some (Some (q, p))" "q \<in> insert ?fp (fst ` set R)"
      "h_ptr ?m q = p" "n \<le> h_size ?m p" using malloc_finds [OF seg nx True fp] by blast
    have "h_size ?m base = 0" using L(1) by simp
    then have pb: "p \<noteq> base" using F(4) n by auto
    have "q \<in> fst ` set ?N" using F(2) sR L(3) by auto
    then obtain us tq ws where q: "?N = us @ (q, tq) # ws" by (metis (no_types, lifting) imageE in_set_conv_decomp prod.collapse)
    then have "p = (if ws = [] then base else fst (hd ws))" "seg ?m ws base" using L(1) F(3) unfolding q by (simp_all add: seg_append)
    then obtain s vs where w: "ws = (p, s) # vs" "h_size ?m p = s" using pb by (cases ws) auto
    have "malloc_find ?m n ?fp ?fp (h_ptr ?m ?fp) = Some (Some (q, p)) \<and> ?N = us @ (q, tq) # (p, s) # vs \<and> n \<le> s"
      using F q w nx by simp
    then show ?thesis by blast
  next
    case False
    have "malloc_find ?m n ?fp ?fp (fst (hd R)) = Some None" using False fp
      by (intro malloc_misses [OF seg]) (auto simp: R_def)
    moreover have "\<forall>x\<in>set bs. \<not> n \<le> snd x" using False sR by auto
    ultimately show ?thesis using nx by simp
  qed
qed

abbreviation extent :: "u32 \<Rightarrow> u32 \<Rightarrow> nat set" where
  "extent r n \<equiv> {unat r..<unat r + 8 * unat n}"

abbreviation header :: "u32 \<Rightarrow> nat set" where
  "header p \<equiv> {unat p..<unat p + 8}"

lemma cover_above: "\<forall>v\<in>set vs. unat p + 8 * unat s \<le> unat (fst v) \<Longrightarrow> k < unat p + 8 * unat s \<Longrightarrow> k \<notin> cover vs"
  by (auto simp: cover_def)

lemma cover_below: "\<forall>u\<in>set us. unat (fst u) + 8 * unat (snd u) \<le> unat p \<Longrightarrow> unat p \<le> k \<Longrightarrow> k \<notin> cover us"
  by (fastforce simp: cover_def)

lemma unat_scaled: "unat p + 8 * unat d < 2 ^ 32 \<Longrightarrow> unat (p + 8 * d :: u32) = unat p + 8 * unat d"
  by (simp add: unat_word_ariths)

lemma take_whole:
  assumes H: "heap_ok base h bs" and N: "(base, 0) # bs = us @ (q, t) # (p, n) # vs" and n: "n \<noteq> 0"
    and h': "h' = h\<lparr>hp_mem := put_ptr q (h_ptr (hp_mem h) p) (hp_mem h), freep := q\<rparr>"
  shows "heap_ok base h' (tl (us @ (q, t) # vs))" "h_size (hp_mem h') p = n"
proof -
  let ?m = "hp_mem h"
  have L: "base \<noteq> 0" "seg ?m (us @ (q, t) # (p, n) # vs) base" "blocks_ok (us @ (q, t) # (p, n) # vs)" "\<forall>x\<in>set bs. snd x \<noteq> 0"
    using H N unfolding heap_ok_def free_list_def by metis+
  have P: "blocks_ok us" "blocks_ok ((q, t) # (p, n) # vs)" "\<forall>u\<in>set us. below u (q, t)" "\<forall>u\<in>set us. \<forall>v\<in>set vs. below u v"
    "\<forall>u\<in>set us. inside u" "\<forall>v\<in>set vs. inside v" using L(3) by (auto simp: blocks_ok_append) (auto simp: blocks_ok_def)
  have aq: "apart q (fst u)" if "u \<in> set us" for u
    using P that below_apart [of u "(q, t)"] by (auto intro: apart_sym)
  have av: "apart q (fst v)" if "v \<in> set ((p, n) # vs)" for v using P(2,6) that below_apart [of "(q, t)" v] by auto
  have S: "seg ?m us q" "h_size ?m q = t" "h_size ?m p = n" "h_ptr ?m p = (if vs = [] then base else fst (hd vs))" "seg ?m vs base"
    using L(2) by (simp_all add: seg_append)
  have hq: "hfits q" using P(2) by (simp add: inside_def)
  have hd: "us @ (q, t) # vs = (base, 0) # tl (us @ (q, t) # vs)" using N by (cases us) auto
  have "seg (hp_mem h') (us @ (q, t) # vs) base"
    using S header_same [OF hq] seg_frame(1) [OF S(1)] seg_frame(1) [OF S(5)] aq av by (simp add: h' seg_append)
  moreover have "blocks_ok (us @ (q, t) # vs)" using P by (simp add: blocks_ok_append)
  moreover have "\<forall>x\<in>set (tl (us @ (q, t) # vs)). snd x \<noteq> 0" using L(4) N by (cases us) auto
  moreover have "q \<in> fst ` set (us @ (q, t) # vs)" by simp
  ultimately show "heap_ok base h' (tl (us @ (q, t) # vs))" using L(1) hd unfolding heap_ok_def free_list_def h' by simp
  show "h_size (hp_mem h') p = n" using S(3) header_frame [of q p] av [of "(p, n)"] by (simp add: h')
qed

lemma take_tail:
  assumes H: "heap_ok base h bs" and N: "(base, 0) # bs = us @ (q, t) # (p, s) # vs" and n: "n \<noteq> 0" "unat n < unat s"
    and h': "h' = h\<lparr>hp_mem := put_size (p + 8 * (s - n)) n (put_size p (s - n) (hp_mem h)), freep := q\<rparr>"
  shows "heap_ok base h' (tl (us @ (q, t) # (p, s - n) # vs))" "h_size (hp_mem h') (p + 8 * (s - n)) = n"
    "unat (p + 8 * (s - n)) = unat p + 8 * (unat s - unat n)"
proof -
  let ?m = "hp_mem h" and ?r = "p + 8 * (s - n)"
  have L: "base \<noteq> 0" "seg ?m (us @ (q, t) # (p, s) # vs) base" "blocks_ok (us @ (q, t) # (p, s) # vs)" "\<forall>x\<in>set bs. snd x \<noteq> 0"
    using H N unfolding heap_ok_def free_list_def by metis+
  let ?us = "us @ [(q, t)]"
  have P: "blocks_ok ?us" "blocks_ok vs" "inside (p, s)" "\<forall>u\<in>set ?us. below u (p, s)" "\<forall>v\<in>set vs. below (p, s) v"
    "\<forall>u\<in>set ?us. \<forall>v\<in>set vs. below u v" using L(3) blocks_ok_append [of ?us "(p, s)" vs] by simp_all
  have i: "\<forall>x\<in>set ?us \<union> set vs. inside x" using P(1,2) by (auto simp: blocks_ok_def)
  have sn: "unat (s - n) = unat s - unat n" using n(2) by (simp add: unat_sub_if')
  have p: "unat p + 8 * unat s \<le> 2 ^ 32" "hfits p" using P(3) by (simp_all add: inside_def)
  have n0: "0 < unat n" using n(1) by (simp add: unat_gt_0)
  have "unat p + 8 * unat (s - n) < 2 ^ 32" unfolding sn using p(1) n(2) n0 by linarith
  then show r: "unat ?r = unat p + 8 * (unat s - unat n)" unfolding sn [symmetric] by (rule unat_scaled)
  have hr: "hfits ?r" using r p(1) n0 n(2) by (simp add: hfits_def)
  have ar: "apart ?r p" using r hr p(2) n(2) by (auto simp: apart_def)
  have ap: "apart p (fst x) \<and> apart ?r (fst x)" if "x \<in> set ?us \<union> set vs" for x
  proof -
    have "inside x" "below x (p, s) \<or> below (p, s) x" using that i P(4,5) by auto
    then show ?thesis using hr p(2) r n(2) n0 by (auto simp: apart_def inside_def below_def)
  qed
  have S: "seg ?m ?us p" "h_size ?m p = s" "h_ptr ?m p = (if vs = [] then base else fst (hd vs))" "seg ?m vs base"
    using L(2) by (simp_all add: seg_append)
  have seg2: "seg (hp_mem h') xs z" if "seg ?m xs z" "set xs \<subseteq> set ?us \<union> set vs" for xs z
    using seg_frame(2) [OF seg_frame(2) [OF that(1)]] ap that(2) unfolding h' by fastforce
  have hd: "us @ (q, t) # (p, s - n) # vs = (base, 0) # tl (us @ (q, t) # (p, s - n) # vs)" using N by (cases us) auto
  have "seg (hp_mem h') vs base" "seg (hp_mem h') ?us p" using seg2 [OF S(4)] seg2 [OF S(1)] by auto
  moreover from this have "seg (hp_mem h') ((p, s - n) # vs) base"
    using S header_same [OF p(2)] header_frame [OF ar] by (simp add: h')
  ultimately have "seg (hp_mem h') (?us @ (p, s - n) # vs) base" unfolding seg_append [of _ ?us] by simp
  then have seg: "seg (hp_mem h') (us @ (q, t) # (p, s - n) # vs) base" by simp
  have "inside (p, s - n)" "\<forall>u\<in>set ?us. below u (p, s - n)" "\<forall>v\<in>set vs. below (p, s - n) v"
    using P(3-5) by (auto simp: inside_def below_def sn)
  then have ok: "blocks_ok (us @ (q, t) # (p, s - n) # vs)" using P(1,2,6) blocks_ok_append [of ?us "(p, s - n)" vs] by simp
  have "s - n \<noteq> 0" using sn n(2) by (auto simp: unat_eq_0 [symmetric])
  then have "\<forall>x\<in>set (tl (us @ (q, t) # (p, s - n) # vs)). snd x \<noteq> 0" using L(4) N by (cases us) auto
  moreover have "q \<in> fst ` set (us @ (q, t) # (p, s - n) # vs)" by simp
  ultimately show "heap_ok base h' (tl (us @ (q, t) # (p, s - n) # vs))" using L(1) hd seg ok unfolding heap_ok_def free_list_def h' by simp
  show "h_size (hp_mem h') ?r = n" using header_same [OF hr] by (simp add: h')
qed

text \<open>A block, whole or its tail, taken out of the free list: \<open>r\<close> is the address of its header.\<close>

definition taken :: "u32 \<Rightarrow> heap \<Rightarrow> block list \<Rightarrow> u32 \<Rightarrow> u32 \<Rightarrow> heap \<Rightarrow> block list \<Rightarrow> bool" where
  "taken base h bs r n h' bs' \<longleftrightarrow> heap_ok base h' bs' \<and> h_size (hp_mem h') r = n \<and> cover bs = cover bs' \<union> extent r n \<and>
     cover bs' \<inter> extent r n = {} \<and> unat base + 8 \<le> unat r \<and> unat r + 8 * unat n \<le> 2 ^ 32 \<and>
     (\<forall>x. unat x \<notin> cover bs \<and> unat x \<notin> header base \<longrightarrow> hp_mem h' x = hp_mem h x)"

lemma malloc_take_ok:
  assumes H: "heap_ok base h bs" and N: "(base, 0) # bs = us @ (q, t) # (p, s) # vs" and n: "n \<noteq> 0" "n \<le> s"
  shows "\<exists>r h' bs'. malloc_take n q p h = Ret (r + 8) h' \<and> taken base h bs r n h' bs'"
proof -
  have L: "seg (hp_mem h) (us @ (q, t) # (p, s) # vs) base" "blocks_ok (us @ (q, t) # (p, s) # vs)" "\<forall>x\<in>set bs. snd x \<noteq> 0"
    using H N unfolding heap_ok_def free_list_def by metis+
  let ?us = "us @ [(q, t)]"
  have P: "inside (p, s)" "\<forall>u\<in>set ?us. below u (p, s)" "\<forall>v\<in>set vs. below (p, s) v" "blocks_ok ?us"
    using L(2) blocks_ok_append [of ?us "(p, s)" vs] by simp_all
  have s: "h_size (hp_mem h) p = s" using L(1) by (simp add: seg_append)
  have hq: "hfits q" using P(4) by (simp add: blocks_ok_append inside_def)
  have bs: "cover bs = cover us \<union> extent q t \<union> extent p s \<union> cover vs"
    using arg_cong [OF N, of cover] by (simp add: Un_assoc)
  have out: "k \<notin> cover us" "k \<notin> extent q t" "k \<notin> cover vs" if "k \<in> extent p s" for k
    using P(2,3) that cover_above [of vs p s k] cover_below [of us p k] by (fastforce simp: below_def)+
  have bp: "unat base + 8 \<le> unat p" using N P(2) by (cases us) (auto simp: below_def)
  have p: "unat p + 8 * unat s \<le> 2 ^ 32" using P(1) by (simp add: inside_def)
  have q: "header q \<subseteq> cover bs \<union> header base"
  proof (cases "q = base")
    case False
    then have "(q, t) \<in> set bs" using N by (cases us) auto
    then have "0 < unat t" using L(3) by (auto simp: unat_gt_0)
    then have "header q \<subseteq> extent q t" by auto
    then show ?thesis using bs by blast
  qed blast
  show ?thesis
  proof (cases "s = n")
    case True
    define h' where "h' = h\<lparr>hp_mem := put_ptr q (h_ptr (hp_mem h) p) (hp_mem h), freep := q\<rparr>"
    let ?bs = "tl (us @ (q, t) # vs)"
    note T = take_whole [OF H N [unfolded True] n(1) h'_def]
    have c: "cover ?bs = cover us \<union> extent q t \<union> cover vs" using N by (cases us) auto
    have "cover bs = cover ?bs \<union> extent p n" unfolding c bs True by blast
    moreover have "cover ?bs \<inter> extent p n = {}" using out unfolding c True by blast
    moreover have "hp_mem h' x = hp_mem h x" if x: "unat x \<notin> cover bs" "unat x \<notin> header base" for x
    proof -
      have "unat x \<notin> header q" using x q by blast
      then show ?thesis using put_frame(1) [OF hq] by (simp add: h'_def)
    qed
    ultimately have "taken base h bs p n h' ?bs" using T bp p True unfolding taken_def by simp
    then show ?thesis using s True by (auto simp: malloc_take_def kern h'_def)
  next
    case False
    then have ns: "unat n < unat s" using n(2) by (simp add: word_le_nat_alt word_unat_eq_iff)
    define r where "r = p + 8 * (s - n)"
    define h' where "h' = h\<lparr>hp_mem := put_size r n (put_size p (s - n) (hp_mem h)), freep := q\<rparr>"
    let ?bs = "tl (us @ (q, t) # (p, s - n) # vs)"
    note T = take_tail [OF H N n(1) ns h'_def [unfolded r_def], folded r_def]
    have sn: "unat (s - n) = unat s - unat n" using ns by (simp add: unat_sub_if')
    have e: "extent p s = extent p (s - n) \<union> extent r n" "extent p (s - n) \<inter> extent r n = {}" unfolding T(3) sn using ns by auto
    have c: "cover ?bs = cover us \<union> extent q t \<union> extent p (s - n) \<union> cover vs" using N by (cases us) auto
    have "cover bs = cover ?bs \<union> extent r n" unfolding c bs e(1) by blast
    moreover have "cover ?bs \<inter> extent r n = {}" using out e unfolding c by blast
    moreover have n8: "8 \<le> 8 * unat n" using n(1) by (simp add: Suc_le_eq unat_gt_0)
    moreover have hr: "hfits r" "hfits p" using T(3) n8 ns p by (auto simp: hfits_def)
    moreover have "header r \<subseteq> extent p s" "header p \<subseteq> extent p s" unfolding T(3) using n8 ns by auto
    then have "unat x \<notin> header r" "unat x \<notin> header p" if "unat x \<notin> cover bs" for x :: u32 using that bs by blast+
    then have "hp_mem h' x = hp_mem h x" if "unat x \<notin> cover bs" "unat x \<notin> header base" for x
      using put_frame(2) [OF hr(1)] put_frame(2) [OF hr(2)] that by (simp add: h'_def del: atLeastLessThan_iff)
    moreover have "unat base + 8 \<le> unat r" "unat r + 8 * unat n \<le> 2 ^ 32" using T(3) bp p ns by simp_all
    ultimately have "taken base h bs r n h' ?bs" using T unfolding taken_def by simp
    moreover have "malloc_take n q p h = Ret (r + 8) h'"
      using s False unfolding malloc_take_def h'_def r_def by (simp add: kern)
    ultimately show ?thesis by blast
  qed
qed

lemma header_cong:
  assumes "hfits a" "\<forall>x. unat x \<in> header a \<longrightarrow> m' x = m x"
  shows "h_ptr m' a = h_ptr m a" "h_size m' a = h_size m a"
proof -
  have o: "unat (a + of_nat k) \<in> header a" if "k < 8" for k
    using assms(1) that unat_off [of a k] by (simp add: hfits_def)
  show "h_ptr m' a = h_ptr m a" unfolding h_ptr_def
    using assms(2) o [of 0] o [of 1] o [of 2] o [of 3] by (intro load32_cong) simp_all
  have "m' (a + 4 + k) = m (a + 4 + k)" if "k \<in> {0, 1, 2, 3}" for k
    using assms(2) o [of 4] o [of 5] o [of 6] o [of 7] that by (auto simp: add.assoc)
  then show "h_size m' a = h_size m a" unfolding h_size_def by (intro load32_cong) (metis add.right_neutral insertCI)+
qed

lemma heap_ok_cong:
  assumes "heap_ok base h bs" "freep h' = freep h" "\<And>x. unat x \<in> cover bs \<union> header base \<Longrightarrow> hp_mem h' x = hp_mem h x"
  shows "heap_ok base h' bs"
proof -
  let ?N = "(base, 0) # bs"
  have L: "blocks_ok ?N" "\<forall>x\<in>set bs. snd x \<noteq> 0" using assms(1) unfolding heap_ok_def free_list_def by blast+
  have "h_ptr (hp_mem h') a = h_ptr (hp_mem h) a \<and> h_size (hp_mem h') a = h_size (hp_mem h) a" if a: "a \<in> fst ` set ?N" for a
  proof -
    obtain s where s: "(a, s) \<in> set ?N" using a by (metis imageE prod.collapse)
    have "header a \<subseteq> cover bs \<union> header base"
    proof (cases "(a, s) = (base, 0)")
      case False
      then have m: "(a, s) \<in> set bs" using s by auto
      then have "0 < unat s" using L(2) by (auto simp: unat_gt_0)
      then have "header a \<subseteq> extent a s" by auto
      then show ?thesis using cover_mem [OF m] by auto
    qed simp
    moreover have "hfits a" using L(1) s by (auto simp: blocks_ok_def inside_def)
    ultimately show ?thesis using header_cong [of a "hp_mem h'" "hp_mem h"] assms(3) by blast
  qed
  then have "seg (hp_mem h') ?N base = seg (hp_mem h) ?N base" by (intro seg_cong) blast
  then show ?thesis using assms(1,2) by (simp add: heap_ok_def free_list_def)
qed

lemma heap_ok_freep: "heap_ok base h bs \<Longrightarrow> freep h \<noteq> 0"
  unfolding heap_ok_def free_list_def by (auto simp: below_def)

text \<open>
  What \<open>malloc\<close> relies on of \<open>sbrk\<close>: it fails with -1 and changes nothing, or extends the process by a
  region that lies behind the static header and outside the free blocks, whose bytes alone it may write.
\<close>

definition grows :: "(u32 \<Rightarrow> (u32, heap) kern) \<Rightarrow> u32 \<Rightarrow> block list \<Rightarrow> bool" where
  "grows sbrk base bs \<longleftrightarrow> (\<forall>h k. \<exists>p h1. sbrk k h = Ret p h1 \<and> freep h1 = freep h \<and>
     (p = -1 \<and> hp_mem h1 = hp_mem h \<or>
      p \<noteq> -1 \<and> unat base + 8 \<le> unat p \<and> unat p + unat k \<le> 2 ^ 32 \<and> {unat p..<unat p + unat k} \<inter> cover bs = {} \<and>
      (\<forall>x. unat x \<notin> {unat p..<unat p + unat k} \<longrightarrow> hp_mem h1 x = hp_mem h x)))"

lemma morecore_ok:
  assumes H: "heap_ok base h bs" and G: "grows sbrk base bs" and n: "unat n < 2 ^ 29"
  shows "(\<exists>h'. morecore sbrk n h = Ret 0 h' \<and> heap_ok base h' bs \<and> hp_mem h' = hp_mem h) \<or>
    (\<exists>h' bs' p nu. morecore sbrk n h = Ret (freep h') h' \<and> heap_ok base h' bs' \<and> cover bs' = cover bs \<union> extent p nu \<and>
       cover bs \<inter> extent p nu = {} \<and> (\<exists>x\<in>set bs'. n \<le> snd x) \<and>
       (\<forall>x. unat x \<notin> cover bs' \<and> unat x \<notin> header base \<longrightarrow> hp_mem h' x = hp_mem h x))"
proof -
  define nu where "nu = (if n < 4096 then 4096 else n)"
  have nu: "nu \<noteq> 0" "unat nu < 2 ^ 29" "n \<le> nu" using n by (auto simp: nu_def word_less_nat_alt word_le_nat_alt)
  have k: "unat (nu * 8) = 8 * unat nu" using nu(2) by (simp add: unat_word_ariths)
  obtain p h1 where S: "sbrk (nu * 8) h = Ret p h1" "freep h1 = freep h"
    "p = -1 \<and> hp_mem h1 = hp_mem h \<or> p \<noteq> -1 \<and> unat base + 8 \<le> unat p \<and> unat p + 8 * unat nu \<le> 2 ^ 32 \<and> extent p nu \<inter> cover bs = {} \<and>
      (\<forall>x. unat x \<notin> extent p nu \<longrightarrow> hp_mem h1 x = hp_mem h x)"
    using G unfolding grows_def k [symmetric] by blast
  show ?thesis
  proof (cases "p = -1")
    case True
    then have "morecore sbrk n h = Ret 0 h1" "hp_mem h1 = hp_mem h" using S by (simp_all add: morecore_def kern nu_def [symmetric])
    moreover have "heap_ok base h1 bs" using S calculation by (intro heap_ok_cong [OF H]) simp_all
    ultimately show ?thesis by blast
  next
    case False
    then have P: "unat base + 8 \<le> unat p" "unat p + 8 * unat nu \<le> 2 ^ 32" "extent p nu \<inter> cover bs = {}"
      "\<And>x. unat x \<notin> extent p nu \<Longrightarrow> hp_mem h1 x = hp_mem h x" using S(3) by blast+
    define h2 where "h2 = h1\<lparr>hp_mem := put_size p nu (hp_mem h1)\<rparr>"
    have n8: "8 \<le> 8 * unat nu" using nu(1) by (simp add: Suc_le_eq unat_gt_0)
    have hp: "hfits p" "header p \<subseteq> extent p nu" using P(2) n8 by (auto simp: hfits_def)
    have m2: "hp_mem h2 x = hp_mem h x" if "unat x \<notin> extent p nu" for x
    proof -
      have "unat x \<notin> header p" using that hp(2) by blast
      then show ?thesis using put_frame(2) [OF hp(1)] P(4) [OF that] by (simp add: h2_def)
    qed
    have e: "extent p nu \<inter> header base = {}" using P(1) by auto
    have H2: "heap_ok base h2 bs"
    proof (rule heap_ok_cong [OF H])
      show "freep h2 = freep h" using S(2) by (simp add: h2_def)
      show "hp_mem h2 x = hp_mem h x" if "unat x \<in> cover bs \<union> header base" for x using that P(3) e by (intro m2) blast
    qed
    have sz: "h_size (hp_mem h2) p = nu" using header_same [OF hp(1)] by (simp add: h2_def)
    obtain h' bs' where F: "free (p + 8) h2 = Ret () h'" "heap_ok base h' bs'" "cover bs' = cover bs \<union> extent p nu"
      "\<exists>x\<in>set bs'. nu \<le> snd x"
      "\<And>x. unat x \<notin> cover bs' \<Longrightarrow> unat x \<notin> header base \<Longrightarrow> hp_mem h' x = hp_mem h2 x"
      using free_ok [OF H2 nu(1) P(2) sz P(3) P(1)] by blast
    have "morecore sbrk n h = Ret (freep h') h'"
      using S(1) False F(1) by (simp add: morecore_def kern nu_def [symmetric] h2_def)
    moreover have "\<exists>x\<in>set bs'. n \<le> snd x" using F(4) order_trans [OF nu(3)] by blast
    moreover have "hp_mem h' x = hp_mem h x" if "unat x \<notin> cover bs'" "unat x \<notin> header base" for x
      using F(5) [OF that] m2 [of x] that F(3) by auto
    moreover have "cover bs \<inter> extent p nu = {}" using P(3) by blast
    ultimately show ?thesis using F(2,3) by blast
  qed
qed

text \<open>The invariant of the allocator, before and after its first call.\<close>

definition heap_inv :: "u32 \<Rightarrow> heap \<Rightarrow> block list \<Rightarrow> bool" where
  "heap_inv base h bs \<longleftrightarrow> heap_ok base h bs \<or> freep h = 0 \<and> bs = [] \<and> base \<noteq> 0 \<and> hfits base"

lemma heap_start:
  assumes "base \<noteq> 0" "hfits base"
  shows "heap_ok base (h\<lparr>hp_mem := put_size base 0 (put_ptr base base m), freep := base\<rparr>) []"
  using assms header_same [OF assms(2)] by (simp add: heap_ok_def free_list_def inside_def hfits_def)

lemma nunits_ok:
  assumes "unat nbytes + 16 \<le> 2 ^ 32"
  shows "nunits nbytes \<noteq> 0" "unat (nunits nbytes) < 2 ^ 29" "unat nbytes + 8 \<le> 8 * unat (nunits nbytes)"
    "8 * unat (nunits nbytes) \<le> unat nbytes + 15"
proof -
  have "nbytes + 8 - 1 = nbytes + (7 :: u32)" by simp
  moreover have "unat (nbytes + 7) = unat nbytes + 7" using assms by (simp add: unat_word_ariths)
  ultimately have u: "unat ((nbytes + 8 - 1) div 8) = (unat nbytes + 7) div 8" by (simp only: unat_div) simp
  then have n: "unat (nunits nbytes) = (unat nbytes + 7) div 8 + 1" unfolding nunits_def using assms by (subst unat_word_ariths) simp
  show "unat (nunits nbytes) < 2 ^ 29" "unat nbytes + 8 \<le> 8 * unat (nunits nbytes)" "8 * unat (nunits nbytes) \<le> unat nbytes + 15"
    unfolding n using assms by auto
  show "nunits nbytes \<noteq> 0" using n by (auto simp: unat_eq_0 [symmetric])
qed

definition allocated :: "u32 \<Rightarrow> heap \<Rightarrow> block list \<Rightarrow> nat set \<Rightarrow> u32 \<Rightarrow> u32 \<Rightarrow> heap \<Rightarrow> block list \<Rightarrow> bool" where
  "allocated base h bs G r n h' bs' \<longleftrightarrow> heap_ok base h' bs' \<and> h_size (hp_mem h') r = n \<and> cover bs \<union> G = cover bs' \<union> extent r n \<and>
     cover bs' \<inter> extent r n = {} \<and> cover bs \<inter> G = {} \<and> unat base + 8 \<le> unat r \<and> unat r + 8 * unat n \<le> 2 ^ 32 \<and>
     (\<forall>x. unat x \<notin> cover bs \<union> G \<union> header base \<longrightarrow> hp_mem h' x = hp_mem h x)"

lemma malloc_loop_ok:
  assumes H: "heap_ok base h bs" and G: "grows sbrk base bs" and n: "n \<noteq> 0" "unat n < 2 ^ 29"
  shows "(\<exists>h'. malloc_loop sbrk 2 n (freep h) h = Ret 0 h' \<and> heap_ok base h' bs \<and> hp_mem h' = hp_mem h \<and> (\<forall>x\<in>set bs. \<not> n \<le> snd x)) \<or>
    (\<exists>r h' bs' G. malloc_loop sbrk 2 n (freep h) h = Ret (r + 8) h' \<and> allocated base h bs G r n h' bs' \<and>
       ((\<exists>x\<in>set bs. n \<le> snd x) \<longrightarrow> G = {}))"
proof -
  have two: "malloc_loop sbrk 2 = malloc_loop sbrk (Suc (Suc 0))" by (simp add: numeral_2_eq_2)
  have hit: "\<exists>r h' bs'. malloc_loop sbrk (Suc k) n (freep g) g = Ret (r + 8) h' \<and> taken base g cs r n h' bs'"
    if g: "heap_ok base g cs" "\<exists>x\<in>set cs. n \<le> snd x" for g cs k
  proof -
    obtain us q t p s vs where F: "malloc_find (hp_mem g) n (freep g) (freep g) (h_ptr (hp_mem g) (freep g)) = Some (Some (q, p))"
      "(base, 0) # cs = us @ (q, t) # (p, s) # vs" "n \<le> s" using malloc_find_ring [OF g(1) n(1)] g(2) by blast
    show ?thesis using malloc_take_ok [OF g(1) F(2) n(1) F(3)] F(1) by (simp add: kern)
  qed
  show ?thesis
  proof (cases "\<exists>x\<in>set bs. n \<le> snd x")
    case True
    obtain r h' bs' where R: "malloc_loop sbrk 2 n (freep h) h = Ret (r + 8) h'" "taken base h bs r n h' bs'"
      using hit [OF H True, of "Suc 0"] two by metis
    then have "allocated base h bs {} r n h' bs'" by (simp add: taken_def allocated_def)
    then show ?thesis using R(1) by blast
  next
    case False
    have F: "malloc_find (hp_mem h) n (freep h) (freep h) (h_ptr (hp_mem h) (freep h)) = Some None"
    proof -
      have "(p, s) \<in> set bs" if "(base, 0) # bs = us @ (q, t) # (p, s) # vs" for us q t p s vs using that by (cases us) auto
      then show ?thesis using malloc_find_ring [OF H n(1)] False by fastforce
    qed
    from morecore_ok [OF H G n(2)] show ?thesis
    proof (elim disjE exE conjE)
      fix h' assume "morecore sbrk n h = Ret 0 h'" "heap_ok base h' bs" "hp_mem h' = hp_mem h"
      then show ?thesis using F False two by (simp add: kern)
    next
      fix h1 bs1 p nu
      assume M: "morecore sbrk n h = Ret (freep h1) h1" "heap_ok base h1 bs1" "cover bs1 = cover bs \<union> extent p nu"
        "cover bs \<inter> extent p nu = {}" "\<exists>x\<in>set bs1. n \<le> snd x"
        "\<forall>x. unat x \<notin> cover bs1 \<and> unat x \<notin> header base \<longrightarrow> hp_mem h1 x = hp_mem h x"
      obtain r h' bs' where R: "malloc_loop sbrk (Suc 0) n (freep h1) h1 = Ret (r + 8) h'" "taken base h1 bs1 r n h' bs'"
        using hit [OF M(2,5), of 0] by blast
      have "malloc_loop sbrk 2 n (freep h) h = Ret (r + 8) h'"
        unfolding two using F M(1) R(1) heap_ok_freep [OF M(2)] by (subst malloc_loop.simps) (simp add: kern del: malloc_loop.simps)
      moreover have "allocated base h bs (extent p nu) r n h' bs'"
        using R(2) M(4,6) unfolding taken_def allocated_def M(3) by (simp del: atLeastLessThan_iff) blast
      ultimately show ?thesis using False by blast
    qed
  qed
qed

lemma malloc_started:
  assumes "heap_ok base h bs"
  shows "malloc sbrk base nbytes h = malloc_loop sbrk 2 (nunits nbytes) (freep h) h"
  using heap_ok_freep [OF assms] by (simp add: malloc_def kern)

lemma malloc_first:
  assumes "freep h = 0" "base \<noteq> 0"
  shows "malloc sbrk base nbytes h = malloc sbrk base nbytes (h\<lparr>hp_mem := put_size base 0 (put_ptr base base (hp_mem h)), freep := base\<rparr>)"
  using assms by (simp add: malloc_def kern)

text \<open>The free list is determined by the bytes it covers: neighbours are always joined.\<close>

lemma cover_unique:
  "blocks_ok bs \<Longrightarrow> blocks_ok cs \<Longrightarrow> \<forall>x\<in>set bs. snd x \<noteq> 0 \<Longrightarrow> \<forall>x\<in>set cs. snd x \<noteq> 0 \<Longrightarrow> cover bs = cover cs \<Longrightarrow> bs = cs"
proof (induction bs arbitrary: cs)
  case Nil
  show ?case
  proof (cases cs)
    case (Cons c cs')
    then have "unat (fst c) \<in> cover cs" using Nil(4) by (cases c) (simp add: unat_gt_0)
    then show ?thesis using Nil(5) by simp
  qed simp
next
  case (Cons b bs)
  obtain a s where b: "b = (a, s)" by (cases b)
  have s0: "0 < unat s" using Cons.prems(3) b by (simp add: unat_gt_0)
  then have "unat a \<in> cover cs" using Cons.prems(5) b by auto
  then obtain c ds where cs: "cs = c # ds" by (cases cs) auto
  obtain d t where c: "c = (d, t)" by (cases c)
  have t0: "0 < unat t" using Cons.prems(4) cs c by (simp add: unat_gt_0)
  have lo: "unat d < k \<and> unat d + 8 * unat t < k" if "k \<in> cover ds" for k
    using Cons.prems(2) that t0 unfolding cs c by (fastforce simp: cover_def below_def)
  have lo': "unat a < k \<and> unat a + 8 * unat s < k" if "k \<in> cover bs" for k
    using Cons.prems(1) that s0 unfolding b by (fastforce simp: cover_def below_def)
  have eq: "k \<in> extent a s \<or> k \<in> cover bs \<longleftrightarrow> k \<in> extent d t \<or> k \<in> cover ds" for k
    using Cons.prems(5) unfolding b cs c by (auto simp: set_eq_iff)
  have ad: "unat a = unat d" using eq [of "unat a"] eq [of "unat d"] lo lo' s0 t0 by fastforce
  have st: "unat s = unat t"
  proof (rule ccontr)
    assume "unat s \<noteq> unat t"
    then consider "unat s < unat t" | "unat t < unat s" by linarith
    then show False
    proof cases
      case 1
      then show False using eq [of "unat a + 8 * unat s"] lo' [of "unat a + 8 * unat s"] ad by auto
    next
      case 2
      then show False using eq [of "unat d + 8 * unat t"] lo [of "unat d + 8 * unat t"] ad by auto
    qed
  qed
  have "cover bs = cover ds"
  proof (intro set_eqI)
    fix k show "k \<in> cover bs \<longleftrightarrow> k \<in> cover ds" using eq [of k] lo [of k] lo' [of k] ad st by auto
  qed
  then have "bs = ds" using Cons.IH [of ds] Cons.prems(1-4) cs by simp
  then show ?case using ad st b c cs by (simp add: word_unat_eq_iff)
qed

lemma heap_unique: "heap_ok base h bs \<Longrightarrow> heap_ok base h' cs \<Longrightarrow> cover bs = cover cs \<Longrightarrow> bs = cs"
  using cover_unique [of bs cs] unfolding heap_ok_def free_list_def by simp

text \<open>
  A block that was allocated is given back, after the program has written into it: the free list is the
  one of the bytes free before and the block.
\<close>

lemma free_allocated:
  assumes A: "allocated base h bs G r n h1 bs'" and n: "n \<noteq> 0"
    and w: "freep h2 = freep h1" "\<And>x. unat x \<notin> {unat r + 8..<unat r + 8 * unat n} \<Longrightarrow> hp_mem h2 x = hp_mem h1 x"
  obtains h3 cs where "free (r + 8) h2 = Ret () h3" "heap_ok base h3 cs" "cover cs = cover bs \<union> G"
proof -
  have T: "heap_ok base h1 bs'" "h_size (hp_mem h1) r = n" "cover bs \<union> G = cover bs' \<union> extent r n" "cover bs' \<inter> extent r n = {}"
    "unat base + 8 \<le> unat r" "unat r + 8 * unat n \<le> 2 ^ 32" using A unfolding allocated_def by blast+
  have n8: "8 \<le> 8 * unat n" using n by (simp add: Suc_le_eq unat_gt_0)
  have r: "hfits r" using T(6) n8 by (simp add: hfits_def)
  have out: "unat x \<notin> {unat r + 8..<unat r + 8 * unat n}" if "unat x \<in> cover bs' \<union> header base \<union> header r" for x :: u32
    using that T(4,5) by (auto simp: disjoint_iff)
  have H: "heap_ok base h2 bs'" using w out by (intro heap_ok_cong [OF T(1)]) blast+
  have "h_size (hp_mem h2) r = n" using header_cong(2) [OF r, of "hp_mem h2" "hp_mem h1"] w(2) out T(2) by blast
  then show ?thesis using free_ok [OF H n T(6) _ _ T(5)] T(3,4) that by (metis inf_commute)
qed

lemma malloc_result:
  assumes "heap_inv base h bs" "grows sbrk base bs" "unat nbytes + 16 \<le> 2 ^ 32"
  shows "(\<exists>h'. malloc sbrk base nbytes h = Ret 0 h' \<and> heap_ok base h' bs \<and>
      (\<forall>x. unat x \<notin> header base \<longrightarrow> hp_mem h' x = hp_mem h x) \<and> (\<forall>x\<in>set bs. \<not> nunits nbytes \<le> snd x)) \<or>
    (\<exists>r h' bs' G. malloc sbrk base nbytes h = Ret (r + 8) h' \<and> allocated base h bs G r (nunits nbytes) h' bs' \<and>
       ((\<exists>x\<in>set bs. nunits nbytes \<le> snd x) \<longrightarrow> G = {}))"
proof -
  note N = nunits_ok [OF assms(3)]
  from assms(1) [unfolded heap_inv_def] show ?thesis
  proof (elim disjE conjE)
    assume H: "heap_ok base h bs"
    show ?thesis using malloc_loop_ok [OF H assms(2) N(1,2)] unfolding malloc_started [OF H] by auto
  next
    assume I: "freep h = 0" "bs = []" "base \<noteq> 0" "hfits base"
    define g where "g = h\<lparr>hp_mem := put_size base 0 (put_ptr base base (hp_mem h)), freep := base\<rparr>"
    have H: "heap_ok base g bs" unfolding g_def I(2) by (rule heap_start [OF I(3,4)])
    have e: "malloc sbrk base nbytes h = malloc sbrk base nbytes g" unfolding g_def by (rule malloc_first [OF I(1,3)])
    have m: "hp_mem g x = hp_mem h x" if "unat x \<notin> header base" for x using put_frame [OF I(4) that] by (simp add: g_def)
    have "allocated base h bs G r n h' bs'" if "allocated base g bs G r n h' bs'" for r n h' bs' G
      using that m unfolding allocated_def by (simp del: atLeastLessThan_iff) blast
    then show ?thesis using malloc_loop_ok [OF H assms(2) N(1,2)] m unfolding e malloc_started [OF H] by (metis (no_types, lifting))
  qed
qed

section \<open>Properties\<close>


definition fresh_heap :: heap where
  "fresh_heap = \<lparr>hp_mem = (\<lambda>_. 0), freep = 0\<rparr>"

definition fresh_sbrk :: "u32 \<Rightarrow> (u32, heap) kern" where
  "fresh_sbrk k h = (if k \<le> 65536 then Ret 4096 h else Ret (-1) h)"

lemma fresh_ok: "heap_inv 1024 fresh_heap []" "grows fresh_sbrk 1024 []"
  by (auto simp: heap_inv_def fresh_heap_def hfits_def grows_def fresh_sbrk_def word_le_nat_alt)


text \<open>
  C23: Giving back a block restores the free list. When \<open>malloc\<close> takes a block from the free list, the program
  writes whatever it likes into its bytes, and then frees it, the blocks are joined again to exactly the list
  before the allocation.
\<close>

theorem malloc_free_roundtrip:
  assumes "heap_ok base h bs" "grows sbrk base bs" "nbytes \<noteq> 0" "unat nbytes + 16 \<le> 2 ^ 32" "\<exists>x\<in>set bs. nunits nbytes \<le> snd x"
  shows "\<exists>a h'. malloc sbrk base nbytes h = Ret a h' \<and>
    (\<forall>m. (\<forall>x. unat x \<notin> {unat a..<unat a + unat nbytes} \<longrightarrow> m x = hp_mem h' x) \<longrightarrow>
       (\<exists>h''. free a (h'\<lparr>hp_mem := m\<rparr>) = Ret () h'' \<and> heap_ok base h'' bs))"
proof -
  have inv: "heap_inv base h bs" using assms(1) by (simp add: heap_inv_def)
  obtain r h' bs' G where R: "malloc sbrk base nbytes h = Ret (r + 8) h'" "allocated base h bs G r (nunits nbytes) h' bs'" "G = {}"
    using malloc_result [OF inv assms(2,4)] assms(5) by blast
  have "unat r + 8 * unat (nunits nbytes) \<le> 2 ^ 32" using R(2) by (simp add: allocated_def)
  moreover have n: "unat nbytes + 8 \<le> 8 * unat (nunits nbytes)" by (rule nunits_ok(3) [OF assms(4)])
  moreover have "0 < unat nbytes" using assms(3) by (simp add: unat_gt_0)
  ultimately have u: "unat (r + 8) = unat r + 8" using unat_off [of r 8] by simp
  have "\<exists>h''. free (r + 8) (h'\<lparr>hp_mem := m\<rparr>) = Ret () h'' \<and> heap_ok base h'' bs"
    if m: "\<forall>x. unat x \<notin> {unat (r + 8)..<unat (r + 8) + unat nbytes} \<longrightarrow> m x = hp_mem h' x" for m
  proof -
    have w: "hp_mem (h'\<lparr>hp_mem := m\<rparr>) x = hp_mem h' x" if "unat x \<notin> {unat r + 8..<unat r + 8 * unat (nunits nbytes)}" for x
      using that m [rule_format, of x] u n by auto
    obtain h3 cs where F: "free (r + 8) (h'\<lparr>hp_mem := m\<rparr>) = Ret () h3" "heap_ok base h3 cs" "cover cs = cover bs \<union> G"
      using free_allocated [OF R(2) nunits_ok(1) [OF assms(4)] _ w] by auto
    have "cs = bs" using heap_unique [OF F(2) assms(1)] F(3) R(3) by simp
    then show ?thesis using F by blast
  qed
  then show ?thesis using R(1) by blast
qed

definition used_heap :: heap where
  "used_heap = \<lparr>hp_mem = put_size 4096 16 (put_ptr 4096 1024 (put_size 1024 0 (put_ptr 1024 4096 (\<lambda>_. 0)))), freep = 1024\<rparr>"

lemma used_ok: "heap_ok 1024 used_heap [(4096, 16)]" "grows (\<lambda>k. Ret (-1)) 1024 bs"
proof -
  have a: "apart 1024 4096" "apart 4096 1024" "hfits 1024" "hfits 4096" by (simp_all add: apart_def hfits_def)
  show "heap_ok 1024 used_heap [(4096, 16)]"
    using header_same [OF a(3)] header_same [OF a(4)] header_frame [OF a(1)] header_frame [OF a(2)]
    by (simp add: heap_ok_def free_list_def used_heap_def inside_def below_def hfits_def)
qed (simp add: grows_def)

theorem malloc_free_roundtrip_witness:
  "\<exists>a h'. malloc (\<lambda>k. Ret (-1)) 1024 100 used_heap = Ret a h' \<and>
    (\<exists>h''. free a (h'\<lparr>hp_mem := (hp_mem h')(a := 7)\<rparr>) = Ret () h'' \<and> heap_ok 1024 h'' [(4096, 16)])"
proof -
  have n: "nunits 100 = 14" by (simp add: nunits_def)
  obtain a h' where M: "malloc (\<lambda>k. Ret (-1)) 1024 100 used_heap = Ret a h'"
    "\<And>m. (\<forall>x. unat x \<notin> {unat a..<unat a + 100} \<longrightarrow> m x = hp_mem h' x) \<Longrightarrow>
       \<exists>h''. free a (h'\<lparr>hp_mem := m\<rparr>) = Ret () h'' \<and> heap_ok 1024 h'' [(4096, 16)]"
    using malloc_free_roundtrip [OF used_ok, of 100] n by auto
  show ?thesis using M(1) M(2) [of "(hp_mem h')(a := 7)"] by auto
qed

text \<open>
  C37: The size computation wraps around. A request for \<open>0xFFFFFFFF\<close> bytes becomes one unit, the header alone: with
  any free block below \<open>KERNBASE\<close> the call returns a valid address with no byte behind the header.
\<close>

theorem malloc_size_overflow:
  assumes "heap_ok base h bs" "grows sbrk base bs" "bs \<noteq> []" "cover bs \<subseteq> {..<2 ^ 31}"
  shows "\<exists>a h' bs'. malloc sbrk base 0xFFFFFFFF h = Ret a h' \<and> a \<noteq> 0 \<and> h_size (hp_mem h') (a - 8) = 1 \<and>
    heap_ok base h' bs' \<and> cover bs = cover bs' \<union> header (a - 8)"
proof -
  have n: "nunits 0xFFFFFFFF = 1" by (simp add: nunits_def)
  have "\<forall>x\<in>set bs. snd x \<noteq> 0" using assms(1) unfolding heap_ok_def free_list_def by blast
  then have "\<exists>x\<in>set bs. 1 \<le> snd x" using assms(3) by (cases bs) (auto simp: word_le_nat_alt Suc_le_eq unat_gt_0)
  then obtain r h' bs' where R: "malloc sbrk base 0xFFFFFFFF h = Ret (r + 8) h'" "allocated base h bs {} r 1 h' bs'"
    using malloc_loop_ok [OF assms(1,2), of 1] unfolding malloc_started [OF assms(1)] n by auto
  then have "unat r \<in> cover bs" by (simp add: allocated_def)
  then have "unat (r + 8) = unat r + 8" using assms(4) unat_off [of r 8] by fastforce
  then have "r + 8 \<noteq> 0" by (metis add_is_0 unat_0 zero_neq_numeral)
  moreover have "r + 8 - 8 = r" by simp
  ultimately show ?thesis using R unfolding allocated_def by (intro exI [of _ "r + 8"] exI [of _ h'] exI [of _ bs']) simp
qed

theorem malloc_size_overflow_witness:
  "\<exists>a h'. malloc (\<lambda>k. Ret (-1)) 1024 0xFFFFFFFF used_heap = Ret a h' \<and> a \<noteq> 0 \<and> h_size (hp_mem h') (a - 8) = 1"
proof -
  have "cover [(4096 :: u32, 16 :: u32)] \<subseteq> {..<2 ^ 31}" by auto
  then show ?thesis using malloc_size_overflow [OF used_ok] by blast
qed

end
