(* ===== verification/Shell.thy ===== *)
theory Shell
  imports Ulib "HOL-Library.Sublist"
begin

text \<open>
  The shell, \<^verbatim>\<open>src/sh.c\<close>: its parser, the evaluation of a command and the command loop. A pointer into the
  line that is parsed is the text from it to the end \<open>es\<close> of the line, so \<open>s < es\<close> is \<open>s \<noteq> []\<close> and \<open>*s\<close> is
  \<open>ch s\<close>. The nodes that \<open>malloc\<close> returns are values of the datatype \<open>cmd\<close>; the parser runs in a child
  with an empty heap, and allocation is taken to succeed.
\<close>

section \<open>Commands\<close>

text \<open>
  \<open>argv\<close> and \<open>eargv\<close> of an \<open>execcmd\<close> are the list of the start and end of each word; a redirection has the
  start and end of the file name, the open mode and the descriptor.
\<close>

type_synonym ptr = "u8 list"

datatype cmd =
    EXEC "(ptr \<times> ptr) list"
  | REDIR cmd ptr ptr u32 int
  | PIPE cmd cmd
  | LIST cmd cmd
  | BACK cmd

definition MAXARGS :: nat where "MAXARGS = 10"

datatype 'a parse = Parsed 'a ptr | Failed string | Fuel

definition pbind :: "'a parse \<Rightarrow> ('a \<Rightarrow> ptr \<Rightarrow> 'b parse) \<Rightarrow> 'b parse" where
  "pbind m f = (case m of Parsed x s \<Rightarrow> f x s | Failed e \<Rightarrow> Failed e | Fuel \<Rightarrow> Fuel)"

lemma pbind_cong [fundef_cong]:
  "m = m' \<Longrightarrow> (\<And>x s. m' = Parsed x s \<Longrightarrow> f x s = g x s) \<Longrightarrow> pbind m f = pbind m' g"
  by (cases m') (simp_all add: pbind_def)

lemma pbind_simps [simp]:
  "pbind (Parsed x s) f = f x s" "pbind (Failed e) f = Failed e" "pbind Fuel f = Fuel"
  by (simp_all add: pbind_def)

section \<open>Tokens\<close>

definition whitespace :: "u8 list" where "whitespace = [32, 9, 13, 10, 11]"
definition symbols :: "u8 list" where "symbols = [60, 124, 62, 38, 59, 40, 41]"

fun skip_space :: "ptr \<Rightarrow> ptr" where
  "skip_space [] = []"
| "skip_space (c # s) = (if strchr whitespace c \<noteq> None then skip_space s else c # s)"

fun skip_word :: "ptr \<Rightarrow> ptr" where
  "skip_word [] = []"
| "skip_word (c # s) = (if strchr whitespace c = None \<and> strchr symbols c = None then skip_word s else c # s)"

text \<open>The switch of \<open>gettoken\<close>: the token at \<open>s\<close> and its end.\<close>

definition lex :: "ptr \<Rightarrow> u8 \<times> ptr" where
  "lex s =
    (if ch s = 0 then (0, s)
     else if ch s \<in> {124, 40, 41, 59, 38, 60} then (ch s, tl s)
     else if ch s = 62 then (if ch (tl s) = 62 then (43, tl (tl s)) else (62, tl s))
     else (97, skip_word s))"

text \<open>The token, its start \<open>q\<close>, its end \<open>eq\<close>, and where the next one begins.\<close>

definition gettoken :: "ptr \<Rightarrow> u8 \<times> ptr \<times> ptr \<times> ptr" where
  "gettoken ps = (let s = skip_space ps; (ret, e) = lex s in (ret, s, e, skip_space e))"

definition peek :: "ptr \<Rightarrow> u8 list \<Rightarrow> bool \<times> ptr" where
  "peek ps toks = (let s = skip_space ps in (ch s \<noteq> 0 \<and> strchr toks (ch s) \<noteq> None, s))"

lemma skip_le: "length (skip_space s) \<le> length s" "length (skip_word s) \<le> length s"
  by (induction s) auto

lemma peek_le: "peek s toks = (b, s') \<Longrightarrow> length s' \<le> length s"
  by (auto simp: peek_def Let_def skip_le)

lemma ch_nz: "ch s \<noteq> 0 \<Longrightarrow> s \<noteq> []"
  by (auto simp: ch_def)

lemma skip_space_ch: "ch (skip_space s) = 0 \<or> strchr whitespace (ch (skip_space s)) = None"
  by (induction s) (auto simp: ch_def)

lemma skip_idem [simp]: "skip_space (skip_space s) = skip_space s"
  by (induction s) auto

lemma lex_le:
  assumes "lex s = (tok, e)" "strchr whitespace (ch s) = None"
  shows "length e \<le> length s \<and> (tok \<noteq> 0 \<longrightarrow> length e < length s)"
proof (cases s)
  case (Cons c u)
  then show ?thesis using assms skip_le(2) [of u] by (cases u) (auto simp: lex_def ch_def symbols_def split: if_splits)
qed (use assms in \<open>auto simp: lex_def ch_def\<close>)

lemma gettoken_le:
  assumes "gettoken s = (tok, q, eq, s')"
  shows "length s' \<le> length s" "tok \<noteq> 0 \<Longrightarrow> length s' < length s"
proof -
  obtain e where e: "lex (skip_space s) = (tok, e)" "s' = skip_space e"
    using assms by (auto simp: gettoken_def Let_def split: prod.splits)
  have "strchr whitespace (ch (skip_space s)) = None" using skip_space_ch [of s] by (auto simp: whitespace_def)
  from lex_le [OF e(1) this] show "length s' \<le> length s" "tok \<noteq> 0 \<Longrightarrow> length s' < length s"
    using e(2) skip_le(1) [of e] skip_le(1) [of s] by auto
qed

text \<open>A token that \<open>peek\<close> has seen is not the end of the line.\<close>

lemma peek_gettoken:
  assumes "peek s toks = (True, s1)" "gettoken s1 = (tok, q, eq, s2)"
  shows "length s2 < length s"
proof -
  have s1: "s1 = skip_space s" "ch s1 \<noteq> 0" using assms(1) by (auto simp: peek_def Let_def)
  then have "skip_space s1 = s1" by simp
  then have "tok \<noteq> 0" using assms(2) s1(2) by (auto simp: gettoken_def lex_def Let_def split: if_splits)
  then show ?thesis using gettoken_le(2) [OF assms(2)] peek_le [OF assms(1)] by simp
qed

section \<open>The parser\<close>

definition redir :: "cmd \<Rightarrow> u8 \<Rightarrow> ptr \<Rightarrow> ptr \<Rightarrow> cmd" where
  "redir cmd tok q eq =
    (if tok = 60 then REDIR cmd q eq O_RDONLY 0
     else if tok = 62 then REDIR cmd q eq (O_WRONLY OR O_CREATE) 1
     else if tok = 43 then REDIR cmd q eq (O_WRONLY OR O_CREATE) 1
     else cmd)"

function parseredirs :: "cmd \<Rightarrow> ptr \<Rightarrow> cmd parse" where
  "parseredirs cmd ps =
    (case peek ps [60, 62] of (b, s1) \<Rightarrow>
     if \<not> b then Parsed cmd s1 else
     case gettoken s1 of (tok, _, _, s2) \<Rightarrow>
     case gettoken s2 of (t, q, eq, s3) \<Rightarrow>
     if t \<noteq> 97 then Failed ''missing file for redirection''
     else parseredirs (redir cmd tok q eq) s3)"
  by pat_completeness auto
termination
  by (relation "measure (\<lambda>(cmd, ps). length ps)")
    (auto dest!: sym [of "(_, _)" "peek _ _"] sym [of "(_, _)" "gettoken _"] dest: gettoken_le(1) peek_gettoken intro: le_less_trans)

declare parseredirs.simps [simp del]

lemma parseredirs_le: "parseredirs cmd s = Parsed cmd' s' \<Longrightarrow> length s' \<le> length s"
proof (induction cmd s arbitrary: cmd' s' rule: parseredirs.induct)
  case (1 cmd ps)
  obtain b s1 where p: "peek ps [60, 62] = (b, s1)" by (cases "peek ps [60, 62]")
  obtain tok q1 e1 s2 where g: "gettoken s1 = (tok, q1, e1, s2)" by (cases "gettoken s1")
  obtain t q eq s3 where h: "gettoken s2 = (t, q, eq, s3)" by (cases "gettoken s2")
  have le: "length s3 \<le> length ps" using peek_le [OF p] gettoken_le(1) [OF g] gettoken_le(1) [OF h] by simp
  show ?case
    using 1(2) 1(1) [OF p [symmetric] _ g [symmetric] refl refl h [symmetric] refl refl] peek_le [OF p] le
    by (subst (asm) parseredirs.simps) (auto simp: p g h split: if_splits)
qed

text \<open>
  The words of an \<open>execcmd\<close> are stored in the node that \<open>parseexec\<close> made first, which the redirections met so
  far have been wrapped around.
\<close>

fun put_arg :: "ptr \<Rightarrow> ptr \<Rightarrow> cmd \<Rightarrow> cmd" where
  "put_arg q eq (EXEC args) = EXEC (args @ [(q, eq)])"
| "put_arg q eq (REDIR c f e mode fd) = REDIR (put_arg q eq c) f e mode fd"
| "put_arg q eq c = c"

function parse_args :: "cmd \<Rightarrow> nat \<Rightarrow> ptr \<Rightarrow> cmd parse" where
  "parse_args ret argc ps =
    (case peek ps [124, 41, 38, 59] of (b, s1) \<Rightarrow>
     if b then Parsed ret s1 else
     case gettoken s1 of (tok, q, eq, s2) \<Rightarrow>
     if tok = 0 then Parsed ret s2
     else if tok \<noteq> 97 then Failed ''syntax''
     else if argc + 1 \<ge> MAXARGS then Failed ''too many args''
     else pbind (parseredirs (put_arg q eq ret) s2) (\<lambda>ret s3. parse_args ret (argc + 1) s3))"
  by pat_completeness auto
termination
  by (relation "measure (\<lambda>(ret, argc, ps). length ps)")
    (auto dest!: sym [of "(_, _)" "peek _ _"] sym [of "(_, _)" "gettoken _"] parseredirs_le peek_le gettoken_le(2))

declare parse_args.simps [simp del]

function parse_backs :: "cmd \<Rightarrow> ptr \<Rightarrow> cmd \<times> ptr" where
  "parse_backs cmd ps =
    (case peek ps [38] of (b, s1) \<Rightarrow>
     if \<not> b then (cmd, s1) else
     case gettoken s1 of (_, _, _, s2) \<Rightarrow> parse_backs (BACK cmd) s2)"
  by pat_completeness auto
termination
  by (relation "measure (\<lambda>(cmd, ps). length ps)")
    (auto dest!: sym [of "(_, _)" "peek _ _"] sym [of "(_, _)" "gettoken _"] dest: peek_gettoken)

declare parse_backs.simps [simp del]

text \<open>
  The recursive descent. Between two calls of the same function a token is consumed, so \<open>4 * length s + 4\<close>
  levels are enough (\<open>parser_terminates\<close> below).
\<close>

fun parseline :: "nat \<Rightarrow> ptr \<Rightarrow> cmd parse" and parsepipe :: "nat \<Rightarrow> ptr \<Rightarrow> cmd parse"
  and parseblock :: "nat \<Rightarrow> ptr \<Rightarrow> cmd parse" and parseexec :: "nat \<Rightarrow> ptr \<Rightarrow> cmd parse" where
  "parseline 0 ps = Fuel"
| "parseline (Suc k) ps =
    pbind (parsepipe k ps) (\<lambda>cmd s1.
    case parse_backs cmd s1 of (cmd, s2) \<Rightarrow>
    case peek s2 [59] of (b, s3) \<Rightarrow>
    if b then
      case gettoken s3 of (_, _, _, s4) \<Rightarrow>
      pbind (parseline k s4) (\<lambda>r s5. Parsed (LIST cmd r) s5)
    else Parsed cmd s3)"
| "parsepipe 0 ps = Fuel"
| "parsepipe (Suc k) ps =
    pbind (parseexec k ps) (\<lambda>cmd s1.
    case peek s1 [124] of (b, s2) \<Rightarrow>
    if b then
      case gettoken s2 of (_, _, _, s3) \<Rightarrow>
      pbind (parsepipe k s3) (\<lambda>r s4. Parsed (PIPE cmd r) s4)
    else Parsed cmd s2)"
| "parseblock 0 ps = Fuel"
| "parseblock (Suc k) ps =
    (case peek ps [40] of (b, s1) \<Rightarrow>
     if \<not> b then Failed ''parseblock'' else
     case gettoken s1 of (_, _, _, s2) \<Rightarrow>
     pbind (parseline k s2) (\<lambda>cmd s3.
     case peek s3 [41] of (b, s4) \<Rightarrow>
     if \<not> b then Failed ''syntax - missing )'' else
     case gettoken s4 of (_, _, _, s5) \<Rightarrow> parseredirs cmd s5))"
| "parseexec 0 ps = Fuel"
| "parseexec (Suc k) ps =
    (case peek ps [40] of (b, s1) \<Rightarrow>
     if b then parseblock k s1
     else pbind (parseredirs (EXEC []) s1) (\<lambda>ret s2. parse_args ret 0 s2))"

section \<open>Strings of the command\<close>

text \<open>\<open>nulterminate\<close> writes a NUL behind each word; \<open>n\<close> is the length of the line, so \<open>p\<close> is at \<open>n - length p\<close>.\<close>

definition put_nul :: "nat \<Rightarrow> ptr \<Rightarrow> u8 list \<Rightarrow> u8 list" where
  "put_nul n p b = b[n - length p := 0]"

fun nulterminate :: "nat \<Rightarrow> cmd \<Rightarrow> u8 list \<Rightarrow> u8 list" where
  "nulterminate n (EXEC args) b = fold (\<lambda>a. put_nul n (snd a)) args b"
| "nulterminate n (REDIR c f e mode fd) b = put_nul n e (nulterminate n c b)"
| "nulterminate n (PIPE l r) b = nulterminate n r (nulterminate n l b)"
| "nulterminate n (LIST l r) b = nulterminate n r (nulterminate n l b)"
| "nulterminate n (BACK c) b = nulterminate n c b"

definition str_at :: "nat \<Rightarrow> u8 list \<Rightarrow> ptr \<Rightarrow> u8 list" where
  "str_at n b p = cstr (drop (n - length p) b)"

section \<open>Running a command\<close>

definition panic_u :: "'w os \<Rightarrow> string \<Rightarrow> ('a, 'w) kern" where
  "panic_u os s = andthen (printf os 2 (text_of ''%s'' @ [10]) [sarg (text_of s)]) (exit_u os)"

definition fork1 :: "'w os \<Rightarrow> (int, 'w) kern" where
  "fork1 os = bind (os_fork os) (\<lambda>pid. if pid = -1 then panic_u os ''fork'' else return pid)"

definition parsecmd :: "'w os \<Rightarrow> u8 list \<Rightarrow> (cmd \<times> u8 list, 'w) kern" where
  "parsecmd os buf =
    (let line = cstr buf in
     case parseline (4 * length line + 4) line of
       Fuel \<Rightarrow> hang
     | Failed e \<Rightarrow> panic_u os e
     | Parsed cmd s \<Rightarrow>
         let s = snd (peek s []) in
         if s \<noteq> [] then andthen (printf os 2 (text_of ''leftovers: %s'' @ [10]) [sarg s]) (panic_u os ''syntax'')
         else return (cmd, nulterminate (length line) cmd buf))"

text \<open>\<open>n\<close> and \<open>b\<close> are the length of the line and the buffer after \<open>nulterminate\<close>, where the strings are.\<close>

fun runcmd :: "'w os \<Rightarrow> nat \<Rightarrow> u8 list \<Rightarrow> cmd \<Rightarrow> (unit, 'w) kern" where
  "runcmd os n b (EXEC args) =
    (if args = [] then exit_u os else
     andthen (os_exec os (str_at n b (fst (hd args))) (map (\<lambda>a. str_at n b (fst a)) args)) (
     andthen (printf os 2 (text_of ''exec %s failed'' @ [10]) [sarg (str_at n b (fst (hd args)))]) (
     exit_u os)))"
| "runcmd os n b (REDIR c f e mode fd) =
    andthen (os_close os fd) (
    bind (os_open os (str_at n b f) mode) (\<lambda>r.
    if r < 0 then andthen (printf os 2 (text_of ''open %s failed'' @ [10]) [sarg (str_at n b f)]) (exit_u os)
    else andthen (runcmd os n b c) (exit_u os)))"
| "runcmd os n b (LIST l r) =
    bind (fork1 os) (\<lambda>pid.
    andthen (whenk (pid = 0) (runcmd os n b l)) (
    andthen (os_wait os) (
    andthen (runcmd os n b r) (
    exit_u os))))"
| "runcmd os n b (PIPE l r) =
    bind (os_pipe os) (\<lambda>(res, p0, p1).
    andthen (whenk (res < 0) (panic_u os ''pipe'')) (
    bind (fork1 os) (\<lambda>pid.
    andthen (whenk (pid = 0) (
      andthen (os_close os 1) (andthen (os_dup os p1) (andthen (os_close os p0) (andthen (os_close os p1) (
      runcmd os n b l)))))) (
    bind (fork1 os) (\<lambda>pid.
    andthen (whenk (pid = 0) (
      andthen (os_close os 0) (andthen (os_dup os p0) (andthen (os_close os p0) (andthen (os_close os p1) (
      runcmd os n b r)))))) (
    andthen (os_close os p0) (
    andthen (os_close os p1) (
    andthen (os_wait os) (
    andthen (os_wait os) (
    exit_u os))))))))))"
| "runcmd os n b (BACK c) =
    bind (fork1 os) (\<lambda>pid.
    andthen (whenk (pid = 0) (runcmd os n b c)) (
    exit_u os))"

section \<open>The command loop\<close>

text \<open>\<open>getcmd\<close> returns the buffer of \<open>nbuf\<close> bytes and -1 at the end of the input.\<close>

definition getcmd :: "'w os \<Rightarrow> nat \<Rightarrow> (int \<times> u8 list, 'w) kern" where
  "getcmd os nbuf =
    andthen (printf os 2 (text_of ''$ '') []) (
    bind (gets_u os (int nbuf)) (\<lambda>bs.
    let buf = bs @ replicate (nbuf - length bs) 0 in
    return (if ch buf = 0 then -1 else 0, buf)))"

fun open_console :: "'w os \<Rightarrow> nat \<Rightarrow> (unit, 'w) kern" where
  "open_console os 0 = hang"
| "open_console os (Suc k) =
    bind (os_open os (text_of ''console'') O_RDWR) (\<lambda>fd.
    if fd < 0 then return ()
    else if fd \<ge> 3 then andthen (os_close os fd) (return ())
    else open_console os k)"

definition cd_name :: "u8 list \<Rightarrow> u8 list" where
  "cd_name buf = cstr (drop 3 (buf[length (cstr buf) - 1 := 0]))"

fun sh_loop :: "'w os \<Rightarrow> nat \<Rightarrow> (unit, 'w) kern" where
  "sh_loop os 0 = hang"
| "sh_loop os (Suc k) =
    bind (getcmd os 100) (\<lambda>(r, buf).
    if r < 0 then exit_u os
    else if buf ! 0 = 99 \<and> buf ! 1 = 100 \<and> buf ! 2 = 32 then
      bind (os_chdir os (cd_name buf)) (\<lambda>r.
      andthen (whenk (r < 0) (printf os 2 (text_of ''cannot cd %s'' @ [10]) [sarg (cd_name buf)]))
        (sh_loop os k))
    else
      bind (fork1 os) (\<lambda>pid.
      andthen (whenk (pid = 0) (bind (parsecmd os buf) (\<lambda>(c, b). runcmd os (length (cstr buf)) b c))) (
      andthen (os_wait os) (sh_loop os k))))"

definition sh_main :: "'w os \<Rightarrow> nat \<Rightarrow> (unit, 'w) kern" where
  "sh_main os fuel = andthen (open_console os fuel) (sh_loop os fuel)"

section \<open>What the parser returns\<close>

text \<open>A byte of a word, and a word of the line: its start and its end are pointers into it.\<close>

definition wordc :: "u8 \<Rightarrow> bool" where
  "wordc c \<longleftrightarrow> c \<noteq> 0 \<and> strchr whitespace c = None \<and> strchr symbols c = None"

definition word_of :: "ptr \<times> ptr \<Rightarrow> u8 list" where
  "word_of x = take (length (fst x) - length (snd x)) (fst x)"

definition token_ok :: "u8 list \<Rightarrow> ptr \<times> ptr \<Rightarrow> bool" where
  "token_ok line x \<longleftrightarrow> suffix (fst x) line \<and> (\<exists>w. fst x = w @ snd x \<and> w \<noteq> [] \<and> list_all wordc w) \<and>
     (snd x = [] \<or> \<not> wordc (hd (snd x)))"

fun tokens :: "cmd \<Rightarrow> (ptr \<times> ptr) list" where
  "tokens (EXEC args) = args"
| "tokens (REDIR c f e mode fd) = (f, e) # tokens c"
| "tokens (PIPE l r) = tokens l @ tokens r"
| "tokens (LIST l r) = tokens l @ tokens r"
| "tokens (BACK c) = tokens c"

text \<open>The line has no NUL; what is returned lies in it.\<close>

definition good :: "u8 list \<Rightarrow> cmd \<Rightarrow> ptr \<Rightarrow> bool" where
  "good line c s \<longleftrightarrow> suffix s line \<and> list_all (token_ok line) (tokens c)"

lemma skip_space_suffix: "suffix (skip_space s) s"
  by (induction s) (auto simp: suffix_Cons)

lemma skip_word_split: "0 \<notin> set s \<Longrightarrow> \<exists>w. s = w @ skip_word s \<and> list_all wordc w"
proof (induction s)
  case (Cons c s)
  then obtain w where w: "s = w @ skip_word s" "list_all wordc w" by auto
  show ?case
  proof (cases "strchr whitespace c = None \<and> strchr symbols c = None")
    case True
    then have "c # s = (c # w) @ skip_word (c # s)" "list_all wordc (c # w)" using w Cons.prems by (auto simp: wordc_def)
    then show ?thesis by blast
  next
    case False
    then have "skip_word (c # s) = c # s" by auto
    then show ?thesis by (intro exI [of _ "[]"]) simp
  qed
qed simp

lemma skip_word_stops: "skip_word s = [] \<or> \<not> wordc (hd (skip_word s))"
  by (induction s) (auto simp: wordc_def)

lemma lex_suffix: "suffix (snd (lex s)) s"
proof (cases s)
  case (Cons c u)
  have "suffix (skip_word v) v" for v by (induction v) (auto simp: suffix_Cons)
  then show ?thesis using Cons by (auto simp: lex_def suffix_Cons suffix_tl suffix_order.trans [OF suffix_tl])
qed (simp add: lex_def ch_def)

lemma suffix_zero: "suffix s line \<Longrightarrow> 0 \<notin> set line \<Longrightarrow> 0 \<notin> set s"
  by (auto simp: suffix_def)

lemma gettoken_suffix: "gettoken s = (tok, q, eq, s') \<Longrightarrow> suffix s' s"
proof -
  assume "gettoken s = (tok, q, eq, s')"
  then have "s' = skip_space (snd (lex (skip_space s)))" by (auto simp: gettoken_def Let_def split: prod.splits)
  then show ?thesis using skip_space_suffix lex_suffix suffix_order.trans by metis
qed

lemma gettoken_word:
  assumes "gettoken s = (97, q, eq, s')" "suffix s line" "0 \<notin> set line"
  shows "token_ok line (q, eq)"
proof -
  have q: "q = skip_space s" "lex q = (97, eq)" using assms(1) by (auto simp: gettoken_def Let_def split: prod.splits)
  have sq: "suffix q line" using q(1) skip_space_suffix assms(2) suffix_order.trans by metis
  then have z: "0 \<notin> set q" using suffix_zero assms(3) by blast
  have c: "ch q \<noteq> 0" "eq = skip_word q" "ch q \<notin> {124, 40, 41, 59, 38, 60, 62}"
    using q(2) by (auto simp: lex_def split: if_splits)
  then obtain d u where du: "q = d # u" by (cases q) (auto simp: ch_def)
  have "strchr whitespace d = None" using skip_space_ch [of s] c(1) unfolding q(1) [symmetric] du by (simp add: ch_def)
  moreover have "strchr symbols d = None" using c(3) du by (auto simp: ch_def symbols_def)
  ultimately have d: "skip_word q = skip_word u" using du by simp
  obtain w where w: "q = w @ eq" "list_all wordc w" using skip_word_split [OF z] c(2) by auto
  have "length eq \<le> length u" using d c(2) skip_le(2) [of u] by simp
  then have "w \<noteq> []" using w(1) du by auto
  then show ?thesis using w sq skip_word_stops [of q] c(2) unfolding token_ok_def by auto
qed

lemma peek_suffix: "peek s toks = (b, s') \<Longrightarrow> suffix s' s"
  by (auto simp: peek_def Let_def skip_space_suffix)

lemma good_suffix: "good line c s \<Longrightarrow> suffix s' s \<Longrightarrow> good line c s'"
  using suffix_order.trans by (auto simp: good_def)

lemma redir_good: "good line c s \<Longrightarrow> token_ok line (q, eq) \<Longrightarrow> good line (redir c tok q eq) s"
  by (auto simp: good_def redir_def)

lemma put_arg_good: "good line c s \<Longrightarrow> token_ok line (q, eq) \<Longrightarrow> good line (put_arg q eq c) s"
  unfolding good_def by (induction q eq c rule: put_arg.induct) auto

lemma parseredirs_good:
  "parseredirs c s = Parsed c' s' \<Longrightarrow> good line c s \<Longrightarrow> 0 \<notin> set line \<Longrightarrow> good line c' s'"
proof (induction c s arbitrary: c' s' rule: parseredirs.induct)
  case (1 cmd ps)
  obtain b s1 where p: "peek ps [60, 62] = (b, s1)" by (cases "peek ps [60, 62]")
  obtain tok q1 e1 s2 where g: "gettoken s1 = (tok, q1, e1, s2)" by (cases "gettoken s1")
  obtain t q eq s3 where h: "gettoken s2 = (t, q, eq, s3)" by (cases "gettoken s2")
  have g1: "good line cmd s1" using good_suffix [OF 1(3) peek_suffix [OF p]] .
  have g2: "good line cmd s2" using good_suffix [OF g1 gettoken_suffix [OF g]] .
  have g3: "good line cmd s3" using good_suffix [OF g2 gettoken_suffix [OF h]] .
  have "t = 97 \<Longrightarrow> good line (redir cmd tok q eq) s3"
    using redir_good [OF g3] gettoken_word [of s2 q eq s3 line] h g2 1(4) by (simp add: good_def)
  then show ?case
    using 1(2,4) 1(1) [OF p [symmetric] _ g [symmetric] refl refl h [symmetric] refl refl] g1
    by (subst (asm) parseredirs.simps) (auto simp: p g h split: if_splits)
qed

lemma parse_args_good:
  "parse_args c n s = Parsed c' s' \<Longrightarrow> good line c s \<Longrightarrow> 0 \<notin> set line \<Longrightarrow> good line c' s'"
proof (induction c n s arbitrary: c' s' rule: parse_args.induct)
  case (1 cmd n ps)
  obtain b s1 where p: "peek ps [124, 41, 38, 59] = (b, s1)" by (cases "peek ps [124, 41, 38, 59]")
  obtain tok q eq s2 where g: "gettoken s1 = (tok, q, eq, s2)" by (cases "gettoken s1")
  have g1: "good line cmd s1" using good_suffix [OF 1(3) peek_suffix [OF p]] .
  have g2: "good line cmd s2" using good_suffix [OF g1 gettoken_suffix [OF g]] .
  have "tok = 97 \<Longrightarrow> good line (put_arg q eq cmd) s2"
    using put_arg_good [OF g2] gettoken_word [of s1 q eq s2 line] g g1 1(4) by (simp add: good_def)
  then show ?case
    using 1(2,4) 1(1) [OF p [symmetric] _ g [symmetric] refl refl] g1 g2
      parseredirs_good [of "put_arg q eq cmd" s2 _ _ line]
    by (subst (asm) parse_args.simps)
      (cases "parseredirs (put_arg q eq cmd) s2"; auto simp: p g split: if_splits)
qed

lemma parse_backs_good: "parse_backs c s = (c', s') \<Longrightarrow> good line c s \<Longrightarrow> good line c' s'"
proof (induction c s arbitrary: c' s' rule: parse_backs.induct)
  case (1 cmd ps)
  obtain b s1 where p: "peek ps [38] = (b, s1)" by (cases "peek ps [38]")
  obtain tok q eq s2 where g: "gettoken s1 = (tok, q, eq, s2)" by (cases "gettoken s1")
  have g1: "good line cmd s1" using good_suffix [OF 1(3) peek_suffix [OF p]] .
  have "good line (BACK cmd) s2" using good_suffix [OF g1 gettoken_suffix [OF g]] by (simp add: good_def)
  then show ?case
    using 1(2) 1(1) [OF p [symmetric] _ g [symmetric] refl refl] g1
    by (subst (asm) parse_backs.simps) (auto simp: p g split: if_splits)
qed

lemma good_two: "good line l s \<Longrightarrow> good line r s' \<Longrightarrow> good line (PIPE l r) s' \<and> good line (LIST l r) s'"
  by (simp add: good_def)

lemma pbind_Parsed: "pbind m f = Parsed x s \<longleftrightarrow> (\<exists>y t. m = Parsed y t \<and> f y t = Parsed x s)"
  by (cases m) auto

lemma pbind_Fuel: "pbind m f = Fuel \<longleftrightarrow> m = Fuel \<or> (\<exists>y t. m = Parsed y t \<and> f y t = Fuel)"
  by (cases m) auto

definition returns_good :: "u8 list \<Rightarrow> cmd parse \<Rightarrow> bool" where
  "returns_good line m \<longleftrightarrow> (\<forall>c s. m = Parsed c s \<longrightarrow> good line c s)"

lemma returns_pbind:
  "returns_good line m \<Longrightarrow> (\<And>c s. good line c s \<Longrightarrow> returns_good line (f c s)) \<Longrightarrow> returns_good line (pbind m f)"
  by (auto simp: returns_good_def pbind_Parsed)

lemma returns_simps: "returns_good line (Parsed c s) \<longleftrightarrow> good line c s" "returns_good line (Failed e)" "returns_good line Fuel"
  by (simp_all add: returns_good_def)

lemma good_peek: "good line c s \<Longrightarrow> peek s toks = (b, s') \<Longrightarrow> good line c s'"
  using good_suffix peek_suffix by blast

lemma good_gettoken: "good line c s \<Longrightarrow> gettoken s = (t, q, e, s') \<Longrightarrow> good line c s'"
  using good_suffix gettoken_suffix by blast

lemma parser_good:
  assumes z: "0 \<notin> set line"
  shows "suffix ps line \<Longrightarrow> returns_good line (parseline k ps)"
    "suffix ps line \<Longrightarrow> returns_good line (parsepipe k ps)"
    "suffix ps line \<Longrightarrow> returns_good line (parseblock k ps)"
    "suffix ps line \<Longrightarrow> returns_good line (parseexec k ps)"
proof (induction k arbitrary: ps)
  case (Suc k)
  { case 1
    show ?case unfolding parseline.simps
    proof (rule returns_pbind [OF Suc.IH(2) [OF 1]])
      fix c s1 assume g: "good line c s1"
      obtain c2 s2 where b: "parse_backs c s1 = (c2, s2)" by (cases "parse_backs c s1")
      obtain p s3 where p: "peek s2 [59] = (p, s3)" by (cases "peek s2 [59]")
      obtain t q e s4 where t: "gettoken s3 = (t, q, e, s4)" by (cases "gettoken s3")
      note g2 = parse_backs_good [OF b g]
      note g3 = good_peek [OF g2 p]
      have "suffix s4 line" using good_gettoken [OF g3 t] by (simp add: good_def)
      then show "returns_good line (case parse_backs c s1 of (cmd, s2) \<Rightarrow> case peek s2 [59] of (b, s3) \<Rightarrow>
          if b then case gettoken s3 of (_, _, _, s4) \<Rightarrow> pbind (parseline k s4) (\<lambda>r s5. Parsed (LIST cmd r) s5) else Parsed cmd s3)"
        using g3 good_two [OF g2] Suc.IH(1) by (auto simp: b p t returns_simps intro!: returns_pbind)
    qed }
  { case 2
    show ?case unfolding parsepipe.simps
    proof (rule returns_pbind [OF Suc.IH(4) [OF 2]])
      fix c s1 assume g: "good line c s1"
      obtain p s3 where p: "peek s1 [124] = (p, s3)" by (cases "peek s1 [124]")
      obtain t q e s4 where t: "gettoken s3 = (t, q, e, s4)" by (cases "gettoken s3")
      note g3 = good_peek [OF g p]
      have "suffix s4 line" using good_gettoken [OF g3 t] by (simp add: good_def)
      then show "returns_good line (case peek s1 [124] of (b, s2) \<Rightarrow>
          if b then case gettoken s2 of (_, _, _, s3) \<Rightarrow> pbind (parsepipe k s3) (\<lambda>r s4. Parsed (PIPE c r) s4) else Parsed c s2)"
        using g3 good_two [OF g] Suc.IH(2) by (auto simp: p t returns_simps intro!: returns_pbind)
    qed }
  { case 3
    obtain b s1 where p: "peek ps [40] = (b, s1)" by (cases "peek ps [40]")
    obtain t q e s2 where t: "gettoken s1 = (t, q, e, s2)" by (cases "gettoken s1")
    have s2: "suffix s2 line" using 3 peek_suffix [OF p] gettoken_suffix [OF t] suffix_order.trans by metis
    have "returns_good line (case peek s3 [41] of (b, s4) \<Rightarrow> if \<not> b then Failed ''syntax - missing )'' else
       case gettoken s4 of (_, _, _, s5) \<Rightarrow> parseredirs c s5)" if g: "good line c s3" for c s3
    proof -
      obtain b4 s4 where p4: "peek s3 [41] = (b4, s4)" by (cases "peek s3 [41]")
      obtain t q e s5 where t5: "gettoken s4 = (t, q, e, s5)" by (cases "gettoken s4")
      show ?thesis using parseredirs_good [OF _ good_gettoken [OF good_peek [OF g p4] t5] z]
        by (auto simp: p4 t5 returns_simps) (auto simp: returns_good_def)
    qed
    then show ?case using Suc.IH(1) [OF s2] by (auto simp: p t returns_simps intro!: returns_pbind) }
  { case 4
    obtain b s1 where p: "peek ps [40] = (b, s1)" by (cases "peek ps [40]")
    have s1: "suffix s1 line" using 4 peek_suffix [OF p] suffix_order.trans by metis
    then have e: "good line (EXEC []) s1" by (simp add: good_def)
    have "returns_good line (pbind (parseredirs (EXEC []) s1) (\<lambda>ret s2. parse_args ret 0 s2))"
      using parseredirs_good [OF _ e z] parse_args_good [OF _ _ z] by (intro returns_pbind) (auto simp: returns_good_def)
    then show ?case using Suc.IH(3) [OF s1] by (simp add: p) }
qed (simp_all add: returns_simps)

lemma parse_le:
  assumes "0 \<notin> set s"
  shows "parseline k s = Parsed c s' \<Longrightarrow> length s' \<le> length s" "parsepipe k s = Parsed c s' \<Longrightarrow> length s' \<le> length s"
    "parseexec k s = Parsed c s' \<Longrightarrow> length s' \<le> length s"
  using parser_good [OF assms suffix_order.refl, of k] unfolding returns_good_def good_def
  by (auto dest!: suffix_length_le)

lemma parse_backs_le: "parse_backs c s = (c', s') \<Longrightarrow> length s' \<le> length s"
proof (induction c s arbitrary: c' s' rule: parse_backs.induct)
  case (1 cmd ps)
  obtain b s1 where p: "peek ps [38] = (b, s1)" by (cases "peek ps [38]")
  obtain tok q eq s2 where g: "gettoken s1 = (tok, q, eq, s2)" by (cases "gettoken s1")
  show ?case
    using 1(2) 1(1) [OF p [symmetric] _ g [symmetric] refl refl] peek_le [OF p] gettoken_le(1) [OF g]
    by (subst (asm) parse_backs.simps) (auto simp: p g split: if_splits dest: le_trans)
qed

lemma redirs_not_fuel: "parseredirs c s \<noteq> Fuel"
proof (induction c s rule: parseredirs.induct)
  case (1 cmd ps)
  then show ?case by (subst parseredirs.simps) (auto split: prod.splits)
qed

lemma args_not_fuel: "parse_args c n s \<noteq> Fuel"
proof (induction c n s rule: parse_args.induct)
  case (1 c n ps)
  then show ?case by (subst parse_args.simps) (auto simp: pbind_Fuel redirs_not_fuel split: prod.splits)
qed

text \<open>Four levels for each byte that is left.\<close>

lemma parser_fuel:
  assumes "0 \<notin> set line"
  shows "suffix ps line \<Longrightarrow> 4 * length ps + 4 \<le> k \<Longrightarrow> parseline k ps \<noteq> Fuel"
    "suffix ps line \<Longrightarrow> 4 * length ps + 3 \<le> k \<Longrightarrow> parsepipe k ps \<noteq> Fuel"
    "suffix ps line \<Longrightarrow> 4 * length ps + 1 \<le> k \<Longrightarrow> parseblock k ps \<noteq> Fuel"
    "suffix ps line \<Longrightarrow> 4 * length ps + 2 \<le> k \<Longrightarrow> parseexec k ps \<noteq> Fuel"
proof (induction k arbitrary: ps)
  case (Suc k)
  have z: "0 \<notin> set ps" if "suffix ps line" for ps using suffix_zero that assms by blast
  have next_tok: "suffix s3 line \<and> length s3 < length s" if "suffix s line" "peek s toks = (True, s2)" "gettoken s2 = (t, q, e, s3)" for s toks s2 t q e s3
    using that peek_gettoken peek_suffix gettoken_suffix suffix_order.trans by metis
  { case 1
    have P: "parsepipe k ps \<noteq> Fuel" using 1 by (intro Suc.IH(2)) simp_all
    have "parseline k s4 \<noteq> Fuel" if "parsepipe k ps = Parsed c s1" "parse_backs c s1 = (c2, s2)" "peek s2 [59] = (True, s3)"
      "gettoken s3 = (t, q, e, s4)" for c s1 c2 s2 s3 t q e s4
    proof -
      have "good line c s1" using parser_good(2) [OF assms 1(1), of k] that(1) by (simp add: returns_good_def)
      then have "suffix s2 line" using parse_backs_good [OF that(2)] by (auto simp: good_def)
      then have "suffix s4 line" "length s4 < length s2" using next_tok that(3,4) by blast+
      then show ?thesis using Suc.IH(1) [of s4] parse_le(2) [OF z [OF 1(1)] that(1)] parse_backs_le [OF that(2)] 1(2) by simp
    qed
    then show ?case using P by (auto simp: pbind_Fuel split: prod.splits if_splits) }
  { case 2
    have P: "parseexec k ps \<noteq> Fuel" using 2 by (intro Suc.IH(4)) simp_all
    have "parsepipe k s3 \<noteq> Fuel" if "parseexec k ps = Parsed c s1" "peek s1 [124] = (True, s2)" "gettoken s2 = (t, q, e, s3)"
      for c s1 s2 t q e s3
    proof -
      have "suffix s1 line" using parser_good(4) [OF assms 2(1), of k] that(1) by (simp add: returns_good_def good_def)
      then have "suffix s3 line" "length s3 < length s1" using next_tok that(2,3) by blast+
      then show ?thesis using Suc.IH(2) [of s3] parse_le(3) [OF z [OF 2(1)] that(1)] 2(2) by simp
    qed
    then show ?case using P by (auto simp: pbind_Fuel split: prod.splits if_splits) }
  { case 3
    have "parseline k s2 \<noteq> Fuel" if "peek ps [40] = (True, s1)" "gettoken s1 = (t, q, e, s2)" for s1 t q e s2
      using Suc.IH(1) [of s2] next_tok [OF 3(1) that] 3(2) by simp
    then show ?case using redirs_not_fuel by (auto simp: pbind_Fuel split: prod.splits if_splits) }
  { case 4
    have "parseblock k s1 \<noteq> Fuel" if "peek ps [40] = (b, s1)" for b s1
      using Suc.IH(3) [of s1] peek_suffix [OF that] peek_le [OF that] 4 suffix_order.trans by fastforce
    then show ?case using redirs_not_fuel args_not_fuel by (auto simp: pbind_Fuel split: prod.splits if_splits) }
qed simp_all

definition extends :: "'a parse \<Rightarrow> 'a parse \<Rightarrow> bool" where
  "extends a b \<longleftrightarrow> a = Fuel \<or> a = b"

lemma extends_refl [simp]: "extends a a" by (simp add: extends_def)

lemma extends_pbind: "extends m m' \<Longrightarrow> (\<And>x s. extends (f x s) (f' x s)) \<Longrightarrow> extends (pbind m f) (pbind m' f')"
proof (cases m)
  case (Parsed x s)
  assume "extends m m'" "\<And>x s. extends (f x s) (f' x s)"
  from this(1) this(2) [of x s] show ?thesis using Parsed by (auto simp: extends_def)
qed (auto simp: extends_def)

lemma parser_extends:
  "k \<le> j \<Longrightarrow> extends (parseline k ps) (parseline j ps)" "k \<le> j \<Longrightarrow> extends (parsepipe k ps) (parsepipe j ps)"
  "k \<le> j \<Longrightarrow> extends (parseblock k ps) (parseblock j ps)" "k \<le> j \<Longrightarrow> extends (parseexec k ps) (parseexec j ps)"
proof (induction k arbitrary: ps j)
  case (Suc k)
  have "\<exists>i. j = Suc i \<and> k \<le> i" if "Suc k \<le> j" for j using that by (cases j) auto
  note S = this and IH = Suc.IH
  { case 1
    then obtain i where i: "j = Suc i" "k \<le> i" using S by blast
    show ?case unfolding i(1) parseline.simps
      by (rule extends_pbind [OF IH(2) [OF i(2)]]) (auto intro: extends_pbind IH(1) [OF i(2)] split: prod.split) }
  { case 2
    then obtain i where i: "j = Suc i" "k \<le> i" using S by blast
    show ?case unfolding i(1) parsepipe.simps
      by (rule extends_pbind [OF IH(4) [OF i(2)]]) (auto intro: extends_pbind IH(2) [OF i(2)] split: prod.split) }
  { case 3
    then obtain i where i: "j = Suc i" "k \<le> i" using S by blast
    show ?case unfolding i(1) parseblock.simps by (auto intro: extends_pbind IH(1) [OF i(2)] split: prod.split) }
  { case 4
    then obtain i where i: "j = Suc i" "k \<le> i" using S by blast
    show ?case unfolding i(1) parseexec.simps by (auto intro: IH(3) [OF i(2)] split: prod.split) }
qed (simp_all add: extends_def)

lemma parseline_more: "parseline k s \<noteq> Fuel \<Longrightarrow> k \<le> j \<Longrightarrow> parseline j s = parseline k s"
  using parser_extends(1) [of k j s] by (auto simp: extends_def)

section \<open>The strings of a command\<close>

datatype scmd =
    SExec "u8 list list"
  | SRedir scmd "u8 list" u32 int
  | SPipe scmd scmd
  | SList scmd scmd
  | SBack scmd

text \<open>The command with the words of the line, and with the strings found in the buffer \<open>b\<close> at run time.\<close>

fun with_words :: "(ptr \<times> ptr \<Rightarrow> u8 list) \<Rightarrow> cmd \<Rightarrow> scmd" where
  "with_words f (EXEC args) = SExec (map f args)"
| "with_words f (REDIR c q e mode fd) = SRedir (with_words f c) (f (q, e)) mode fd"
| "with_words f (PIPE l r) = SPipe (with_words f l) (with_words f r)"
| "with_words f (LIST l r) = SList (with_words f l) (with_words f r)"
| "with_words f (BACK c) = SBack (with_words f c)"

lemma with_words_cong: "(\<And>x. x \<in> set (tokens c) \<Longrightarrow> f x = g x) \<Longrightarrow> with_words f c = with_words g c"
  by (induction c) auto

text \<open>The addresses that \<open>nulterminate\<close> writes.\<close>

definition ends :: "nat \<Rightarrow> cmd \<Rightarrow> nat set" where
  "ends n c = (\<lambda>x. n - length (snd x)) ` set (tokens c)"

lemma nth_upd_nul: "j < length b \<Longrightarrow> b[i := x] ! j = (if i = j then x else b ! j)"
  by (cases "i = j") simp_all

lemma put_nuls: "length (fold (\<lambda>a. put_nul n (snd a)) args b) = length b"
  "i < length b \<Longrightarrow> fold (\<lambda>a. put_nul n (snd a)) args b ! i = (if i \<in> (\<lambda>x. n - length (snd x)) ` set args then 0 else b ! i)"
  by (induction args arbitrary: b) (auto simp: put_nul_def nth_upd_nul)

lemma nulterminate_nth:
  "length (nulterminate n c b) = length b"
  "i < length b \<Longrightarrow> nulterminate n c b ! i = (if i \<in> ends n c then 0 else b ! i)"
  by (induction n c b arbitrary: i rule: nulterminate.induct) (auto simp: put_nuls ends_def put_nul_def nth_upd_nul)

lemma cstr_exact: "list_all (\<lambda>c. c \<noteq> 0) w \<Longrightarrow> cstr (w @ 0 # r) = w"
  by (induction w) (auto simp: cstr_def)

lemma token_string:
  assumes c: "list_all (token_ok line) (tokens c)" and x: "(q, e) \<in> set (tokens c)" and z: "0 \<notin> set line"
  shows "str_at (length line) (nulterminate (length line) c (line @ 0 # r)) q = word_of (q, e)"
proof -
  let ?n = "length line" and ?b = "line @ 0 # r"
  let ?b' = "nulterminate ?n c ?b"
  have ok: "token_ok line y" if "y \<in> set (tokens c)" for y using c that by (simp add: list_all_iff)
  obtain w where w: "q = w @ e" "w \<noteq> []" "list_all wordc w" "suffix q line" using ok [OF x] by (auto simp: token_ok_def)
  then obtain p where p: "line = p @ w @ e" by (auto simp: suffix_def)
  have word: "wordc (line ! i)" if "length p \<le> i" "i < length p + length w" for i
  proof -
    have "i - length p < length w" using that by linarith
    then show ?thesis using that w(3) by (simp add: p nth_append list_all_length)
  qed
  have notend: "i \<notin> ends ?n c" if i: "length p \<le> i" "i < length p + length w" for i
  proof
    assume "i \<in> ends ?n c"
    then obtain y where y: "y \<in> set (tokens c)" "i = ?n - length (snd y)" by (auto simp: ends_def)
    obtain v where v: "fst y = v @ snd y" "suffix (fst y) line" "snd y = [] \<or> \<not> wordc (hd (snd y))"
      using ok [OF y(1)] by (auto simp: token_ok_def)
    then obtain p' where p': "line = p' @ v @ snd y" by (auto simp: suffix_def)
    have "i < ?n" using i(2) p by simp
    then have ne: "snd y \<noteq> []" using y(2) by auto
    have "i = length (p' @ v)" using y(2) p' by (metis add_diff_cancel_right' append.assoc length_append)
    then have "line ! i = hd (snd y)" using ne p' by (metis append.assoc hd_conv_nth nth_append_length_plus add_0_right)
    then show False using word [OF i] v(3) ne by simp
  qed
  have own: "length p + length w \<in> ends ?n c"
    using x by (auto simp: ends_def p image_iff intro!: bexI [of _ "(q, e)"])
  have len: "length ?b' = length ?b" by (rule nulterminate_nth)
  have "take (length w) (drop (length p) ?b') = w"
  proof (rule nth_equalityI)
    show "length (take (length w) (drop (length p) ?b')) = length w" using len p by simp
    show "take (length w) (drop (length p) ?b') ! i = w ! i" if "i < length (take (length w) (drop (length p) ?b'))" for i
    proof -
      have i: "i < length w" using that by simp
      then have "?b' ! (length p + i) = ?b ! (length p + i)"
        using nulterminate_nth(2) [of "length p + i" ?b ?n c] notend [of "length p + i"] p by simp
      also have "\<dots> = w ! i" using i by (simp add: p nth_append)
      finally show ?thesis using i len p by simp
    qed
  qed
  moreover have "?b' ! (length p + length w) = 0"
    using nulterminate_nth(2) [of "length p + length w" ?b ?n c] own p by simp
  then have "drop (length p + length w) ?b' = 0 # drop (Suc (length p + length w)) ?b'"
    using len p by (subst Cons_nth_drop_Suc [symmetric]) auto
  ultimately have "drop (length p) ?b' = w @ 0 # drop (Suc (length p + length w)) ?b'"
    by (metis append_take_drop_id drop_drop add.commute)
  moreover have "list_all (\<lambda>c. c \<noteq> 0) w" using w(3) by (auto simp: list_all_iff wordc_def)
  moreover have "?n - length q = length p" using p w(1) by simp
  ultimately show ?thesis using cstr_exact w(1) by (simp add: str_at_def word_of_def)
qed

section \<open>Writing a command\<close>

text \<open>The line for a command, with parentheses where the grammar needs them.\<close>

fun lvl :: "scmd \<Rightarrow> nat" where
  "lvl (SExec ws) = 0"
| "lvl (SRedir c f mode fd) = 0"
| "lvl (SPipe l r) = 1"
| "lvl (SBack c) = 2"
| "lvl (SList l r) = 3"

definition paren :: "nat \<Rightarrow> scmd \<Rightarrow> u8 list \<Rightarrow> u8 list" where
  "paren n c x = (if lvl c \<le> n then x else 40 # x @ [41])"

definition show_redir :: "u8 list \<times> u32 \<times> int \<Rightarrow> u8 list" where
  "show_redir x = (case x of (f, mode, fd) \<Rightarrow> (if fd = 0 then 60 else 62) # f @ [32])"

definition show_words :: "u8 list list \<Rightarrow> u8 list" where
  "show_words ws = concat (map (\<lambda>w. w @ [32]) ws)"

fun show_cmd :: "scmd \<Rightarrow> u8 list" where
  "show_cmd (SExec ws) = show_words ws"
| "show_cmd (SRedir c f mode fd) = paren 0 c (show_cmd c) @ show_redir (f, mode, fd)"
| "show_cmd (SPipe l r) = paren 0 l (show_cmd l) @ 124 # paren 1 r (show_cmd r)"
| "show_cmd (SBack c) = paren 2 c (show_cmd c) @ [38]"
| "show_cmd (SList l r) = paren 2 l (show_cmd l) @ 59 # show_cmd r"

definition word_ok :: "u8 list \<Rightarrow> bool" where
  "word_ok w \<longleftrightarrow> w \<noteq> [] \<and> list_all wordc w"

definition redir_ok :: "u8 list \<times> u32 \<times> int \<Rightarrow> bool" where
  "redir_ok x = (case x of (f, mode, fd) \<Rightarrow> word_ok f \<and> (mode = O_RDONLY \<and> fd = 0 \<or> mode = O_WRONLY OR O_CREATE \<and> fd = 1))"

fun scmd_ok :: "scmd \<Rightarrow> bool" where
  "scmd_ok (SExec ws) = (list_all word_ok ws \<and> length ws < MAXARGS)"
| "scmd_ok (SRedir c f mode fd) = (scmd_ok c \<and> redir_ok (f, mode, fd))"
| "scmd_ok (SPipe l r) = (scmd_ok l \<and> scmd_ok r)"
| "scmd_ok (SBack c) = scmd_ok c"
| "scmd_ok (SList l r) = (scmd_ok l \<and> scmd_ok r)"

section \<open>Reading it back\<close>

lemma ch_Cons [simp]: "ch (c # s) = c" "ch [] = 0" by (simp_all add: ch_def)

lemma wordc_sym: "wordc c \<Longrightarrow> strchr whitespace c = None \<and> strchr symbols c = None \<and> c \<noteq> 0 \<and>
  c \<noteq> 60 \<and> c \<noteq> 124 \<and> c \<noteq> 62 \<and> c \<noteq> 38 \<and> c \<noteq> 59 \<and> c \<noteq> 40 \<and> c \<noteq> 41"
  by (auto simp: wordc_def symbols_def)

lemma skip_word_app: "list_all wordc w \<Longrightarrow> s = [] \<or> \<not> wordc (hd s) \<and> hd s \<noteq> 0 \<Longrightarrow> skip_word (w @ s) = s"
proof (induction w)
  case Nil then show ?case by (cases s) (auto simp: wordc_def)
qed (auto simp: wordc_def)

lemma sym_facts [simp]: "strchr whitespace 32 = Some 0" "strchr whitespace 60 = None" "strchr whitespace 124 = None"
  "strchr whitespace 62 = None" "strchr whitespace 38 = None" "strchr whitespace 59 = None" "strchr whitespace 40 = None"
  "strchr whitespace 41 = None" "\<not> wordc 32"
  by (simp_all add: whitespace_def wordc_def)

lemma gettoken_wordsp:
  assumes "word_ok w"
  shows "gettoken (w @ 32 # s) = (97, w @ 32 # s, 32 # s, skip_space s)"
proof -
  obtain c u where w: "w = c # u" "wordc c" "list_all wordc w" using assms by (cases w) (auto simp: word_ok_def)
  note c = wordc_sym [OF w(2)]
  have "skip_space (w @ 32 # s) = w @ 32 # s" using c by (simp add: w(1))
  moreover have "skip_word (w @ 32 # s) = 32 # s" using skip_word_app [OF w(3), of "32 # s"] by simp
  then have "lex (w @ 32 # s) = (97, 32 # s)" using c w(1) by (auto simp: lex_def)
  ultimately show ?thesis by (simp add: gettoken_def Let_def)
qed

lemma gettoken_sym:
  assumes "c \<in> {124, 40, 41, 59, 38, 60}"
  shows "gettoken (c # s) = (c, c # s, s, skip_space s)"
proof -
  have "strchr whitespace c = None" "c \<noteq> 0" using assms by auto
  then have "skip_space (c # s) = c # s" "lex (c # s) = (c, s)" using assms by (simp, simp only: lex_def ch_Cons list.sel if_False if_True)
  then show ?thesis by (simp only: gettoken_def Let_def prod.case)
qed

lemma gettoken_gt:
  assumes "ch s \<noteq> 62"
  shows "gettoken (62 # s) = (62, 62 # s, s, skip_space s)"
proof -
  have "lex (62 # s) = (62, s)" using assms by (simp add: lex_def)
  then show ?thesis by (simp add: gettoken_def)
qed

lemma peek_skip: "peek (skip_space s) toks = peek s toks" by (simp add: peek_def)

lemma strchr_iff: "0 \<notin> set s \<Longrightarrow> strchr s c = None \<longleftrightarrow> c \<notin> set s"
  by (induction s c rule: strchr.induct) auto

lemma peek_eq: "0 \<notin> set toks \<Longrightarrow> peek s toks = (ch (skip_space s) \<in> set toks, skip_space s)"
  by (auto simp: peek_def Let_def strchr_iff)

lemma skip_word_start: "word_ok w \<Longrightarrow> skip_space (w @ s) = w @ s \<and> wordc (ch (w @ s))"
  using wordc_sym by (cases w) (auto simp: word_ok_def)

lemma parseredirs_skip: "parseredirs c (skip_space s) = parseredirs c s"
  by (subst (1 2) parseredirs.simps) (simp add: peek_skip)

lemma parse_args_skip: "parse_args c n (skip_space s) = parse_args c n s"
  by (subst (1 2) parse_args.simps) (simp add: peek_skip)

lemma parse_backs_skip: "parse_backs c (skip_space s) = parse_backs c s"
  by (subst (1 2) parse_backs.simps) (simp add: peek_skip)

lemma parser_skip:
  "parseexec k (skip_space s) = parseexec k s" "parsepipe k (skip_space s) = parsepipe k s" "parseline k (skip_space s) = parseline k s"
proof -
  show E: "parseexec k (skip_space s) = parseexec k s" for k by (cases k) (simp_all add: peek_skip)
  then show P: "parsepipe k (skip_space s) = parsepipe k s" for k by (cases k) simp_all
  then show "parseline k (skip_space s) = parseline k s" by (cases k) simp_all
qed

abbreviation redirs :: "scmd \<Rightarrow> (u8 list \<times> u32 \<times> int) list \<Rightarrow> scmd" where
  "redirs c rs \<equiv> foldl (\<lambda>c (f, mode, fd). SRedir c f mode fd) c rs"

abbreviation show_redirs :: "(u8 list \<times> u32 \<times> int) list \<Rightarrow> u8 list" where
  "show_redirs rs \<equiv> concat (map show_redir rs)"

lemma parse_redirs:
  "list_all redir_ok rs \<Longrightarrow> ch (skip_space rest) \<notin> {60, 62} \<Longrightarrow>
   \<exists>c'. parseredirs c (show_redirs rs @ rest) = Parsed c' (skip_space rest) \<and> with_words word_of c' = redirs (with_words word_of c) rs"
proof (induction rs arbitrary: c)
  case Nil
  then show ?case by (subst parseredirs.simps) (simp add: peek_eq)
next
  case (Cons x rs)
  obtain f mode fd where x: "x = (f, mode, fd)" by (cases x)
  have f: "word_ok f" "mode = O_RDONLY \<and> fd = 0 \<or> mode = O_WRONLY OR O_CREATE \<and> fd = 1"
    using Cons.prems(1) x by (auto simp: redir_ok_def)
  let ?r = "show_redirs rs @ rest"
  define t :: u8 where "t = (if fd = 0 then 60 else 62)"
  have t: "t \<in> {60, 62}" "strchr whitespace t = None" by (auto simp: t_def)
  have s: "show_redirs (x # rs) @ rest = t # f @ 32 # ?r" by (simp add: x t_def show_redir_def)
  have nz: "ch (f @ 32 # ?r) \<noteq> 62" using skip_word_start [OF f(1)] wordc_sym by blast
  have g: "gettoken (t # f @ 32 # ?r) = (t, t # f @ 32 # ?r, f @ 32 # ?r, f @ 32 # ?r)"
    using gettoken_sym [of 60 "f @ 32 # ?r"] gettoken_gt [OF nz] skip_word_start [OF f(1)] t by auto
  have "parseredirs c (t # f @ 32 # ?r) = parseredirs (redir c t (f @ 32 # ?r) (32 # ?r)) (skip_space ?r)"
    using t by (subst parseredirs.simps) (simp add: peek_eq g gettoken_wordsp [OF f(1)])
  moreover have "redir c t (f @ 32 # ?r) (32 # ?r) = REDIR c (f @ 32 # ?r) (32 # ?r) mode fd"
    using f(2) by (auto simp: redir_def t_def)
  ultimately show ?case
    using Cons.IH [of "REDIR c (f @ 32 # ?r) (32 # ?r) mode fd"] Cons.prems
    unfolding s parseredirs_skip by (auto simp: x word_of_def)
qed

lemma parse_exec_words:
  "list_all word_ok ws \<Longrightarrow> list_all redir_ok rs \<Longrightarrow> ch (skip_space rest) \<in> {0, 124, 41, 38, 59} \<Longrightarrow> argc + length ws < MAXARGS \<Longrightarrow>
   \<exists>c'. pbind (parseredirs (EXEC args) (show_words ws @ show_redirs rs @ rest)) (\<lambda>ret s. parse_args ret argc s) = Parsed c' (skip_space rest) \<and>
     with_words word_of c' = redirs (SExec (map word_of args @ ws)) rs"
proof (induction ws arbitrary: argc args)
  case Nil
  have r: "ch (skip_space rest) \<notin> {60, 62}" using Nil.prems(3) by auto
  obtain c' where c: "parseredirs (EXEC args) (show_redirs rs @ rest) = Parsed c' (skip_space rest)"
    "with_words word_of c' = redirs (SExec (map word_of args)) rs" using parse_redirs [OF Nil.prems(2) r, of "EXEC args"] by auto
  have "parse_args c' argc (skip_space rest) = Parsed c' (skip_space rest)"
  proof (cases "ch (skip_space rest) = 0")
    case True
    then have "gettoken (skip_space rest) = (0, skip_space rest, skip_space rest, skip_space rest)"
      by (simp add: gettoken_def lex_def Let_def)
    then show ?thesis using True by (subst parse_args.simps) (simp add: peek_eq)
  next
    case False
    then show ?thesis using Nil.prems(3) by (subst parse_args.simps) (auto simp: peek_eq)
  qed
  then show ?case using c by (auto simp: show_words_def)
next
  case (Cons w ws)
  let ?r = "show_words ws @ show_redirs rs @ rest"
  have w: "word_ok w" using Cons.prems(1) by simp
  have s: "show_words (w # ws) @ show_redirs rs @ rest = w @ 32 # ?r" by (simp add: show_words_def)
  have st: "skip_space (w @ 32 # ?r) = w @ 32 # ?r" "wordc (ch (w @ 32 # ?r))" using skip_word_start [OF w, of "32 # ?r"] by auto
  note sy = wordc_sym [OF st(2)]
  have "parseredirs (EXEC args) (w @ 32 # ?r) = Parsed (EXEC args) (w @ 32 # ?r)"
    using st sy by (subst parseredirs.simps) (simp add: peek_eq)
  moreover have "parse_args (EXEC args) argc (w @ 32 # ?r) =
      pbind (parseredirs (EXEC (args @ [(w @ 32 # ?r, 32 # ?r)])) (skip_space ?r)) (\<lambda>ret s. parse_args ret (argc + 1) s)"
    using st sy gettoken_wordsp [OF w, of ?r] Cons.prems(4) by (subst parse_args.simps) (simp add: peek_eq)
  ultimately show ?case
    using Cons.IH [of "argc + 1" "args @ [(w @ 32 # ?r, 32 # ?r)]"] Cons.prems
    unfolding s parseredirs_skip by (simp add: word_of_def)
qed

text \<open>What each level of the grammar reads, when enough fuel is left; \<open>rest\<close> is what follows it in the line.\<close>

definition reads_exec :: "scmd \<Rightarrow> bool" where
  "reads_exec c \<longleftrightarrow> (\<forall>rs rest. list_all redir_ok rs \<longrightarrow> ch (skip_space rest) \<in> {0, 124, 41, 38, 59} \<longrightarrow>
     (\<exists>K c'. (\<forall>k\<ge>K. parseexec k (paren 0 c (show_cmd c) @ show_redirs rs @ rest) = Parsed c' (skip_space rest)) \<and>
        with_words word_of c' = redirs c rs))"

definition reads_pipe :: "scmd \<Rightarrow> bool" where
  "reads_pipe c \<longleftrightarrow> (\<forall>rest. ch (skip_space rest) \<in> {0, 41, 38, 59} \<longrightarrow>
     (\<exists>K c'. (\<forall>k\<ge>K. parsepipe k (paren 1 c (show_cmd c) @ rest) = Parsed c' (skip_space rest)) \<and> with_words word_of c' = c))"

definition reads_back :: "scmd \<Rightarrow> bool" where
  "reads_back c \<longleftrightarrow> (\<forall>n rest. ch (skip_space rest) \<in> {0, 41, 59} \<longrightarrow>
     (\<exists>K c' s c''. (\<forall>k\<ge>K. parsepipe k (paren 2 c (show_cmd c) @ replicate n 38 @ rest) = Parsed c' s) \<and>
        parse_backs c' s = (c'', skip_space rest) \<and> with_words word_of c'' = (SBack ^^ n) c))"

definition reads_line :: "scmd \<Rightarrow> bool" where
  "reads_line c \<longleftrightarrow> (\<forall>rest. ch (skip_space rest) \<in> {0, 41} \<longrightarrow>
     (\<exists>K c'. (\<forall>k\<ge>K. parseline k (show_cmd c @ rest) = Parsed c' (skip_space rest)) \<and> with_words word_of c' = c))"

lemma fuel_Suc: "(\<And>k. K \<le> k \<Longrightarrow> P (Suc k)) \<Longrightarrow> Suc K \<le> k \<Longrightarrow> P k"
  by (cases k) auto

lemma exec_pipe:
  assumes "reads_exec c" "lvl c \<noteq> 1"
  shows "reads_pipe c"
  unfolding reads_pipe_def
proof (intro allI impI)
  fix rest assume r: "ch (skip_space rest) \<in> {0, 41, 38, 59}"
  then have r': "ch (skip_space rest) \<in> {0, 124, 41, 38, 59}" by auto
  obtain K c' where E: "\<And>k. K \<le> k \<Longrightarrow> parseexec k (paren 0 c (show_cmd c) @ rest) = Parsed c' (skip_space rest)" "with_words word_of c' = c"
    using assms(1) [unfolded reads_exec_def, rule_format, of "[]" rest] r' by auto
  have p: "paren 1 c (show_cmd c) = paren 0 c (show_cmd c)" using assms(2) by (auto simp: paren_def)
  have "parsepipe k (paren 1 c (show_cmd c) @ rest) = Parsed c' (skip_space rest)" if "Suc K \<le> k" for k
  proof (rule fuel_Suc [OF _ that])
    fix k assume "K \<le> k"
    from E(1) [OF this] show "parsepipe (Suc k) (paren 1 c (show_cmd c) @ rest) = Parsed c' (skip_space rest)"
      unfolding p parsepipe.simps using r by (auto simp: peek_eq)
  qed
  then show "\<exists>K c'. (\<forall>k\<ge>K. parsepipe k (paren 1 c (show_cmd c) @ rest) = Parsed c' (skip_space rest)) \<and> with_words word_of c' = c"
    using E(2) by blast
qed

lemma parse_backs_many:
  "ch (skip_space rest) \<notin> {38} \<Longrightarrow> \<exists>c''. parse_backs c (replicate n 38 @ rest) = (c'', skip_space rest) \<and>
     with_words word_of c'' = (SBack ^^ n) (with_words word_of c)"
proof (induction n arbitrary: c)
  case 0
  then show ?case by (subst parse_backs.simps) (simp add: peek_eq)
next
  case (Suc n)
  have "parse_backs c (38 # replicate n 38 @ rest) = parse_backs (BACK c) (skip_space (replicate n 38 @ rest))"
    by (subst parse_backs.simps) (simp add: peek_eq gettoken_sym)
  then show ?case using Suc.IH [of "BACK c"] Suc.prems unfolding parse_backs_skip by (simp add: funpow_swap1)
qed

lemma pipe_back:
  assumes "reads_pipe c" "lvl c \<noteq> 2"
  shows "reads_back c"
  unfolding reads_back_def
proof (intro allI impI)
  fix n rest assume r: "ch (skip_space rest) \<in> {0, 41, 59}"
  let ?r = "replicate n 38 @ rest"
  have "ch (skip_space ?r) \<in> {0, 41, 38, 59}" using r by (cases n) auto
  then obtain K c' where E: "\<And>k. K \<le> k \<Longrightarrow> parsepipe k (paren 1 c (show_cmd c) @ ?r) = Parsed c' (skip_space ?r)" "with_words word_of c' = c"
    using assms(1) [unfolded reads_pipe_def, rule_format, of ?r] by auto
  have "paren 2 c (show_cmd c) = paren 1 c (show_cmd c)" using assms(2) by (auto simp: paren_def)
  moreover have "ch (skip_space rest) \<notin> {38}" using r by auto
  then obtain c'' where "parse_backs c' (skip_space ?r) = (c'', skip_space rest)" "with_words word_of c'' = (SBack ^^ n) c"
    using parse_backs_many [of rest c' n] E(2) unfolding parse_backs_skip by auto
  ultimately show "\<exists>K c' s c''. (\<forall>k\<ge>K. parsepipe k (paren 2 c (show_cmd c) @ ?r) = Parsed c' s) \<and>
        parse_backs c' s = (c'', skip_space rest) \<and> with_words word_of c'' = (SBack ^^ n) c"
    using E(1) by metis
qed

lemma back_line:
  assumes "reads_back c" "lvl c \<noteq> 3"
  shows "reads_line c"
  unfolding reads_line_def
proof (intro allI impI)
  fix rest assume r: "ch (skip_space rest) \<in> {0, 41}"
  then have r': "ch (skip_space rest) \<in> {0, 41, 59}" by auto
  obtain K c' s c'' where E: "\<And>k. K \<le> k \<Longrightarrow> parsepipe k (paren 2 c (show_cmd c) @ rest) = Parsed c' s"
    "parse_backs c' s = (c'', skip_space rest)" "with_words word_of c'' = c"
    using assms(1) [unfolded reads_back_def, rule_format, OF r', of 0] by auto
  have p: "show_cmd c = paren 2 c (show_cmd c)" using assms(2) by (cases c) (auto simp: paren_def)
  have "parseline k (show_cmd c @ rest) = Parsed c'' (skip_space rest)" if "Suc K \<le> k" for k
  proof (rule fuel_Suc [OF _ that])
    fix k assume "K \<le> k"
    from E(1) [OF this] show "parseline (Suc k) (show_cmd c @ rest) = Parsed c'' (skip_space rest)"
      unfolding parseline.simps by (subst p) (use r E(2) in \<open>auto simp: peek_eq\<close>)
  qed
  then show "\<exists>K c'. (\<forall>k\<ge>K. parseline k (show_cmd c @ rest) = Parsed c' (skip_space rest)) \<and> with_words word_of c' = c"
    using E(3) by blast
qed

lemma line_exec:
  assumes "reads_line c" "0 < lvl c"
  shows "reads_exec c"
  unfolding reads_exec_def
proof (intro allI impI)
  fix rs rest assume rs: "list_all redir_ok rs" and r: "ch (skip_space rest) \<in> {0, 124, 41, 38, 59}"
  let ?r = "show_redirs rs @ rest"
  obtain K c' where E: "\<And>k. K \<le> k \<Longrightarrow> parseline k (show_cmd c @ 41 # ?r) = Parsed c' (41 # ?r)" "with_words word_of c' = c"
    using assms(1) [unfolded reads_line_def, rule_format, of "41 # ?r"] by auto
  have "ch (skip_space rest) \<notin> {60, 62}" using r by auto
  then obtain c'' where R: "parseredirs c' ?r = Parsed c'' (skip_space rest)" "with_words word_of c'' = redirs c rs"
    using parse_redirs [OF rs, of rest c'] E(2) by auto
  have p: "paren 0 c (show_cmd c) @ ?r = 40 # show_cmd c @ 41 # ?r" using assms(2) by (simp add: paren_def)
  have "parseexec k (paren 0 c (show_cmd c) @ ?r) = Parsed c'' (skip_space rest)" if k: "Suc (Suc K) \<le> k" for k
  proof -
    obtain j where j: "k = Suc (Suc j)" "K \<le> j" using k by (metis Suc_le_D Suc_le_mono)
    have "parseblock (Suc j) (40 # show_cmd c @ 41 # ?r) = Parsed c'' (skip_space rest)"
      using E(1) [OF j(2)] R(1) by (simp add: peek_eq gettoken_sym parser_skip parseredirs_skip)
    then show ?thesis unfolding p j(1) by (subst parseexec.simps) (simp add: peek_eq del: parseblock.simps)
  qed
  then show "\<exists>K c'. (\<forall>k\<ge>K. parseexec k (paren 0 c (show_cmd c) @ ?r) = Parsed c' (skip_space rest)) \<and> with_words word_of c' = redirs c rs"
    using R(2) by blast
qed

lemma read_exec:
  assumes "scmd_ok (SExec ws)"
  shows "reads_exec (SExec ws)"
  unfolding reads_exec_def
proof (intro allI impI)
  fix rs rest assume rs: "list_all redir_ok rs" and r: "ch (skip_space rest) \<in> {0, 124, 41, 38, 59}"
  let ?s = "show_words ws @ show_redirs rs @ rest"
  obtain c' where c: "pbind (parseredirs (EXEC []) ?s) (\<lambda>ret s. parse_args ret 0 s) = Parsed c' (skip_space rest)"
    "with_words word_of c' = redirs (SExec ws) rs" using parse_exec_words [of ws rs rest 0 "[]"] assms rs r by auto
  have "ch (skip_space ?s) \<noteq> 40"
  proof (cases ws)
    case Nil
    then show ?thesis using r by (cases rs) (auto simp: show_words_def show_redir_def split: prod.splits)
  next
    case (Cons w ws')
    then have "word_ok w" using assms by simp
    then show ?thesis using skip_word_start [of w] wordc_sym Cons by (fastforce simp: show_words_def)
  qed
  then have "parseexec k (paren 0 (SExec ws) (show_cmd (SExec ws)) @ show_redirs rs @ rest) = Parsed c' (skip_space rest)" if "Suc 0 \<le> k" for k
    using that c(1) by (cases k) (simp_all add: paren_def peek_eq parseredirs_skip)
  then show "\<exists>K c'. (\<forall>k\<ge>K. parseexec k (paren 0 (SExec ws) (show_cmd (SExec ws)) @ show_redirs rs @ rest) = Parsed c' (skip_space rest)) \<and>
      with_words word_of c' = redirs (SExec ws) rs" using c(2) by blast
qed

lemma read_redir:
  assumes "reads_exec c" "redir_ok (f, mode, fd)"
  shows "reads_exec (SRedir c f mode fd)"
  unfolding reads_exec_def
proof (intro allI impI)
  fix rs rest assume rs: "list_all redir_ok rs" and r: "ch (skip_space rest) \<in> {0, 124, 41, 38, 59}"
  have "list_all redir_ok ((f, mode, fd) # rs)" using rs assms(2) by simp
  from assms(1) [unfolded reads_exec_def, rule_format, OF this r]
  show "\<exists>K c'. (\<forall>k\<ge>K. parseexec k (paren 0 (SRedir c f mode fd) (show_cmd (SRedir c f mode fd)) @ show_redirs rs @ rest) = Parsed c' (skip_space rest)) \<and>
      with_words word_of c' = redirs (SRedir c f mode fd) rs" by (simp add: paren_def)
qed

lemma read_pipe:
  assumes "reads_exec l" "reads_pipe r"
  shows "reads_pipe (SPipe l r)"
  unfolding reads_pipe_def
proof (intro allI impI)
  fix rest assume q: "ch (skip_space rest) \<in> {0, 41, 38, 59}"
  let ?r = "paren 1 r (show_cmd r) @ rest"
  obtain K c where L: "\<And>k. K \<le> k \<Longrightarrow> parseexec k (paren 0 l (show_cmd l) @ 124 # ?r) = Parsed c (124 # ?r)" "with_words word_of c = l"
    using assms(1) [unfolded reads_exec_def, rule_format, of "[]" "124 # ?r"] by auto
  obtain J d where R: "\<And>k. J \<le> k \<Longrightarrow> parsepipe k ?r = Parsed d (skip_space rest)" "with_words word_of d = r"
    using assms(2) [unfolded reads_pipe_def, rule_format, OF q] by auto
  have "parsepipe k (paren 1 (SPipe l r) (show_cmd (SPipe l r)) @ rest) = Parsed (PIPE c d) (skip_space rest)" if k: "Suc (max K J) \<le> k" for k
  proof -
    obtain j where j: "k = Suc j" "K \<le> j" "J \<le> j" using k by (cases k) auto
    show ?thesis unfolding j(1) using L(1) [OF j(2)] R(1) [OF j(3)] by (simp add: paren_def peek_eq gettoken_sym parser_skip)
  qed
  then show "\<exists>K c'. (\<forall>k\<ge>K. parsepipe k (paren 1 (SPipe l r) (show_cmd (SPipe l r)) @ rest) = Parsed c' (skip_space rest)) \<and>
      with_words word_of c' = SPipe l r" using L(2) R(2) by (metis with_words.simps(3))
qed

lemma read_back:
  assumes "reads_back c"
  shows "reads_back (SBack c)"
  unfolding reads_back_def
proof (intro allI impI)
  fix n rest assume r: "ch (skip_space rest) \<in> {0, 41, 59}"
  from assms [unfolded reads_back_def, rule_format, OF r, of "Suc n"]
  show "\<exists>K c' s c''. (\<forall>k\<ge>K. parsepipe k (paren 2 (SBack c) (show_cmd (SBack c)) @ replicate n 38 @ rest) = Parsed c' s) \<and>
        parse_backs c' s = (c'', skip_space rest) \<and> with_words word_of c'' = (SBack ^^ n) (SBack c)"
    by (simp add: paren_def funpow_swap1)
qed

lemma read_list:
  assumes "reads_back l" "reads_line r"
  shows "reads_line (SList l r)"
  unfolding reads_line_def
proof (intro allI impI)
  fix rest assume q: "ch (skip_space rest) \<in> {0, 41}"
  let ?r = "show_cmd r @ rest"
  obtain K c s c' where L: "\<And>k. K \<le> k \<Longrightarrow> parsepipe k (paren 2 l (show_cmd l) @ 59 # ?r) = Parsed c s"
    "parse_backs c s = (c', 59 # ?r)" "with_words word_of c' = l"
    using assms(1) [unfolded reads_back_def, rule_format, of "59 # ?r" 0] by auto
  obtain J d where R: "\<And>k. J \<le> k \<Longrightarrow> parseline k ?r = Parsed d (skip_space rest)" "with_words word_of d = r"
    using assms(2) [unfolded reads_line_def, rule_format, OF q] by auto
  have "parseline k (show_cmd (SList l r) @ rest) = Parsed (LIST c' d) (skip_space rest)" if k: "Suc (max K J) \<le> k" for k
  proof -
    obtain j where j: "k = Suc j" "K \<le> j" "J \<le> j" using k by (cases k) auto
    show ?thesis unfolding j(1) using L(1) [OF j(2)] L(2) R(1) [OF j(3)] by (simp add: peek_eq gettoken_sym parser_skip)
  qed
  then show "\<exists>K c'. (\<forall>k\<ge>K. parseline k (show_cmd (SList l r) @ rest) = Parsed c' (skip_space rest)) \<and>
      with_words word_of c' = SList l r" using L(3) R(2) by (metis with_words.simps(4))
qed

lemma reads_all: "scmd_ok c \<Longrightarrow> reads_exec c \<and> reads_pipe c \<and> reads_back c \<and> reads_line c"
proof (induction c)
  case (SExec ws)
  then show ?case using read_exec exec_pipe pipe_back back_line by force
next
  case (SRedir c f mode fd)
  then have "reads_exec (SRedir c f mode fd)" by (intro read_redir) simp_all
  then show ?case using exec_pipe pipe_back back_line by force
next
  case (SPipe l r)
  then have "reads_pipe (SPipe l r)" by (intro read_pipe) simp_all
  then show ?case using pipe_back back_line line_exec by force
next
  case (SList l r)
  then have "reads_line (SList l r)" by (intro read_list) simp_all
  then show ?case using line_exec exec_pipe pipe_back by force
next
  case (SBack c)
  then have "reads_back (SBack c)" by (intro read_back) simp_all
  then show ?case using back_line line_exec exec_pipe by force
qed

section \<open>Properties\<close>

lemma cstr_nz: "0 \<notin> set (cstr b)"
  by (auto simp: cstr_def dest: set_takeWhileD)

text \<open>
  C25: The parser terminates on every line: four levels of recursion for each byte of the line and four more are
  enough, and any larger bound gives the same result.
\<close>

theorem parser_terminates:
  "parseline (4 * length (cstr buf) + 4) (cstr buf) \<noteq> Fuel \<and>
   parseline (4 * length (cstr buf) + 4 + j) (cstr buf) = parseline (4 * length (cstr buf) + 4) (cstr buf)"
proof -
  have "parseline (4 * length (cstr buf) + 4) (cstr buf) \<noteq> Fuel"
    by (rule parser_fuel(1) [OF cstr_nz suffix_order.refl]) simp
  then show ?thesis using parseline_more [of _ "cstr buf" "4 * length (cstr buf) + 4 + j"] by simp
qed

lemma parseline_enough:
  assumes "0 \<notin> set line" "\<forall>k\<ge>K. parseline k line = r"
  shows "parseline (4 * length line + 4) line = r"
proof -
  let ?k = "4 * length line + 4"
  have "parseline ?k line \<noteq> Fuel" by (rule parser_fuel(1) [OF assms(1) suffix_order.refl]) simp
  then have "parseline (max K ?k) line = parseline ?k line" by (rule parseline_more) (rule max.cobounded2)
  moreover have "parseline (max K ?k) line = r" by (rule assms(2) [rule_format, OF max.cobounded1])
  ultimately show ?thesis by (rule trans [OF sym])
qed

lemma word_nz: "word_ok w \<Longrightarrow> 0 \<notin> set w"
  by (auto simp: word_ok_def list_all_iff wordc_def)

lemma show_nz: "scmd_ok t \<Longrightarrow> 0 \<notin> set (show_cmd t)"
proof (induction t)
  case (SExec ws)
  then have "\<forall>w\<in>set ws. 0 \<notin> set w" using word_nz by (simp add: list_all_iff)
  then show ?case by (simp add: show_words_def)
next
  case (SRedir t f mode fd)
  then have "0 \<notin> set f" using word_nz by (simp add: redir_ok_def)
  then show ?case using SRedir by (simp add: paren_def show_redir_def)
qed (simp_all add: paren_def)

lemma runtime_words:
  assumes "list_all (token_ok line) (tokens c)" "0 \<notin> set line"
  shows "with_words (\<lambda>x. str_at (length line) (nulterminate (length line) c (line @ 0 # r)) (fst x)) c = with_words word_of c"
  using token_string [OF assms(1) _ assms(2)] by (intro with_words_cong) (metis prod.collapse)

lemma cstr_split: "0 \<notin> set line \<Longrightarrow> cstr (line @ 0 # r) = line"
  by (rule cstr_exact) (auto simp: list_all_iff)

text \<open>
  C10: Every command can be written as a line that reads back as that command: for each tree of programs with their
  words, redirections, pipes, lists and background commands, \<open>parsecmd\<close> returns from the line written for it a
  command whose NUL-terminated strings in the buffer, the ones \<open>runcmd\<close> passes to \<open>exec\<close> and \<open>open\<close>, are those
  words. Nothing is printed.
\<close>

theorem parse_roundtrip:
  assumes "scmd_ok t"
  shows "\<exists>c b. parsecmd os (show_cmd t @ 0 # r) w = Ret (c, b) w \<and>
    with_words (\<lambda>x. str_at (length (show_cmd t)) b (fst x)) c = t"
proof -
  let ?l = "show_cmd t"
  have z: "0 \<notin> set ?l" by (rule show_nz [OF assms])
  have "reads_line t" using reads_all [OF assms] by blast
  then obtain K c where c: "\<forall>k\<ge>K. parseline k ?l = Parsed c []" "with_words word_of c = t"
    unfolding reads_line_def by (metis append_Nil2 ch_Cons(2) insertI1 skip_space.simps(1))
  have p: "parseline (4 * length ?l + 4) ?l = Parsed c []" by (rule parseline_enough [OF z c(1)])
  have ok: "list_all (token_ok ?l) (tokens c)"
    using parser_good(1) [OF z suffix_order.refl, of "4 * length ?l + 4"] p by (simp add: returns_good_def good_def)
  have "parsecmd os (?l @ 0 # r) w = Ret (c, nulterminate (length ?l) c (?l @ 0 # r)) w"
    unfolding parsecmd_def cstr_split [OF z] Let_def p by (simp add: kern peek_def)
  then show ?thesis using runtime_words [OF ok z] c(2) by blast
qed

theorem parse_roundtrip_witness:
  "\<exists>c b. parsecmd still_os (show_cmd (SPipe (SRedir (SExec [[97, 98]]) [99] O_RDONLY 0) (SBack (SExec [[100], [101]]))) @ [0]) () = Ret (c, b) ()"
proof -
  have "scmd_ok (SPipe (SRedir (SExec [[97, 98]]) [99] O_RDONLY 0) (SBack (SExec [[100], [101]])))"
    by (simp add: word_ok_def redir_ok_def wordc_def whitespace_def symbols_def MAXARGS_def)
  from parse_roundtrip [OF this, of still_os "[]" "()"] show ?thesis by blast
qed

lemma exit_not_Ret: "exit_u os w \<noteq> Ret x w'" "panic_u os e w \<noteq> Ret x w'"
  by (simp_all add: exit_u_def panic_u_def kern split: outcome.splits)

text \<open>
  C24: Whatever the line is, the strings a parsed command has at run time are words of the line: after
  \<open>nulterminate\<close> the C string at each word and file name is exactly the word the parser delimited there, a
  non-empty run of bytes that are neither blank nor a symbol, although the NULs overwrite the line in place.
\<close>

theorem command_strings:
  assumes "parsecmd os (line @ 0 # r) w = Ret (c, b) w'" "0 \<notin> set line"
  shows "with_words (\<lambda>x. str_at (length line) b (fst x)) c = with_words word_of c \<and>
    list_all (token_ok line) (tokens c) \<and> length b = length (line @ 0 # r) \<and> w' = w"
proof -
  have P: "\<exists>s. parseline (4 * length line + 4) line = Parsed c s \<and> b = nulterminate (length line) c (line @ 0 # r) \<and> w' = w"
    using assms(1) unfolding parsecmd_def cstr_split [OF assms(2)] Let_def
    by (auto simp: kern exit_not_Ret split: parse.splits if_splits outcome.splits)
  then have ok: "list_all (token_ok line) (tokens c)"
    using parser_good(1) [OF assms(2) suffix_order.refl, of "4 * length line + 4"] by (auto simp: returns_good_def good_def)
  show ?thesis using P ok runtime_words [OF ok assms(2)] nulterminate_nth(1) by auto
qed

theorem command_strings_witness:
  "\<exists>c b. parsecmd still_os ([97, 62, 98] @ [0]) () = Ret (c, b) () \<and> 
    with_words (\<lambda>x. str_at (length [97, 62, 98 :: u8]) b (fst x)) c = with_words word_of c"
proof -
  have p: "parsecmd still_os ([97, 62, 98] @ [0]) () = Ret (REDIR (EXEC [([97, 62, 98], [62, 98])]) [98] [] (O_WRONLY OR O_CREATE) 1, [97, 0, 98, 0]) ()"
    by code_simp
  have "0 \<notin> set [97, 62, 98 :: u8]" by simp
  from command_strings [OF p this] show ?thesis using p by blast
qed

lemma not_Ret_bind: "(\<And>x w. f x w \<noteq> Ret y v) \<Longrightarrow> bind m f w \<noteq> Ret y v"
  by (cases "m w") (simp_all add: bind_def)

lemma not_Ret_andthen: "(\<And>w. k w \<noteq> Ret y v) \<Longrightarrow> andthen m k w \<noteq> Ret y v"
  by (cases "m w") (simp_all add: andthen_def bind_def)

lemma not_Ret_if: "m w \<noteq> Ret y v \<Longrightarrow> k w \<noteq> Ret y v \<Longrightarrow> (if p then m else k) w \<noteq> Ret y v"
  by simp

lemma not_Ret_prod: "(\<And>a b. f a b w \<noteq> Ret y v) \<Longrightarrow> (case p of (a, b) \<Rightarrow> f a b) w \<noteq> Ret y v"
  by (cases p) simp

lemmas not_Ret = not_Ret_bind not_Ret_andthen not_Ret_if not_Ret_prod exit_not_Ret

text \<open>Each way through \<open>runcmd\<close> ends in \<open>exit\<close> or \<open>exec\<close>: a child never goes on with the shell's loop.\<close>

lemma runcmd_never_returns: "runcmd os n b c w \<noteq> Ret x w'"
  by (induction c) (simp_all only: runcmd.simps, (intro not_Ret)+)

end
