(* ===== verification/Mmu.thy ===== *)
theory Mmu
  imports Kstring
begin

text \<open>
  The memory-management constants and macros of \<^verbatim>\<open>src/mmu.h\<close> and \<^verbatim>\<open>src/memlayout.h\<close>:
  page rounding, the three-part structure of a virtual address, page-table entries,
  segment and gate descriptors, and the kernel's physical/virtual offset.
\<close>

section \<open>Constants\<close>

definition FL_IF :: u32 where "FL_IF = 0x200"
definition PGSIZE :: u32 where "PGSIZE = 4096"
definition KERNBASE :: u32 where "KERNBASE = 0x80000000"
definition EXTMEM :: u32 where "EXTMEM = 0x100000"
definition PHYSTOP :: u32 where "PHYSTOP = 0xE000000"
definition DEVSPACE :: u32 where "DEVSPACE = 0xFE000000"
definition KERNLINK :: u32 where "KERNLINK = KERNBASE + EXTMEM"
definition PTE_P :: u32 where "PTE_P = 1"
definition PTE_W :: u32 where "PTE_W = 2"
definition PTE_U :: u32 where "PTE_U = 4"
definition NPDENTRIES :: nat where "NPDENTRIES = 1024"

definition V2P :: "u32 \<Rightarrow> u32" where "V2P a = a - KERNBASE"
definition P2V :: "u32 \<Rightarrow> u32" where "P2V a = a + KERNBASE"

section \<open>Virtual addresses and page-table entries\<close>

definition PDX :: "u32 \<Rightarrow> u32" where "PDX va = drop_bit 22 va AND 0x3FF"
definition PTX :: "u32 \<Rightarrow> u32" where "PTX va = drop_bit 12 va AND 0x3FF"

definition PGADDR :: "u32 \<Rightarrow> u32 \<Rightarrow> u32 \<Rightarrow> u32" where
  "PGADDR d t off = push_bit 22 d OR push_bit 12 t OR off"

definition PGROUNDUP :: "u32 \<Rightarrow> u32" where
  "PGROUNDUP sz = (sz + PGSIZE - 1) AND NOT (PGSIZE - 1)"

definition PGROUNDDOWN :: "u32 \<Rightarrow> u32" where
  "PGROUNDDOWN a = a AND NOT (PGSIZE - 1)"

definition PTE_ADDR :: "u32 \<Rightarrow> u32" where "PTE_ADDR pte = pte AND NOT 0xFFF"
definition PTE_FLAGS :: "u32 \<Rightarrow> u32" where "PTE_FLAGS pte = pte AND 0xFFF"

section \<open>Descriptors\<close>

record segdesc =
  lim_15_0 :: u16
  base_15_0 :: u16
  base_23_16 :: u8
  seg_type :: "4 word"
  seg_s :: "1 word"
  seg_dpl :: "2 word"
  seg_p :: "1 word"
  lim_19_16 :: "4 word"
  seg_avl :: "1 word"
  seg_rsv1 :: "1 word"
  seg_db :: "1 word"
  seg_g :: "1 word"
  base_31_24 :: u8

definition SEG :: "u32 \<Rightarrow> u32 \<Rightarrow> u32 \<Rightarrow> u32 \<Rightarrow> segdesc" where
  "SEG ty base lim dpl =
    \<lparr>lim_15_0 = ucast (drop_bit 12 lim AND 0xffff), base_15_0 = ucast (base AND 0xffff),
     base_23_16 = ucast (drop_bit 16 base AND 0xff), seg_type = ucast ty, seg_s = 1,
     seg_dpl = ucast dpl, seg_p = 1, lim_19_16 = ucast (drop_bit 28 lim), seg_avl = 0,
     seg_rsv1 = 0, seg_db = 1, seg_g = 1, base_31_24 = ucast (drop_bit 24 base)\<rparr>"

definition SEG16 :: "u32 \<Rightarrow> u32 \<Rightarrow> u32 \<Rightarrow> u32 \<Rightarrow> segdesc" where
  "SEG16 ty base lim dpl =
    \<lparr>lim_15_0 = ucast (lim AND 0xffff), base_15_0 = ucast (base AND 0xffff),
     base_23_16 = ucast (drop_bit 16 base AND 0xff), seg_type = ucast ty, seg_s = 1,
     seg_dpl = ucast dpl, seg_p = 1, lim_19_16 = ucast (drop_bit 16 lim), seg_avl = 0,
     seg_rsv1 = 0, seg_db = 1, seg_g = 0, base_31_24 = ucast (drop_bit 24 base)\<rparr>"

record gatedesc =
  off_15_0 :: u16
  gate_cs :: u16
  gate_args :: "5 word"
  gate_rsv1 :: "3 word"
  gate_type :: "4 word"
  gate_s :: "1 word"
  gate_dpl :: "2 word"
  gate_p :: "1 word"
  off_31_16 :: u16

definition SETGATE :: "bool \<Rightarrow> u32 \<Rightarrow> u32 \<Rightarrow> u32 \<Rightarrow> gatedesc" where
  "SETGATE istrap sel off d =
    \<lparr>off_15_0 = ucast (off AND 0xffff), gate_cs = ucast sel, gate_args = 0, gate_rsv1 = 0,
     gate_type = (if istrap then 0xF else 0xE), gate_s = 0, gate_dpl = ucast d, gate_p = 1,
     off_31_16 = ucast (drop_bit 16 off)\<rparr>"

section \<open>Rounding to pages\<close>

lemma mask_12: "(mask 12 :: u32) = 0xFFF"
  by (simp add: mask_numeral)

lemma PGSIZE_minus_1: "PGSIZE - 1 = mask 12"
  by (simp add: PGSIZE_def mask_12)

lemma and_not_mask_12: "(x :: u32) AND NOT (mask 12) = x - take_bit 12 x"
proof -
  have "push_bit 12 (drop_bit 12 x) = x AND NOT (mask 12)"
    by (rule bit_word_eqI) (auto simp: bit_simps)
  then show ?thesis
    using bits_ident [of 12 x] by (simp add: eq_diff_eq)
qed

lemma unat_take_bit_12: "unat (take_bit 12 (x :: u32)) = unat x mod 4096"
  by (simp add: take_bit_eq_mod unat_mod)

lemma PGROUNDDOWN_minus: "PGROUNDDOWN a = a - take_bit 12 a"
  by (simp only: PGROUNDDOWN_def PGSIZE_minus_1 and_not_mask_12)

lemma unat_PGROUNDDOWN: "unat (PGROUNDDOWN a) = unat a div 4096 * 4096"
proof -
  have "unat (take_bit 12 a) \<le> unat a"
    by (simp add: unat_take_bit_12)
  then have "unat (PGROUNDDOWN a) = unat a - unat a mod 4096"
    by (simp add: PGROUNDDOWN_minus unat_sub word_le_nat_alt unat_take_bit_12)
  then show ?thesis by (simp add: minus_mod_eq_div_mult)
qed

lemma PGROUNDUP_eq: "PGROUNDUP sz = PGROUNDDOWN (sz + 4095)"
  by (simp add: PGROUNDUP_def PGROUNDDOWN_def PGSIZE_def add.commute)

lemma unat_PGROUNDUP:
  assumes "unat sz + 4095 < 2 ^ 32"
  shows "unat (PGROUNDUP sz) = (unat sz + 4095) div 4096 * 4096"
proof -
  have "unat (sz + 4095) = unat sz + 4095"
    using assms by (simp add: unat_word_ariths)
  then show ?thesis by (simp only: PGROUNDUP_eq unat_PGROUNDDOWN)
qed

text \<open>Rounding up gives the least multiple of the page size that is not below \<open>sz\<close>.\<close>

lemma PGROUNDUP_least:
  assumes "unat sz + 4095 < 2 ^ 32"
  shows "unat (PGROUNDUP sz) mod 4096 = 0" and "unat sz \<le> unat (PGROUNDUP sz)"
    and "unat (PGROUNDUP sz) < unat sz + 4096"
  using assms by (auto simp: unat_PGROUNDUP)

lemma PGROUNDDOWN_aligned: "unat (PGROUNDDOWN a) mod 4096 = 0"
  by (simp add: unat_PGROUNDDOWN)

section \<open>The parts of a virtual address\<close>

lemma bit_PDX: "bit (PDX va) n \<longleftrightarrow> n < 10 \<and> bit va (n + 22)"
proof -
  have "PDX va = take_bit 10 (drop_bit 22 va)"
    by (simp add: PDX_def take_bit_eq_mask mask_numeral)
  then show ?thesis by (simp add: bit_take_bit_iff bit_drop_bit_eq add.commute)
qed

lemma bit_PTX: "bit (PTX va) n \<longleftrightarrow> n < 10 \<and> bit va (n + 12)"
proof -
  have "PTX va = take_bit 10 (drop_bit 12 va)"
    by (simp add: PTX_def take_bit_eq_mask mask_numeral)
  then show ?thesis by (simp add: bit_take_bit_iff bit_drop_bit_eq add.commute)
qed

lemma bit_PTE_FLAGS: "bit (PTE_FLAGS va) n \<longleftrightarrow> n < 12 \<and> bit va n"
proof -
  have "PTE_FLAGS va = take_bit 12 va"
    by (simp add: PTE_FLAGS_def take_bit_eq_mask mask_numeral)
  then show ?thesis by (simp add: bit_take_bit_iff)
qed

lemma PGADDR_parts: "PGADDR (PDX va) (PTX va) (PTE_FLAGS va) = va"
proof (rule bit_word_eqI)
  fix n
  assume "n < LENGTH(32)"
  then show "bit (PGADDR (PDX va) (PTX va) (PTE_FLAGS va)) n = bit va n"
    by (cases "n < 12"; cases "n < 22")
      (auto simp: PGADDR_def bit_or_iff bit_push_bit_iff bit_PDX bit_PTX bit_PTE_FLAGS)
qed

lemma unat_PDX_less: "unat (PDX va) < 1024"
  using word_and_le1 [of "drop_bit 22 va" "0x3FF"]
  by (simp add: PDX_def word_le_nat_alt)

lemma unat_PTX_less: "unat (PTX va) < 1024"
  using word_and_le1 [of "drop_bit 12 va" "0x3FF"]
  by (simp add: PTX_def word_le_nat_alt)

lemma PTE_ADDR_FLAGS: "PTE_ADDR pte OR PTE_FLAGS pte = pte"
  by (rule bit_word_eqI) (auto simp: PTE_ADDR_def PTE_FLAGS_def bit_simps)

lemma P2V_V2P [simp]: "P2V (V2P a) = a" and V2P_P2V [simp]: "V2P (P2V a) = a"
  by (simp_all add: P2V_def V2P_def)

end
