(* ===== verification/Spinlock.thy ===== *)
theory Spinlock
  imports Mmu
begin

text \<open>
  The executing CPU and the spin locks: \<^verbatim>\<open>src/spinlock.c\<close>, \<^verbatim>\<open>src/spinlock.h\<close>, \<open>struct cpu\<close> of
  \<^verbatim>\<open>src/proc.h\<close>, \<open>cpuid\<close>, \<open>mycpu\<close> and \<open>myproc\<close> of \<^verbatim>\<open>src/proc.c\<close>, and \<open>lapicid\<close> and \<open>lapiceoi\<close>
  of \<^verbatim>\<open>src/lapic.c\<close>. The machine record is the part of the kernel state these functions
  touch; every later component's state extends \<open>base\<close>, which holds one machine.
  The last section is the lock protocol under interleaving: any number of CPUs
  stepping through \<open>acquire\<close> and \<open>release\<close>.
\<close>

section \<open>State\<close>

record taskstate =
  ts_esp0 :: u32
  ts_ss0 :: u16
  ts_iomb :: u16

record cpu =
  c_apicid :: u8
  c_scheduler :: u32
  c_ts :: taskstate
  c_gdt :: "segdesc list"
  c_started :: u32
  c_ncli :: int
  c_intena :: u32
  c_proc :: "nat option"

record spinlock =
  lk_locked :: u32
  lk_name :: string
  lk_cpu :: "nat option"
  lk_pcs :: "u32 list"

text \<open>The spin locks of the kernel; those embedded in objects carry the object's index or address.\<close>

datatype lockid =
    L_ptable | L_sem | L_kmem | L_tick | L_ftable | L_bcache | L_icache | L_log | L_cons | L_ide
  | L_pipe u32 | L_buf nat | L_inode nat

text \<open>
  \<open>eflags\<close>, \<open>ebp\<close> and \<open>esp\<close> are registers of the executing CPU (\<open>esp\<close> as \<open>swtch\<close> saves it: the
  address of the context it has pushed), \<open>cr3\<close> the page directory it has
  loaded and \<open>tr\<close> its task register. \<open>lapic\<close> is the local APIC's register file as the
  executing CPU sees it, absent before it is mapped. \<open>mem\<close> is physical memory, addressed
  through the kernel's mapping.
\<close>

record machine =
  cpus :: "cpu list"
  ncpu :: nat
  eflags :: u32
  ebp :: u32
  esp :: u32
  cr3 :: u32
  tr :: u16
  lapic :: "(nat \<Rightarrow> u32) option"
  mem :: memory
  locks :: "lockid \<Rightarrow> spinlock"

record base =
  mach :: machine

section \<open>Registers and CPUs\<close>

definition readeflags :: "(u32, machine) kern" where
  "readeflags = gets eflags"

definition cli :: "(unit, machine) kern" where
  "cli = modify (\<lambda>m. m\<lparr>eflags := eflags m AND NOT FL_IF\<rparr>)"

definition sti :: "(unit, machine) kern" where
  "sti = modify (\<lambda>m. m\<lparr>eflags := eflags m OR FL_IF\<rparr>)"

definition lapicid :: "(int, machine) kern" where
  "lapicid = gets (\<lambda>m. case lapic m of None \<Rightarrow> 0 | Some r \<Rightarrow> uint (drop_bit 24 (r 8)))"

definition lapicw :: "nat \<Rightarrow> u32 \<Rightarrow> (unit, machine) kern" where
  "lapicw i v = modify (\<lambda>m. case lapic m of None \<Rightarrow> m | Some r \<Rightarrow> m\<lparr>lapic := Some (r(i := v))\<rparr>)"

definition lapiceoi :: "(unit, machine) kern" where
  "lapiceoi = bind (gets lapic) (\<lambda>l. whenk (l \<noteq> None) (lapicw 44 0))"

definition mycpu :: "(nat, machine) kern" where
  "mycpu =
    bind readeflags (\<lambda>f. if f AND FL_IF \<noteq> 0 then panic (''mycpu called with interrupts enabled'' @ [CHR 0x0A]) else
    bind lapicid (\<lambda>apicid.
    bind (gets (\<lambda>m. scan (\<lambda>i. uint (c_apicid (cpus m ! i)) = apicid) 0 (ncpu m))) (\<lambda>r.
    case r of Some i \<Rightarrow> return i | None \<Rightarrow> panic (''unknown apicid'' @ [CHR 0x0A]))))"

definition cpuid :: "(nat, machine) kern" where
  "cpuid = mycpu"

text \<open>\<open>mycpu()->f\<close> and \<open>mycpu()->f = v\<close>.\<close>

definition cpu_get :: "(cpu \<Rightarrow> 'a) \<Rightarrow> ('a, machine) kern" where
  "cpu_get f = bind mycpu (\<lambda>c. gets (\<lambda>m. f (cpus m ! c)))"

definition cpu_set :: "(cpu \<Rightarrow> cpu) \<Rightarrow> (unit, machine) kern" where
  "cpu_set f = bind mycpu (\<lambda>c. modify (\<lambda>m. m\<lparr>cpus := upd c f (cpus m)\<rparr>))"

section \<open>Interrupt nesting\<close>

definition pushcli :: "(unit, machine) kern" where
  "pushcli =
    bind readeflags (\<lambda>f.
    andthen cli (
    bind (cpu_get c_ncli) (\<lambda>n.
    andthen (whenk (n = 0) (cpu_set (\<lambda>k. k\<lparr>c_intena := f AND FL_IF\<rparr>)))
      (cpu_set (\<lambda>k. k\<lparr>c_ncli := c_ncli k + 1\<rparr>)))))"

definition popcli :: "(unit, machine) kern" where
  "popcli =
    bind readeflags (\<lambda>f. if f AND FL_IF \<noteq> 0 then panic ''popcli - interruptible'' else
    andthen (cpu_set (\<lambda>k. k\<lparr>c_ncli := c_ncli k - 1\<rparr>)) (
    bind (cpu_get c_ncli) (\<lambda>n. if n < 0 then panic ''popcli'' else
    bind (cpu_get c_ncli) (\<lambda>n.
    bind (cpu_get c_intena) (\<lambda>ie. whenk (n = 0 \<and> ie \<noteq> 0) sti)))))"

definition myproc_m :: "(nat option, machine) kern" where
  "myproc_m =
    andthen pushcli (
    bind mycpu (\<lambda>c.
    bind (gets (\<lambda>m. c_proc (cpus m ! c))) (\<lambda>p.
    andthen popcli (return p))))"

section \<open>Locks\<close>

definition lock_upd :: "lockid \<Rightarrow> (spinlock \<Rightarrow> spinlock) \<Rightarrow> machine \<Rightarrow> machine" where
  "lock_upd L f m = m\<lparr>locks := (locks m)(L := f (locks m L))\<rparr>"

definition initlock_m :: "lockid \<Rightarrow> string \<Rightarrow> (unit, machine) kern" where
  "initlock_m L name = modify (lock_upd L (\<lambda>l. l\<lparr>lk_name := name, lk_locked := 0, lk_cpu := None\<rparr>))"

fun callerpcs :: "memory \<Rightarrow> u32 \<Rightarrow> nat \<Rightarrow> u32 list" where
  "callerpcs m fp 0 = []"
| "callerpcs m fp (Suc k) =
     (if fp = 0 \<or> fp < KERNBASE \<or> fp = 0xffffffff then replicate (Suc k) 0
      else load32 m (fp + 4) # callerpcs m (load32 m fp) k)"

definition getcallerpcs :: "memory \<Rightarrow> u32 \<Rightarrow> u32 list" where
  "getcallerpcs m v = callerpcs m (v - 8) 10"

definition holding_m :: "lockid \<Rightarrow> (bool, machine) kern" where
  "holding_m L =
    andthen pushcli (
    bind (gets (\<lambda>m. lk_locked (locks m L))) (\<lambda>l.
    bind (if l = 0 then return False
          else bind mycpu (\<lambda>c. gets (\<lambda>m. lk_cpu (locks m L) = Some c))) (\<lambda>r.
    andthen popcli (return r))))"

text \<open>
  \<open>while(xchg(&lk->locked, 1) != 0);\<close> as the executing CPU sees it: the exchange leaves 1 in
  the lock either way, and if it was not 0 nothing this CPU does will change it.
\<close>

definition spin_xchg :: "lockid \<Rightarrow> (unit, machine) kern" where
  "spin_xchg L =
    bind (gets (\<lambda>m. lk_locked (locks m L))) (\<lambda>old.
    andthen (modify (lock_upd L (\<lambda>l. l\<lparr>lk_locked := 1\<rparr>)))
      (if old \<noteq> 0 then hang else return ()))"

text \<open>\<open>&lk\<close>, the address of \<open>acquire\<close>'s parameter, is two words above its frame pointer.\<close>

definition acquire_m :: "lockid \<Rightarrow> (unit, machine) kern" where
  "acquire_m L =
    andthen pushcli (
    bind (holding_m L) (\<lambda>h. if h then panic ''acquire'' else
    andthen (spin_xchg L) (
    bind mycpu (\<lambda>c.
    andthen (modify (lock_upd L (\<lambda>l. l\<lparr>lk_cpu := Some c\<rparr>)))
      (modify (\<lambda>m. lock_upd L (\<lambda>l. l\<lparr>lk_pcs := getcallerpcs (mem m) (ebp m + 8)\<rparr>) m))))))"

definition release_m :: "lockid \<Rightarrow> (unit, machine) kern" where
  "release_m L =
    bind (holding_m L) (\<lambda>h. if \<not> h then panic ''release'' else
    andthen (modify (lock_upd L (\<lambda>l. l\<lparr>lk_pcs := (lk_pcs l)[0 := 0], lk_cpu := None\<rparr>))) (
    andthen (modify (lock_upd L (\<lambda>l. l\<lparr>lk_locked := 0\<rparr>)))
      popcli))"

section \<open>The same operations on a kernel state\<close>

definition on_mach :: "('a, machine) kern \<Rightarrow> ('a, 'z base_scheme) kern" where
  "on_mach f s = (case f (mach s) of
      Ret x m \<Rightarrow> Ret x (s\<lparr>mach := m\<rparr>)
    | Panic e \<Rightarrow> Panic e
    | Switch m \<Rightarrow> Switch (s\<lparr>mach := m\<rparr>)
    | Hang \<Rightarrow> Hang)"

definition initlock :: "lockid \<Rightarrow> string \<Rightarrow> (unit, 'z base_scheme) kern" where
  "initlock L name = on_mach (initlock_m L name)"

definition acquire :: "lockid \<Rightarrow> (unit, 'z base_scheme) kern" where
  "acquire L = on_mach (acquire_m L)"

definition release :: "lockid \<Rightarrow> (unit, 'z base_scheme) kern" where
  "release L = on_mach (release_m L)"

definition holding :: "lockid \<Rightarrow> (bool, 'z base_scheme) kern" where
  "holding L = on_mach (holding_m L)"

definition myproc :: "(nat option, 'z base_scheme) kern" where
  "myproc = on_mach myproc_m"

section \<open>Well-formed CPUs\<close>

text \<open>
  \<open>this_cpu m\<close>: the entry of \<open>cpus\<close> whose APIC id is the executing CPU's. A CPU is in order
  when it is found, its nesting depth is not negative, and its interrupts are off while
  the depth is positive.
\<close>

definition find_cpu :: "(nat \<Rightarrow> u32) option \<Rightarrow> nat \<Rightarrow> cpu list \<Rightarrow> nat option" where
  "find_cpu l n cs = scan (\<lambda>i. uint (c_apicid (cs ! i)) =
     (case l of None \<Rightarrow> 0 | Some r \<Rightarrow> uint (drop_bit 24 (r 8)))) 0 n"

definition this_cpu :: "machine \<Rightarrow> nat option" where
  "this_cpu m = find_cpu (lapic m) (ncpu m) (cpus m)"

definition cur :: "machine \<Rightarrow> nat" where
  "cur m = (case this_cpu m of Some c \<Rightarrow> c | None \<Rightarrow> 0)"

definition ncli :: "machine \<Rightarrow> int" where
  "ncli m = c_ncli (cpus m ! cur m)"

definition curproc :: "machine \<Rightarrow> nat option" where
  "curproc m = c_proc (cpus m ! cur m)"

definition cpu_ok :: "machine \<Rightarrow> bool" where
  "cpu_ok m \<longleftrightarrow> this_cpu m \<noteq> None \<and> ncpu m \<le> length (cpus m) \<and> 0 \<le> ncli m \<and>
     (0 < ncli m \<longrightarrow> eflags m AND FL_IF = 0)"

definition held :: "machine \<Rightarrow> lockid \<Rightarrow> bool" where
  "held m L \<longleftrightarrow> lk_locked (locks m L) \<noteq> 0 \<and> lk_cpu (locks m L) = Some (cur m)"

definition unlocked :: "machine \<Rightarrow> lockid \<Rightarrow> bool" where
  "unlocked m L \<longleftrightarrow> lk_locked (locks m L) = 0"

text \<open>The effect of each operation on a CPU in order.\<close>

definition pushed :: "machine \<Rightarrow> machine" where
  "pushed m = m\<lparr>eflags := eflags m AND NOT FL_IF,
     cpus := upd (cur m) (\<lambda>k. k\<lparr>c_intena := (if c_ncli k = 0 then eflags m AND FL_IF else c_intena k),
                          c_ncli := c_ncli k + 1\<rparr>) (cpus m)\<rparr>"

definition popped :: "machine \<Rightarrow> machine" where
  "popped m = m\<lparr>eflags := (if ncli m = 1 \<and> c_intena (cpus m ! cur m) \<noteq> 0
       then eflags m OR FL_IF else eflags m),
     cpus := upd (cur m) (\<lambda>k. k\<lparr>c_ncli := c_ncli k - 1\<rparr>) (cpus m)\<rparr>"

definition touched :: "machine \<Rightarrow> machine" where
  "touched m = m\<lparr>cpus := upd (cur m)
     (\<lambda>k. k\<lparr>c_intena := (if c_ncli k = 0 then eflags m AND FL_IF else c_intena k)\<rparr>) (cpus m)\<rparr>"

definition acq :: "lockid \<Rightarrow> machine \<Rightarrow> machine" where
  "acq L m = lock_upd L (\<lambda>l. l\<lparr>lk_locked := 1, lk_cpu := Some (cur m),
     lk_pcs := getcallerpcs (mem m) (ebp m + 8)\<rparr>) (pushed m)"

definition rel :: "lockid \<Rightarrow> machine \<Rightarrow> machine" where
  "rel L m = popped (lock_upd L (\<lambda>l. l\<lparr>lk_pcs := (lk_pcs l)[0 := 0], lk_cpu := None,
     lk_locked := 0\<rparr>) m)"

section \<open>What the operations do\<close>

lemma FL_IF_eq: "FL_IF = 2 ^ 9"
  by (simp add: FL_IF_def)

lemma and_FL_IF_iff: "x AND FL_IF = 0 \<longleftrightarrow> \<not> bit x 9"
  by (simp only: FL_IF_eq and_exp_eq_0_iff_not_bit)

lemma cleared_FL_IF [simp]: "(x AND NOT FL_IF) AND FL_IF = 0"
  by (simp add: and.assoc)

lemma bit_FL_IF: "bit FL_IF n \<longleftrightarrow> n = 9"
  by (simp only: FL_IF_eq bit_exp_iff) auto

lemma clear_clear_FL_IF: "x AND FL_IF = 0 \<Longrightarrow> x AND NOT FL_IF = x"
  by (rule bit_word_eqI) (auto simp: and_FL_IF_iff bit_simps bit_FL_IF)

lemma restore_FL_IF: "x AND FL_IF \<noteq> 0 \<Longrightarrow> (x AND NOT FL_IF) OR FL_IF = x"
  by (rule bit_word_eqI) (auto simp: and_FL_IF_iff bit_simps bit_FL_IF)

lemma find_cpu_upd [simp]:
  assumes "\<And>k. c_apicid (f k) = c_apicid k"
  shows "find_cpu l n (upd c f cs) = find_cpu l n cs"
  unfolding find_cpu_def
proof (rule scan_cong)
  fix i
  have "c_apicid (upd c f cs ! i) = c_apicid (cs ! i)"
    using assms by (cases "i = c"; cases "i < length cs") (auto simp: upd_def list_update_beyond)
  then show "(uint (c_apicid (upd c f cs ! i)) = (case l of None \<Rightarrow> 0 | Some r \<Rightarrow> uint (drop_bit 24 (r 8)))) =
    (uint (c_apicid (cs ! i)) = (case l of None \<Rightarrow> 0 | Some r \<Rightarrow> uint (drop_bit 24 (r 8))))"
    by (simp only:)
qed

lemma lock_upd_sel [simp]:
  "cpus (lock_upd L f m) = cpus m" "ncpu (lock_upd L f m) = ncpu m" "eflags (lock_upd L f m) = eflags m"
  "ebp (lock_upd L f m) = ebp m" "esp (lock_upd L f m) = esp m" "cr3 (lock_upd L f m) = cr3 m" "tr (lock_upd L f m) = tr m"
  "lapic (lock_upd L f m) = lapic m" "mem (lock_upd L f m) = mem m"
  "locks (lock_upd L f m) L' = (if L' = L then f (locks m L) else locks m L')"
  by (simp_all add: lock_upd_def)

lemma pushed_sel [simp]:
  "ncpu (pushed m) = ncpu m" "ebp (pushed m) = ebp m" "esp (pushed m) = esp m" "cr3 (pushed m) = cr3 m" "tr (pushed m) = tr m"
  "lapic (pushed m) = lapic m" "mem (pushed m) = mem m" "locks (pushed m) = locks m"
  "length (cpus (pushed m)) = length (cpus m)" "eflags (pushed m) = eflags m AND NOT FL_IF"
  by (simp_all add: pushed_def)

lemma popped_sel [simp]:
  "ncpu (popped m) = ncpu m" "ebp (popped m) = ebp m" "esp (popped m) = esp m" "cr3 (popped m) = cr3 m" "tr (popped m) = tr m"
  "lapic (popped m) = lapic m" "mem (popped m) = mem m" "locks (popped m) = locks m"
  "length (cpus (popped m)) = length (cpus m)"
  by (simp_all add: popped_def)

lemma this_cpu_sel [simp]:
  "this_cpu (pushed m) = this_cpu m" "this_cpu (popped m) = this_cpu m"
  "this_cpu (lock_upd L f m) = this_cpu m" "this_cpu (touched m) = this_cpu m"
  by (simp_all add: this_cpu_def pushed_def popped_def touched_def)

lemma cur_sel [simp]:
  "cur (pushed m) = cur m" "cur (popped m) = cur m" "cur (lock_upd L f m) = cur m" "cur (touched m) = cur m"
  by (simp_all add: cur_def)

lemma cpu_ok_cur: "cpu_ok m \<Longrightarrow> this_cpu m = Some (cur m)"
  by (auto simp: cpu_ok_def cur_def)

lemma cpu_ok_less: "cpu_ok m \<Longrightarrow> cur m < length (cpus m)"
  using cpu_ok_cur [of m] by (auto simp: cpu_ok_def this_cpu_def find_cpu_def scan_Some_iff)

lemma mycpu_eq:
  "mycpu m = (if eflags m AND FL_IF \<noteq> 0 then Panic (''mycpu called with interrupts enabled'' @ [CHR 0x0A])
     else case this_cpu m of Some c \<Rightarrow> Ret c m | None \<Rightarrow> Panic (''unknown apicid'' @ [CHR 0x0A]))"
  by (simp add: mycpu_def readeflags_def lapicid_def this_cpu_def find_cpu_def kern split: option.split)

lemma pushcli_ok:
  assumes "cpu_ok m"
  shows "pushcli m = Ret () (pushed m)"
proof -
  have c: "find_cpu (lapic m) (ncpu m) (cpus m) = Some (cur m)" "cur m < length (cpus m)"
    using cpu_ok_cur [OF assms] cpu_ok_less [OF assms] by (simp_all add: this_cpu_def)
  show ?thesis
    by (cases "c_ncli (cpus m ! cur m) = 0")
      (simp_all add: pushcli_def readeflags_def cli_def cpu_get_def cpu_set_def mycpu_eq this_cpu_def c kern
        pushed_def comp_def, simp_all add: upd_def)
qed

lemma popcli_ok:
  assumes "cpu_ok m" and "0 < ncli m"
  shows "popcli m = Ret () (popped m)"
proof -
  have c: "find_cpu (lapic m) (ncpu m) (cpus m) = Some (cur m)" "cur m < length (cpus m)"
      "eflags m AND FL_IF = 0"
    using cpu_ok_cur [OF assms(1)] cpu_ok_less [OF assms(1)] assms by (simp_all add: this_cpu_def cpu_ok_def)
  show ?thesis
    using assms(2)
    by (simp add: popcli_def readeflags_def sti_def cpu_get_def cpu_set_def mycpu_eq this_cpu_def c kern
        popped_def ncli_def)
qed

lemma ncli_lock_upd [simp]: "ncli (lock_upd L f m) = ncli m"
  by (simp add: ncli_def)

lemma ncli_pushed [simp]: "cpu_ok m \<Longrightarrow> ncli (pushed m) = ncli m + 1"
  using cpu_ok_less [of m] by (simp add: ncli_def) (simp add: pushed_def)

lemma ncli_popped [simp]: "cpu_ok m \<Longrightarrow> ncli (popped m) = ncli m - 1"
  using cpu_ok_less [of m] by (simp add: ncli_def) (simp add: popped_def)

lemma cpu_ok_lock_upd [simp]: "cpu_ok (lock_upd L f m) = cpu_ok m"
  by (simp add: cpu_ok_def)

lemma cpu_ok_pushed [simp]: "cpu_ok m \<Longrightarrow> cpu_ok (pushed m)"
  using ncli_pushed [of m] by (simp add: cpu_ok_def del: ncli_pushed)

lemma cpu_ok_popped: "cpu_ok m \<Longrightarrow> 0 < ncli m \<Longrightarrow> cpu_ok (popped m)"
  using ncli_popped [of m] by (auto simp: cpu_ok_def popped_def [of m] ncli_def this_cpu_def)

lemma same_ncli: "c_ncli k = n \<Longrightarrow> k\<lparr>c_intena := x, c_ncli := n\<rparr> = k\<lparr>c_intena := x\<rparr>"
  by (cases k) simp

lemma popped_pushed: "cpu_ok m \<Longrightarrow> popped (pushed m) = touched m"
  using cpu_ok_less [of m]
  by (simp add: popped_def ncli_def)
    (auto simp: pushed_def touched_def comp_def upd_def restore_FL_IF clear_clear_FL_IF cpu_ok_def ncli_def
      same_ncli)

lemma touched_id: "0 < ncli m \<Longrightarrow> touched m = m"
  by (simp add: touched_def ncli_def upd_def)

lemma touched_sel [simp]:
  "ncpu (touched m) = ncpu m" "ebp (touched m) = ebp m" "esp (touched m) = esp m" "cr3 (touched m) = cr3 m" "tr (touched m) = tr m"
  "lapic (touched m) = lapic m" "mem (touched m) = mem m" "locks (touched m) = locks m"
  "length (cpus (touched m)) = length (cpus m)" "eflags (touched m) = eflags m"
  by (simp_all add: touched_def)

lemma cpu_ok_touched [simp]: "cpu_ok m \<Longrightarrow> cpu_ok (touched m)"
  using cpu_ok_less [of m]
  by (simp add: cpu_ok_def ncli_def) (simp add: touched_def)

lemma held_pushed [simp]: "held (pushed m) L = held m L"
  by (simp add: held_def)

lemma holding_m_ok:
  assumes "cpu_ok m"
  shows "holding_m L m = Ret (held m L) (touched m)"
proof -
  have "this_cpu m = Some (cur m)" "0 < ncli (pushed m)"
    using assms cpu_ok_cur by (auto simp: cpu_ok_def [of m])
  then show ?thesis
    using assms
    by (cases "lk_locked (locks m L) = 0")
      (simp_all add: holding_m_def kern pushcli_ok popcli_ok mycpu_eq popped_pushed held_def)
qed

lemma myproc_m_ok:
  assumes "cpu_ok m"
  shows "myproc_m m = Ret (curproc m) (touched m)"
proof -
  have "this_cpu m = Some (cur m)" "0 < ncli (pushed m)"
    using assms cpu_ok_cur by (auto simp: cpu_ok_def [of m])
  moreover have "c_proc (cpus (pushed m) ! cur m) = curproc m"
    using cpu_ok_less [OF assms] by (simp add: curproc_def pushed_def)
  ultimately show ?thesis
    using assms by (simp add: myproc_m_def kern pushcli_ok popcli_ok mycpu_eq popped_pushed)
qed

text \<open>
  On a CPU in order, \<open>acquire\<close> of a lock that is free takes it, of a lock this CPU holds panics,
  and of a lock another CPU holds spins.
\<close>

lemma acquire_m_eq:
  assumes "cpu_ok m"
  shows "acquire_m L m = (if held m L then Panic ''acquire''
    else if \<not> unlocked m L then Hang else Ret () (acq L m))"
proof -
  have "0 < ncli (pushed m)" "this_cpu m = Some (cur m)"
    using assms cpu_ok_cur by (auto simp: cpu_ok_def [of m])
  then show ?thesis
    using assms
    by (simp add: acquire_m_def kern pushcli_ok holding_m_ok touched_id spin_xchg_def mycpu_eq unlocked_def)
      (simp add: acq_def lock_upd_def)
qed

lemma release_m_eq:
  assumes "cpu_ok m" and "0 < ncli m"
  shows "release_m L m = (if held m L then Ret () (rel L m) else Panic ''release'')"
  using assms
  by (simp add: release_m_def kern holding_m_ok touched_id popcli_ok rel_def)
    (simp add: lock_upd_def)

section \<open>Observations of the machine\<close>

text \<open>
  What the rest of the kernel observes of a machine, after each operation: enough to carry a
  lock through any sequence of critical sections without looking inside the record.
\<close>

lemma cpus_at_cur:
  assumes "cpu_ok m"
  shows "cpus (pushed m) ! cur m = (cpus m ! cur m)\<lparr>c_intena := (if c_ncli (cpus m ! cur m) = 0
      then eflags m AND FL_IF else c_intena (cpus m ! cur m)), c_ncli := c_ncli (cpus m ! cur m) + 1\<rparr>"
    and "cpus (popped m) ! cur m = (cpus m ! cur m)\<lparr>c_ncli := c_ncli (cpus m ! cur m) - 1\<rparr>"
    and "cpus (touched m) ! cur m = (cpus m ! cur m)\<lparr>c_intena := (if c_ncli (cpus m ! cur m) = 0
      then eflags m AND FL_IF else c_intena (cpus m ! cur m))\<rparr>"
  using cpu_ok_less [OF assms] by (simp_all add: pushed_def popped_def touched_def)

lemma cpus_popped_lock_upd: "cpu_ok m \<Longrightarrow> cpus (popped (lock_upd L f m)) ! cur m =
    (cpus m ! cur m)\<lparr>c_ncli := c_ncli (cpus m ! cur m) - 1\<rparr>"
  using cpus_at_cur(2) [of "lock_upd L f m"] by simp

lemma cpu_ok_ncli [simp]: "cpu_ok m \<Longrightarrow> 0 \<le> ncli m" "cpu_ok m \<Longrightarrow> 0 < ncli m + 1"
  by (simp_all add: cpu_ok_def)

lemma acq_sel [simp]:
  "ncpu (acq L m) = ncpu m" "ebp (acq L m) = ebp m" "esp (acq L m) = esp m" "cr3 (acq L m) = cr3 m" "tr (acq L m) = tr m"
  "lapic (acq L m) = lapic m" "mem (acq L m) = mem m" "length (cpus (acq L m)) = length (cpus m)"
  "eflags (acq L m) = eflags m AND NOT FL_IF" "cur (acq L m) = cur m"
  by (simp_all add: acq_def)

lemma rel_sel [simp]:
  "ncpu (rel L m) = ncpu m" "ebp (rel L m) = ebp m" "esp (rel L m) = esp m" "cr3 (rel L m) = cr3 m" "tr (rel L m) = tr m"
  "lapic (rel L m) = lapic m" "mem (rel L m) = mem m" "length (cpus (rel L m)) = length (cpus m)"
  "cur (rel L m) = cur m"
  by (simp_all add: rel_def)

lemma acq_obs [simp]:
  "cpu_ok m \<Longrightarrow> cpu_ok (acq L m)" "cpu_ok m \<Longrightarrow> ncli (acq L m) = ncli m + 1"
  "held (acq L m) L' = (L' = L \<or> held m L')" "unlocked (acq L m) L' = (L' \<noteq> L \<and> unlocked m L')"
  "cpu_ok m \<Longrightarrow> curproc (acq L m) = curproc m"
  by (auto simp: acq_def held_def unlocked_def curproc_def cpus_at_cur)

lemma rel_obs [simp]:
  "cpu_ok m \<Longrightarrow> 0 < ncli m \<Longrightarrow> cpu_ok (rel L m)" "cpu_ok m \<Longrightarrow> ncli (rel L m) = ncli m - 1"
  "held (rel L m) L' = (L' \<noteq> L \<and> held m L')" "unlocked (rel L m) L' = (L' = L \<or> unlocked m L')"
  "cpu_ok m \<Longrightarrow> curproc (rel L m) = curproc m"
  by (auto simp: rel_def held_def unlocked_def curproc_def cpu_ok_popped cpus_popped_lock_upd)

lemma touched_obs [simp]:
  "cpu_ok m \<Longrightarrow> ncli (touched m) = ncli m"
  "held (touched m) L' = held m L'" "unlocked (touched m) L' = unlocked m L'"
  "cpu_ok m \<Longrightarrow> curproc (touched m) = curproc m"
  by (auto simp: held_def unlocked_def curproc_def ncli_def cpus_at_cur)

text \<open>
  The interrupt flag to return to, \<open>ie\<close>, is the flag itself at depth 0 and the one saved by the
  outermost \<open>pushcli\<close> inside; with the nesting depth it determines the current flag.
\<close>

definition ie :: "machine \<Rightarrow> bool" where
  "ie m \<longleftrightarrow> (if ncli m = 0 then eflags m AND FL_IF \<noteq> 0 else c_intena (cpus m ! cur m) \<noteq> 0)"

definition flags0 :: "machine \<Rightarrow> u32" where
  "flags0 m = eflags m AND NOT FL_IF"

lemma eflags_by_ie:
  assumes "cpu_ok m"
  shows "eflags m = (if ncli m = 0 \<and> ie m then flags0 m OR FL_IF else flags0 m)"
  using assms cpu_ok_ncli(1) [OF assms]
  by (auto simp: ie_def flags0_def cpu_ok_def restore_FL_IF clear_clear_FL_IF)

lemma or_FL_IF [simp]: "FL_IF \<noteq> 0" "(x OR FL_IF) AND NOT FL_IF = x AND NOT FL_IF"
proof -
  show "FL_IF \<noteq> 0" by (simp add: FL_IF_def)
  show "(x OR FL_IF) AND NOT FL_IF = x AND NOT FL_IF"
    by (rule bit_word_eqI) (auto simp: bit_simps)
qed

lemma flags0_obs [simp]:
  "flags0 (acq L m) = flags0 m" "flags0 (rel L m) = flags0 m" "flags0 (touched m) = flags0 m"
  by (simp_all add: flags0_def rel_def popped_def and.assoc)

lemma ie_obs [simp]:
  "cpu_ok m \<Longrightarrow> ie (acq L m) = ie m" "cpu_ok m \<Longrightarrow> ie (touched m) = ie m"
  "cpu_ok m \<Longrightarrow> 0 < ncli m \<Longrightarrow> ie (rel L m) = ie m"
proof -
  assume m: "cpu_ok m"
  then show "ie (acq L m) = ie m" "ie (touched m) = ie m"
    using cpu_ok_ncli(1) [OF m] by (auto simp: ie_def ncli_def acq_def cpus_at_cur)
  assume "0 < ncli m"
  moreover have "eflags (rel L m) = (if ncli m = 1 \<and> c_intena (cpus m ! cur m) \<noteq> 0
      then eflags m OR FL_IF else eflags m)"
    by (simp add: rel_def popped_def)
  moreover have "c_intena (cpus (rel L m) ! cur m) = c_intena (cpus m ! cur m)"
    using m by (simp add: rel_def cpus_popped_lock_upd)
  moreover have "0 < ncli m \<Longrightarrow> eflags m AND FL_IF = 0"
    using m by (simp add: cpu_ok_def)
  ultimately show "ie (rel L m) = ie m"
    using m by (simp add: ie_def)
qed

text \<open>Two machines the kernel cannot tell apart after any number of completed critical sections.\<close>

definition same_mach :: "machine \<Rightarrow> machine \<Rightarrow> bool" where
  "same_mach m m' \<longleftrightarrow> cpu_ok m' \<and> cur m' = cur m \<and> ncli m' = ncli m \<and> ie m' = ie m \<and> flags0 m' = flags0 m \<and>
     curproc m' = curproc m \<and> mem m' = mem m \<and> ebp m' = ebp m \<and> esp m' = esp m \<and> cr3 m' = cr3 m \<and> tr m' = tr m \<and>
     ncpu m' = ncpu m \<and> lapic m' = lapic m \<and> length (cpus m') = length (cpus m) \<and>
     (\<forall>L. held m' L = held m L) \<and> (\<forall>L. unlocked m' L = unlocked m L)"

lemma same_mach_eflags: "cpu_ok m \<Longrightarrow> same_mach m m' \<Longrightarrow> eflags m' = eflags m"
  using eflags_by_ie [of m] eflags_by_ie [of m'] by (simp add: same_mach_def)

lemma same_mach_trans: "same_mach m m' \<Longrightarrow> same_mach m' m'' \<Longrightarrow> same_mach m m''"
  by (simp add: same_mach_def)

lemma same_mach_refl: "cpu_ok m \<Longrightarrow> same_mach m m"
  by (simp add: same_mach_def)

lemma unlocked_not_held: "unlocked m L \<Longrightarrow> \<not> held m L"
  by (simp add: unlocked_def held_def)

lemma same_mach_critical:
  "cpu_ok m \<Longrightarrow> unlocked m L \<Longrightarrow> same_mach (acq L m) m' \<Longrightarrow> same_mach m (rel L m')"
  by (auto simp: same_mach_def unlocked_not_held)

lemma same_mach_touched: "cpu_ok m \<Longrightarrow> same_mach m m' \<Longrightarrow> same_mach m (touched m')"
  by (auto simp: same_mach_def)

section \<open>The operations on a kernel state\<close>

lemma on_mach_Ret: "f (mach s) = Ret x m \<Longrightarrow> on_mach f s = Ret x (s\<lparr>mach := m\<rparr>)"
  by (simp add: on_mach_def)

lemma acquire_ok [simp]:
  "cpu_ok (mach s) \<Longrightarrow> unlocked (mach s) L \<Longrightarrow> acquire L s = Ret () (s\<lparr>mach := acq L (mach s)\<rparr>)"
  by (simp add: acquire_def on_mach_def acquire_m_eq unlocked_not_held)

lemma release_ok [simp]:
  "cpu_ok (mach s) \<Longrightarrow> 0 < ncli (mach s) \<Longrightarrow> held (mach s) L \<Longrightarrow>
    release L s = Ret () (s\<lparr>mach := rel L (mach s)\<rparr>)"
  by (simp add: release_def on_mach_def release_m_eq)

lemma myproc_ok [simp]:
  "cpu_ok (mach s) \<Longrightarrow> myproc s = Ret (curproc (mach s)) (s\<lparr>mach := touched (mach s)\<rparr>)"
  by (simp add: myproc_def on_mach_def myproc_m_ok)

lemma holding_ok [simp]:
  "cpu_ok (mach s) \<Longrightarrow> holding L s = Ret (held (mach s) L) (s\<lparr>mach := touched (mach s)\<rparr>)"
  by (simp add: holding_def on_mach_def holding_m_ok)

section \<open>Mutual exclusion between CPUs\<close>

text \<open>
  The protocol of one lock under any interleaving of CPUs. A CPU outside the lock enters
  \<open>acquire\<close> (its \<open>holding\<close> check reads the lock), repeats the atomic exchange, records itself
  as holder, runs the critical section, enters \<open>release\<close> (whose check reads the lock again,
  clearing the holder) and stores 0. \<open>Stuck\<close> is the panic of either check.
\<close>

datatype phase = Outside | Spinning | Taken | Inside | Leaving | Stuck

record lockstate =
  ls_locked :: u32
  ls_cpu :: "nat option"
  ls_phase :: "nat \<Rightarrow> phase"

inductive lock_step :: "lockstate \<Rightarrow> lockstate \<Rightarrow> bool" where
  enter: "ls_phase s c = Outside \<Longrightarrow>
    lock_step s (s\<lparr>ls_phase := (ls_phase s)(c := if ls_locked s \<noteq> 0 \<and> ls_cpu s = Some c then Stuck else Spinning)\<rparr>)"
| exchange: "ls_phase s c = Spinning \<Longrightarrow>
    lock_step s (s\<lparr>ls_locked := 1, ls_phase := (ls_phase s)(c := if ls_locked s \<noteq> 0 then Spinning else Taken)\<rparr>)"
| record_holder: "ls_phase s c = Taken \<Longrightarrow>
    lock_step s (s\<lparr>ls_cpu := Some c, ls_phase := (ls_phase s)(c := Inside)\<rparr>)"
| leave: "ls_phase s c = Inside \<Longrightarrow>
    lock_step s (if ls_locked s \<noteq> 0 \<and> ls_cpu s = Some c
      then s\<lparr>ls_cpu := None, ls_phase := (ls_phase s)(c := Leaving)\<rparr>
      else s\<lparr>ls_phase := (ls_phase s)(c := Stuck)\<rparr>)"
| store_0: "ls_phase s c = Leaving \<Longrightarrow>
    lock_step s (s\<lparr>ls_locked := 0, ls_phase := (ls_phase s)(c := Outside)\<rparr>)"

definition lock_initial :: lockstate where
  "lock_initial = \<lparr>ls_locked = 0, ls_cpu = None, ls_phase = (\<lambda>c. Outside)\<rparr>"

definition owns :: "lockstate \<Rightarrow> nat \<Rightarrow> bool" where
  "owns s c \<longleftrightarrow> ls_phase s c \<in> {Taken, Inside, Leaving}"

definition lock_inv :: "lockstate \<Rightarrow> bool" where
  "lock_inv s \<longleftrightarrow> (\<forall>c d. owns s c \<and> owns s d \<longrightarrow> c = d) \<and> (ls_locked s = 0 \<longleftrightarrow> (\<forall>c. \<not> owns s c)) \<and>
     (\<forall>c. ls_cpu s = Some c \<longleftrightarrow> ls_phase s c = Inside) \<and> (\<forall>c. ls_phase s c \<noteq> Stuck)"

inductive_cases lock_stepE: "lock_step s t"

lemma owns_unique: "lock_inv s \<Longrightarrow> owns s c \<Longrightarrow> owns s d \<Longrightarrow> d = c"
  by (simp add: lock_inv_def)

lemma lock_inv_step: "lock_step s t \<Longrightarrow> lock_inv s \<Longrightarrow> lock_inv t"
proof (induction rule: lock_step.induct)
  case (enter s c)
  then have "\<not> (ls_locked s \<noteq> 0 \<and> ls_cpu s = Some c)"
    by (auto simp: lock_inv_def)
  moreover have "owns (s\<lparr>ls_phase := (ls_phase s)(c := Spinning)\<rparr>) = owns s"
    using enter by (auto simp: owns_def fun_eq_iff)
  ultimately show ?case
    using enter by (auto simp: lock_inv_def)
next
  case (exchange s c)
  show ?case
  proof (cases "ls_locked s = 0")
    case True
    with exchange have "\<forall>d. \<not> owns s d" "\<forall>d. ls_phase s d \<noteq> Inside" "\<forall>d. ls_phase s d \<noteq> Stuck" "ls_cpu s = None"
      by (auto simp: lock_inv_def owns_def)
    with True exchange show ?thesis by (auto simp: lock_inv_def owns_def)
  next
    case False
    with exchange show ?thesis by (auto simp: lock_inv_def owns_def fun_upd_idem)
  qed
next
  case (record_holder s c)
  let ?t = "s\<lparr>ls_cpu := Some c, ls_phase := (ls_phase s)(c := Inside)\<rparr>"
  have "owns ?t = owns s"
    using record_holder by (auto simp: owns_def fun_eq_iff)
  moreover have "ls_phase s d \<noteq> Inside" for d
    using record_holder owns_unique [of s c d] by (auto simp: owns_def)
  ultimately show ?case
    using record_holder(2) by (simp add: lock_inv_def)
next
  case (leave s c)
  let ?t = "s\<lparr>ls_cpu := None, ls_phase := (ls_phase s)(c := Leaving)\<rparr>"
  have "ls_locked s \<noteq> 0" "ls_cpu s = Some c"
    using leave by (auto simp: lock_inv_def owns_def)
  moreover have "owns ?t = owns s"
    using leave by (auto simp: owns_def fun_eq_iff)
  moreover have "ls_phase s d = Inside \<Longrightarrow> d = c" for d
    using leave owns_unique [of s c d] by (auto simp: owns_def)
  ultimately show ?case
    using leave(2) by (simp add: lock_inv_def) blast
next
  case (store_0 s c)
  let ?t = "s\<lparr>ls_locked := 0, ls_phase := (ls_phase s)(c := Outside)\<rparr>"
  have others: "ls_phase s d \<notin> {Taken, Inside, Leaving}" if "d \<noteq> c" for d
    using that store_0 owns_unique [of s c d] by (auto simp: owns_def)
  then have "ls_phase s d \<noteq> Inside" for d
    using store_0(1) by (cases "d = c") auto
  then have "ls_cpu s = None"
    using store_0(2) by (cases "ls_cpu s") (auto simp: lock_inv_def)
  moreover have "\<not> owns ?t d" for d
    using others by (simp add: owns_def)
  ultimately show ?case
    using store_0(2) others by (simp add: lock_inv_def)
qed

lemma lock_inv_reachable: "lock_step\<^sup>*\<^sup>* lock_initial s \<Longrightarrow> lock_inv s"
proof (induction rule: rtranclp_induct)
  case base
  show ?case by (simp add: lock_initial_def lock_inv_def owns_def)
next
  case (step s t)
  then show ?case by (blast intro: lock_inv_step)
qed

section \<open>A concrete machine\<close>

text \<open>One CPU with no local APIC, no lock held; used to instantiate the theorems.\<close>

definition demo_cpu :: "nat option \<Rightarrow> cpu" where
  "demo_cpu p = \<lparr>c_apicid = 0, c_scheduler = 0, c_ts = \<lparr>ts_esp0 = 0, ts_ss0 = 0, ts_iomb = 0\<rparr>,
     c_gdt = replicate 6 (SEG 0 0 0 0), c_started = 1, c_ncli = 0, c_intena = 0, c_proc = p\<rparr>"

definition free_lock :: spinlock where
  "free_lock = \<lparr>lk_locked = 0, lk_name = [], lk_cpu = None, lk_pcs = replicate 10 0\<rparr>"

definition demo_mach :: "nat option \<Rightarrow> u32 \<Rightarrow> machine" where
  "demo_mach p fl = \<lparr>cpus = [demo_cpu p], ncpu = 1, eflags = fl, ebp = 0, esp = 0x8DFFFF00, cr3 = 0, tr = 0,
     lapic = None, mem = (\<lambda>_. 0), locks = (\<lambda>_. free_lock)\<rparr>"

lemma demo_mach_obs [simp]:
  "this_cpu (demo_mach p fl) = Some 0" "cur (demo_mach p fl) = 0" "ncli (demo_mach p fl) = 0"
  "cpu_ok (demo_mach p fl)" "unlocked (demo_mach p fl) L" "\<not> held (demo_mach p fl) L"
  "curproc (demo_mach p fl) = p" "esp (demo_mach p fl) = 0x8DFFFF00" "mem (demo_mach p fl) = (\<lambda>_. 0)"
  "eflags (demo_mach p fl) = fl"
proof -
  show 1: "this_cpu (demo_mach p fl) = Some 0"
    by (simp add: this_cpu_def find_cpu_def demo_mach_def demo_cpu_def scan.simps)
  then show 2: "cur (demo_mach p fl) = 0" by (simp add: cur_def)
  then show 3: "ncli (demo_mach p fl) = 0"
    by (simp add: ncli_def) (simp add: demo_mach_def demo_cpu_def)
  show "cpu_ok (demo_mach p fl)"
    by (simp add: cpu_ok_def 1 3) (simp add: demo_mach_def)
  show "curproc (demo_mach p fl) = p" by (simp add: curproc_def 2) (simp add: demo_mach_def demo_cpu_def)
qed (simp_all add: unlocked_def held_def demo_mach_def free_lock_def)

section \<open>Properties\<close>

text \<open>C12: Mutual exclusion. Under any interleaving of any number of CPUs stepping through \<open>acquire\<close> and
  \<open>release\<close>, at most one CPU is between its successful exchange and its final store, and no CPU
  ever reaches the panics of \<open>acquire\<close> and \<open>release\<close>.\<close>

theorem lock_mutual_exclusion:
  assumes "lock_step\<^sup>*\<^sup>* lock_initial s"
  shows "(\<forall>c d. owns s c \<and> owns s d \<longrightarrow> c = d) \<and> (\<forall>c. ls_phase s c \<noteq> Stuck)"
  using lock_inv_reachable [OF assms] by (auto simp: lock_inv_def)

theorem lock_mutual_exclusion_witness:
  "\<exists>s. lock_step\<^sup>*\<^sup>* lock_initial s \<and> ls_phase s 0 = Taken \<and> ls_phase s 1 = Spinning \<and> (\<forall>d. owns s d \<longrightarrow> d = 0)"
proof -
  let ?s1 = "lock_initial\<lparr>ls_phase := (ls_phase lock_initial)(0 := Spinning)\<rparr>"
  let ?s2 = "?s1\<lparr>ls_phase := (ls_phase ?s1)(1 := Spinning)\<rparr>"
  let ?s3 = "?s2\<lparr>ls_locked := 1, ls_phase := (ls_phase ?s2)(0 := Taken)\<rparr>"
  have "lock_step lock_initial ?s1" "lock_step ?s1 ?s2" "lock_step ?s2 ?s3"
    using lock_step.enter [of lock_initial 0] lock_step.enter [of ?s1 1] lock_step.exchange [of ?s2 0]
    by (simp_all add: lock_initial_def)
  then have reach: "lock_step\<^sup>*\<^sup>* lock_initial ?s3"
    by (meson converse_rtranclp_into_rtranclp rtranclp.rtrancl_refl)
  have "owns ?s3 0" by (simp add: owns_def)
  then have "\<forall>d. owns ?s3 d \<longrightarrow> d = 0"
    using lock_mutual_exclusion [OF reach] by blast
  with reach show ?thesis
    by (intro exI [of _ ?s3]) simp
qed

text \<open>C13: Critical sections nest. On a CPU in order, \<open>acquire\<close> of a free lock succeeds with interrupts off
  and the lock held by this CPU, and the matching \<open>release\<close> succeeds and restores everything
  the kernel observes of the machine: the interrupt flag, the nesting depth, the locks held.
  \<open>acquire\<close> of a lock this CPU already holds panics, and of one held elsewhere spins.\<close>

theorem acquire_release_correct:
  assumes "cpu_ok m"
  shows "(unlocked m L \<longrightarrow> (\<exists>m1 m2. acquire_m L m = Ret () m1 \<and> held m1 L \<and> eflags m1 AND FL_IF = 0 \<and>
      release_m L m1 = Ret () m2 \<and> same_mach m m2 \<and> eflags m2 = eflags m)) \<and>
    (held m L \<longrightarrow> acquire_m L m = Panic ''acquire'') \<and>
    (\<not> unlocked m L \<and> \<not> held m L \<longrightarrow> acquire_m L m = Hang)"
proof -
  have "same_mach m (rel L (acq L m))" if "unlocked m L"
    using assms that by (intro same_mach_critical same_mach_refl) auto
  then show ?thesis
    using assms same_mach_eflags [OF assms] unlocked_not_held [of m L]
    by (auto simp: acquire_m_eq release_m_eq)
qed

theorem acquire_release_correct_witness:
  "\<exists>m1 m2. acquire_m L_kmem (demo_mach None FL_IF) = Ret () m1 \<and> eflags m1 AND FL_IF = 0 \<and>
    release_m L_kmem m1 = Ret () m2 \<and> eflags m2 = FL_IF"
  using acquire_release_correct [of "demo_mach None FL_IF" L_kmem] by auto

end
