(* ===== verification/Console.thy ===== *)
theory Console
  imports Spinlock
begin

text \<open>
  Console output, \<^verbatim>\<open>src/console.c\<close> lines 20-179 and \<^verbatim>\<open>src/uart.c\<close>: the CGA cursor and screen
  memory, the serial line, number formatting, \<open>cprintf\<close> and \<open>panic\<close>. The record also holds
  the input line buffer, whose handlers need \<open>wakeup\<close> and \<open>sleep\<close> and come later.
  Screen memory is the array of 16-bit cells at \<open>crt\<close>; what is sent to the serial port is
  the list of bytes, oldest first.
\<close>

section \<open>State\<close>

record console =
  cn_locking :: bool
  cn_panicked :: bool
  crt :: "nat \<Rightarrow> u16"
  crt_hi :: u8
  crt_lo :: u8
  uart :: bool
  uart_out :: "u8 list"
  inp_buf :: "u8 list"
  inp_r :: u32
  inp_w :: u32
  inp_e :: u32

record cstate = base +
  con :: console

definition on_con :: "('a, console) kern \<Rightarrow> ('a, 'z cstate_scheme) kern" where
  "on_con f s = (case f (con s) of
      Ret x k \<Rightarrow> Ret x (s\<lparr>con := k\<rparr>)
    | Panic e \<Rightarrow> Panic e
    | Switch k \<Rightarrow> Switch (s\<lparr>con := k\<rparr>)
    | Hang \<Rightarrow> Hang)"

definition BACKSPACE :: u32 where "BACKSPACE = 0x100"
definition NL :: u8 where "NL = 10"

section \<open>Screen and serial line\<close>

definition cursor :: "console \<Rightarrow> nat" where
  "cursor k = 256 * unat (crt_hi k) + unat (crt_lo k)"

definition set_cursor :: "nat \<Rightarrow> console \<Rightarrow> console" where
  "set_cursor pos k = k\<lparr>crt_hi := of_nat (pos div 256), crt_lo := of_nat pos\<rparr>"

definition cell :: "u32 \<Rightarrow> u16" where
  "cell c = ucast (c AND 0xff) OR 0x0700"

definition scroll :: "nat \<Rightarrow> (nat \<Rightarrow> u16) \<Rightarrow> nat \<Rightarrow> u16" where
  "scroll pos scr i = (if pos \<le> i \<and> i < 24 * 80 then 0 else if i < 23 * 80 then scr (i + 80) else scr i)"

definition cga_advance :: "u32 \<Rightarrow> (nat, console) kern" where
  "cga_advance c =
    bind (gets cursor) (\<lambda>pos.
    if c = ucast NL then return (pos + (80 - pos mod 80))
    else if c = BACKSPACE then return (pos - 1)
    else andthen (modify (\<lambda>k. k\<lparr>crt := (crt k)(pos := cell c)\<rparr>)) (return (pos + 1)))"

definition cga_settle :: "nat \<Rightarrow> (unit, console) kern" where
  "cga_settle pos =
    (if pos > 25 * 80 then panic ''pos under/overflow'' else
     bind (if pos div 80 \<ge> 24
           then andthen (modify (\<lambda>k. k\<lparr>crt := scroll (pos - 80) (crt k)\<rparr>)) (return (pos - 80))
           else return pos) (\<lambda>pos.
     modify (\<lambda>k. set_cursor pos (k\<lparr>crt := (crt k)(pos := cell 32)\<rparr>))))"

definition cgaputc :: "u32 \<Rightarrow> (unit, console) kern" where
  "cgaputc c = bind (cga_advance c) cga_settle"

text \<open>The wait for the transmitter is bounded and the byte is sent however it ends.\<close>

definition uartputc :: "u32 \<Rightarrow> (unit, console) kern" where
  "uartputc c = modify (\<lambda>k. if \<not> uart k then k else k\<lparr>uart_out := uart_out k @ [ucast c]\<rparr>)"

definition consputc :: "u32 \<Rightarrow> (unit, console) kern" where
  "consputc c =
    bind (gets cn_panicked) (\<lambda>p. if p then hang else
    andthen (if c = BACKSPACE then andthen (uartputc 8) (andthen (uartputc 32) (uartputc 8)) else uartputc c)
      (cgaputc c))"

fun consputs :: "u32 list \<Rightarrow> (unit, console) kern" where
  "consputs [] = return ()"
| "consputs (c # cs) = andthen (consputc c) (consputs cs)"

section \<open>Formatting\<close>

definition digit :: "nat \<Rightarrow> u8" where
  "digit d = (if d < 10 then of_nat (48 + d) else of_nat (87 + d))"

text \<open>\<open>do{ buf[i++] = digits[x % base]; } while((x /= base) != 0)\<close>, least significant digit first.\<close>

function print_digits :: "nat \<Rightarrow> nat \<Rightarrow> u8 list" where
  "print_digits base x = digit (x mod base) #
     (if base < 2 \<or> x div base = 0 then [] else print_digits base (x div base))"
  by pat_completeness auto
termination
  by (relation "measure snd") (auto simp: div_eq_0_iff)

declare print_digits.simps [simp del]

definition int_chars :: "u32 \<Rightarrow> nat \<Rightarrow> bool \<Rightarrow> u8 list" where
  "int_chars xx base sign =
    (let neg = sign \<and> xx <s 0;
         x = (if neg then - xx else xx);
         buf = print_digits base (unat x)
     in rev (if neg then buf @ [45] else buf))"

definition printint :: "u32 \<Rightarrow> nat \<Rightarrow> bool \<Rightarrow> (unit, console) kern" where
  "printint xx base sign = consputs (map ucast (int_chars xx base sign))"

text \<open>
  A variadic argument: the word on the stack and, when it is a pointer to a string, the
  bytes there. A missing argument reads as the word 0.
\<close>

datatype carg = Arg (arg_word: u32) (arg_text: "u8 list")

definition next_arg :: "carg list \<Rightarrow> carg" where
  "next_arg args = (case args of [] \<Rightarrow> Arg 0 [] | a # _ \<Rightarrow> a)"

definition null_text :: "u8 list" where
  "null_text = [40, 110, 117, 108, 108, 41]"

fun cprintf_loop :: "u8 list \<Rightarrow> carg list \<Rightarrow> (unit, console) kern" where
  "cprintf_loop [] args = return ()"
| "cprintf_loop [c] args = (if c = 0 \<or> c = 37 then return () else consputc (ucast c))"
| "cprintf_loop (c # d # fmt) args =
    (if c = 0 then return ()
     else if c \<noteq> 37 then andthen (consputc (ucast c)) (cprintf_loop (d # fmt) args)
     else if d = 0 then return ()
     else if d = 100 then andthen (printint (arg_word (next_arg args)) 10 True) (cprintf_loop fmt (tl args))
     else if d = 120 \<or> d = 112 then
       andthen (printint (arg_word (next_arg args)) 16 False) (cprintf_loop fmt (tl args))
     else if d = 115 then
       andthen (consputs (map scast (if arg_word (next_arg args) = 0 then null_text
                                     else cstr (arg_text (next_arg args)))))
         (cprintf_loop fmt (tl args))
     else if d = 37 then andthen (consputc 37) (cprintf_loop fmt args)
     else andthen (consputc 37) (andthen (consputc (ucast d)) (cprintf_loop fmt args)))"

definition cprintf :: "u8 list option \<Rightarrow> carg list \<Rightarrow> (unit, 'z cstate_scheme) kern" where
  "cprintf fmt args =
    bind (gets (\<lambda>s. cn_locking (con s))) (\<lambda>locking.
    andthen (whenk locking (acquire L_cons)) (
    case fmt of None \<Rightarrow> panic ''null fmt'' | Some f \<Rightarrow>
    andthen (on_con (cprintf_loop f args)) (
    whenk locking (release L_cons))))"

text \<open>Kernel string literals, as bytes.\<close>

definition lit :: "string \<Rightarrow> u8 list" where
  "lit s = map (\<lambda>c. of_nat (of_char c)) s"

definition int_arg :: "u32 \<Rightarrow> carg" where "int_arg x = Arg x []"

text \<open>
  \<open>panic\<close> itself, up to its final loop: what it prints, and that it freezes every later
  \<open>consputc\<close>. \<open>v\<close> is the address of its parameter.
\<close>

definition panic_report :: "u8 list \<Rightarrow> u32 \<Rightarrow> (unit, 'z cstate_scheme) kern" where
  "panic_report msg v =
    andthen (on_mach cli) (
    andthen (modify (\<lambda>s. s\<lparr>con := (con s)\<lparr>cn_locking := False\<rparr>\<rparr>)) (
    bind (on_mach lapicid) (\<lambda>id.
    andthen (cprintf (Some (lit ''lapicid %d: panic: '')) [int_arg (word_of_int id)]) (
    andthen (cprintf (Some msg) []) (
    andthen (cprintf (Some [NL]) []) (
    bind (gets (\<lambda>s. getcallerpcs (mem (mach s)) v)) (\<lambda>pcs.
    andthen (foldr (\<lambda>pc k. andthen (cprintf (Some (lit '' %p'')) [int_arg pc]) k) pcs (return ()))
      (modify (\<lambda>s. s\<lparr>con := (con s)\<lparr>cn_panicked := True\<rparr>\<rparr>)))))))))"

section \<open>The text a format produces\<close>

fun cformat :: "u8 list \<Rightarrow> carg list \<Rightarrow> u8 list" where
  "cformat [] args = []"
| "cformat [c] args = (if c = 0 \<or> c = 37 then [] else [c])"
| "cformat (c # d # fmt) args =
    (if c = 0 then []
     else if c \<noteq> 37 then c # cformat (d # fmt) args
     else if d = 0 then []
     else if d = 100 then int_chars (arg_word (next_arg args)) 10 True @ cformat fmt (tl args)
     else if d = 120 \<or> d = 112 then int_chars (arg_word (next_arg args)) 16 False @ cformat fmt (tl args)
     else if d = 115 then
       (if arg_word (next_arg args) = 0 then null_text else cstr (arg_text (next_arg args)))
         @ cformat fmt (tl args)
     else if d = 37 then 37 # cformat fmt args
     else 37 # d # cformat fmt args)"

section \<open>The cursor stays on the screen\<close>

definition con_ok :: "console \<Rightarrow> bool" where
  "con_ok k \<longleftrightarrow> cursor k < 24 * 80 \<and> \<not> cn_panicked k"

text \<open>\<open>k'\<close> is \<open>k\<close> with \<open>cs\<close> sent to the serial line and only the screen otherwise changed.\<close>

definition scrub :: "console \<Rightarrow> console" where
  "scrub k = k\<lparr>crt := (\<lambda>_. 0), crt_hi := 0, crt_lo := 0, uart_out := []\<rparr>"

definition printed :: "u8 list \<Rightarrow> console \<Rightarrow> console \<Rightarrow> bool" where
  "printed cs k k' \<longleftrightarrow> con_ok k' \<and> uart_out k' = (if uart k then uart_out k @ cs else uart_out k) \<and>
     scrub k' = scrub k"

lemma scrub_eqD:
  assumes "scrub k' = scrub k"
  shows "cn_locking k' = cn_locking k" "cn_panicked k' = cn_panicked k" "uart k' = uart k"
    "inp_buf k' = inp_buf k" "inp_r k' = inp_r k" "inp_w k' = inp_w k" "inp_e k' = inp_e k"
  using arg_cong [OF assms, of cn_locking] arg_cong [OF assms, of cn_panicked] arg_cong [OF assms, of uart]
    arg_cong [OF assms, of inp_buf] arg_cong [OF assms, of inp_r] arg_cong [OF assms, of inp_w]
    arg_cong [OF assms, of inp_e]
  by (simp_all add: scrub_def)

lemma printed_sel:
  assumes "printed cs k k'"
  shows "cn_locking k' = cn_locking k" "cn_panicked k' = cn_panicked k" "uart k' = uart k"
    "inp_buf k' = inp_buf k" "inp_r k' = inp_r k" "inp_w k' = inp_w k" "inp_e k' = inp_e k" "con_ok k'"
  using assms scrub_eqD [of k' k] by (simp_all add: printed_def)

lemma printed_refl: "con_ok k \<Longrightarrow> printed [] k k"
  by (simp add: printed_def)

lemma printed_trans: "printed cs k k' \<Longrightarrow> printed ds k' k'' \<Longrightarrow> printed (cs @ ds) k k''"
  using scrub_eqD(3) [of k' k] by (simp add: printed_def)

lemma cursor_set_cursor: "pos < 65536 \<Longrightarrow> cursor (set_cursor pos k) = pos"
  by (simp add: cursor_def set_cursor_def unat_of_nat)

lemma cursor_crt [simp]: "cursor (k\<lparr>crt := x\<rparr>) = cursor k"
  by (simp add: cursor_def)

lemma printed_set_cursor:
  "\<not> cn_panicked k \<Longrightarrow> pos < 24 * 80 \<Longrightarrow> printed [] k (set_cursor pos (k\<lparr>crt := scr\<rparr>))"
  by (simp add: printed_def con_ok_def cursor_set_cursor) (simp add: set_cursor_def scrub_def)

lemma next_line_le:
  assumes "(x :: nat) < 24 * 80"
  shows "x + (80 - x mod 80) \<le> 24 * 80"
proof -
  have "x + (80 - x mod 80) = 80 * (x div 80 + 1)"
  proof -
    have "r < 80 \<Longrightarrow> 80 * q + r + (80 - r) = 80 * (q + 1)" for q r :: nat by simp
    from this [of "x mod 80" "x div 80"] show ?thesis by simp
  qed
  moreover have "x div 80 < 24" using assms by (simp add: less_mult_imp_div_less)
  ultimately show ?thesis by simp
qed

lemma cga_advance_ok:
  assumes "con_ok k"
  shows "\<exists>pos scr. pos \<le> 24 * 80 \<and> cga_advance c k = Ret pos (k\<lparr>crt := scr\<rparr>)"
proof (cases "c = ucast NL \<or> c = BACKSPACE")
  case True
  have "k = k\<lparr>crt := crt k\<rparr>" by simp
  then show ?thesis
    using True assms next_line_le [of "cursor k"]
    by (auto simp: cga_advance_def bind_def gets_def return_def con_ok_def intro!: exI [of _ "crt k"])
next
  case False
  then show ?thesis
    using assms by (auto simp: cga_advance_def kern con_ok_def)
qed

lemma cga_settle_ok:
  assumes "\<not> cn_panicked k" and "pos \<le> 24 * 80"
  shows "\<exists>k'. cga_settle pos k = Ret () k' \<and> printed [] k k'"
proof (cases "pos div 80 \<ge> 24")
  case True
  then have "pos = 24 * 80" using assms(2) by (metis le_antisym div_le_mono less_eq_div_iff_mult_less_eq zero_less_numeral)
  then show ?thesis
    using printed_set_cursor [OF assms(1), of "pos - 80"] by (simp add: cga_settle_def kern)
next
  case False
  then have "pos < 24 * 80"
    using assms(2) by (cases "pos = 24 * 80") auto
  then show ?thesis
    using False printed_set_cursor [OF assms(1), of pos] by (simp add: cga_settle_def kern)
qed

lemma cgaputc_ok:
  assumes "con_ok k"
  shows "\<exists>k'. cgaputc c k = Ret () k' \<and> printed [] k k'"
proof -
  obtain pos scr where 1: "pos \<le> 24 * 80" "cga_advance c k = Ret pos (k\<lparr>crt := scr\<rparr>)"
    using cga_advance_ok [OF assms] by blast
  obtain k' where "cga_settle pos (k\<lparr>crt := scr\<rparr>) = Ret () k'" "printed [] (k\<lparr>crt := scr\<rparr>) k'"
    using cga_settle_ok [of "k\<lparr>crt := scr\<rparr>" pos] 1 assms by (auto simp: con_ok_def)
  with 1 show ?thesis
    by (auto simp: cgaputc_def bind_def printed_def scrub_def)
qed

section \<open>Output returns, and the serial line carries the text\<close>

definition prints :: "(unit, console) kern \<Rightarrow> u8 list \<Rightarrow> bool" where
  "prints f cs \<longleftrightarrow> (\<forall>k. con_ok k \<longrightarrow> (\<exists>k'. f k = Ret () k' \<and> printed cs k k'))"

lemma printsD: "prints f cs \<Longrightarrow> con_ok k \<Longrightarrow> \<exists>k'. f k = Ret () k' \<and> printed cs k k'"
  by (simp add: prints_def)

lemma prints_return: "prints (return ()) []"
  by (auto simp: prints_def return_def intro: printed_refl)

lemma prints_andthen:
  assumes "prints f cs" and "prints g ds"
  shows "prints (andthen f g) (cs @ ds)"
  unfolding prints_def
proof (intro allI impI)
  fix k
  assume "con_ok k"
  then obtain k' where k': "f k = Ret () k'" "printed cs k k'"
    using printsD [OF assms(1)] by blast
  then obtain k'' where k'': "g k' = Ret () k''" "printed ds k' k''"
    using printsD [OF assms(2) printed_sel(8)] by blast
  from k' k'' show "\<exists>k'. andthen f g k = Ret () k' \<and> printed (cs @ ds) k k'"
    by (auto simp: andthen_Ret_iff intro: printed_trans)
qed

lemma prints_consputc:
  assumes "c \<noteq> BACKSPACE"
  shows "prints (consputc c) [ucast c]"
  unfolding prints_def
proof (intro allI impI)
  fix k
  assume k: "con_ok k"
  let ?k = "if \<not> uart k then k else k\<lparr>uart_out := uart_out k @ [ucast c]\<rparr>"
  have "con_ok ?k" "scrub ?k = scrub k"
    using k by (simp_all add: con_ok_def cursor_def scrub_def)
  then obtain k' where "cgaputc c ?k = Ret () k'" "printed [] ?k k'"
    using cgaputc_ok by blast
  moreover have "consputc c k = cgaputc c ?k"
    using assms k by (simp add: consputc_def uartputc_def kern con_ok_def)
  ultimately show "\<exists>k'. consputc c k = Ret () k' \<and> printed [ucast c] k k'"
    by (auto simp: printed_def scrub_def split: if_splits)
qed

lemma byte_not_BACKSPACE [simp]: "ucast (b :: u8) \<noteq> BACKSPACE" "scast (b :: u8) \<noteq> BACKSPACE"
proof -
  have "\<not> bit (ucast b :: u32) 8"
    by (auto simp: bit_ucast_iff dest: bit_imp_le_length)
  then show "ucast b \<noteq> BACKSPACE" by (auto simp: BACKSPACE_def)
  have "ucast (BACKSPACE) = (0 :: u8)" "(ucast (scast b :: u32) :: u8) = b"
    by (auto simp: BACKSPACE_def intro!: bit_word_eqI simp: bit_ucast_iff bit_signed_iff)
  moreover have "bit (scast b :: u32) 8 = bit b 7"
    by (simp add: bit_signed_iff)
  ultimately show "scast b \<noteq> BACKSPACE"
    by (auto simp: BACKSPACE_def)
qed

lemma ucast_scast_byte [simp]: "ucast (scast (b :: u8) :: u32) = b" "ucast (ucast (b :: u8) :: u32) = b"
  by (auto intro!: bit_word_eqI simp: bit_ucast_iff bit_signed_iff)

lemma prints_byte: "prints (consputc (ucast b)) [b]" "prints (consputc (scast b)) [b]"
  using prints_consputc [of "ucast b"] prints_consputc [of "scast b"] by simp_all

lemma prints_bytes: "prints (consputs (map ucast bs)) bs" "prints (consputs (map scast bs)) bs"
proof -
  show "prints (consputs (map ucast bs)) bs"
    by (induction bs) (auto simp: prints_return dest: prints_andthen [OF prints_byte(1)])
  show "prints (consputs (map scast bs)) bs"
    by (induction bs) (auto simp: prints_return dest: prints_andthen [OF prints_byte(2)])
qed

lemma prints_printint: "prints (printint x b sg) (int_chars x b sg)"
  by (simp add: printint_def prints_bytes)

lemma prints_Cons: "prints f [c] \<Longrightarrow> prints g ds \<Longrightarrow> prints (andthen f g) (c # ds)"
  using prints_andthen [of f "[c]" g ds] by simp

lemma prints_cprintf_loop: "prints (cprintf_loop fmt args) (cformat fmt args)"
proof (induction fmt args rule: cprintf_loop.induct)
  case (3 c d fmt args)
  have pct: "prints (consputc 37) [37]" using prints_byte(1) [of 37] by simp
  consider "c = 0" | "c \<noteq> 0" "c \<noteq> 37" | "c = 37" "d = 0" | "c = 37" "d = 100"
    | "c = 37" "d = 120 \<or> d = 112" | "c = 37" "d = 115" | "c = 37" "d = 37"
    | "c = 37" "d \<notin> {0, 100, 120, 112, 115, 37}" by blast
  then show ?case
  proof cases
    case 2
    then show ?thesis using "3.IH"(1) prints_Cons [OF prints_byte(1) [of c]] by simp
  next
    case 4
    then show ?thesis using "3.IH"(2) prints_andthen [OF prints_printint] by simp
  next
    case 5
    then show ?thesis using "3.IH"(3) prints_andthen [OF prints_printint] by auto
  next
    case 6
    then show ?thesis using "3.IH"(4) prints_andthen [OF prints_bytes(2)] by simp
  next
    case 7
    then show ?thesis using "3.IH"(5) prints_Cons [OF pct] by simp
  next
    case 8
    then show ?thesis
      using "3.IH"(6) prints_Cons [OF pct prints_Cons [OF prints_byte(1) [of d]]] by simp
  qed (simp_all add: prints_return)
qed (auto simp: prints_return prints_byte)

lemma cprintf_ok:
  assumes "cpu_ok (mach s)" and "con_ok (con s)" and "cn_locking (con s) \<Longrightarrow> unlocked (mach s) L_cons"
  shows "\<exists>m' k'. cprintf (Some fmt) args s = Ret () (s\<lparr>mach := m', con := k'\<rparr>) \<and>
    same_mach (mach s) m' \<and> printed (cformat fmt args) (con s) k'"
proof -
  obtain k' where k': "cprintf_loop fmt args (con s) = Ret () k'" "printed (cformat fmt args) (con s) k'"
    using printsD [OF prints_cprintf_loop assms(2)] by blast
  show ?thesis
  proof (cases "cn_locking (con s)")
    case True
    then have "same_mach (mach s) (rel L_cons (acq L_cons (mach s)))"
      using assms by (intro same_mach_critical same_mach_refl) auto
    moreover have "cprintf (Some fmt) args s = Ret () (s\<lparr>mach := rel L_cons (acq L_cons (mach s)), con := k'\<rparr>)"
      using True assms k' by (simp add: cprintf_def kern on_con_def)
    ultimately show ?thesis using k' by blast
  next
    case False
    moreover have "s\<lparr>mach := mach s, con := k'\<rparr> = s\<lparr>con := k'\<rparr>" by simp
    ultimately show ?thesis
      using same_mach_refl [OF assms(1)] k' by (auto simp: cprintf_def kern on_con_def intro!: exI [of _ "mach s"])
  qed
qed

section \<open>Numbers read back\<close>

definition digit_value :: "u8 \<Rightarrow> nat" where
  "digit_value c = (if unat c < 58 then unat c - 48 else unat c - 87)"

lemma digit_value_digit: "d < 16 \<Longrightarrow> digit_value (digit d) = d"
  by (simp add: digit_value_def digit_def unat_of_nat del: of_nat_add)

lemma print_digits_value:
  assumes "2 \<le> b" and "b \<le> 16"
  shows "foldr (\<lambda>c n. digit_value c + b * n) (print_digits b x) 0 = x"
  using assms
proof (induction b x rule: print_digits.induct)
  case (1 b x)
  have "x mod b < 16"
    using 1(2,3) mod_less_divisor [of b x] by linarith
  then show ?case
    using 1 by (subst print_digits.simps) (auto simp: digit_value_digit div_eq_0_iff)
qed

lemma length_print_digits: "2 \<le> b \<Longrightarrow> x < b ^ Suc n \<Longrightarrow> length (print_digits b x) \<le> Suc n"
proof (induction n arbitrary: x)
  case 0
  then show ?case by (subst print_digits.simps) simp
next
  case (Suc n)
  have "x div b < b ^ Suc n"
    using Suc.prems by (intro less_mult_imp_div_less) (simp add: mult.commute)
  then show ?case
    using Suc by (subst print_digits.simps) simp
qed

section \<open>Properties\<close>

text \<open>C32: Console output is safe. With the cursor on the screen, \<open>cprintf\<close> never panics or hangs: it
  returns with the cursor still on the screen and the lock state unchanged, and the bytes it sends
  to the serial line are exactly the formatted text.\<close>

theorem cprintf_correct:
  assumes "cpu_ok (mach s)" and "con_ok (con s)" and "unlocked (mach s) L_cons"
  shows "\<exists>m' k'. cprintf (Some fmt) args s = Ret () (s\<lparr>mach := m', con := k'\<rparr>) \<and> same_mach (mach s) m' \<and>
    con_ok k' \<and> uart_out k' = (if uart (con s) then uart_out (con s) @ cformat fmt args else uart_out (con s))"
  using cprintf_ok [OF assms(1,2)] assms(3) by (fastforce simp: printed_def)

definition demo_con :: console where
  "demo_con = \<lparr>cn_locking = True, cn_panicked = False, crt = (\<lambda>_. 0), crt_hi = 0, crt_lo = 0, uart = True,
     uart_out = [], inp_buf = replicate 128 0, inp_r = 0, inp_w = 0, inp_e = 0\<rparr>"

lemma demo_con_ok [simp]: "con_ok demo_con" "uart demo_con" "uart_out demo_con = []"
  by (simp_all add: con_ok_def cursor_def demo_con_def)

theorem cprintf_correct_witness:
  "\<exists>t. cprintf (Some [104, 61, 37, 120]) [Arg 255 []] \<lparr>mach = demo_mach None FL_IF, con = demo_con\<rparr> = Ret () t \<and>
    uart_out (con t) = [104, 61, 102, 102]"
proof -
  have "cformat [104, 61, 37, 120] [Arg 255 []] = [104, 61, 102, 102]"
    by (simp add: next_arg_def int_chars_def print_digits.simps digit_def Let_def)
  then show ?thesis
    using cprintf_correct [of "\<lparr>mach = demo_mach None FL_IF, con = demo_con\<rparr>" "[104, 61, 37, 120]" "[Arg 255 []]"]
    by auto
qed

text \<open>C39: Numbers print faithfully: read as digits of the base, the characters \<open>printint\<close> emits for an
  unsigned number give the number back, a negative number prints as a minus sign and its
  magnitude, and the text never exceeds the 16-byte buffer.\<close>

theorem printint_roundtrip:
  assumes "base = 10 \<or> base = 16"
  shows "foldl (\<lambda>n c. base * n + digit_value c) 0 (int_chars x base False) = unat x \<and>
    (x <s 0 \<longrightarrow> int_chars x base True = 45 # int_chars (- x) base False) \<and>
    (\<not> x <s 0 \<longrightarrow> int_chars x base True = int_chars x base False) \<and>
    length (int_chars x base sg) \<le> 11"
proof -
  have "unat x < base ^ Suc 9" for x :: u32
    using assms unat_u32_less [of x] by auto
  then have len: "length (print_digits base (unat x)) \<le> Suc 9" for x :: u32
    using assms by (intro length_print_digits) auto
  have "foldr (\<lambda>c n. digit_value c + base * n) (print_digits base (unat x)) 0 = unat x"
    using assms by (intro print_digits_value) auto
  then have "foldl (\<lambda>n c. base * n + digit_value c) 0 (rev (print_digits base (unat x))) = unat x"
    by (simp add: foldl_conv_foldr add.commute)
  then show ?thesis
    using len [of x] len [of "- x"] by (auto simp: int_chars_def Let_def)
qed

theorem printint_roundtrip_witness:
  "foldl (\<lambda>n c. 10 * n + digit_value c) 0 (int_chars 250 10 False) = 250 \<and>
    int_chars (- 7) 10 True = 45 # int_chars 7 10 False"
  using printint_roundtrip [of 10 250] printint_roundtrip [of 10 "- 7"] by (simp add: word_sless_alt)

end
