(* ===== verification/Kalloc.thy ===== *)
theory Kalloc
  imports Console
begin

text \<open>
  The physical page allocator, \<^verbatim>\<open>src/kalloc.c\<close>. Free pages are linked through their first
  word in memory; \<open>kend\<close> is the linker symbol \<open>end\<close>. The interface the rest of the kernel
  relies on is the locale \<open>page_allocator\<close>, with the list of free pages as its abstract state.
\<close>

section \<open>State and operations\<close>

record kmem =
  km_use_lock :: bool
  km_freelist :: u32
  kend :: u32

record kstate = cstate +
  kmem :: kmem

definition set_mem :: "(memory \<Rightarrow> memory) \<Rightarrow> (unit, 'z base_scheme) kern" where
  "set_mem f = modify (\<lambda>s. s\<lparr>mach := (mach s)\<lparr>mem := f (mem (mach s))\<rparr>\<rparr>)"

definition load :: "u32 \<Rightarrow> (u32, 'z base_scheme) kern" where
  "load a = gets (\<lambda>s. load32 (mem (mach s)) a)"

definition store :: "u32 \<Rightarrow> u32 \<Rightarrow> (unit, 'z base_scheme) kern" where
  "store a v = set_mem (\<lambda>m. store32 m a v)"

definition set_freelist :: "u32 \<Rightarrow> (unit, 'z kstate_scheme) kern" where
  "set_freelist r = modify (\<lambda>s. s\<lparr>kmem := (kmem s)\<lparr>km_freelist := r\<rparr>\<rparr>)"

definition kfree :: "u32 \<Rightarrow> (unit, 'z kstate_scheme) kern" where
  "kfree v =
    bind (gets (\<lambda>s. kend (kmem s))) (\<lambda>end_addr.
    if v mod PGSIZE \<noteq> 0 \<or> v < end_addr \<or> V2P v \<ge> PHYSTOP then panic ''kfree'' else
    andthen (set_mem (\<lambda>m. memset m v 1 PGSIZE)) (
    bind (gets (\<lambda>s. km_use_lock (kmem s))) (\<lambda>use_lock.
    andthen (whenk use_lock (acquire L_kmem)) (
    bind (gets (\<lambda>s. km_freelist (kmem s))) (\<lambda>fl.
    andthen (store v fl) (
    andthen (set_freelist v) (
    whenk use_lock (release L_kmem))))))))"

definition kalloc :: "(u32, 'z kstate_scheme) kern" where
  "kalloc =
    bind (gets (\<lambda>s. km_use_lock (kmem s))) (\<lambda>use_lock.
    andthen (whenk use_lock (acquire L_kmem)) (
    bind (gets (\<lambda>s. km_freelist (kmem s))) (\<lambda>r.
    andthen (whenk (r \<noteq> 0) (bind (load r) set_freelist)) (
    andthen (whenk use_lock (release L_kmem)) (
    return r)))))"

text \<open>
  The loop of \<open>freerange\<close> ends because \<open>p\<close> grows until \<open>p + PGSIZE\<close> passes \<open>vend\<close>. When
  \<open>p + PGSIZE\<close> wraps to a small address the comparison keeps succeeding only until \<open>kfree\<close>
  refuses a page, so the recursion is bounded by the pages of the address space.
\<close>

fun freerange_loop :: "nat \<Rightarrow> u32 \<Rightarrow> u32 \<Rightarrow> (unit, 'z kstate_scheme) kern" where
  "freerange_loop 0 p vend = hang"
| "freerange_loop (Suc n) p vend =
    (if p + PGSIZE \<le> vend then andthen (kfree p) (freerange_loop n (p + PGSIZE) vend) else return ())"

definition freerange :: "u32 \<Rightarrow> u32 \<Rightarrow> (unit, 'z kstate_scheme) kern" where
  "freerange vstart vend = freerange_loop (2 ^ 20 + 1) (PGROUNDUP vstart) vend"

definition kinit1 :: "u32 \<Rightarrow> u32 \<Rightarrow> (unit, 'z kstate_scheme) kern" where
  "kinit1 vstart vend =
    andthen (initlock L_kmem ''kmem'') (
    andthen (modify (\<lambda>s. s\<lparr>kmem := (kmem s)\<lparr>km_use_lock := False\<rparr>\<rparr>))
      (freerange vstart vend))"

definition kinit2 :: "u32 \<Rightarrow> u32 \<Rightarrow> (unit, 'z kstate_scheme) kern" where
  "kinit2 vstart vend =
    andthen (freerange vstart vend)
      (modify (\<lambda>s. s\<lparr>kmem := (kmem s)\<lparr>km_use_lock := True\<rparr>\<rparr>))"

section \<open>Pages\<close>

definition aligned :: "u32 \<Rightarrow> bool" where
  "aligned v \<longleftrightarrow> unat v mod 4096 = 0"

lemma aligned_iff: "v mod PGSIZE = 0 \<longleftrightarrow> aligned v"
proof -
  have "unat (v mod PGSIZE) = unat v mod 4096"
    by (simp add: unat_mod PGSIZE_def)
  moreover have "v mod PGSIZE = 0 \<longleftrightarrow> unat (v mod PGSIZE) = 0"
    by (simp add: unat_eq_0)
  ultimately show ?thesis by (simp add: aligned_def)
qed

text \<open>A byte of one page is not a byte of another.\<close>

lemma aligned_diff:
  assumes "aligned a" and "aligned v"
  shows "aligned (a - v)"
proof -
  have "unat (a - v) = (if unat v \<le> unat a then unat a - unat v else unat a + 2 ^ 32 - unat v)"
    by (simp add: unat_sub_if')
  moreover have "4096 dvd unat a" "4096 dvd unat v" "4096 dvd (2 ^ 32 :: nat)"
    using assms by (auto simp: aligned_def)
  ultimately have "4096 dvd unat (a - v)"
    by (auto intro!: dvd_diff_nat dvd_add)
  then show ?thesis by (simp add: aligned_def)
qed

lemma aligned_add:
  assumes "aligned d" and "unat k < 4096"
  shows "unat (d + k) = unat d + unat k"
proof -
  have "4096 dvd unat d" using assms by (auto simp: aligned_def)
  then obtain q where q: "unat d = 4096 * q" by (rule dvdE)
  then have "q < 2 ^ 20" using unat_u32_less [of d] by simp
  then have "unat d + unat k < 2 ^ 32" using assms q by simp
  then show ?thesis by (simp add: unat_word_ariths)
qed

lemma page_disjoint:
  assumes "aligned a" and "aligned v" and "a \<noteq> v" and "unat k < 4096"
  shows "4096 \<le> unat (a + k - v)"
proof -
  have d: "aligned (a - v)" using assms by (simp add: aligned_diff)
  have "a - v \<noteq> 0" using assms by simp
  then have "0 < unat (a - v)" by (simp add: unat_gt_0)
  then have "4096 \<le> unat (a - v)"
    using d by (auto simp: aligned_def intro: dvd_imp_le)
  moreover have "a + k - v = (a - v) + k" by simp
  ultimately show ?thesis
    using aligned_add [OF d assms(4)] by (simp only:)
qed

text \<open>\<open>m'\<close> differs from \<open>m\<close> only on the pages of \<open>ps\<close>.\<close>

definition same_off :: "u32 set \<Rightarrow> memory \<Rightarrow> memory \<Rightarrow> bool" where
  "same_off ps m m' \<longleftrightarrow> (\<forall>a k. aligned a \<and> a \<notin> ps \<and> unat k < 4096 \<longrightarrow> m' (a + k) = m (a + k))"

lemma same_off_refl [simp]: "same_off ps m m"
  by (simp add: same_off_def)

lemma same_off_trans: "same_off ps m m' \<Longrightarrow> same_off ps m' m'' \<Longrightarrow> same_off ps m m''"
  by (simp add: same_off_def)

lemma same_off_mono: "same_off ps m m' \<Longrightarrow> ps \<subseteq> qs \<Longrightarrow> same_off qs m m'"
  by (auto simp: same_off_def)

lemma same_off_load32:
  assumes "same_off ps m m'" and "aligned a" and "a \<notin> ps" and "unat k < 4093"
  shows "load32 m' (a + k) = load32 m (a + k)"
proof (rule load32_cong)
  have k: "unat (k + 1) < 4096" "unat (k + 2) < 4096" "unat (k + 3) < 4096"
    using assms(4) by (simp_all add: unat_word_ariths)
  show "m' (a + k) = m (a + k)"
    using assms by (simp add: same_off_def)
  show "m' (a + k + 1) = m (a + k + 1)" "m' (a + k + 2) = m (a + k + 2)" "m' (a + k + 3) = m (a + k + 3)"
    using assms k by (simp_all add: same_off_def add.assoc)
qed

lemma same_off_memset: "aligned v \<Longrightarrow> same_off {v} m (memset m v c PGSIZE)"
  by (auto simp: same_off_def memset_apply PGSIZE_def not_less [symmetric] dest: page_disjoint)

lemma same_off_store32:
  assumes "aligned v" and "unat k < 4093"
  shows "same_off {v} m (store32 m (v + k) x)"
  unfolding same_off_def
proof (intro allI impI)
  fix a j
  assume a: "aligned a \<and> a \<notin> {v} \<and> unat (j :: u32) < 4096"
  have k: "unat (k + 1) < 4096" "unat (k + 2) < 4096" "unat (k + 3) < 4096" "unat k < 4096"
    using assms(2) by (simp_all add: unat_word_ariths)
  have "a + j \<noteq> v + i" if "unat i < 4096" for i
    using page_disjoint [of a v j] that assms a by auto
  from this [of k] this [of "k + 1"] this [of "k + 2"] this [of "k + 3"] k
  show "store32 m (v + k) x (a + j) = m (a + j)"
    by (simp add: store32_other add.assoc)
qed

section \<open>The free list\<close>

text \<open>\<open>flist m a xs\<close>: starting at address \<open>a\<close>, the linked free pages are \<open>xs\<close>.\<close>

fun flist :: "memory \<Rightarrow> u32 \<Rightarrow> u32 list \<Rightarrow> bool" where
  "flist m a [] = (a = 0)"
| "flist m a (x # xs) = (a = x \<and> x \<noteq> 0 \<and> flist m (load32 m x) xs)"

definition page_ok :: "u32 \<Rightarrow> u32 \<Rightarrow> bool" where
  "page_ok e v \<longleftrightarrow> aligned v \<and> e \<le> v \<and> V2P v < PHYSTOP \<and> v \<noteq> 0"

text \<open>The lock, when the allocator uses it, can be taken; the free list is sound.\<close>

definition lock_ready :: "'z kstate_scheme \<Rightarrow> bool" where
  "lock_ready s \<longleftrightarrow> cpu_ok (mach s) \<and> (km_use_lock (kmem s) \<longrightarrow> unlocked (mach s) L_kmem)"

definition free_pages :: "'z kstate_scheme \<Rightarrow> u32 list \<Rightarrow> bool" where
  "free_pages s xs \<longleftrightarrow> lock_ready s \<and> flist (mem (mach s)) (km_freelist (kmem s)) xs \<and> distinct xs \<and>
     list_all (page_ok (kend (kmem s))) xs"

lemma flist_same_off:
  assumes "same_off ps m m'" and "set xs \<inter> ps = {}" and "list_all aligned xs" and "flist m a xs"
  shows "flist m' a xs"
  using assms(2-)
proof (induction xs arbitrary: a)
  case (Cons x xs)
  then have "load32 m' x = load32 m x"
    using same_off_load32 [OF assms(1), of x 0] by simp
  with Cons show ?case by simp
qed simp

lemma page_ok_aligned: "list_all (page_ok e) xs \<Longrightarrow> list_all aligned xs"
  by (auto simp: list_all_iff page_ok_def)

text \<open>Memory updates do not concern the CPU or the locks.\<close>

lemma mem_update_obs [simp]:
  "this_cpu (m\<lparr>mem := x\<rparr>) = this_cpu m" "cur (m\<lparr>mem := x\<rparr>) = cur m" "ncli (m\<lparr>mem := x\<rparr>) = ncli m"
  "cpu_ok (m\<lparr>mem := x\<rparr>) = cpu_ok m" "held (m\<lparr>mem := x\<rparr>) L = held m L"
  "unlocked (m\<lparr>mem := x\<rparr>) L = unlocked m L" "curproc (m\<lparr>mem := x\<rparr>) = curproc m"
  "ie (m\<lparr>mem := x\<rparr>) = ie m" "flags0 (m\<lparr>mem := x\<rparr>) = flags0 m"
proof -
  show tc: "this_cpu (m\<lparr>mem := x\<rparr>) = this_cpu m" by (simp add: this_cpu_def)
  show cur: "cur (m\<lparr>mem := x\<rparr>) = cur m" by (simp add: cur_def tc)
  show n: "ncli (m\<lparr>mem := x\<rparr>) = ncli m" by (simp add: ncli_def cur)
  show "cpu_ok (m\<lparr>mem := x\<rparr>) = cpu_ok m" by (simp add: cpu_ok_def tc n)
  show "held (m\<lparr>mem := x\<rparr>) L = held m L" "unlocked (m\<lparr>mem := x\<rparr>) L = unlocked m L"
    "curproc (m\<lparr>mem := x\<rparr>) = curproc m" "ie (m\<lparr>mem := x\<rparr>) = ie m" "flags0 (m\<lparr>mem := x\<rparr>) = flags0 m"
    by (simp_all add: held_def unlocked_def curproc_def ie_def flags0_def cur n)
qed

text \<open>Same machine, up to the content of memory.\<close>

definition same_but_mem :: "machine \<Rightarrow> machine \<Rightarrow> bool" where
  "same_but_mem m m' \<longleftrightarrow> same_mach (m\<lparr>mem := mem m'\<rparr>) m'"

lemma same_but_mem_iff:
  "same_but_mem m m' \<longleftrightarrow> cpu_ok m' \<and> cur m' = cur m \<and> ncli m' = ncli m \<and> ie m' = ie m \<and> flags0 m' = flags0 m \<and>
     curproc m' = curproc m \<and> ebp m' = ebp m \<and> esp m' = esp m \<and> cr3 m' = cr3 m \<and> tr m' = tr m \<and>
     ncpu m' = ncpu m \<and> lapic m' = lapic m \<and> length (cpus m') = length (cpus m) \<and>
     (\<forall>L. held m' L = held m L) \<and> (\<forall>L. unlocked m' L = unlocked m L)"
  by (simp add: same_but_mem_def same_mach_def)

lemma same_but_mem_refl: "cpu_ok m \<Longrightarrow> same_but_mem m m"
  by (simp add: same_but_mem_iff)

lemma same_but_mem_trans: "same_but_mem m m' \<Longrightarrow> same_but_mem m' m'' \<Longrightarrow> same_but_mem m m''"
  by (simp add: same_but_mem_iff)

lemma same_mach_but_mem: "same_mach m m' \<Longrightarrow> same_but_mem m m'"
  by (simp add: same_but_mem_iff same_mach_def)

lemma same_but_mem_ok: "same_but_mem m m' \<Longrightarrow> cpu_ok m'"
  by (simp add: same_but_mem_iff)

lemma same_machD:
  assumes "same_mach m m'"
  shows "cpu_ok m'" "mem m' = mem m" "unlocked m' L = unlocked m L" "held m' L = held m L"
    "curproc m' = curproc m" "ncli m' = ncli m" "cr3 m' = cr3 m"
  using assms by (simp_all add: same_mach_def)

section \<open>Allocation and freeing on the list of free pages\<close>

lemma kalloc_eq:
  assumes "lock_ready s"
  shows "\<exists>m'. same_mach (mach s) m' \<and> kalloc s = Ret (km_freelist (kmem s)) (s\<lparr>mach := m',
    kmem := (kmem s)\<lparr>km_freelist := (if km_freelist (kmem s) = 0 then 0
      else load32 (mem (mach s)) (km_freelist (kmem s)))\<rparr>\<rparr>)"
proof (cases "km_use_lock (kmem s)")
  case True
  then have ok: "cpu_ok (mach s)" "unlocked (mach s) L_kmem" using assms by (auto simp: lock_ready_def)
  let ?m = "rel L_kmem (acq L_kmem (mach s))"
  have "same_mach (mach s) ?m"
    using ok by (intro same_mach_critical same_mach_refl) auto
  then show ?thesis
    using True ok by (intro exI [of _ ?m]) (simp add: kalloc_def kern set_freelist_def load_def)
next
  case False
  have "s\<lparr>mach := mach s, kmem := k\<rparr> = s\<lparr>kmem := k\<rparr>" for k by simp
  then show ?thesis
    using False assms same_mach_refl [of "mach s"]
    by (intro exI [of _ "mach s"]) (auto simp: kalloc_def kern set_freelist_def load_def lock_ready_def)
qed

lemma free_pages_lock: "free_pages s xs \<Longrightarrow> lock_ready s"
  by (simp add: free_pages_def)

lemma kalloc_Cons:
  assumes "free_pages s (x # xs)"
  shows "\<exists>m' k'. kalloc s = Ret x (s\<lparr>mach := m', kmem := k'\<rparr>) \<and> same_mach (mach s) m' \<and>
    kend k' = kend (kmem s) \<and> free_pages (s\<lparr>mach := m', kmem := k'\<rparr>) xs"
proof -
  obtain m' where m': "same_mach (mach s) m'" "kalloc s = Ret x (s\<lparr>mach := m',
      kmem := (kmem s)\<lparr>km_freelist := load32 (mem (mach s)) x\<rparr>\<rparr>)"
    using kalloc_eq [OF free_pages_lock [OF assms]] assms by (auto simp: free_pages_def)
  let ?k = "(kmem s)\<lparr>km_freelist := load32 (mem (mach s)) x\<rparr>"
  have "free_pages (s\<lparr>mach := m', kmem := ?k\<rparr>) xs"
    using assms same_machD [OF m'(1)] by (auto simp: free_pages_def lock_ready_def)
  with m' show ?thesis by (intro exI [of _ m'] exI [of _ ?k]) simp
qed

lemma kalloc_Nil:
  assumes "free_pages s []"
  shows "\<exists>m'. kalloc s = Ret 0 (s\<lparr>mach := m'\<rparr>) \<and> same_mach (mach s) m' \<and> free_pages (s\<lparr>mach := m'\<rparr>) []"
proof -
  have "km_freelist (kmem s) = 0" using assms by (simp add: free_pages_def)
  moreover from this have "(kmem s)\<lparr>km_freelist := 0\<rparr> = kmem s" by (cases "kmem s") simp
  moreover have "s\<lparr>mach := m, kmem := kmem s\<rparr> = s\<lparr>mach := m\<rparr>" for m by simp
  ultimately obtain m' where m': "same_mach (mach s) m'" "kalloc s = Ret 0 (s\<lparr>mach := m'\<rparr>)"
    using kalloc_eq [OF free_pages_lock [OF assms]] by auto
  then show ?thesis
    using assms same_machD [OF m'(1)] by (auto simp: free_pages_def lock_ready_def)
qed

lemma kfree_panic:
  "v mod PGSIZE \<noteq> 0 \<or> v < kend (kmem s) \<or> V2P v \<ge> PHYSTOP \<Longrightarrow> kfree v s = Panic ''kfree''"
  by (auto simp: kfree_def kern)

text \<open>The state after \<open>kfree\<close>: the page is filled with ones and linked in front.\<close>

definition freed_mem :: "u32 \<Rightarrow> u32 \<Rightarrow> memory \<Rightarrow> memory" where
  "freed_mem v fl m = store32 (memset m v 1 PGSIZE) v fl"

lemma same_off_freed_mem: "aligned v \<Longrightarrow> same_off {v} m (freed_mem v fl m)"
  using same_off_trans [OF same_off_memset [of v m 1] same_off_store32 [of v 0 _ fl]]
  by (simp add: freed_mem_def)

lemma kfree_eq:
  assumes "lock_ready s" and "page_ok (kend (kmem s)) v"
  shows "\<exists>m'. same_but_mem (mach s) m' \<and> mem m' = freed_mem v (km_freelist (kmem s)) (mem (mach s)) \<and>
    kfree v s = Ret () (s\<lparr>mach := m', kmem := (kmem s)\<lparr>km_freelist := v\<rparr>\<rparr>)"
proof (cases "km_use_lock (kmem s)")
  case True
  then have ok: "cpu_ok (mach s)" "unlocked (mach s) L_kmem" using assms by (auto simp: lock_ready_def)
  let ?m1 = "acq L_kmem ((mach s)\<lparr>mem := memset (mem (mach s)) v 1 PGSIZE\<rparr>)"
  let ?m = "rel L_kmem (?m1\<lparr>mem := freed_mem v (km_freelist (kmem s)) (mem (mach s))\<rparr>)"
  have "same_but_mem (mach s) ?m"
    using ok unlocked_not_held [of "mach s" L_kmem] by (auto simp: same_but_mem_iff)
  moreover have "kfree v s = Ret () (s\<lparr>mach := ?m, kmem := (kmem s)\<lparr>km_freelist := v\<rparr>\<rparr>)"
    using True ok assms(2)
    by (simp add: kfree_def kern set_freelist_def set_mem_def store_def page_ok_def aligned_iff freed_mem_def not_le not_less)
  ultimately show ?thesis by (intro exI [of _ ?m]) simp
next
  case False
  let ?m = "(mach s)\<lparr>mem := freed_mem v (km_freelist (kmem s)) (mem (mach s))\<rparr>"
  have "same_but_mem (mach s) ?m"
    using assms by (auto simp: same_but_mem_iff lock_ready_def)
  moreover have "kfree v s = Ret () (s\<lparr>mach := ?m, kmem := (kmem s)\<lparr>km_freelist := v\<rparr>\<rparr>)"
    using False assms(2)
    by (simp add: kfree_def kern set_freelist_def set_mem_def store_def page_ok_def aligned_iff freed_mem_def not_le not_less)
  ultimately show ?thesis by (intro exI [of _ ?m]) simp
qed

lemma kfree_Cons:
  assumes "free_pages s xs" and "page_ok (kend (kmem s)) v" and "v \<notin> set xs"
  shows "\<exists>m' k'. kfree v s = Ret () (s\<lparr>mach := m', kmem := k'\<rparr>) \<and> same_but_mem (mach s) m' \<and>
    same_off {v} (mem (mach s)) (mem m') \<and> kend k' = kend (kmem s) \<and>
    free_pages (s\<lparr>mach := m', kmem := k'\<rparr>) (v # xs)"
proof -
  have v: "aligned v" "v \<noteq> 0" using assms(2) by (auto simp: page_ok_def)
  obtain m' where m': "same_but_mem (mach s) m'"
      "mem m' = freed_mem v (km_freelist (kmem s)) (mem (mach s))"
      "kfree v s = Ret () (s\<lparr>mach := m', kmem := (kmem s)\<lparr>km_freelist := v\<rparr>\<rparr>)"
    using kfree_eq [OF free_pages_lock [OF assms(1)] assms(2)] by blast
  have off: "same_off {v} (mem (mach s)) (mem m')"
    using same_off_freed_mem [OF v(1)] m'(2) by simp
  then have "flist (mem m') (km_freelist (kmem s)) xs"
    using assms by (intro flist_same_off [OF off]) (auto simp: free_pages_def intro: page_ok_aligned)
  moreover have "load32 (mem m') v = km_freelist (kmem s)"
    using m'(2) by (simp add: freed_mem_def)
  moreover have "cpu_ok m'" "unlocked m' L_kmem = unlocked (mach s) L_kmem"
    using m'(1) by (simp_all add: same_but_mem_iff)
  ultimately have "free_pages (s\<lparr>mach := m', kmem := (kmem s)\<lparr>km_freelist := v\<rparr>\<rparr>) (v # xs)"
    using assms v by (auto simp: free_pages_def lock_ready_def)
  with m' off show ?thesis
    by (intro exI [of _ m'] exI [of _ "(kmem s)\<lparr>km_freelist := v\<rparr>"]) simp
qed

section \<open>The allocator's interface\<close>

locale page_allocator =
  fixes pages :: "'s \<Rightarrow> u32 list \<Rightarrow> bool"
    and alloc :: "(u32, 's) kern"
    and free :: "u32 \<Rightarrow> (unit, 's) kern"
    and good :: "'s \<Rightarrow> u32 \<Rightarrow> bool"
  assumes pages_distinct: "pages s xs \<Longrightarrow> distinct xs"
    and pages_good: "pages s xs \<Longrightarrow> x \<in> set xs \<Longrightarrow> good s x"
    and good_nonzero: "good s x \<Longrightarrow> x \<noteq> 0"
    and alloc_none: "pages s [] \<Longrightarrow> \<exists>t. alloc s = Ret 0 t \<and> pages t [] \<and> good t = good s"
    and alloc_some: "pages s (x # xs) \<Longrightarrow> \<exists>t. alloc s = Ret x t \<and> pages t xs \<and> good t = good s"
    and free_some: "pages s xs \<Longrightarrow> good s v \<Longrightarrow> v \<notin> set xs \<Longrightarrow>
      \<exists>t. free v s = Ret () t \<and> pages t (v # xs) \<and> good t = good s"
begin

text \<open>Allocate \<open>n\<close> pages, stopping at the first failure.\<close>

fun alloc_many :: "nat \<Rightarrow> (u32 list, 's) kern" where
  "alloc_many 0 = return []"
| "alloc_many (Suc n) = bind alloc (\<lambda>x. if x = 0 then return []
    else bind (alloc_many n) (\<lambda>xs. return (x # xs)))"

lemma alloc_many_take:
  "pages s xs \<Longrightarrow> \<exists>t. alloc_many n s = Ret (take n xs) t \<and> pages t (drop n xs) \<and> good t = good s"
proof (induction n arbitrary: s xs)
  case (Suc n)
  show ?case
  proof (cases xs)
    case Nil
    then show ?thesis using alloc_none Suc.prems by (fastforce simp: kern)
  next
    case (Cons x ys)
    then obtain t where t: "alloc s = Ret x t" "pages t ys" "good t = good s"
      using alloc_some Suc.prems by blast
    moreover have "x \<noteq> 0" using pages_good [OF Suc.prems, of x] good_nonzero Cons by auto
    moreover obtain u where "alloc_many n t = Ret (take n ys) u" "pages u (drop n ys)" "good u = good t"
      using Suc.IH [OF t(2)] by blast
    ultimately show ?thesis using Cons by (simp add: kern)
  qed
qed (simp add: kern)

lemma alloc_many_distinct:
  assumes "pages s xs"
  shows "\<exists>ys t. alloc_many n s = Ret ys t \<and> distinct ys \<and> length ys = min n (length xs) \<and>
    (\<forall>y\<in>set ys. good s y \<and> y \<in> set xs) \<and> (\<forall>y\<in>set ys. y \<notin> set (drop n xs))"
proof -
  have "set (take n xs) \<inter> set (drop n xs) = {}"
    using pages_distinct [OF assms] by (metis append_take_drop_id distinct_append)
  then show ?thesis
    using alloc_many_take [OF assms, of n] pages_distinct [OF assms] pages_good [OF assms]
      set_take_subset [of n xs]
    by (fastforce simp: min.commute)
qed

text \<open>A page that was allocated can be freed, and is what the next allocation returns.\<close>

lemma alloc_free_alloc:
  assumes "pages s (x # xs)"
  shows "\<exists>t u. alloc s = Ret x t \<and> free x t = Ret () u \<and> pages u (x # xs) \<and> (\<exists>v. alloc u = Ret x v \<and> pages v xs)"
proof -
  obtain t where t: "alloc s = Ret x t" "pages t xs" "good t = good s"
    using alloc_some [OF assms] by blast
  moreover have "good t x" "x \<notin> set xs"
    using pages_good [OF assms] pages_distinct [OF assms] t by auto
  ultimately obtain u where "free x t = Ret () u" "pages u (x # xs)"
    using free_some by blast
  with t show ?thesis using alloc_some by blast
qed

end

definition kpage :: "'z kstate_scheme \<Rightarrow> u32 \<Rightarrow> bool" where
  "kpage s v \<longleftrightarrow> page_ok (kend (kmem s)) v"

interpretation km: page_allocator free_pages kalloc kfree kpage
proof unfold_locales
  fix s :: "'z kstate_scheme" and xs x v
  show "free_pages s xs \<Longrightarrow> distinct xs" by (simp add: free_pages_def)
  show "free_pages s xs \<Longrightarrow> x \<in> set xs \<Longrightarrow> kpage s x" by (auto simp: free_pages_def kpage_def list_all_iff)
  show "kpage s x \<Longrightarrow> x \<noteq> 0" by (simp add: kpage_def page_ok_def)
  show "free_pages s [] \<Longrightarrow> \<exists>t. kalloc s = Ret 0 t \<and> free_pages t [] \<and> kpage t = kpage s"
    by (drule kalloc_Nil) (auto simp: kpage_def fun_eq_iff)
  show "free_pages s (x # xs) \<Longrightarrow> \<exists>t. kalloc s = Ret x t \<and> free_pages t xs \<and> kpage t = kpage s"
    by (drule kalloc_Cons) (auto simp: kpage_def fun_eq_iff)
  show "free_pages s xs \<Longrightarrow> kpage s v \<Longrightarrow> v \<notin> set xs \<Longrightarrow>
      \<exists>t. kfree v s = Ret () t \<and> free_pages t (v # xs) \<and> kpage t = kpage s"
    unfolding kpage_def by (drule kfree_Cons) (auto simp: kpage_def fun_eq_iff)
qed

section \<open>The initial free list ends\<close>

text \<open>How many pages \<open>kfree\<close> accepts from \<open>p\<close> upwards; the fuel of \<open>freerange\<close> exceeds it.\<close>

definition pages_above :: "u32 \<Rightarrow> nat" where
  "pages_above p = (if V2P p < PHYSTOP then (unat PHYSTOP - unat (V2P p) + 4095) div 4096 else 0)"

lemma pages_above_step:
  assumes "V2P p < PHYSTOP"
  shows "pages_above (p + PGSIZE) < pages_above p"
proof -
  have "V2P (p + PGSIZE) = V2P p + 4096"
    by (simp add: V2P_def PGSIZE_def)
  moreover have "unat (V2P p) < 0xE000000"
    using assms by (simp add: word_less_nat_alt PHYSTOP_def)
  moreover from this have "unat (V2P p + 4096) = unat (V2P p) + 4096"
    by (simp add: unat_word_ariths)
  ultimately show ?thesis
    using assms by (auto simp: pages_above_def word_less_nat_alt PHYSTOP_def)
qed

lemma freerange_fuel:
  fixes s :: "'z kstate_scheme"
  shows "pages_above p < n \<Longrightarrow> freerange_loop (Suc n) p vend s = freerange_loop n p vend s"
proof (induction n arbitrary: p s)
  case (Suc n)
  show ?case
  proof (cases "V2P p < PHYSTOP")
    case True
    then have "pages_above (p + PGSIZE) < n"
      using pages_above_step [OF True] Suc.prems by simp
    then have "freerange_loop (Suc n) (p + PGSIZE) vend =
        (freerange_loop n (p + PGSIZE) vend :: (unit, 'z kstate_scheme) kern)"
      by (intro ext Suc.IH)
    then show ?thesis
      by (simp only: freerange_loop.simps(2) [of "Suc n" p] freerange_loop.simps(2) [of n p])
  next
    case False
    then show ?thesis by (simp add: kfree_panic andthen_def bind_def not_less)
  qed
qed simp

lemma pages_above_bound: "pages_above p \<le> 57344"
proof -
  have "(234881024 - unat (V2P p) + 4095) div 4096 \<le> (234881024 + 4095) div 4096"
    by (rule div_le_mono) simp
  then show ?thesis by (simp add: pages_above_def PHYSTOP_def)
qed

lemma freerange_more_fuel:
  "freerange_loop (2 ^ 20 + 1 + k) (PGROUNDUP vstart) vend s = freerange vstart vend s"
proof (induction k)
  case (Suc k)
  have fuel: "pages_above (PGROUNDUP vstart) < 2 ^ 20 + 1 + k"
    using pages_above_bound [of "PGROUNDUP vstart"] by simp
  from Suc show ?case
    by (simp only: add_Suc_right freerange_fuel [OF fuel])
qed (simp add: freerange_def)

section \<open>Properties\<close>

text \<open>C26: No page is handed out twice. From any state whose free list is sound, \<open>n\<close> allocations return
  the first pages of the free list, which are distinct, aligned, above the kernel and below
  \<open>PHYSTOP\<close>; when the list is exhausted \<open>kalloc\<close> returns 0; and what remains free is disjoint
  from what was handed out.\<close>

theorem kalloc_many_distinct:
  assumes "free_pages s xs"
  shows "\<exists>t. km.alloc_many n s = Ret (take n xs) t \<and> free_pages t (drop n xs) \<and> distinct (take n xs) \<and>
    (\<forall>x\<in>set (take n xs). page_ok (kend (kmem s)) x \<and> x \<notin> set (drop n xs))"
proof -
  have "set (take n xs) \<inter> set (drop n xs) = {}"
    using km.pages_distinct [OF assms] by (metis append_take_drop_id distinct_append)
  moreover have "page_ok (kend (kmem s)) x" if "x \<in> set (take n xs)" for x
    using km.pages_good [OF assms, of x] in_set_takeD [OF that] by (simp add: kpage_def)
  ultimately show ?thesis
    using km.alloc_many_take [OF assms, of n] km.pages_distinct [OF assms] by auto
qed

definition demo_kstate :: kstate where
  "demo_kstate = \<lparr>mach = (demo_mach None FL_IF)\<lparr>mem := store32 (\<lambda>_. 0) 0x80400000 0x80500000\<rparr>, con = demo_con,
     kmem = \<lparr>km_use_lock = True, km_freelist = 0x80400000, kend = 0x80200000\<rparr>\<rparr>"

lemma demo_kstate_free: "free_pages demo_kstate [0x80400000, 0x80500000]"
  by (simp add: free_pages_def demo_kstate_def lock_ready_def page_ok_def aligned_def V2P_def KERNBASE_def
      PHYSTOP_def load32_def store32_def)

theorem kalloc_many_distinct_witness:
  "\<exists>t. km.alloc_many 3 demo_kstate = Ret [0x80400000, 0x80500000] t \<and> free_pages t []"
  using kalloc_many_distinct [OF demo_kstate_free, of 3] by auto

text \<open>C27: \<open>kfree\<close> gives back what \<open>kalloc\<close> handed out: freeing an allocated page restores the free list and
  the next allocation returns the same page; no memory outside that page is touched; and an
  address that is not a page of allocatable memory is refused with a panic.\<close>

theorem kfree_kalloc_roundtrip:
  assumes "free_pages s (x # xs)"
  shows "(\<exists>t u v. kalloc s = Ret x t \<and> mem (mach t) = mem (mach s) \<and> kfree x t = Ret () u \<and>
      same_off {x} (mem (mach t)) (mem (mach u)) \<and> free_pages u (x # xs) \<and> kalloc u = Ret x v \<and> free_pages v xs) \<and>
    (\<forall>w. w mod PGSIZE \<noteq> 0 \<or> w < kend (kmem s) \<or> V2P w \<ge> PHYSTOP \<longrightarrow> kfree w s = Panic ''kfree'')"
proof -
  obtain m' k' where t: "kalloc s = Ret x (s\<lparr>mach := m', kmem := k'\<rparr>)" "same_mach (mach s) m'"
      "kend k' = kend (kmem s)" "free_pages (s\<lparr>mach := m', kmem := k'\<rparr>) xs"
    using kalloc_Cons [OF assms] by blast
  let ?t = "s\<lparr>mach := m', kmem := k'\<rparr>"
  have "page_ok (kend (kmem ?t)) x" "x \<notin> set xs"
    using assms t(3) by (auto simp: free_pages_def)
  then obtain m'' k'' where u: "kfree x ?t = Ret () (?t\<lparr>mach := m'', kmem := k''\<rparr>)"
      "same_off {x} (mem (mach ?t)) (mem m'')" "free_pages (?t\<lparr>mach := m'', kmem := k''\<rparr>) (x # xs)"
    using kfree_Cons [OF t(4)] by blast
  let ?u = "?t\<lparr>mach := m'', kmem := k''\<rparr>"
  obtain v where v: "kalloc ?u = Ret x v" "free_pages v xs"
    using km.alloc_some [OF u(3)] by blast
  have "mem (mach ?t) = mem (mach s)" using same_machD(2) [OF t(2)] by simp
  then have "\<exists>t u v. kalloc s = Ret x t \<and> mem (mach t) = mem (mach s) \<and> kfree x t = Ret () u \<and>
      same_off {x} (mem (mach t)) (mem (mach u)) \<and> free_pages u (x # xs) \<and> kalloc u = Ret x v \<and> free_pages v xs"
    using t(1) u v by (intro exI [of _ ?t] exI [of _ ?u] exI [of _ v]) simp
  then show ?thesis by (auto intro: kfree_panic)
qed

theorem kfree_kalloc_roundtrip_witness:
  "\<exists>t u. kalloc demo_kstate = Ret 0x80400000 t \<and> kfree 0x80400000 t = Ret () u \<and>
    free_pages u [0x80400000, 0x80500000]"
  using kfree_kalloc_roundtrip [OF demo_kstate_free] by blast

end
