(* ===== verification/Vm.thy ===== *)
theory Vm
  imports Kalloc
begin

text \<open>
  Page tables and user memory, \<^verbatim>\<open>src/vm.c\<close>. Page directories, page tables and user pages live in
  byte memory and are reached through it word by word, as in the code. \<open>kdata\<close> is the linker
  symbol \<open>data\<close> and \<open>ts_addr i\<close> the address of \<open>cpus[i].ts\<close>. \<open>loaduvm\<close>, which reads an inode, is with \<open>exec\<close>.
  A loop that the code bounds by an address carries the number of pages left as fuel.
\<close>

section \<open>State\<close>

record vstate = kstate +
  kpgdir :: u32
  kdata :: u32
  ts_addr :: "nat \<Rightarrow> u32"

definition SEG_KCODE :: nat where "SEG_KCODE = 1"
definition SEG_KDATA :: nat where "SEG_KDATA = 2"
definition SEG_UCODE :: nat where "SEG_UCODE = 3"
definition SEG_UDATA :: nat where "SEG_UDATA = 4"
definition SEG_TSS :: nat where "SEG_TSS = 5"
definition KSTACKSIZE :: u32 where "KSTACKSIZE = 4096"
definition DPL_USER :: u32 where "DPL_USER = 3"

section \<open>Segments and address spaces\<close>

definition seginit :: "(unit, machine) kern" where
  "seginit =
    bind cpuid (\<lambda>c. modify (\<lambda>m. m\<lparr>cpus := upd c (\<lambda>k. k\<lparr>c_gdt := (c_gdt k)
      [SEG_KCODE := SEG (0x8 OR 0x2) 0 0xffffffff 0,
       SEG_KDATA := SEG 0x2 0 0xffffffff 0,
       SEG_UCODE := SEG (0x8 OR 0x2) 0 0xffffffff DPL_USER,
       SEG_UDATA := SEG 0x2 0 0xffffffff DPL_USER]\<rparr>) (cpus m)\<rparr>))"

definition lcr3 :: "u32 \<Rightarrow> (unit, machine) kern" where
  "lcr3 v = modify (\<lambda>m. m\<lparr>cr3 := v\<rparr>)"

definition ltr :: "u16 \<Rightarrow> (unit, machine) kern" where
  "ltr sel = modify (\<lambda>m. m\<lparr>tr := sel\<rparr>)"

definition switchkvm :: "(unit, 'z vstate_scheme) kern" where
  "switchkvm = bind (gets kpgdir) (\<lambda>d. on_mach (lcr3 (V2P d)))"

text \<open>The argument is the process's kernel stack and page directory, or none for a null process.\<close>

definition switchuvm :: "(u32 \<times> u32) option \<Rightarrow> (unit, 'z vstate_scheme) kern" where
  "switchuvm p = (case p of None \<Rightarrow> panic ''switchuvm: no process'' | Some (kstack, pgdir) \<Rightarrow>
    if kstack = 0 then panic ''switchuvm: no kstack''
    else if pgdir = 0 then panic ''switchuvm: no pgdir'' else
    bind (gets ts_addr) (\<lambda>addr. on_mach (
      andthen pushcli (
      bind mycpu (\<lambda>c.
      andthen (cpu_set (\<lambda>k. k\<lparr>c_gdt := (c_gdt k)[SEG_TSS := SEG16 0x9 (addr c) (104 - 1) 0]\<rparr>)) (
      andthen (cpu_set (\<lambda>k. k\<lparr>c_gdt := upd SEG_TSS (\<lambda>d. d\<lparr>seg_s := 0\<rparr>) (c_gdt k)\<rparr>)) (
      andthen (cpu_set (\<lambda>k. k\<lparr>c_ts := (c_ts k)\<lparr>ts_ss0 := of_nat (SEG_KDATA * 8)\<rparr>\<rparr>)) (
      andthen (cpu_set (\<lambda>k. k\<lparr>c_ts := (c_ts k)\<lparr>ts_esp0 := kstack + KSTACKSIZE\<rparr>\<rparr>)) (
      andthen (cpu_set (\<lambda>k. k\<lparr>c_ts := (c_ts k)\<lparr>ts_iomb := 0xFFFF\<rparr>\<rparr>)) (
      andthen (ltr (of_nat (SEG_TSS * 8))) (
      andthen (lcr3 (V2P pgdir))
        popcli)))))))))))"

section \<open>Walking and mapping\<close>

text \<open>The address of the page-table entry of \<open>va\<close>, or 0.\<close>

definition walkpgdir :: "u32 \<Rightarrow> u32 \<Rightarrow> bool \<Rightarrow> (u32, 'z kstate_scheme) kern" where
  "walkpgdir pgdir va doalloc =
    (let pde = pgdir + 4 * PDX va in
     bind (load pde) (\<lambda>e.
     if e AND PTE_P \<noteq> 0 then return (P2V (PTE_ADDR e) + 4 * PTX va)
     else if \<not> doalloc then return 0
     else bind kalloc (\<lambda>pgtab. if pgtab = 0 then return 0 else
       andthen (set_mem (\<lambda>m. memset m pgtab 0 PGSIZE)) (
       andthen (store pde (V2P pgtab OR PTE_P OR PTE_W OR PTE_U))
         (return (pgtab + 4 * PTX va))))))"

fun map_loop :: "nat \<Rightarrow> u32 \<Rightarrow> u32 \<Rightarrow> u32 \<Rightarrow> u32 \<Rightarrow> u32 \<Rightarrow> (int, 'z kstate_scheme) kern" where
  "map_loop n pgdir a lst pa perm =
    bind (walkpgdir pgdir a True) (\<lambda>pte. if pte = 0 then return (-1) else
    bind (load pte) (\<lambda>e. if e AND PTE_P \<noteq> 0 then panic ''remap'' else
    andthen (store pte (pa OR perm OR PTE_P)) (
    if a = lst then return 0 else
    case n of 0 \<Rightarrow> hang | Suc k \<Rightarrow> map_loop k pgdir (a + PGSIZE) lst (pa + PGSIZE) perm)))"

declare map_loop.simps [simp del]

definition mappages :: "u32 \<Rightarrow> u32 \<Rightarrow> u32 \<Rightarrow> u32 \<Rightarrow> u32 \<Rightarrow> (int, 'z kstate_scheme) kern" where
  "mappages pgdir va sz pa perm =
    (let a = PGROUNDDOWN va; lst = PGROUNDDOWN (va + sz - 1)
     in map_loop (unat (lst - a) div 4096) pgdir a lst pa perm)"

section \<open>Releasing user memory\<close>

fun dealloc_loop :: "nat \<Rightarrow> u32 \<Rightarrow> u32 \<Rightarrow> u32 \<Rightarrow> (unit, 'z kstate_scheme) kern" where
  "dealloc_loop n pgdir a oldsz =
    (if \<not> a < oldsz then return () else case n of 0 \<Rightarrow> hang | Suc k \<Rightarrow>
     bind (walkpgdir pgdir a False) (\<lambda>pte.
     if pte = 0 then dealloc_loop k pgdir (PGADDR (PDX a + 1) 0 0 - PGSIZE + PGSIZE) oldsz else
     bind (load pte) (\<lambda>e.
     andthen (whenk (e AND PTE_P \<noteq> 0)
       (let pa = PTE_ADDR e in
        if pa = 0 then panic ''kfree''
        else andthen (kfree (P2V pa)) (store pte 0)))
       (dealloc_loop k pgdir (a + PGSIZE) oldsz))))"

declare dealloc_loop.simps [simp del]

definition deallocuvm :: "u32 \<Rightarrow> u32 \<Rightarrow> u32 \<Rightarrow> (u32, 'z kstate_scheme) kern" where
  "deallocuvm pgdir oldsz newsz =
    (if newsz \<ge> oldsz then return oldsz else
     andthen (dealloc_loop (unat oldsz div 4096 + 1) pgdir (PGROUNDUP newsz) oldsz)
       (return newsz))"

fun freevm_loop :: "nat \<Rightarrow> u32 \<Rightarrow> u32 \<Rightarrow> (unit, 'z kstate_scheme) kern" where
  "freevm_loop 0 pgdir i = return ()"
| "freevm_loop (Suc n) pgdir i =
    bind (load (pgdir + 4 * i)) (\<lambda>e.
    andthen (whenk (e AND PTE_P \<noteq> 0) (kfree (P2V (PTE_ADDR e))))
      (freevm_loop n pgdir (i + 1)))"

definition freevm :: "u32 \<Rightarrow> (unit, 'z kstate_scheme) kern" where
  "freevm pgdir =
    (if pgdir = 0 then panic ''freevm: no pgdir'' else
     andthen (deallocuvm pgdir KERNBASE 0) (
     andthen (freevm_loop NPDENTRIES pgdir 0)
       (kfree pgdir)))"

section \<open>Kernel mappings\<close>

definition kmap :: "u32 \<Rightarrow> (u32 \<times> u32 \<times> u32 \<times> u32) list" where
  "kmap data_addr =
    [(KERNBASE, 0, EXTMEM, PTE_W),
     (KERNLINK, V2P KERNLINK, V2P data_addr, 0),
     (data_addr, V2P data_addr, PHYSTOP, PTE_W),
     (DEVSPACE, DEVSPACE, 0, PTE_W)]"

fun kmap_loop :: "u32 \<Rightarrow> (u32 \<times> u32 \<times> u32 \<times> u32) list \<Rightarrow> (u32, 'z kstate_scheme) kern" where
  "kmap_loop pgdir [] = return pgdir"
| "kmap_loop pgdir ((virt, p0, p1, perm) # ks) =
    bind (mappages pgdir virt (p1 - p0) p0 perm) (\<lambda>r.
    if r < 0 then andthen (freevm pgdir) (return 0) else kmap_loop pgdir ks)"

definition setupkvm :: "(u32, 'z vstate_scheme) kern" where
  "setupkvm =
    bind kalloc (\<lambda>pgdir. if pgdir = 0 then return 0 else
    andthen (set_mem (\<lambda>m. memset m pgdir 0 PGSIZE)) (
    if P2V PHYSTOP > DEVSPACE then panic ''PHYSTOP too high'' else
    bind (gets kdata) (\<lambda>d. kmap_loop pgdir (kmap d))))"

definition kvmalloc :: "(unit, 'z vstate_scheme) kern" where
  "kvmalloc =
    bind setupkvm (\<lambda>d.
    andthen (modify (\<lambda>s. s\<lparr>kpgdir := d\<rparr>)) switchkvm)"

section \<open>Memory as the running kernel sees it\<close>

text \<open>
  The kernel dereferences user pointers directly, through the page directory loaded in \<open>cr3\<close>.
  A byte that is not mapped faults, and a fault in the kernel ends in \<open>panic("trap")\<close>.
  Addresses from \<open>KERNBASE\<close> are the kernel's own mapping of memory.
\<close>

definition translate :: "memory \<Rightarrow> u32 \<Rightarrow> u32 \<Rightarrow> u32 option" where
  "translate m d va =
    (if va \<ge> KERNBASE then Some va else
     let e = load32 m (P2V d + 4 * PDX va) in
     if e AND PTE_P = 0 then None else
     let t = load32 m (P2V (PTE_ADDR e) + 4 * PTX va) in
     if t AND PTE_P = 0 then None else Some (P2V (PTE_ADDR t) + (va AND 0xFFF)))"

definition vget :: "u32 \<Rightarrow> (u8, 'z base_scheme) kern" where
  "vget va = bind (gets (\<lambda>s. translate (mem (mach s)) (cr3 (mach s)) va)) (\<lambda>a.
    case a of None \<Rightarrow> panic ''trap'' | Some a \<Rightarrow> gets (\<lambda>s. mem (mach s) a))"

definition vput :: "u32 \<Rightarrow> u8 \<Rightarrow> (unit, 'z base_scheme) kern" where
  "vput va b = bind (gets (\<lambda>s. translate (mem (mach s)) (cr3 (mach s)) va)) (\<lambda>a.
    case a of None \<Rightarrow> panic ''trap'' | Some a \<Rightarrow> set_mem (\<lambda>m. m(a := b)))"

fun vgets :: "u32 \<Rightarrow> nat \<Rightarrow> (u8 list, 'z base_scheme) kern" where
  "vgets va 0 = return []"
| "vgets va (Suc n) = bind (vget va) (\<lambda>b. bind (vgets (va + 1) n) (\<lambda>bs. return (b # bs)))"

fun vputs :: "u32 \<Rightarrow> u8 list \<Rightarrow> (unit, 'z base_scheme) kern" where
  "vputs va [] = return ()"
| "vputs va (b # bs) = andthen (vput va b) (vputs (va + 1) bs)"

definition le32 :: "u32 \<Rightarrow> u8 list" where
  "le32 x = [ucast x, ucast (drop_bit 8 x), ucast (drop_bit 16 x), ucast (drop_bit 24 x)]"

definition of_le32 :: "u8 list \<Rightarrow> u32" where
  "of_le32 bs = ucast (bs ! 0) OR push_bit 8 (ucast (bs ! 1)) OR push_bit 16 (ucast (bs ! 2))
     OR push_bit 24 (ucast (bs ! 3))"

definition vget32 :: "u32 \<Rightarrow> (u32, 'z base_scheme) kern" where
  "vget32 va = bind (vgets va 4) (\<lambda>bs. return (of_le32 bs))"

definition vput32 :: "u32 \<Rightarrow> u32 \<Rightarrow> (unit, 'z base_scheme) kern" where
  "vput32 va x = vputs va (le32 x)"

section \<open>Growing and copying user memory\<close>

text \<open>Writing a list of bytes from an address upwards.\<close>

fun poke :: "memory \<Rightarrow> u32 \<Rightarrow> u8 list \<Rightarrow> memory" where
  "poke m a [] = m"
| "poke m a (b # bs) = poke (m(a := b)) (a + 1) bs"

definition inituvm :: "u32 \<Rightarrow> u8 list \<Rightarrow> (unit, 'z kstate_scheme) kern" where
  "inituvm pgdir init =
    (if of_nat (length init) \<ge> PGSIZE then panic ''inituvm: more than a page'' else
     bind kalloc (\<lambda>pg.
     andthen (set_mem (\<lambda>m. memset m pg 0 PGSIZE)) (
     andthen (mappages pgdir 0 PGSIZE (V2P pg) (PTE_W OR PTE_U))
       (set_mem (\<lambda>m. poke m pg init)))))"

fun alloc_loop :: "nat \<Rightarrow> u32 \<Rightarrow> u32 \<Rightarrow> u32 \<Rightarrow> u32 \<Rightarrow> (u32, 'z kstate_scheme) kern" where
  "alloc_loop n pgdir a oldsz newsz =
    (if \<not> a < newsz then return newsz else case n of 0 \<Rightarrow> hang | Suc k \<Rightarrow>
     bind kalloc (\<lambda>pg.
     if pg = 0 then
       andthen (cprintf (Some (lit ''allocuvm out of memory'' @ [NL])) []) (
       andthen (deallocuvm pgdir newsz oldsz) (return 0))
     else
     andthen (set_mem (\<lambda>m. memset m pg 0 PGSIZE)) (
     bind (mappages pgdir a PGSIZE (V2P pg) (PTE_W OR PTE_U)) (\<lambda>r.
     if r < 0 then
       andthen (cprintf (Some (lit ''allocuvm out of memory (2)'' @ [NL])) []) (
       andthen (deallocuvm pgdir newsz oldsz) (
       andthen (kfree pg) (return 0)))
     else alloc_loop k pgdir (a + PGSIZE) oldsz newsz))))"

declare alloc_loop.simps [simp del]

definition allocuvm :: "u32 \<Rightarrow> u32 \<Rightarrow> u32 \<Rightarrow> (u32, 'z kstate_scheme) kern" where
  "allocuvm pgdir oldsz newsz =
    (if newsz \<ge> KERNBASE then return 0
     else if newsz < oldsz then return oldsz
     else alloc_loop (unat newsz div 4096 + 1) pgdir (PGROUNDUP oldsz) oldsz newsz)"

definition clearpteu :: "u32 \<Rightarrow> u32 \<Rightarrow> (unit, 'z kstate_scheme) kern" where
  "clearpteu pgdir uva =
    bind (walkpgdir pgdir uva False) (\<lambda>pte.
    if pte = 0 then panic ''clearpteu'' else
    bind (load pte) (\<lambda>e. store pte (e AND NOT PTE_U)))"

fun copy_loop :: "nat \<Rightarrow> u32 \<Rightarrow> u32 \<Rightarrow> u32 \<Rightarrow> u32 \<Rightarrow> (u32, 'z kstate_scheme) kern" where
  "copy_loop n pgdir d i sz =
    (if \<not> i < sz then return d else case n of 0 \<Rightarrow> hang | Suc k \<Rightarrow>
     bind (walkpgdir pgdir i False) (\<lambda>pte. if pte = 0 then panic ''copyuvm: pte should exist'' else
     bind (load pte) (\<lambda>e. if e AND PTE_P = 0 then panic ''copyuvm: page not present'' else
     bind kalloc (\<lambda>pg. if pg = 0 then andthen (freevm d) (return 0) else
     andthen (set_mem (\<lambda>m. memmove m pg (P2V (PTE_ADDR e)) PGSIZE)) (
     bind (mappages d i PGSIZE (V2P pg) (PTE_FLAGS e)) (\<lambda>r.
     if r < 0 then andthen (kfree pg) (andthen (freevm d) (return 0))
     else copy_loop k pgdir d (i + PGSIZE) sz))))))"

declare copy_loop.simps [simp del]

definition copyuvm :: "u32 \<Rightarrow> u32 \<Rightarrow> (u32, 'z vstate_scheme) kern" where
  "copyuvm pgdir sz =
    bind setupkvm (\<lambda>d. if d = 0 then return 0 else copy_loop (unat sz div 4096 + 1) pgdir d 0 sz)"

text \<open>\<open>uva2ka\<close> dereferences the entry without testing the pointer: a null one reads address 0.\<close>

definition uva2ka :: "u32 \<Rightarrow> u32 \<Rightarrow> (u32, 'z kstate_scheme) kern" where
  "uva2ka pgdir uva =
    bind (walkpgdir pgdir uva False) (\<lambda>pte.
    bind (load pte) (\<lambda>e.
    if e AND PTE_P = 0 then return 0
    else if e AND PTE_U = 0 then return 0
    else return (P2V (PTE_ADDR e))))"

text \<open>The source bytes are the list; each round copies to the end of the page or of the list.\<close>

fun copyout_loop :: "nat \<Rightarrow> u32 \<Rightarrow> u32 \<Rightarrow> u8 list \<Rightarrow> (int, 'z kstate_scheme) kern" where
  "copyout_loop n pgdir va buf =
    (if buf = [] then return 0 else case n of 0 \<Rightarrow> hang | Suc k \<Rightarrow>
     let va0 = PGROUNDDOWN va in
     bind (uva2ka pgdir va0) (\<lambda>pa0. if pa0 = 0 then return (-1) else
     let n = min (unat (PGSIZE - (va - va0))) (length buf) in
     andthen (set_mem (\<lambda>m. poke m (pa0 + (va - va0)) (take n buf)))
       (copyout_loop k pgdir (va0 + PGSIZE) (drop n buf))))"

declare copyout_loop.simps [simp del]

definition copyout :: "u32 \<Rightarrow> u32 \<Rightarrow> u8 list \<Rightarrow> (int, 'z kstate_scheme) kern" where
  "copyout pgdir va buf = copyout_loop (length buf) pgdir va buf"

section \<open>User memory\<close>

text \<open>Reading and writing through the page directory \<open>d\<close>; \<open>None\<close> when a byte is not mapped.\<close>

fun user_bytes :: "memory \<Rightarrow> u32 \<Rightarrow> u32 \<Rightarrow> nat \<Rightarrow> u8 list option" where
  "user_bytes m d a 0 = Some []"
| "user_bytes m d a (Suc n) = (case translate m d a of None \<Rightarrow> None
     | Some x \<Rightarrow> map_option ((#) (m x)) (user_bytes m d (a + 1) n))"

fun user_put :: "memory \<Rightarrow> u32 \<Rightarrow> u32 \<Rightarrow> u8 list \<Rightarrow> memory option" where
  "user_put m d a [] = Some m"
| "user_put m d a (b # bs) = (case translate m d a of None \<Rightarrow> None
     | Some x \<Rightarrow> user_put (m(x := b)) d (a + 1) bs)"

lemma user_bytes_length: "user_bytes m d a n = Some bs \<Longrightarrow> length bs = n"
  by (induction n arbitrary: a bs) (auto split: option.splits)

lemma user_bytes_take: "user_bytes m d a n = Some bs \<Longrightarrow> k \<le> n \<Longrightarrow> user_bytes m d a k = Some (take k bs)"
proof (induction n arbitrary: a bs k)
  case (Suc n)
  then show ?case by (cases k) (auto split: option.splits)
qed simp

lemma vget_user:
  "vget a s = (case translate (mem (mach s)) (cr3 (mach s)) a of None \<Rightarrow> Panic ''trap'' | Some x \<Rightarrow> Ret (mem (mach s) x) s)"
  by (simp add: vget_def kern split: option.split)

lemma vput_user:
  "vput a b s = (case translate (mem (mach s)) (cr3 (mach s)) a of None \<Rightarrow> Panic ''trap''
    | Some x \<Rightarrow> Ret () (s\<lparr>mach := (mach s)\<lparr>mem := (mem (mach s))(x := b)\<rparr>\<rparr>))"
  by (simp add: vput_def set_mem_def kern split: option.split)

lemma vgets_user: "vgets a n s = (case user_bytes (mem (mach s)) (cr3 (mach s)) a n of
    None \<Rightarrow> Panic ''trap'' | Some bs \<Rightarrow> Ret bs s)"
  by (induction n arbitrary: a) (auto simp: vget_user kern split: option.split)

lemma vputs_user: "vputs a bs s = (case user_put (mem (mach s)) (cr3 (mach s)) a bs of
    None \<Rightarrow> Panic ''trap'' | Some m \<Rightarrow> Ret () (s\<lparr>mach := (mach s)\<lparr>mem := m\<rparr>\<rparr>))"
  by (induction bs arbitrary: a s) (auto simp: vput_user kern split: option.split)

end
