(* ===== verification/Proc.thy ===== *)
theory Proc
  imports Vm
begin

text \<open>
  The process table and the scheduler, \<^verbatim>\<open>src/proc.c\<close>: allocation of a process, the Round-Robin
  scheduler, \<open>sched\<close>, \<open>yield\<close>, \<open>sleep\<close> and \<open>wakeup\<close>, \<open>kill\<close>, \<open>wait\<close>, \<open>growproc\<close>, the quantum and
  statistics calls. A process is its index in the table. Trap frames and contexts lie in
  memory on the kernel stacks, addressed by the offsets of their C layout.

  A function that gives up the CPU ends in \<open>Switch\<close>; the code after its \<open>sched()\<close> is the
  function's \<open>resume\<close> part. A loop \<open>while(c) sleep(...)\<close> resumes at its test.
\<close>

section \<open>State\<close>

definition NPROC :: nat where "NPROC = 64"
definition NOFILE :: nat where "NOFILE = 16"
definition DEFAULT_QUANTUM :: int where "DEFAULT_QUANTUM = 10"

datatype procstate = UNUSED | EMBRYO | SLEEPING | RUNNABLE | RUNNING | ZOMBIE

text \<open>Sleep channels: the kernel objects whose addresses the code sleeps on.\<close>

datatype chan =
    ChNull | ChTicks | ChProc nat | ChSem nat | ChBufLock nat | ChInodeLock nat | ChLog
  | ChPipeRead u32 | ChPipeWrite u32 | ChInput | ChBuf nat

record pstats =
  cpu_ticks :: u32
  sleep_ticks :: u32
  runnable_ticks :: u32
  ctx_switches :: u32
  preemptions :: u32

definition zero_stats :: pstats where
  "zero_stats = \<lparr>cpu_ticks = 0, sleep_ticks = 0, runnable_ticks = 0, ctx_switches = 0, preemptions = 0\<rparr>"

record proc =
  p_sz :: u32
  p_pgdir :: u32
  p_kstack :: u32
  p_state :: procstate
  p_pid :: int
  p_parent :: "nat option"
  p_tf :: u32
  p_context :: u32
  p_chan :: chan
  p_killed :: bool
  p_ofile :: "nat option list"
  p_cwd :: "nat option"
  p_name :: "u8 list"
  p_timeslice :: int
  p_ticks_used :: int
  p_stats :: pstats

record ptab =
  procs :: "proc list"
  rr_next :: nat
  initproc :: "nat option"
  nextpid :: int
  forkret_addr :: u32
  trapret_addr :: u32

record pstate = vstate +
  pt :: ptab

section \<open>Access to the table\<close>

definition proc_get :: "nat \<Rightarrow> (proc \<Rightarrow> 'a) \<Rightarrow> ('a, 'z pstate_scheme) kern" where
  "proc_get i f = gets (\<lambda>s. f (procs (pt s) ! i))"

definition set_procs :: "(proc list \<Rightarrow> proc list) \<Rightarrow> (unit, 'z pstate_scheme) kern" where
  "set_procs f = modify (\<lambda>s. s\<lparr>pt := (pt s)\<lparr>procs := f (procs (pt s))\<rparr>\<rparr>)"

definition proc_set :: "nat \<Rightarrow> (proc \<Rightarrow> proc) \<Rightarrow> (unit, 'z pstate_scheme) kern" where
  "proc_set i f = set_procs (upd i f)"

text \<open>\<open>myproc()->...\<close>: dereferencing a null process faults.\<close>

definition the_proc :: "(nat, 'z pstate_scheme) kern" where
  "the_proc = bind myproc (\<lambda>p. case p of None \<Rightarrow> panic ''trap'' | Some i \<Rightarrow> return i)"

text \<open>The first entry of the table with a property.\<close>

definition find_proc :: "(proc \<Rightarrow> bool) \<Rightarrow> (nat option, 'z pstate_scheme) kern" where
  "find_proc P = gets (\<lambda>s. scan (\<lambda>i. P (procs (pt s) ! i)) 0 NPROC)"

section \<open>Initialisation and allocation\<close>

definition pinit :: "(unit, 'z pstate_scheme) kern" where
  "pinit =
    andthen (initlock L_ptable ''ptable'') (
    andthen (initlock L_sem ''semlock'')
      (modify (\<lambda>s. s\<lparr>pt := (pt s)\<lparr>rr_next := 0\<rparr>\<rparr>)))"

definition sizeof_tf :: u32 where "sizeof_tf = 76"
definition sizeof_context :: u32 where "sizeof_context = 20"

definition allocproc :: "(nat option, 'z pstate_scheme) kern" where
  "allocproc =
    andthen (acquire L_ptable) (
    bind (find_proc (\<lambda>p. p_state p = UNUSED)) (\<lambda>r.
    case r of
      None \<Rightarrow> andthen (release L_ptable) (return None)
    | Some i \<Rightarrow>
      bind (gets (\<lambda>s. nextpid (pt s))) (\<lambda>pid.
      andthen (modify (\<lambda>s. s\<lparr>pt := (pt s)\<lparr>nextpid := pid + 1\<rparr>\<rparr>)) (
      andthen (proc_set i (\<lambda>p. p\<lparr>p_state := EMBRYO, p_pid := pid, p_timeslice := DEFAULT_QUANTUM,
        p_ticks_used := 0, p_stats := zero_stats\<rparr>)) (
      andthen (release L_ptable) (
      bind kalloc (\<lambda>kstack.
      andthen (proc_set i (\<lambda>p. p\<lparr>p_kstack := kstack\<rparr>)) (
      if kstack = 0 then
        andthen (acquire L_ptable) (
        andthen (proc_set i (\<lambda>p. p\<lparr>p_state := UNUSED, p_pid := 0\<rparr>)) (
        andthen (release L_ptable) (return None)))
      else
        let tf = kstack + KSTACKSIZE - sizeof_tf; ra = tf - 4; ctx = ra - sizeof_context in
        andthen (proc_set i (\<lambda>p. p\<lparr>p_tf := tf\<rparr>)) (
        bind (gets (\<lambda>s. trapret_addr (pt s))) (\<lambda>trapret.
        andthen (store ra trapret) (
        andthen (proc_set i (\<lambda>p. p\<lparr>p_context := ctx\<rparr>)) (
        andthen (set_mem (\<lambda>m. memset m ctx 0 sizeof_context)) (
        bind (gets (\<lambda>s. forkret_addr (pt s))) (\<lambda>forkret.
        andthen (store (ctx + 16) forkret)
          (return (Some i))))))))))))))))"

section \<open>The scheduler\<close>

text \<open>
  \<open>c = mycpu(); c->proc = 0\<close> before the loop; then, per round: up to the switch into the
  chosen process (which is returned; \<open>ptable.lock\<close> stays held and \<open>c->scheduler\<close> holds the
  saved context), or to the end of a round without a runnable process; and the rest of the
  round after the process has switched back.
\<close>

definition scheduler_start :: "(nat, 'z pstate_scheme) kern" where
  "scheduler_start =
    bind (on_mach mycpu) (\<lambda>c.
    andthen (on_mach (modify (\<lambda>m. m\<lparr>cpus := upd c (\<lambda>k. k\<lparr>c_proc := None\<rparr>) (cpus m)\<rparr>)))
      (return c))"

text \<open>The circular search: the first runnable entry at \<open>(rr_next + i) % NPROC\<close>, \<open>i = 0, 1, ...\<close>\<close>

definition rr_search :: "proc list \<Rightarrow> nat \<Rightarrow> nat option" where
  "rr_search ps start =
    (case scan (\<lambda>i. p_state (ps ! ((start + i) mod NPROC)) = RUNNABLE) 0 NPROC of
       None \<Rightarrow> None | Some i \<Rightarrow> Some ((start + i) mod NPROC))"

definition scheduler_round :: "nat \<Rightarrow> (nat option, 'z pstate_scheme) kern" where
  "scheduler_round c =
    andthen (on_mach sti) (
    andthen (acquire L_ptable) (
    bind (gets (\<lambda>s. rr_search (procs (pt s)) (rr_next (pt s)))) (\<lambda>r.
    case r of
      None \<Rightarrow> andthen (release L_ptable) (return None)
    | Some p \<Rightarrow>
      andthen (modify (\<lambda>s. s\<lparr>pt := (pt s)\<lparr>rr_next := (p + 1) mod NPROC\<rparr>\<rparr>)) (
      andthen (proc_set p (\<lambda>q. q\<lparr>p_ticks_used := 0\<rparr>)) (
      andthen (on_mach (modify (\<lambda>m. m\<lparr>cpus := upd c (\<lambda>k. k\<lparr>c_proc := Some p\<rparr>) (cpus m)\<rparr>))) (
      andthen (proc_set p (\<lambda>q. q\<lparr>p_state := RUNNING\<rparr>)) (
      andthen (proc_set p (\<lambda>q. q\<lparr>p_stats := (p_stats q)\<lparr>ctx_switches := ctx_switches (p_stats q) + 1\<rparr>\<rparr>)) (
      bind (proc_get p (\<lambda>q. (p_kstack q, p_pgdir q))) (\<lambda>kd.
      andthen (switchuvm (Some kd)) (
      andthen (on_mach (modify (\<lambda>m. m\<lparr>cpus := upd c (\<lambda>k. k\<lparr>c_scheduler := esp m\<rparr>) (cpus m)\<rparr>)))
        (return (Some p))))))))))))"

definition scheduler_back :: "nat \<Rightarrow> (unit, 'z pstate_scheme) kern" where
  "scheduler_back c =
    andthen switchkvm (
    andthen (on_mach (modify (\<lambda>m. m\<lparr>cpus := upd c (\<lambda>k. k\<lparr>c_proc := None\<rparr>) (cpus m)\<rparr>)))
      (release L_ptable))"

section \<open>Leaving and re-entering a process\<close>

definition sched :: "('a, 'z pstate_scheme) kern" where
  "sched =
    bind myproc (\<lambda>p.
    bind (holding L_ptable) (\<lambda>h. if \<not> h then panic ''sched ptable.lock'' else
    bind (on_mach (cpu_get c_ncli)) (\<lambda>n. if n \<noteq> 1 then panic ''sched locks'' else
    case p of None \<Rightarrow> panic ''trap'' | Some i \<Rightarrow>
    bind (proc_get i p_state) (\<lambda>st. if st = RUNNING then panic ''sched running'' else
    bind (on_mach readeflags) (\<lambda>f. if f AND FL_IF \<noteq> 0 then panic ''sched interruptible'' else
    bind (on_mach (cpu_get c_intena)) (\<lambda>intena.
    bind (gets (\<lambda>s. esp (mach s))) (\<lambda>sp.
    andthen (proc_set i (\<lambda>q. q\<lparr>p_context := sp\<rparr>))
      switch_away)))))))"

text \<open>After the switch back: \<open>mycpu()->intena = intena\<close>, with the value \<open>sched\<close> saved.\<close>

definition sched_resume :: "u32 \<Rightarrow> (unit, 'z pstate_scheme) kern" where
  "sched_resume intena = on_mach (cpu_set (\<lambda>k. k\<lparr>c_intena := intena\<rparr>))"

definition yield :: "(unit, 'z pstate_scheme) kern" where
  "yield =
    andthen (acquire L_ptable) (
    bind the_proc (\<lambda>i.
    andthen (proc_set i (\<lambda>p. p\<lparr>p_state := RUNNABLE\<rparr>))
      sched))"

definition yield_resume :: "u32 \<Rightarrow> (unit, 'z pstate_scheme) kern" where
  "yield_resume intena = andthen (sched_resume intena) (release L_ptable)"

definition sleep :: "chan \<Rightarrow> lockid option \<Rightarrow> ('a, 'z pstate_scheme) kern" where
  "sleep chn lk =
    bind myproc (\<lambda>p.
    case p of None \<Rightarrow> panic ''sleep'' | Some i \<Rightarrow>
    (case lk of None \<Rightarrow> panic ''sleep without lk'' | Some L \<Rightarrow>
    andthen (whenk (L \<noteq> L_ptable) (andthen (acquire L_ptable) (release L))) (
    andthen (proc_set i (\<lambda>q. q\<lparr>p_chan := chn, p_state := SLEEPING, p_ticks_used := 0\<rparr>))
      sched)))"

definition sleep_resume :: "nat \<Rightarrow> u32 \<Rightarrow> lockid \<Rightarrow> (unit, 'z pstate_scheme) kern" where
  "sleep_resume i intena L =
    andthen (sched_resume intena) (
    andthen (proc_set i (\<lambda>q. q\<lparr>p_chan := ChNull\<rparr>))
      (whenk (L \<noteq> L_ptable) (andthen (release L_ptable) (acquire L))))"

text \<open>\<open>while(cond) sleep(chn, lk); body\<close>: the body runs when the condition fails.\<close>

definition sleep_while :: "('z pstate_scheme \<Rightarrow> bool) \<Rightarrow> chan \<Rightarrow> lockid \<Rightarrow> ('a, 'z pstate_scheme) kern
    \<Rightarrow> ('a, 'z pstate_scheme) kern" where
  "sleep_while b chn L body = bind (gets b) (\<lambda>c. if c then sleep chn (Some L) else body)"

section \<open>Wakeup and kill\<close>

definition wake :: "chan \<Rightarrow> proc \<Rightarrow> proc" where
  "wake chn p = (if p_state p = SLEEPING \<and> p_chan p = chn
     then p\<lparr>p_state := RUNNABLE, p_ticks_used := 0\<rparr> else p)"

definition wakeup1 :: "chan \<Rightarrow> (unit, 'z pstate_scheme) kern" where
  "wakeup1 chn = set_procs (map (wake chn))"

definition wakeup :: "chan \<Rightarrow> (unit, 'z pstate_scheme) kern" where
  "wakeup chn =
    andthen (acquire L_ptable) (
    andthen (wakeup1 chn)
      (release L_ptable))"

definition kill :: "int \<Rightarrow> (int, 'z pstate_scheme) kern" where
  "kill pid =
    andthen (acquire L_ptable) (
    bind (find_proc (\<lambda>p. p_pid p = pid)) (\<lambda>r.
    case r of
      Some i \<Rightarrow>
        andthen (proc_set i (\<lambda>p. p\<lparr>p_killed := True\<rparr>)) (
        andthen (proc_set i (\<lambda>p. if p_state p = SLEEPING
          then p\<lparr>p_state := RUNNABLE, p_ticks_used := 0\<rparr> else p)) (
        andthen (release L_ptable) (return 0)))
    | None \<Rightarrow> andthen (release L_ptable) (return (-1))))"

section \<open>Waiting for children, growing memory\<close>

text \<open>
  One pass of \<open>wait\<close>'s loop, entered with \<open>ptable.lock\<close> held: the first child that is a zombie
  is reaped; without one, \<open>wait\<close> fails when there are no children or the caller is killed,
  and sleeps otherwise. The process sleeps on itself and resumes with another pass.
\<close>

definition wait_pass :: "nat \<Rightarrow> (int, 'z pstate_scheme) kern" where
  "wait_pass me =
    bind (find_proc (\<lambda>p. p_parent p = Some me \<and> p_state p = ZOMBIE)) (\<lambda>z.
    case z of
      Some i \<Rightarrow>
        bind (proc_get i p_pid) (\<lambda>pid.
        bind (proc_get i p_kstack) (\<lambda>kstack.
        andthen (kfree kstack) (
        andthen (proc_set i (\<lambda>p. p\<lparr>p_kstack := 0\<rparr>)) (
        bind (proc_get i p_pgdir) (\<lambda>pgdir.
        andthen (freevm pgdir) (
        andthen (proc_set i (\<lambda>p. p\<lparr>p_pid := 0, p_parent := None, p_name := (p_name p)[0 := 0],
          p_killed := False, p_timeslice := DEFAULT_QUANTUM, p_ticks_used := 0,
          p_stats := zero_stats, p_state := UNUSED\<rparr>)) (
        andthen (release L_ptable) (return pid))))))))
    | None \<Rightarrow>
        bind (find_proc (\<lambda>p. p_parent p = Some me)) (\<lambda>k.
        bind (proc_get me p_killed) (\<lambda>killed.
        if k = None \<or> killed then andthen (release L_ptable) (return (-1))
        else sleep (ChProc me) (Some L_ptable))))"

definition wait :: "(int, 'z pstate_scheme) kern" where
  "wait = bind the_proc (\<lambda>me. andthen (acquire L_ptable) (wait_pass me))"

definition wait_resume :: "nat \<Rightarrow> u32 \<Rightarrow> (int, 'z pstate_scheme) kern" where
  "wait_resume me intena = andthen (sleep_resume me intena L_ptable) (wait_pass me)"

definition growproc :: "int \<Rightarrow> (int, 'z pstate_scheme) kern" where
  "growproc n =
    bind the_proc (\<lambda>me.
    bind (proc_get me p_sz) (\<lambda>sz.
    bind (proc_get me p_pgdir) (\<lambda>pgdir.
    bind (if n > 0 then allocuvm pgdir sz (sz + word_of_int n)
          else if n < 0 then deallocuvm pgdir sz (sz + word_of_int n)
          else return sz) (\<lambda>sz'.
    if n \<noteq> 0 \<and> sz' = 0 then return (-1) else
    andthen (proc_set me (\<lambda>p. p\<lparr>p_sz := sz'\<rparr>)) (
    bind (proc_get me (\<lambda>q. (p_kstack q, p_pgdir q))) (\<lambda>kd.
    andthen (switchuvm (Some kd)) (return 0)))))))"

section \<open>Quantum and statistics\<close>

definition setquantum_pid :: "int \<Rightarrow> int \<Rightarrow> (int, 'z pstate_scheme) kern" where
  "setquantum_pid pid quantum =
    (if quantum < 1 \<or> quantum > 100 then return (-1) else
     andthen (acquire L_ptable) (
     bind (find_proc (\<lambda>p. p_pid p = pid \<and> p_state p \<noteq> UNUSED)) (\<lambda>r.
     case r of
       Some i \<Rightarrow>
         andthen (proc_set i (\<lambda>p. p\<lparr>p_timeslice := quantum, p_ticks_used := 0\<rparr>)) (
         andthen (release L_ptable) (return 0))
     | None \<Rightarrow> andthen (release L_ptable) (return (-1)))))"

definition gettimeslice :: "int \<Rightarrow> (int, 'z pstate_scheme) kern" where
  "gettimeslice pid =
    andthen (acquire L_ptable) (
    bind (find_proc (\<lambda>p. p_pid p = pid \<and> p_state p \<noteq> UNUSED)) (\<lambda>r.
    case r of
      Some i \<Rightarrow> bind (proc_get i p_timeslice) (\<lambda>ts. andthen (release L_ptable) (return ts))
    | None \<Rightarrow> andthen (release L_ptable) (return (-1))))"

definition stats_bytes :: "pstats \<Rightarrow> u8 list" where
  "stats_bytes t = le32 (cpu_ticks t) @ le32 (sleep_ticks t) @ le32 (runnable_ticks t)
     @ le32 (ctx_switches t) @ le32 (preemptions t)"

text \<open>The out-parameters are addresses of the caller's memory.\<close>

definition getpstats :: "int \<Rightarrow> u32 \<Rightarrow> (int, 'z pstate_scheme) kern" where
  "getpstats pid out =
    (if out = 0 then return (-1) else
     andthen (acquire L_ptable) (
     bind (find_proc (\<lambda>p. p_pid p = pid \<and> p_state p \<noteq> UNUSED)) (\<lambda>r.
     case r of
       Some i \<Rightarrow>
         bind (proc_get i p_stats) (\<lambda>t.
         andthen (vputs out (stats_bytes t)) (
         andthen (release L_ptable) (return 0)))
     | None \<Rightarrow> andthen (release L_ptable) (return (-1)))))"

definition tick_stats :: "proc \<Rightarrow> proc" where
  "tick_stats p =
    (if p_state p = SLEEPING then p\<lparr>p_stats := (p_stats p)\<lparr>sleep_ticks := sleep_ticks (p_stats p) + 1\<rparr>\<rparr>
     else if p_state p = RUNNABLE then p\<lparr>p_stats := (p_stats p)\<lparr>runnable_ticks := runnable_ticks (p_stats p) + 1\<rparr>\<rparr>
     else p)"

definition update_sleep_stats :: "(unit, 'z pstate_scheme) kern" where
  "update_sleep_stats =
    andthen (acquire L_ptable) (
    andthen (set_procs (map tick_stats))
      (release L_ptable))"

definition state_code :: "procstate \<Rightarrow> u32" where
  "state_code st = (case st of UNUSED \<Rightarrow> 0 | EMBRYO \<Rightarrow> 1 | SLEEPING \<Rightarrow> 2 | RUNNABLE \<Rightarrow> 3 | RUNNING \<Rightarrow> 4 | ZOMBIE \<Rightarrow> 5)"

definition getprocinfo :: "int \<Rightarrow> u32 \<Rightarrow> (int, 'z pstate_scheme) kern" where
  "getprocinfo pid out =
    (if out = 0 then return (-1) else
     andthen (acquire L_ptable) (
     bind (find_proc (\<lambda>p. p_pid p = pid \<and> p_state p \<noteq> UNUSED)) (\<lambda>r.
     case r of
       Some i \<Rightarrow>
         bind (proc_get i id) (\<lambda>p.
         andthen (vput32 out (word_of_int (p_pid p))) (
         andthen (vputs (out + 4) (safestrcpy (p_name p) 16)) (
         andthen (vput32 (out + 20) (state_code (p_state p))) (
         andthen (vput32 (out + 24) (word_of_int (p_timeslice p))) (
         andthen (vput32 (out + 28) (cpu_ticks (p_stats p))) (
         andthen (vput32 (out + 32) (sleep_ticks (p_stats p))) (
         andthen (vput32 (out + 36) (ctx_switches (p_stats p))) (
         andthen (vput32 (out + 40) (preemptions (p_stats p))) (
         andthen (release L_ptable) (return 0))))))))))
     | None \<Rightarrow> andthen (release L_ptable) (return (-1)))))"

section \<open>The process listing\<close>

definition state_name :: "procstate \<Rightarrow> u8 list" where
  "state_name st = lit (case st of UNUSED \<Rightarrow> ''unused'' | EMBRYO \<Rightarrow> ''embryo'' | SLEEPING \<Rightarrow> ''sleep ''
     | RUNNABLE \<Rightarrow> ''runble'' | RUNNING \<Rightarrow> ''run   '' | ZOMBIE \<Rightarrow> ''zombie'')"

definition str_arg :: "u8 list \<Rightarrow> carg" where "str_arg t = Arg 1 t"

fun dump_pcs :: "u32 list \<Rightarrow> (unit, 'z pstate_scheme) kern" where
  "dump_pcs [] = return ()"
| "dump_pcs (pc # pcs) = (if pc = 0 then return ()
     else andthen (cprintf (Some (lit '' %p'')) [int_arg pc]) (dump_pcs pcs))"

fun procdump_loop :: "nat \<Rightarrow> nat \<Rightarrow> (unit, 'z pstate_scheme) kern" where
  "procdump_loop 0 i = return ()"
| "procdump_loop (Suc n) i =
    bind (proc_get i id) (\<lambda>p.
    andthen (whenk (p_state p \<noteq> UNUSED) (
      andthen (cprintf (Some (lit ''%d %s %s''))
        [int_arg (word_of_int (p_pid p)), str_arg (state_name (p_state p)), str_arg (p_name p)]) (
      andthen (whenk (p_state p = SLEEPING) (
        bind (load (p_context p + 12)) (\<lambda>fp.
        bind (gets (\<lambda>s. getcallerpcs (mem (mach s)) (fp + 8))) dump_pcs)))
        (cprintf (Some [NL]) []))))
      (procdump_loop n (i + 1)))"

definition procdump :: "(unit, 'z pstate_scheme) kern" where
  "procdump = procdump_loop NPROC 0"

section \<open>Critical sections of the process table\<close>

lemmas table_access = proc_get_def proc_set_def set_procs_def find_proc_def

text \<open>The machine after a completed critical section.\<close>

definition crit :: "lockid \<Rightarrow> machine \<Rightarrow> machine" where
  "crit L m = rel L (acq L m)"

lemma crit_same: "cpu_ok m \<Longrightarrow> unlocked m L \<Longrightarrow> same_mach m (crit L m)"
  unfolding crit_def by (intro same_mach_critical same_mach_refl) auto

definition table_ready :: "'z pstate_scheme \<Rightarrow> bool" where
  "table_ready s \<longleftrightarrow> cpu_ok (mach s) \<and> unlocked (mach s) L_ptable"

lemma table_readyD [simp]: "table_ready s \<Longrightarrow> cpu_ok (mach s)" "table_ready s \<Longrightarrow> unlocked (mach s) L_ptable"
  by (simp_all add: table_ready_def)

definition set_table :: "ptab \<Rightarrow> 'z pstate_scheme \<Rightarrow> 'z pstate_scheme" where
  "set_table T s = s\<lparr>pt := T, mach := crit L_ptable (mach s)\<rparr>"

text \<open>What each operation does to the table.\<close>

definition wakeup_table :: "chan \<Rightarrow> ptab \<Rightarrow> ptab" where
  "wakeup_table chn T = T\<lparr>procs := map (wake chn) (procs T)\<rparr>"

definition kill_proc :: "proc \<Rightarrow> proc" where
  "kill_proc p = (if p_state p = SLEEPING then p\<lparr>p_killed := True, p_state := RUNNABLE, p_ticks_used := 0\<rparr>
     else p\<lparr>p_killed := True\<rparr>)"

definition lookup_pid :: "int \<Rightarrow> ptab \<Rightarrow> nat option" where
  "lookup_pid pid T = scan (\<lambda>i. p_pid (procs T ! i) = pid \<and> p_state (procs T ! i) \<noteq> UNUSED) 0 NPROC"

lemma wakeup_ok: "table_ready s \<Longrightarrow> wakeup chn s = Ret () (set_table (wakeup_table chn (pt s)) s)"
  by (simp add: wakeup_def wakeup1_def table_access kern set_table_def wakeup_table_def crit_def)

lemma kill_ok:
  assumes "table_ready s" and "length (procs (pt s)) = NPROC"
  shows "kill pid s = (case scan (\<lambda>i. p_pid (procs (pt s) ! i) = pid) 0 NPROC of
      None \<Rightarrow> Ret (-1) (set_table (pt s) s)
    | Some i \<Rightarrow> Ret 0 (set_table ((pt s)\<lparr>procs := upd i kill_proc (procs (pt s))\<rparr>) s))"
proof (cases "scan (\<lambda>i. p_pid (procs (pt s) ! i) = pid) 0 NPROC")
  case None
  then show ?thesis
    using assms by (simp add: kill_def table_access kern set_table_def crit_def)
next
  case (Some i)
  then have "i < NPROC" by (rule scan_SomeD)
  with Some show ?thesis
    using assms by (simp add: kill_def table_access kern set_table_def crit_def kill_proc_def upd_def)
qed

lemma setquantum_pid_ok:
  assumes "table_ready s"
  shows "setquantum_pid pid q s = (if q < 1 \<or> q > 100 then Ret (-1) s else case lookup_pid pid (pt s) of
      None \<Rightarrow> Ret (-1) (set_table (pt s) s)
    | Some i \<Rightarrow> Ret 0 (set_table ((pt s)\<lparr>procs := upd i (\<lambda>p. p\<lparr>p_timeslice := q, p_ticks_used := 0\<rparr>)
        (procs (pt s))\<rparr>) s))"
  using assms
  by (auto simp: setquantum_pid_def table_access kern set_table_def crit_def lookup_pid_def split: option.split)

lemma gettimeslice_ok:
  assumes "table_ready s"
  shows "gettimeslice pid s = (case lookup_pid pid (pt s) of
      None \<Rightarrow> Ret (-1) (set_table (pt s) s)
    | Some i \<Rightarrow> Ret (p_timeslice (procs (pt s) ! i)) (set_table (pt s) s))"
  using assms
  by (auto simp: gettimeslice_def table_access kern set_table_def crit_def lookup_pid_def split: option.split)

lemma update_sleep_stats_ok:
  "table_ready s \<Longrightarrow> update_sleep_stats s = Ret () (set_table ((pt s)\<lparr>procs := map tick_stats (procs (pt s))\<rparr>) s)"
  by (simp add: update_sleep_stats_def table_access kern set_table_def crit_def)

lemma set_table_ready [simp]: "table_ready s \<Longrightarrow> table_ready (set_table T s)"
  using crit_same [of "mach s" L_ptable]
  by (simp add: set_table_def table_ready_def same_machD del: table_readyD)

lemma set_table_sel [simp]: "pt (set_table T s) = T" "con (set_table T s) = con s" "kmem (set_table T s) = kmem s"
  "mach (set_table T s) = crit L_ptable (mach s)" "kpgdir (set_table T s) = kpgdir s"
  by (simp_all add: set_table_def)

section \<open>A concrete process table\<close>

definition demo_proc :: "procstate \<Rightarrow> int \<Rightarrow> proc" where
  "demo_proc st pid = \<lparr>p_sz = 0x1000, p_pgdir = 0x80400000, p_kstack = 0x80500000, p_state = st, p_pid = pid,
     p_parent = None, p_tf = 0x80500FB4, p_context = 0x80500F9C, p_chan = ChNull, p_killed = False,
     p_ofile = replicate NOFILE None, p_cwd = None, p_name = replicate 16 0, p_timeslice = 3, p_ticks_used = 0,
     p_stats = zero_stats\<rparr>"

definition demo_state :: "nat option \<Rightarrow> proc list \<Rightarrow> nat \<Rightarrow> pstate" where
  "demo_state p ps rr = \<lparr>mach = demo_mach p 0x202, con = demo_con,
     kmem = \<lparr>km_use_lock = True, km_freelist = 0, kend = 0x80200000\<rparr>, kpgdir = 0x80300000,
     kdata = 0x80108000, ts_addr = (\<lambda>_. 0x80110000),
     pt = \<lparr>procs = ps @ replicate (NPROC - length ps) (demo_proc UNUSED 0), rr_next = rr, initproc = Some 0,
           nextpid = 3, forkret_addr = 0x80103000, trapret_addr = 0x80105000\<rparr>\<rparr>"

lemma demo_state_sel [simp]:
  "mach (demo_state p ps rr) = demo_mach p 0x202" "con (demo_state p ps rr) = demo_con"
  "rr_next (pt (demo_state p ps rr)) = rr" "table_ready (demo_state p ps rr)"
  "length ps \<le> NPROC \<Longrightarrow> length (procs (pt (demo_state p ps rr))) = NPROC"
  "i < length ps \<Longrightarrow> procs (pt (demo_state p ps rr)) ! i = ps ! i"
  by (simp_all add: demo_state_def table_ready_def nth_append del: table_readyD)

lemma demo_state_unused:
  "length ps \<le> i \<Longrightarrow> i < NPROC \<Longrightarrow> procs (pt (demo_state p ps rr)) ! i = demo_proc UNUSED 0"
  by (simp add: demo_state_def nth_append)

end
