(* ===== verification/Sched.thy ===== *)
theory Sched
  imports Proc
begin

text \<open>
  Correctness of the scheduler's pieces: address-space switches keep the lock state, the
  circular search finds the nearest runnable process, \<open>yield\<close> and \<open>sleep\<close> hand the CPU over with
  exactly \<open>ptable.lock\<close> held, and Round Robin chooses every process that stays runnable
  within \<open>NPROC\<close> rounds.
\<close>

section \<open>Updates of the executing CPU's record\<close>

definition cpu_upd :: "(cpu \<Rightarrow> cpu) \<Rightarrow> machine \<Rightarrow> machine" where
  "cpu_upd f m = m\<lparr>cpus := upd (cur m) f (cpus m)\<rparr>"

definition keeps :: "(cpu \<Rightarrow> cpu) \<Rightarrow> bool" where
  "keeps f \<longleftrightarrow> (\<forall>k. c_apicid (f k) = c_apicid k \<and> c_ncli (f k) = c_ncli k \<and> c_intena (f k) = c_intena k)"

text \<open>Two machines with the same interrupt nesting, locks and memory.\<close>

definition same_core :: "machine \<Rightarrow> machine \<Rightarrow> bool" where
  "same_core m m' \<longleftrightarrow> cpu_ok m' \<and> cur m' = cur m \<and> ncli m' = ncli m \<and> ie m' = ie m \<and> flags0 m' = flags0 m \<and>
     mem m' = mem m \<and> ebp m' = ebp m \<and> esp m' = esp m \<and> ncpu m' = ncpu m \<and> lapic m' = lapic m \<and>
     length (cpus m') = length (cpus m) \<and> (\<forall>L. held m' L = held m L) \<and> (\<forall>L. unlocked m' L = unlocked m L)"

lemma same_core_refl: "cpu_ok m \<Longrightarrow> same_core m m"
  by (simp add: same_core_def)

lemma same_core_trans: "same_core m m' \<Longrightarrow> same_core m' m'' \<Longrightarrow> same_core m m''"
  by (simp add: same_core_def)

lemma same_mach_core: "same_mach m m' \<Longrightarrow> same_core m m'"
  by (simp add: same_core_def same_mach_def)

lemma same_coreD:
  assumes "same_core m m'"
  shows "cpu_ok m'" "ncli m' = ncli m" "cur m' = cur m" "mem m' = mem m" "held m' L = held m L"
    "unlocked m' L = unlocked m L" "esp m' = esp m"
  using assms by (simp_all add: same_core_def)

lemma cpu_upd_core:
  assumes "cpu_ok m" and "keeps f"
  shows "same_core m (cpu_upd f m)"
proof -
  have c: "cur m < length (cpus m)" using assms(1) by (rule cpu_ok_less)
  have 1: "this_cpu (cpu_upd f m) = this_cpu m"
    using assms(2) by (simp add: this_cpu_def cpu_upd_def keeps_def)
  then have 2: "cur (cpu_upd f m) = cur m" by (simp add: cur_def)
  then have 3: "ncli (cpu_upd f m) = ncli m"
    using assms(2) c by (simp add: ncli_def) (simp add: cpu_upd_def keeps_def)
  have "cpu_ok (cpu_upd f m)"
    using assms(1) by (simp add: cpu_ok_def 1 3 del: cpu_ok_ncli) (simp add: cpu_upd_def)
  moreover have "ie (cpu_upd f m) = ie m"
    using assms(2) c by (simp add: ie_def 2 3) (simp add: cpu_upd_def keeps_def)
  ultimately show ?thesis
    using 2 3 by (simp add: same_core_def held_def unlocked_def flags0_def) (simp add: cpu_upd_def)
qed

lemma curproc_cpu_upd:
  assumes "cpu_ok m" and "keeps f"
  shows "curproc (cpu_upd f m) = c_proc (f (cpus m ! cur m))"
  using same_coreD(3) [OF cpu_upd_core [OF assms]] cpu_ok_less [OF assms(1)]
  by (simp add: curproc_def) (simp add: cpu_upd_def)

lemma cpu_ok_off: "cpu_ok m \<Longrightarrow> 0 < ncli m \<Longrightarrow> eflags m AND FL_IF = 0"
  by (simp add: cpu_ok_def del: cpu_ok_ncli)

lemma mycpu_locked: "cpu_ok m \<Longrightarrow> 0 < ncli m \<Longrightarrow> mycpu m = Ret (cur m) m"
  by (simp add: mycpu_eq cpu_ok_off cpu_ok_cur)

lemma cpu_set_ok: "cpu_ok m \<Longrightarrow> 0 < ncli m \<Longrightarrow> cpu_set f m = Ret () (cpu_upd f m)"
  by (simp add: cpu_set_def kern mycpu_locked cpu_upd_def)

lemma cpu_get_ok: "cpu_ok m \<Longrightarrow> 0 < ncli m \<Longrightarrow> cpu_get f m = Ret (f (cpus m ! cur m)) m"
  by (simp add: cpu_get_def kern mycpu_locked)

lemma reg_core:
  assumes "cpu_ok m"
  shows "same_core m (m\<lparr>cr3 := v\<rparr>)" "same_core m (m\<lparr>tr := w\<rparr>)"
proof -
  have "this_cpu (m\<lparr>cr3 := v\<rparr>) = this_cpu m" "this_cpu (m\<lparr>tr := w\<rparr>) = this_cpu m"
    by (simp_all add: this_cpu_def)
  then show "same_core m (m\<lparr>cr3 := v\<rparr>)" "same_core m (m\<lparr>tr := w\<rparr>)"
    using assms
    by (simp_all add: same_core_def cpu_ok_def ncli_def ie_def flags0_def held_def unlocked_def cur_def
        del: cpu_ok_ncli)
qed

lemma curproc_reg [simp]: "curproc (m\<lparr>cr3 := v\<rparr>) = curproc m" "curproc (m\<lparr>tr := w\<rparr>) = curproc m"
  by (simp_all add: curproc_def cur_def this_cpu_def)

section \<open>Bracketing by \<open>pushcli\<close> and \<open>popcli\<close>\<close>

lemma pushed_obs:
  assumes "cpu_ok m"
  shows "ie (pushed m) = ie m" "flags0 (pushed m) = flags0 m" "curproc (pushed m) = curproc m"
    "held (pushed m) L = held m L" "unlocked (pushed m) L = unlocked m L"
proof -
  show "ie (pushed m) = ie m"
    using assms cpu_ok_ncli(1) [OF assms] by (auto simp: ie_def ncli_def cpus_at_cur)
  show "flags0 (pushed m) = flags0 m" by (simp add: flags0_def and.assoc)
  show "curproc (pushed m) = curproc m" using assms by (simp add: curproc_def cpus_at_cur)
  show "held (pushed m) L = held m L" "unlocked (pushed m) L = unlocked m L"
    by (simp_all add: held_def unlocked_def)
qed

lemma popped_obs:
  assumes "cpu_ok m" and "0 < ncli m"
  shows "ie (popped m) = ie m" "flags0 (popped m) = flags0 m" "curproc (popped m) = curproc m"
    "held (popped m) L = held m L" "unlocked (popped m) L = unlocked m L" "cpu_ok (popped m)"
proof -
  have "eflags (popped m) = (if ncli m = 1 \<and> c_intena (cpus m ! cur m) \<noteq> 0 then eflags m OR FL_IF else eflags m)"
    by (simp add: popped_def)
  moreover have "c_intena (cpus (popped m) ! cur m) = c_intena (cpus m ! cur m)"
    using assms by (simp add: cpus_at_cur)
  ultimately show "ie (popped m) = ie m"
    using assms cpu_ok_off [OF assms] by (simp add: ie_def)
  show "flags0 (popped m) = flags0 m" by (simp add: flags0_def popped_def)
  show "curproc (popped m) = curproc m" using assms by (simp add: curproc_def cpus_at_cur)
  show "held (popped m) L = held m L" "unlocked (popped m) L = unlocked m L"
    by (simp_all add: held_def unlocked_def)
  show "cpu_ok (popped m)" using assms by (rule cpu_ok_popped)
qed

lemma bracket_core:
  assumes m: "cpu_ok m" and m1: "same_core (pushed m) m1"
  shows "popcli m1 = Ret () (popped m1)" "same_core m (popped m1)"
    "curproc (popped m1) = curproc m1" "cr3 (popped m1) = cr3 m1" "tr (popped m1) = tr m1"
proof -
  have n: "cpu_ok m1" "0 < ncli m1"
    using same_coreD(1,2) [OF m1] m by simp_all
  then show "popcli m1 = Ret () (popped m1)" by (rule popcli_ok)
  show "curproc (popped m1) = curproc m1" using n by (rule popped_obs)
  show "cr3 (popped m1) = cr3 m1" "tr (popped m1) = tr m1" by simp_all
  show "same_core m (popped m1)"
    using m1 m n by (simp add: same_core_def popped_obs pushed_obs)
qed

text \<open>An operation that, inside the bracket, only touches fields no one else observes.\<close>

definition core_op :: "(unit, machine) kern \<Rightarrow> bool" where
  "core_op f \<longleftrightarrow> (\<forall>m. cpu_ok m \<and> 0 < ncli m \<longrightarrow>
     (\<exists>m'. f m = Ret () m' \<and> same_core m m' \<and> curproc m' = curproc m))"

lemma core_op_andthen: "core_op f \<Longrightarrow> core_op g \<Longrightarrow> core_op (andthen f g)"
  unfolding core_op_def
proof (intro allI impI)
  fix m
  assume f: "\<forall>m. cpu_ok m \<and> 0 < ncli m \<longrightarrow> (\<exists>m'. f m = Ret () m' \<and> same_core m m' \<and> curproc m' = curproc m)"
    and g: "\<forall>m. cpu_ok m \<and> 0 < ncli m \<longrightarrow> (\<exists>m'. g m = Ret () m' \<and> same_core m m' \<and> curproc m' = curproc m)"
    and m: "cpu_ok m \<and> 0 < ncli m"
  from f m obtain m' where m': "f m = Ret () m'" "same_core m m'" "curproc m' = curproc m" by blast
  with m same_coreD(1,2) [OF m'(2)] have "cpu_ok m' \<and> 0 < ncli m'" by simp
  with g obtain m'' where "g m' = Ret () m''" "same_core m' m''" "curproc m'' = curproc m'" by blast
  with m' show "\<exists>m'. andthen f g m = Ret () m' \<and> same_core m m' \<and> curproc m' = curproc m"
    by (auto simp: andthen_Ret_iff intro: same_core_trans)
qed

lemma core_op_cpu_set: "keeps f \<Longrightarrow> (\<And>k. c_proc (f k) = c_proc k) \<Longrightarrow> core_op (cpu_set f)"
  unfolding core_op_def
  using cpu_upd_core curproc_cpu_upd by (auto simp: cpu_set_ok curproc_def [symmetric])

lemma core_op_ltr: "core_op (ltr w)"
  unfolding core_op_def using reg_core by (auto simp: ltr_def kern)

section \<open>Address-space switches\<close>

lemma switchuvm_ok:
  assumes "cpu_ok (mach s)" and "kstack \<noteq> 0" and "pgdir \<noteq> 0"
  shows "\<exists>m'. switchuvm (Some (kstack, pgdir)) s = Ret () (s\<lparr>mach := m'\<rparr>) \<and> same_core (mach s) m' \<and>
    curproc m' = curproc (mach s) \<and> cr3 m' = V2P pgdir"
proof -
  let ?m = "mach s"
  let ?c = "cur ?m"
  define body where "body =
      andthen (cpu_set (\<lambda>k. k\<lparr>c_gdt := (c_gdt k)[SEG_TSS := SEG16 0x9 (ts_addr s ?c) (104 - 1) 0]\<rparr>)) (
      andthen (cpu_set (\<lambda>k. k\<lparr>c_gdt := upd SEG_TSS (\<lambda>d. d\<lparr>seg_s := 0\<rparr>) (c_gdt k)\<rparr>)) (
      andthen (cpu_set (\<lambda>k. k\<lparr>c_ts := (c_ts k)\<lparr>ts_ss0 := of_nat (SEG_KDATA * 8)\<rparr>\<rparr>)) (
      andthen (cpu_set (\<lambda>k. k\<lparr>c_ts := (c_ts k)\<lparr>ts_esp0 := kstack + KSTACKSIZE\<rparr>\<rparr>)) (
      andthen (cpu_set (\<lambda>k. k\<lparr>c_ts := (c_ts k)\<lparr>ts_iomb := 0xFFFF\<rparr>\<rparr>))
        (ltr (of_nat (SEG_TSS * 8)))))))"
  have "core_op body"
    unfolding body_def by (intro core_op_andthen core_op_cpu_set core_op_ltr) (simp_all add: keeps_def)
  moreover have "cpu_ok (pushed ?m)" "0 < ncli (pushed ?m)"
    using assms by simp_all
  ultimately obtain m1 where m1: "body (pushed ?m) = Ret () m1" "same_core (pushed ?m) m1"
      "curproc m1 = curproc (pushed ?m)"
    unfolding core_op_def by blast
  let ?m2 = "m1\<lparr>cr3 := V2P pgdir\<rparr>"
  have core: "same_core (pushed ?m) ?m2"
    using m1(2) reg_core(1) [of m1] same_coreD(1) [OF m1(2)] by (blast intro: same_core_trans)
  have "switchuvm (Some (kstack, pgdir)) s = on_mach (andthen pushcli (bind mycpu (\<lambda>c. andthen body
      (andthen (lcr3 (V2P pgdir)) popcli)))) s"
    using assms
    by (simp add: switchuvm_def bind_def gets_def on_mach_def andthen_def pushcli_ok mycpu_locked
        body_def split: outcome.split)
  also have "\<dots> = Ret () (s\<lparr>mach := popped ?m2\<rparr>)"
    using assms m1(1) bracket_core(1) [OF assms(1) core]
    by (simp add: on_mach_def andthen_def bind_def pushcli_ok mycpu_locked lcr3_def modify_def)
  finally show ?thesis
    using bracket_core [OF assms(1) core] m1(3) pushed_obs(3) [OF assms(1)]
    by (intro exI [of _ "popped ?m2"]) simp
qed

section \<open>The circular search\<close>

text \<open>How many entries lie between \<open>start\<close> and \<open>i\<close>, going around the table.\<close>

definition rr_dist :: "nat \<Rightarrow> nat \<Rightarrow> nat" where
  "rr_dist start i = (i + (NPROC - start mod NPROC)) mod NPROC"

lemma NPROC_pos [simp]: "0 < NPROC"
  by (simp add: NPROC_def)

lemma rr_dist_less [simp]: "rr_dist start i < NPROC"
  by (simp add: rr_dist_def)

lemma around: "r < n \<Longrightarrow> r + (i + (n - r)) = i + n" "r < n \<Longrightarrow> r + i + (n - r) = i + (n :: nat)"
  by arith+

lemma rr_dist_add: "i < NPROC \<Longrightarrow> (start + rr_dist start i) mod NPROC = i"
proof -
  assume i: "i < NPROC"
  have "(start + rr_dist start i) mod NPROC = (start mod NPROC + (i + (NPROC - start mod NPROC))) mod NPROC"
    unfolding rr_dist_def by (simp add: mod_simps)
  also have "start mod NPROC + (i + (NPROC - start mod NPROC)) = i + NPROC"
    by (rule around) simp
  finally show ?thesis using i by simp
qed

lemma rr_dist_unique:
  assumes "k < NPROC"
  shows "rr_dist start ((start + k) mod NPROC) = k"
proof -
  have "((start + k) mod NPROC + c) mod NPROC = (start mod NPROC + k + c) mod NPROC" for c
    by (metis add.assoc mod_add_left_eq)
  then have "rr_dist start ((start + k) mod NPROC) = (start mod NPROC + k + (NPROC - start mod NPROC)) mod NPROC"
    unfolding rr_dist_def .
  also have "start mod NPROC + k + (NPROC - start mod NPROC) = k + NPROC"
    by (rule around) simp
  finally show ?thesis using assms by simp
qed

lemma rr_search_None_iff: "rr_search ps start = None \<longleftrightarrow> (\<forall>i<NPROC. p_state (ps ! i) \<noteq> RUNNABLE)"
proof
  assume "rr_search ps start = None"
  then have "scan (\<lambda>i. p_state (ps ! ((start + i) mod NPROC)) = RUNNABLE) 0 NPROC = None"
    by (simp add: rr_search_def split: option.splits)
  then show "\<forall>i<NPROC. p_state (ps ! i) \<noteq> RUNNABLE"
    unfolding scan_None_iff using rr_dist_add [of _ start] rr_dist_less [of start] by (metis le0)
next
  assume "\<forall>i<NPROC. p_state (ps ! i) \<noteq> RUNNABLE"
  then have "scan (\<lambda>i. p_state (ps ! ((start + i) mod NPROC)) = RUNNABLE) 0 NPROC = None"
    by (simp add: scan_None_iff)
  then show "rr_search ps start = None" by (simp add: rr_search_def)
qed

lemma rr_search_SomeD:
  assumes "rr_search ps start = Some j"
  shows "j < NPROC" and "p_state (ps ! j) = RUNNABLE"
    and "\<And>i. i < NPROC \<Longrightarrow> p_state (ps ! i) = RUNNABLE \<Longrightarrow> rr_dist start j \<le> rr_dist start i"
proof -
  obtain k where k: "scan (\<lambda>i. p_state (ps ! ((start + i) mod NPROC)) = RUNNABLE) 0 NPROC = Some k"
      "j = (start + k) mod NPROC"
    using assms by (auto simp: rr_search_def split: option.splits)
  then show "j < NPROC" "p_state (ps ! j) = RUNNABLE"
    using scan_SomeD(3) [OF k(1)] by simp_all
  fix i
  assume i: "i < NPROC" "p_state (ps ! i) = RUNNABLE"
  then have "\<not> rr_dist start i < k"
    using scan_SomeD(4) [OF k(1), of "rr_dist start i"] rr_dist_add [OF i(1), of start] by auto
  moreover have "rr_dist start j = k"
    using rr_dist_unique [of k start] scan_SomeD(2) [OF k(1)] k(2) by simp
  ultimately show "rr_dist start j \<le> rr_dist start i" by simp
qed

text \<open>
  After a round that chose another process, a process that was runnable is nearer to the new
  starting point than it was to the old one.
\<close>

lemma rr_dist_step:
  assumes "rr_search ps start = Some j" and "i < NPROC" and "p_state (ps ! i) = RUNNABLE" and "i \<noteq> j"
  shows "rr_dist ((j + 1) mod NPROC) i < rr_dist start i"
proof -
  let ?k = "rr_dist start j" and ?d = "rr_dist start i"
  have "?k \<le> ?d" using rr_search_SomeD(3) [OF assms(1,2,3)] .
  moreover have "?k \<noteq> ?d"
    using rr_dist_add [of i start] rr_dist_add [of j start] assms rr_search_SomeD(1) [OF assms(1)] by auto
  ultimately have kd: "?k < ?d" by simp
  have "((j + 1) mod NPROC + (?d - ?k - 1)) mod NPROC = (start + ?k + 1 + (?d - ?k - 1)) mod NPROC"
    using rr_dist_add [of j start, OF rr_search_SomeD(1) [OF assms(1)]]
    by (metis add.assoc mod_add_left_eq)
  also have "\<dots> = (start + ?d) mod NPROC" using kd by simp
  also have "\<dots> = i" using rr_dist_add assms(2) by simp
  finally have "i = ((j + 1) mod NPROC + (?d - ?k - 1)) mod NPROC" by simp
  then have "rr_dist ((j + 1) mod NPROC) i = ?d - ?k - 1"
    using rr_dist_unique [of "?d - ?k - 1" "(j + 1) mod NPROC"] rr_dist_less [of start i]
    by (metis diff_diff_left diff_le_self le_less_trans)
  then show ?thesis using kd by simp
qed

section \<open>A scheduler round\<close>

text \<open>
  The scheduler's loop head: CPU \<open>c\<close> is executing with no lock held, \<open>ptable.lock\<close> is free, and
  every runnable process has a kernel stack and a page directory.
\<close>

definition sched_ready :: "nat \<Rightarrow> 'z pstate_scheme \<Rightarrow> bool" where
  "sched_ready c s \<longleftrightarrow> table_ready s \<and> ncli (mach s) = 0 \<and> cur (mach s) = c \<and> length (procs (pt s)) = NPROC \<and>
     (\<forall>i<NPROC. p_state (procs (pt s) ! i) = RUNNABLE \<longrightarrow>
        p_kstack (procs (pt s) ! i) \<noteq> 0 \<and> p_pgdir (procs (pt s) ! i) \<noteq> 0)"

definition run_proc :: "proc \<Rightarrow> proc" where
  "run_proc q = q\<lparr>p_ticks_used := 0, p_state := RUNNING,
     p_stats := (p_stats q)\<lparr>ctx_switches := ctx_switches (p_stats q) + 1\<rparr>\<rparr>"

definition pick_table :: "nat \<Rightarrow> ptab \<Rightarrow> ptab" where
  "pick_table p T = T\<lparr>rr_next := (p + 1) mod NPROC, procs := upd p run_proc (procs T)\<rparr>"

definition sti_mach :: "machine \<Rightarrow> machine" where
  "sti_mach m = m\<lparr>eflags := eflags m OR FL_IF\<rparr>"

lemma sti_mach_obs:
  assumes "cpu_ok m" and "ncli m = 0"
  shows "cpu_ok (sti_mach m)" "ncli (sti_mach m) = 0" "cur (sti_mach m) = cur m" "ie (sti_mach m)"
    "mem (sti_mach m) = mem m" "held (sti_mach m) L = held m L" "unlocked (sti_mach m) L = unlocked m L"
    "curproc (sti_mach m) = curproc m" "esp (sti_mach m) = esp m" "cr3 (sti_mach m) = cr3 m"
proof -
  have 1: "this_cpu (sti_mach m) = this_cpu m" by (simp add: this_cpu_def sti_mach_def)
  then show 2: "cur (sti_mach m) = cur m" by (simp add: cur_def)
  then show 3: "ncli (sti_mach m) = 0" using assms(2) by (simp add: ncli_def) (simp add: sti_mach_def)
  show "cpu_ok (sti_mach m)"
    using assms by (simp add: cpu_ok_def 1 3 del: cpu_ok_ncli) (simp add: sti_mach_def)
  show "ie (sti_mach m)" by (simp add: ie_def 3) (simp add: sti_mach_def)
  show "held (sti_mach m) L = held m L" "unlocked (sti_mach m) L = unlocked m L"
    "curproc (sti_mach m) = curproc m"
    by (simp_all add: held_def unlocked_def curproc_def 2) (simp_all add: sti_mach_def)
qed (simp_all add: sti_mach_def)

lemma sched_readyD:
  assumes "sched_ready c s"
  shows "cpu_ok (mach s)" "ncli (mach s) = 0" "unlocked (mach s) L_ptable" "cur (mach s) = c"
    "length (procs (pt s)) = NPROC"
  using assms by (auto simp: sched_ready_def)

lemma scheduler_round_idle:
  assumes "sched_ready c s" and "rr_search (procs (pt s)) (rr_next (pt s)) = None"
  shows "scheduler_round c s = Ret None (s\<lparr>mach := crit L_ptable (sti_mach (mach s))\<rparr>)"
  using sched_readyD [OF assms(1)] assms(2) sti_mach_obs [of "mach s"]
  by (simp add: scheduler_round_def on_mach_def sti_def kern crit_def flip: sti_mach_def)

lemma scheduler_round_run:
  assumes ready: "sched_ready c s" and pick: "rr_search (procs (pt s)) (rr_next (pt s)) = Some p"
  shows "\<exists>m'. scheduler_round c s = Ret (Some p) (s\<lparr>mach := m', pt := pick_table p (pt s)\<rparr>) \<and>
    cpu_ok m' \<and> cur m' = c \<and> ncli m' = 1 \<and> held m' L_ptable \<and> ie m' \<and> mem m' = mem (mach s) \<and>
    (\<forall>L. L \<noteq> L_ptable \<longrightarrow> held m' L = held (mach s) L \<and> unlocked m' L = unlocked (mach s) L) \<and>
    curproc m' = Some p \<and> cr3 m' = V2P (p_pgdir (procs (pt s) ! p))"
proof -
  note r = sched_readyD [OF ready]
  let ?q = "procs (pt s) ! p"
  have p: "p < NPROC" "p_kstack ?q \<noteq> 0" "p_pgdir ?q \<noteq> 0"
    using rr_search_SomeD(1,2) [OF pick] ready by (auto simp: sched_ready_def)
  define m1 where "m1 = acq L_ptable (sti_mach (mach s))"
  define m2 where "m2 = cpu_upd (\<lambda>k. k\<lparr>c_proc := Some p\<rparr>) m1"
  note o1 = sti_mach_obs [OF r(1,2)]
  have m1: "cpu_ok m1" "ncli m1 = 1" "cur m1 = c" "held m1 L_ptable" "ie m1" "mem m1 = mem (mach s)"
    using o1 r by (simp_all add: m1_def)
  have k: "keeps (\<lambda>k. k\<lparr>c_proc := Some p\<rparr>)" "keeps (\<lambda>k. k\<lparr>c_scheduler := x\<rparr>)" for x
    by (simp_all add: keeps_def)
  have m2: "same_core m1 m2" "curproc m2 = Some p" "cpu_ok m2"
    using cpu_upd_core [OF m1(1) k(1)] curproc_cpu_upd [OF m1(1) k(1)]
    by (auto simp: m2_def dest: same_coreD)
  let ?s = "s\<lparr>mach := m2, pt := pick_table p (pt s)\<rparr>"
  obtain m3 where m3: "switchuvm (Some (p_kstack ?q, p_pgdir ?q)) ?s = Ret () (?s\<lparr>mach := m3\<rparr>)"
      "same_core m2 m3" "curproc m3 = curproc m2" "cr3 m3 = V2P (p_pgdir ?q)"
    using switchuvm_ok [of ?s, OF _ p(2,3)] m2(3) by auto
  define m4 where "m4 = cpu_upd (\<lambda>k. k\<lparr>c_scheduler := esp m3\<rparr>) m3"
  have "cpu_ok m3" using m3(2) by (rule same_coreD)
  then have m4: "same_core m1 m4" "curproc m4 = Some p" "cr3 m4 = V2P (p_pgdir ?q)"
    using cpu_upd_core [of m3, OF _ k(2)] curproc_cpu_upd [of m3, OF _ k(2)] m3 m2
    by (auto simp: m4_def curproc_def intro: same_core_trans) (simp add: cpu_upd_def)
  have c: "cur m1 = c" "cur m3 = c"
    using m1(3) same_coreD(3) [OF m2(1)] same_coreD(3) [OF m3(2)] by simp_all
  have "scheduler_round c s = Ret (Some p) (s\<lparr>mach := m4, pt := pick_table p (pt s)\<rparr>)"
  proof -
    have run: "upd p (\<lambda>q. q\<lparr>p_stats := (p_stats q)\<lparr>ctx_switches := ctx_switches (p_stats q) + 1\<rparr>\<rparr>)
        (upd p (\<lambda>q. q\<lparr>p_state := RUNNING\<rparr>) (upd p (\<lambda>q. q\<lparr>p_ticks_used := 0\<rparr>) (procs (pt s)))) =
        upd p run_proc (procs (pt s))"
      using p(1) r(5) by (simp add: upd_def run_proc_def)
    have kd: "p_kstack (upd p run_proc (procs (pt s)) ! p) = p_kstack ?q"
        "p_pgdir (upd p run_proc (procs (pt s)) ! p) = p_pgdir ?q"
      using p(1) r(5) by (simp_all add: run_proc_def)
    show ?thesis
      using r o1 m3(1) c pick
      by (simp add: scheduler_round_def on_mach_def sti_def kern table_access run kd m2_def m4_def cpu_upd_def
          pick_table_def flip: sti_mach_def m1_def)
  qed
  moreover have "unlocked m1 L = unlocked (mach s) L" "held m1 L = held (mach s) L" if "L \<noteq> L_ptable" for L
    using that o1 by (simp_all add: m1_def)
  ultimately show ?thesis
    using m4 m1 same_coreD [OF m4(1)] m4(1) by (intro exI [of _ m4]) (simp add: same_core_def)
qed

section \<open>Handing the CPU to the scheduler\<close>

text \<open>What \<open>sched\<close> requires: exactly \<open>ptable.lock\<close> held and a current process that is no longer running.\<close>

lemma sched_switch:
  assumes "cpu_ok (mach s)" and "held (mach s) L_ptable" and "ncli (mach s) = 1" and "curproc (mach s) = Some i"
    and "p_state (procs (pt s) ! i) \<noteq> RUNNING"
  shows "sched s = Switch (s\<lparr>pt := (pt s)\<lparr>procs := upd i (\<lambda>q. q\<lparr>p_context := esp (mach s)\<rparr>) (procs (pt s))\<rparr>\<rparr>)"
proof -
  have "touched (mach s) = mach s" using assms(3) by (simp add: touched_id)
  moreover have "eflags (mach s) AND FL_IF = 0" using cpu_ok_off [OF assms(1)] assms(3) by simp
  moreover have "c_ncli (cpus (mach s) ! cur (mach s)) = 1" using assms(3) by (simp add: ncli_def)
  ultimately show ?thesis
    using assms by (simp add: sched_def kern on_mach_def cpu_get_ok readeflags_def table_access)
qed

lemma sched_panics:
  assumes "cpu_ok (mach s)"
  shows "\<not> held (mach s) L_ptable \<Longrightarrow> sched s = Panic ''sched ptable.lock''"
    and "held (mach s) L_ptable \<Longrightarrow> 0 < ncli (mach s) \<Longrightarrow> ncli (mach s) \<noteq> 1 \<Longrightarrow> sched s = Panic ''sched locks''"
    and "held (mach s) L_ptable \<Longrightarrow> ncli (mach s) = 1 \<Longrightarrow> curproc (mach s) = Some i \<Longrightarrow>
      p_state (procs (pt s) ! i) = RUNNING \<Longrightarrow> sched s = Panic ''sched running''"
  using assms
  by (simp_all add: sched_def kern on_mach_def cpu_get_ok touched_id table_access ncli_def [symmetric])

lemma yield_switch:
  assumes "cpu_ok (mach s)" and "unlocked (mach s) L_ptable" and "ncli (mach s) = 0" and "curproc (mach s) = Some i"
    and "i < length (procs (pt s))"
  shows "yield s = Switch (s\<lparr>mach := acq L_ptable (mach s), pt := (pt s)\<lparr>procs :=
    upd i (\<lambda>q. q\<lparr>p_state := RUNNABLE, p_context := esp (mach s)\<rparr>) (procs (pt s))\<rparr>\<rparr>)"
proof -
  have "touched (acq L_ptable (mach s)) = acq L_ptable (mach s)" using assms by (simp add: touched_id)
  then show ?thesis
    using assms
    by (simp add: yield_def the_proc_def kern table_access sched_switch comp_def)
qed

definition asleep :: "chan \<Rightarrow> u32 \<Rightarrow> proc \<Rightarrow> proc" where
  "asleep chn sp q = q\<lparr>p_chan := chn, p_state := SLEEPING, p_ticks_used := 0, p_context := sp\<rparr>"

lemma sleep_switch:
  assumes "cpu_ok (mach s)" and "held (mach s) L" and "ncli (mach s) = 1" and "curproc (mach s) = Some i"
    and "i < length (procs (pt s))" and "L \<noteq> L_ptable" and "unlocked (mach s) L_ptable"
  shows "sleep chn (Some L) s = Switch (s\<lparr>mach := rel L (acq L_ptable (mach s)), pt := (pt s)\<lparr>procs :=
    upd i (asleep chn (esp (mach s))) (procs (pt s))\<rparr>\<rparr>)"
proof -
  have "touched (mach s) = mach s" using assms by (simp add: touched_id)
  then show ?thesis
    using assms
    by (simp add: sleep_def kern table_access sched_switch comp_def asleep_def [abs_def])
qed

lemma sleep_ptable_switch:
  assumes "cpu_ok (mach s)" and "held (mach s) L_ptable" and "ncli (mach s) = 1" and "curproc (mach s) = Some i"
    and "i < length (procs (pt s))"
  shows "sleep chn (Some L_ptable) s = Switch (s\<lparr>pt := (pt s)\<lparr>procs :=
    upd i (asleep chn (esp (mach s))) (procs (pt s))\<rparr>\<rparr>)"
proof -
  have "touched (mach s) = mach s" using assms by (simp add: touched_id)
  then show ?thesis
    using assms
    by (simp add: sleep_def kern table_access sched_switch comp_def asleep_def [abs_def])
qed

lemma sleep_panics:
  assumes "cpu_ok (mach s)"
  shows "curproc (mach s) = None \<Longrightarrow> sleep chn lk s = Panic ''sleep''"
    and "curproc (mach s) = Some i \<Longrightarrow> sleep chn None s = Panic ''sleep without lk''"
  using assms by (simp_all add: sleep_def kern)

lemma scheduler_back_ok:
  assumes "cpu_ok (mach s)" and "held (mach s) L_ptable" and "ncli (mach s) = 1" and "cur (mach s) = c"
  shows "\<exists>m'. scheduler_back c s = Ret () (s\<lparr>mach := m'\<rparr>) \<and> cpu_ok m' \<and> cur m' = c \<and> ncli m' = 0 \<and> ie m' = ie (mach s) \<and>
    mem m' = mem (mach s) \<and> unlocked m' L_ptable \<and> curproc m' = None \<and> cr3 m' = V2P (kpgdir s) \<and>
    (\<forall>L. L \<noteq> L_ptable \<longrightarrow> held m' L = held (mach s) L \<and> unlocked m' L = unlocked (mach s) L)"
proof -
  let ?m1 = "(mach s)\<lparr>cr3 := V2P (kpgdir s)\<rparr>"
  let ?m2 = "cpu_upd (\<lambda>k. k\<lparr>c_proc := None\<rparr>) ?m1"
  have k: "keeps (\<lambda>k. k\<lparr>c_proc := None\<rparr>)" by (simp add: keeps_def)
  have m1: "same_core (mach s) ?m1" "cpu_ok ?m1"
    using reg_core(1) [OF assms(1)] same_coreD(1) by blast+
  have core: "same_core (mach s) ?m2"
    using m1 cpu_upd_core [OF m1(2) k] by (blast intro: same_core_trans)
  note o2 = same_coreD [OF core] curproc_cpu_upd [OF m1(2) k]
  have "cr3 ?m2 = V2P (kpgdir s)" by (simp add: cpu_upd_def)
  moreover have "ie ?m2 = ie (mach s)" using core by (simp add: same_core_def)
  moreover have "scheduler_back c s = Ret () (s\<lparr>mach := rel L_ptable ?m2\<rparr>)"
    using assms o2 same_coreD(3) [OF m1(1)]
    by (simp add: scheduler_back_def switchkvm_def on_mach_def lcr3_def kern) (simp add: cpu_upd_def)
  ultimately show ?thesis
    using o2 assms by (intro exI [of _ "rel L_ptable ?m2"]) simp
qed

text \<open>Back in the process: \<open>sched\<close> restores the interrupt state it had saved.\<close>

definition with_intena :: "u32 \<Rightarrow> machine \<Rightarrow> machine" where
  "with_intena x m = cpu_upd (\<lambda>k. k\<lparr>c_intena := x\<rparr>) m"

lemma with_intena_obs [simp]:
  assumes "cpu_ok m"
  shows "cpu_ok (with_intena x m)" "ncli (with_intena x m) = ncli m" "cur (with_intena x m) = cur m"
    "held (with_intena x m) L = held m L" "unlocked (with_intena x m) L = unlocked m L"
    "curproc (with_intena x m) = curproc m" "mem (with_intena x m) = mem m" "cr3 (with_intena x m) = cr3 m"
    "0 < ncli m \<Longrightarrow> ie (with_intena x m) \<longleftrightarrow> x \<noteq> 0" "esp (with_intena x m) = esp m"
proof -
  have c: "cur m < length (cpus m)" using assms by (rule cpu_ok_less)
  have 1: "this_cpu (with_intena x m) = this_cpu m"
    by (simp add: this_cpu_def cpu_upd_def with_intena_def)
  then show 2: "cur (with_intena x m) = cur m" by (simp add: cur_def)
  then show 3: "ncli (with_intena x m) = ncli m"
    using c by (simp add: ncli_def) (simp add: cpu_upd_def with_intena_def)
  show "cpu_ok (with_intena x m)"
    using assms by (simp add: cpu_ok_def 1 3 del: cpu_ok_ncli) (simp add: cpu_upd_def with_intena_def)
  show "curproc (with_intena x m) = curproc m"
    using c by (simp add: curproc_def 2) (simp add: cpu_upd_def with_intena_def)
  show "0 < ncli m \<Longrightarrow> ie (with_intena x m) \<longleftrightarrow> x \<noteq> 0"
    using c by (simp add: ie_def 2 3) (simp add: cpu_upd_def with_intena_def)
  show "held (with_intena x m) L = held m L" "unlocked (with_intena x m) L = unlocked m L"
    by (simp_all add: held_def unlocked_def 2) (simp_all add: cpu_upd_def with_intena_def)
qed (simp_all add: cpu_upd_def with_intena_def)

lemma sched_resume_ok:
  "cpu_ok (mach s) \<Longrightarrow> 0 < ncli (mach s) \<Longrightarrow> sched_resume x s = Ret () (s\<lparr>mach := with_intena x (mach s)\<rparr>)"
  by (simp add: sched_resume_def on_mach_def cpu_set_ok with_intena_def)

lemma yield_resume_ok:
  assumes "cpu_ok (mach s)" and "held (mach s) L_ptable" and "ncli (mach s) = 1"
  shows "yield_resume x s = Ret () (s\<lparr>mach := rel L_ptable (with_intena x (mach s))\<rparr>)"
  using assms by (simp add: yield_resume_def kern sched_resume_ok)

lemma sleep_resume_ok:
  assumes "cpu_ok (mach s)" and "held (mach s) L_ptable" and "ncli (mach s) = 1" and "L \<noteq> L_ptable"
    and "unlocked (mach s) L"
  shows "sleep_resume i x L s = Ret () (s\<lparr>mach := acq L (rel L_ptable (with_intena x (mach s))),
    pt := (pt s)\<lparr>procs := upd i (\<lambda>q. q\<lparr>p_chan := ChNull\<rparr>) (procs (pt s))\<rparr>\<rparr>)"
  using assms by (simp add: sleep_resume_def kern sched_resume_ok table_access)

section \<open>Round Robin is fair\<close>

text \<open>
  \<open>rr_trace c \<sigma> r\<close>: round \<open>n\<close> starts in \<open>\<sigma> n\<close> and returns \<open>r n\<close>; between rounds anything may
  happen to the kernel except to \<open>rr_next\<close>, which no other code writes.
\<close>

definition rr_trace :: "nat \<Rightarrow> (nat \<Rightarrow> 'z pstate_scheme) \<Rightarrow> (nat \<Rightarrow> nat option) \<Rightarrow> nat \<Rightarrow> bool" where
  "rr_trace c \<sigma> r N \<longleftrightarrow> (\<forall>n<N. sched_ready c (\<sigma> n) \<and>
     (\<exists>t. scheduler_round c (\<sigma> n) = Ret (r n) t \<and> rr_next (pt (\<sigma> (Suc n))) = rr_next (pt t)))"

lemma scheduler_round_choice:
  assumes "sched_ready c s" and "scheduler_round c s = Ret r t"
  shows "r = rr_search (procs (pt s)) (rr_next (pt s))"
    and "rr_next (pt t) = (case r of None \<Rightarrow> rr_next (pt s) | Some p \<Rightarrow> (p + 1) mod NPROC)"
proof -
  have "r = rr_search (procs (pt s)) (rr_next (pt s)) \<and>
      rr_next (pt t) = (case r of None \<Rightarrow> rr_next (pt s) | Some p \<Rightarrow> (p + 1) mod NPROC)"
  proof (cases "rr_search (procs (pt s)) (rr_next (pt s))")
    case None
    then show ?thesis using scheduler_round_idle [OF assms(1) None] assms(2) by auto
  next
    case (Some p)
    then show ?thesis using scheduler_round_run [OF assms(1) Some] assms(2) by (auto simp: pick_table_def)
  qed
  then show "r = rr_search (procs (pt s)) (rr_next (pt s))"
    "rr_next (pt t) = (case r of None \<Rightarrow> rr_next (pt s) | Some p \<Rightarrow> (p + 1) mod NPROC)" by simp_all
qed

lemma rr_progress:
  assumes "rr_trace c \<sigma> r N" and "i < NPROC" and "\<And>n. n < N \<Longrightarrow> p_state (procs (pt (\<sigma> n)) ! i) = RUNNABLE"
    and "n < N" and "\<And>k. k < n \<Longrightarrow> r k \<noteq> Some i"
  shows "rr_dist (rr_next (pt (\<sigma> n))) i + n \<le> rr_dist (rr_next (pt (\<sigma> 0))) i"
  using assms(4,5)
proof (induction n)
  case (Suc n)
  let ?s = "\<sigma> n"
  have n: "n < N" using Suc.prems(1) by simp
  then obtain t where ready: "sched_ready c ?s" and t: "scheduler_round c ?s = Ret (r n) t"
      "rr_next (pt (\<sigma> (Suc n))) = rr_next (pt t)"
    using assms(1) by (auto simp: rr_trace_def)
  note ch = scheduler_round_choice [OF ready t(1)]
  have run: "p_state (procs (pt ?s) ! i) = RUNNABLE" using assms(3) n .
  then obtain j where j: "rr_search (procs (pt ?s)) (rr_next (pt ?s)) = Some j"
    using rr_search_None_iff [of "procs (pt ?s)" "rr_next (pt ?s)"] assms(2) by fastforce
  have "j \<noteq> i" using Suc.prems(2) [of n] ch(1) j by auto
  then have "rr_dist ((j + 1) mod NPROC) i < rr_dist (rr_next (pt ?s)) i"
    using rr_dist_step [OF j assms(2) run] by simp
  moreover have "rr_next (pt (\<sigma> (Suc n))) = (j + 1) mod NPROC" using ch t(2) j by simp
  moreover have "rr_dist (rr_next (pt ?s)) i + n \<le> rr_dist (rr_next (pt (\<sigma> 0))) i"
    using Suc.IH n Suc.prems(2) by simp
  ultimately show ?case by simp
qed simp

lemma rr_chosen:
  assumes "rr_trace c \<sigma> r NPROC" and "i < NPROC"
    and "\<And>n. n < NPROC \<Longrightarrow> p_state (procs (pt (\<sigma> n)) ! i) = RUNNABLE"
  shows "\<exists>n\<le>rr_dist (rr_next (pt (\<sigma> 0))) i. r n = Some i"
proof (rule ccontr)
  let ?d = "rr_dist (rr_next (pt (\<sigma> 0))) i"
  assume none: "\<not> ?thesis"
  have d: "?d < NPROC" by simp
  have "rr_dist (rr_next (pt (\<sigma> ?d))) i + ?d \<le> ?d"
    using none by (intro rr_progress [OF assms d]) auto
  then have "rr_dist (rr_next (pt (\<sigma> ?d))) i = 0" by simp
  then have hit: "(rr_next (pt (\<sigma> ?d)) + 0) mod NPROC = i"
    using rr_dist_add [OF assms(2), of "rr_next (pt (\<sigma> ?d))"] by simp
  obtain t where ready: "sched_ready c (\<sigma> ?d)" "scheduler_round c (\<sigma> ?d) = Ret (r ?d) t"
    using assms(1) [unfolded rr_trace_def, rule_format, OF d] by blast
  have "rr_search (procs (pt (\<sigma> ?d))) (rr_next (pt (\<sigma> ?d))) = Some i"
    using hit assms(3) [OF d] by (simp add: rr_search_def scan.simps)
  then have "r ?d = Some i" using scheduler_round_choice(1) [OF ready] by simp
  with none show False by blast
qed

section \<open>The quantum\<close>

text \<open>
  The Round-Robin part of \<open>trap\<close> for a timer interrupt (\<^verbatim>\<open>src/trap.c\<close> lines 219-246): count the
  tick, and yield when the quantum is used up.
\<close>

definition rr_tick :: "(unit, 'z pstate_scheme) kern" where
  "rr_tick =
    bind myproc (\<lambda>cp. case cp of None \<Rightarrow> return () | Some _ \<Rightarrow>
    bind the_proc (\<lambda>j. bind (proc_get j p_state) (\<lambda>st. if st \<noteq> RUNNING then return () else
    bind the_proc (\<lambda>i.
    andthen (proc_set i (\<lambda>p. p\<lparr>p_stats := (p_stats p)\<lparr>cpu_ticks := cpu_ticks (p_stats p) + 1\<rparr>\<rparr>)) (
    andthen (proc_set i (\<lambda>p. p\<lparr>p_ticks_used := p_ticks_used p + 1\<rparr>)) (
    bind (proc_get i p_ticks_used) (\<lambda>used.
    bind (proc_get i p_timeslice) (\<lambda>slice.
    whenk (used \<ge> slice) (
      andthen (proc_set i (\<lambda>p. p\<lparr>p_ticks_used := 0\<rparr>)) (
      andthen (proc_set i (\<lambda>p. p\<lparr>p_stats := (p_stats p)\<lparr>preemptions := preemptions (p_stats p) + 1\<rparr>\<rparr>))
        yield))))))))))"

definition counted :: "proc \<Rightarrow> proc" where
  "counted p = p\<lparr>p_stats := (p_stats p)\<lparr>cpu_ticks := cpu_ticks (p_stats p) + 1\<rparr>, p_ticks_used := p_ticks_used p + 1\<rparr>"

definition preempted :: "u32 \<Rightarrow> proc \<Rightarrow> proc" where
  "preempted sp p = p\<lparr>p_ticks_used := 0, p_stats := (p_stats p)\<lparr>cpu_ticks := cpu_ticks (p_stats p) + 1,
      preemptions := preemptions (p_stats p) + 1\<rparr>, p_state := RUNNABLE, p_context := sp\<rparr>"

text \<open>An interrupt handler on behalf of process \<open>i\<close>: no lock held, \<open>ptable.lock\<close> free.\<close>

definition running :: "nat \<Rightarrow> 'z pstate_scheme \<Rightarrow> bool" where
  "running i s \<longleftrightarrow> table_ready s \<and> ncli (mach s) = 0 \<and> curproc (mach s) = Some i \<and>
     length (procs (pt s)) = NPROC \<and> i < NPROC \<and> p_state (procs (pt s) ! i) = RUNNING"

lemma runningD:
  assumes "running i s"
  shows "cpu_ok (mach s)" "unlocked (mach s) L_ptable" "ncli (mach s) = 0" "curproc (mach s) = Some i"
    "i < length (procs (pt s))" "p_state (procs (pt s) ! i) = RUNNING" "i < NPROC"
  using assms by (auto simp: running_def)

lemma rr_tick_count:
  assumes "running i s" and "p_ticks_used (procs (pt s) ! i) + 1 < p_timeslice (procs (pt s) ! i)"
  shows "\<exists>m'. rr_tick s = Ret () (s\<lparr>mach := m', pt := (pt s)\<lparr>procs := upd i counted (procs (pt s))\<rparr>\<rparr>) \<and>
    same_mach (mach s) m'"
proof -
  note r = runningD [OF assms(1)]
  let ?m = "touched (touched (touched (mach s)))"
  have "same_mach (mach s) ?m"
    using r(1) by (intro same_mach_touched same_mach_refl)
  moreover have "rr_tick s = Ret () (s\<lparr>mach := ?m, pt := (pt s)\<lparr>procs := upd i counted (procs (pt s))\<rparr>\<rparr>)"
    using r assms(2)
    by (simp add: rr_tick_def the_proc_def kern table_access comp_def) (simp add: upd_def counted_def)
  ultimately show ?thesis by blast
qed

lemma rr_tick_expire:
  assumes "running i s" and "p_timeslice (procs (pt s) ! i) \<le> p_ticks_used (procs (pt s) ! i) + 1"
  shows "\<exists>m'. rr_tick s = Switch (s\<lparr>mach := acq L_ptable m',
      pt := (pt s)\<lparr>procs := upd i (preempted (esp (mach s))) (procs (pt s))\<rparr>\<rparr>) \<and> same_mach (mach s) m'"
proof -
  note r = runningD [OF assms(1)]
  let ?m = "touched (touched (touched (mach s)))"
  let ?T = "(pt s)\<lparr>procs := upd i ((\<lambda>p. p\<lparr>p_stats := (p_stats p)\<lparr>preemptions := preemptions (p_stats p) + 1\<rparr>\<rparr>) \<circ>
      (\<lambda>p. p\<lparr>p_ticks_used := 0\<rparr>) \<circ> counted) (procs (pt s))\<rparr>"
  let ?s = "s\<lparr>mach := ?m, pt := ?T\<rparr>"
  have "same_mach (mach s) ?m"
    using r(1) by (intro same_mach_touched same_mach_refl)
  moreover have "rr_tick s = yield ?s"
    using r assms(2)
    by (simp add: rr_tick_def the_proc_def kern table_access comp_def counted_def)
  moreover have "yield ?s = Switch (s\<lparr>mach := acq L_ptable ?m, pt := (pt s)\<lparr>procs :=
      upd i (\<lambda>q. q\<lparr>p_state := RUNNABLE, p_context := esp (mach s)\<rparr>) (procs ?T)\<rparr>\<rparr>)"
    using r yield_switch [of ?s i] by simp
  moreover have "upd i (\<lambda>q. q\<lparr>p_state := RUNNABLE, p_context := esp (mach s)\<rparr>) (procs ?T) =
      upd i (preempted (esp (mach s))) (procs (pt s))"
    using r(5) by (simp add: counted_def upd_def preempted_def)
  ultimately show ?thesis by auto
qed

text \<open>A number of consecutive timer ticks.\<close>

fun rr_ticks :: "nat \<Rightarrow> (unit, 'z pstate_scheme) kern" where
  "rr_ticks 0 = return ()"
| "rr_ticks (Suc k) = andthen (rr_ticks k) rr_tick"

lemma same_mach_running:
  assumes "running i s" and "same_mach (mach s) m'" and "length ps = NPROC" and "p_state (ps ! i) = RUNNING"
  shows "running i (s\<lparr>mach := m', pt := (pt s)\<lparr>procs := ps\<rparr>\<rparr>)"
  using assms runningD [OF assms(1)] same_machD [OF assms(2)]
  by (simp add: running_def table_ready_def del: table_readyD)

lemma rr_ticks_count:
  assumes "running i s" and "p_ticks_used (procs (pt s) ! i) = 0"
    and "int k < p_timeslice (procs (pt s) ! i)"
  shows "\<exists>t. rr_ticks k s = Ret () t \<and> running i t \<and> esp (mach t) = esp (mach s) \<and>
    p_ticks_used (procs (pt t) ! i) = int k \<and> p_timeslice (procs (pt t) ! i) = p_timeslice (procs (pt s) ! i) \<and>
    p_stats (procs (pt t) ! i) = (p_stats (procs (pt s) ! i))\<lparr>cpu_ticks := cpu_ticks (p_stats (procs (pt s) ! i)) + of_nat k\<rparr>"
  using assms(3)
proof (induction k)
  case 0
  then show ?case using assms by (simp add: return_def)
next
  case (Suc k)
  then obtain t where t: "rr_ticks k s = Ret () t" "running i t" "esp (mach t) = esp (mach s)"
      "p_ticks_used (procs (pt t) ! i) = int k" "p_timeslice (procs (pt t) ! i) = p_timeslice (procs (pt s) ! i)"
      "p_stats (procs (pt t) ! i) = (p_stats (procs (pt s) ! i))\<lparr>cpu_ticks := cpu_ticks (p_stats (procs (pt s) ! i)) + of_nat k\<rparr>"
    by auto
  obtain m' where m': "rr_tick t = Ret () (t\<lparr>mach := m', pt := (pt t)\<lparr>procs := upd i counted (procs (pt t))\<rparr>\<rparr>)"
      "same_mach (mach t) m'"
    using rr_tick_count [OF t(2)] t(4,5) Suc.prems by auto
  have len: "length (procs (pt t)) = NPROC" "i < length (procs (pt t))" using t(2) runningD(5) by (auto simp: running_def)
  then have "running i (t\<lparr>mach := m', pt := (pt t)\<lparr>procs := upd i counted (procs (pt t))\<rparr>\<rparr>)"
    using t(2) m'(2) runningD(6) [OF t(2)] by (intro same_mach_running) (simp_all add: counted_def)
  moreover have "esp m' = esp (mach t)" using m'(2) by (simp add: same_mach_def)
  ultimately show ?case
    using t m'(1) len by (simp add: andthen_def bind_def counted_def)
qed

section \<open>Properties\<close>

text \<open>C1: Round Robin is starvation free. Whatever happens between scheduling rounds (as long as no
  other code writes \<open>rr_next\<close>), a process that is runnable at the start of each of \<open>NPROC\<close>
  consecutive rounds is chosen in one of them.\<close>

theorem rr_fair:
  assumes "rr_trace c \<sigma> r NPROC" and "i < NPROC"
    and "\<forall>n<NPROC. p_state (procs (pt (\<sigma> n)) ! i) = RUNNABLE"
  shows "\<exists>n<NPROC. r n = Some i"
  using rr_chosen [OF assms(1,2)] assms(3) rr_dist_less le_less_trans by blast

definition demo_two :: "proc list" where
  "demo_two = [demo_proc RUNNABLE 1, demo_proc RUNNABLE 2]"

definition demo_sigma :: "nat \<Rightarrow> pstate" where
  "demo_sigma n = demo_state None demo_two (if n = 0 then 0 else if odd n then 1 else 2)"

lemma demo_two_len: "length demo_two \<le> NPROC" "length demo_two = 2"
  by (simp_all add: demo_two_def NPROC_def)

lemma demo_two_state:
  "i < NPROC \<Longrightarrow> p_state (procs (pt (demo_state None demo_two rr)) ! i) = (if i < 2 then RUNNABLE else UNUSED)"
  using demo_state_unused [of demo_two i None rr] demo_state_sel(6) [of i demo_two None rr]
  by (cases "i = 0"; cases "i = 1") (auto simp: demo_two_len demo_two_def demo_proc_def)

lemma demo_two_ready: "sched_ready 0 (demo_state None demo_two rr)"
proof -
  have "p_kstack (procs (pt (demo_state None demo_two rr)) ! i) \<noteq> 0 \<and>
      p_pgdir (procs (pt (demo_state None demo_two rr)) ! i) \<noteq> 0" if "i < NPROC" for i
    using that demo_state_unused [of demo_two i None rr] demo_state_sel(6) [of i demo_two None rr]
    by (cases "i = 0"; cases "i = 1") (auto simp: demo_two_len demo_two_def demo_proc_def)
  then show ?thesis by (simp add: sched_ready_def demo_two_len(1))
qed

lemma demo_two_search:
  "rr_search (procs (pt (demo_state None demo_two 0))) 0 = Some 0"
  "rr_search (procs (pt (demo_state None demo_two 1))) 1 = Some 1"
  "rr_search (procs (pt (demo_state None demo_two 2))) 2 = Some 0"
proof -
  let ?f = "\<lambda>rr i. p_state (procs (pt (demo_state None demo_two rr)) ! ((rr + i) mod NPROC)) = RUNNABLE"
  have f: "?f rr = (\<lambda>i. (rr + i) mod NPROC < 2)" for rr
    by (rule ext) (simp add: demo_two_state)
  have "scan (?f 0) 0 NPROC = Some 0" "scan (?f 1) 0 NPROC = Some 0" "scan (?f 2) 0 NPROC = Some 62"
    by (simp_all only: f) (simp_all add: scan_Some_iff NPROC_def)
  then show "rr_search (procs (pt (demo_state None demo_two 0))) 0 = Some 0"
    "rr_search (procs (pt (demo_state None demo_two 1))) 1 = Some 1"
    "rr_search (procs (pt (demo_state None demo_two 2))) 2 = Some 0"
    by (simp_all add: rr_search_def NPROC_def)
qed

lemma demo_sigma_trace: "rr_trace 0 demo_sigma (\<lambda>n. Some (n mod 2)) NPROC"
  unfolding rr_trace_def
proof (intro allI impI conjI)
  fix n
  show "sched_ready 0 (demo_sigma n)" by (simp add: demo_sigma_def demo_two_ready)
  have "rr_search (procs (pt (demo_sigma n))) (rr_next (pt (demo_sigma n))) = Some (n mod 2)"
    using demo_two_search by (simp add: demo_sigma_def odd_iff_mod_2_eq_one)
  from scheduler_round_run [OF \<open>sched_ready 0 (demo_sigma n)\<close> this] obtain m' where
    "scheduler_round 0 (demo_sigma n) = Ret (Some (n mod 2)) ((demo_sigma n)\<lparr>mach := m', pt := pick_table (n mod 2) (pt (demo_sigma n))\<rparr>)"
    by blast
  moreover have "rr_next (pt (demo_sigma (Suc n))) = (n mod 2 + 1) mod NPROC"
    by (simp add: demo_sigma_def NPROC_def mod_2_eq_odd)
  ultimately show "\<exists>t. scheduler_round 0 (demo_sigma n) = Ret (Some (n mod 2)) t \<and>
      rr_next (pt (demo_sigma (Suc n))) = rr_next (pt t)"
    by (auto simp: pick_table_def)
qed

theorem rr_fair_witness:
  "rr_trace 0 demo_sigma (\<lambda>n. Some (n mod 2)) NPROC \<and> (\<exists>n<NPROC. Some (n mod 2) = Some 1)"
  using rr_fair [OF demo_sigma_trace, of 1] demo_sigma_trace
  by (simp add: demo_sigma_def demo_two_state NPROC_def)

text \<open>C2: A scheduler round always completes; it chooses no process exactly when none is runnable, and
  otherwise the runnable process nearest to \<open>rr_next\<close> in circular order, which it marks running
  with a fresh quantum and one more context switch, leaving every other process alone, moving
  \<open>rr_next\<close> just behind it and entering it with its page directory loaded and only
  \<open>ptable.lock\<close> held.\<close>

theorem scheduler_round_correct:
  assumes "sched_ready c s"
  shows "\<exists>r t. scheduler_round c s = Ret r t \<and>
    (r = None \<longleftrightarrow> (\<forall>i<NPROC. p_state (procs (pt s) ! i) \<noteq> RUNNABLE)) \<and>
    (case r of None \<Rightarrow> pt t = pt s \<and> unlocked (mach t) L_ptable \<and> ncli (mach t) = 0
     | Some p \<Rightarrow> p < NPROC \<and> p_state (procs (pt s) ! p) = RUNNABLE \<and>
         (\<forall>i<NPROC. p_state (procs (pt s) ! i) = RUNNABLE \<longrightarrow> rr_dist (rr_next (pt s)) p \<le> rr_dist (rr_next (pt s)) i) \<and>
         procs (pt t) = upd p run_proc (procs (pt s)) \<and> rr_next (pt t) = (p + 1) mod NPROC \<and>
         curproc (mach t) = Some p \<and> cr3 (mach t) = V2P (p_pgdir (procs (pt s) ! p)) \<and>
         held (mach t) L_ptable \<and> ncli (mach t) = 1)"
proof (cases "rr_search (procs (pt s)) (rr_next (pt s))")
  case None
  note r = sched_readyD [OF assms] and o = sti_mach_obs [OF sched_readyD(1,2) [OF assms]]
  have "same_mach (sti_mach (mach s)) (crit L_ptable (sti_mach (mach s)))"
    using r o by (intro crit_same) simp_all
  then show ?thesis
    using scheduler_round_idle [OF assms None] None rr_search_None_iff [of "procs (pt s)" "rr_next (pt s)"] o r
    by (simp add: same_machD)
next
  case (Some p)
  then show ?thesis
    using scheduler_round_run [OF assms Some] rr_search_SomeD [OF Some] rr_search_SomeD(2) [OF Some]
    by (auto simp: pick_table_def)
qed

theorem scheduler_round_correct_witness:
  "\<exists>t. scheduler_round 0 (demo_state None demo_two 1) = Ret (Some 1) t \<and> rr_next (pt t) = 2 \<and>
    p_state (procs (pt t) ! 1) = RUNNING \<and> p_state (procs (pt t) ! 0) = RUNNABLE"
proof -
  have len: "length (procs (pt (demo_state None demo_two 1))) = NPROC" by (simp add: demo_two_len(1))
  obtain r t where r: "scheduler_round 0 (demo_state None demo_two 1) = Ret r t"
      "r = rr_search (procs (pt (demo_state None demo_two 1))) (rr_next (pt (demo_state None demo_two 1)))"
      "case r of None \<Rightarrow> True | Some p \<Rightarrow> procs (pt t) = upd p run_proc (procs (pt (demo_state None demo_two 1))) \<and>
        rr_next (pt t) = (p + 1) mod NPROC"
    using scheduler_round_correct [OF demo_two_ready [of 1]] scheduler_round_choice(1) [OF demo_two_ready [of 1]]
    by (fastforce split: option.splits)
  then show ?thesis
    using demo_two_search(2) len demo_two_state [of 0 1] by (simp add: run_proc_def NPROC_def)
qed

text \<open>C3: A process that starts a quantum of \<open>q\<close> ticks runs through exactly \<open>q - 1\<close> timer ticks and is
  preempted by the \<open>q\<close>-th: until then each tick is counted and the process keeps running; then
  it is runnable with its quantum counter reset, one more preemption and \<open>q\<close> more CPU ticks,
  and the CPU is handed over with \<open>ptable.lock\<close> held.\<close>

theorem quantum_exact:
  assumes "running i s" and "p_ticks_used (procs (pt s) ! i) = 0"
    and "p_timeslice (procs (pt s) ! i) = int q" and "0 < q"
  shows "(\<forall>k<q. \<exists>t. rr_ticks k s = Ret () t \<and> running i t \<and> p_ticks_used (procs (pt t) ! i) = int k) \<and>
    (\<exists>t. rr_ticks q s = Switch t \<and> p_state (procs (pt t) ! i) = RUNNABLE \<and> p_ticks_used (procs (pt t) ! i) = 0 \<and>
      p_stats (procs (pt t) ! i) = (p_stats (procs (pt s) ! i))
        \<lparr>cpu_ticks := cpu_ticks (p_stats (procs (pt s) ! i)) + of_nat q,
         preemptions := preemptions (p_stats (procs (pt s) ! i)) + 1\<rparr> \<and>
      held (mach t) L_ptable \<and> ncli (mach t) = 1)"
proof
  show "\<forall>k<q. \<exists>t. rr_ticks k s = Ret () t \<and> running i t \<and> p_ticks_used (procs (pt t) ! i) = int k"
    using rr_ticks_count [OF assms(1,2)] assms(3) by fastforce
  obtain k where q: "q = Suc k" using assms(4) by (cases q) auto
  obtain t where t: "rr_ticks k s = Ret () t" "running i t" "p_ticks_used (procs (pt t) ! i) = int k"
      "p_timeslice (procs (pt t) ! i) = int q"
      "p_stats (procs (pt t) ! i) = (p_stats (procs (pt s) ! i))\<lparr>cpu_ticks := cpu_ticks (p_stats (procs (pt s) ! i)) + of_nat k\<rparr>"
    using rr_ticks_count [OF assms(1,2), of k] assms(3) q by auto
  obtain m' where m': "same_mach (mach t) m'" "rr_tick t = Switch (t\<lparr>mach := acq L_ptable m',
      pt := (pt t)\<lparr>procs := upd i (preempted (esp (mach t))) (procs (pt t))\<rparr>\<rparr>)"
    using rr_tick_expire [OF t(2)] t(3,4) q by auto
  show "\<exists>t. rr_ticks q s = Switch t \<and> p_state (procs (pt t) ! i) = RUNNABLE \<and> p_ticks_used (procs (pt t) ! i) = 0 \<and>
      p_stats (procs (pt t) ! i) = (p_stats (procs (pt s) ! i))
        \<lparr>cpu_ticks := cpu_ticks (p_stats (procs (pt s) ! i)) + of_nat q,
         preemptions := preemptions (p_stats (procs (pt s) ! i)) + 1\<rparr> \<and>
      held (mach t) L_ptable \<and> ncli (mach t) = 1"
    using t m' runningD(3,5) [OF t(2)] same_machD [OF m'(1)]
    by (simp add: q andthen_def bind_def preempted_def)
qed

lemma demo_running: "running 0 (demo_state (Some 0) [demo_proc RUNNING 1] 1)"
  by (simp add: running_def demo_proc_def NPROC_def [symmetric]) (simp add: NPROC_def)

theorem quantum_exact_witness:
  "(\<exists>t. rr_ticks 2 (demo_state (Some 0) [demo_proc RUNNING 1] 1) = Ret () t \<and> p_ticks_used (procs (pt t) ! 0) = 2) \<and>
   (\<exists>t. rr_ticks 3 (demo_state (Some 0) [demo_proc RUNNING 1] 1) = Switch t \<and> p_state (procs (pt t) ! 0) = RUNNABLE)"
proof -
  have "p_ticks_used (procs (pt (demo_state (Some 0) [demo_proc RUNNING 1] 1)) ! 0) = 0"
    "p_timeslice (procs (pt (demo_state (Some 0) [demo_proc RUNNING 1] 1)) ! 0) = int 3"
    by (simp_all add: demo_proc_def)
  note q = quantum_exact [OF demo_running this, simplified]
  from q [THEN conjunct1, THEN spec, of 2] q [THEN conjunct2] show ?thesis by auto
qed


definition demo_locked :: pstate where
  "demo_locked = (demo_state (Some 0) [demo_proc RUNNING 1] 1)\<lparr>mach := acq L_tick (demo_mach (Some 0) 0x202)\<rparr>"


end
