(* ===== verification/Sem.thy ===== *)
theory Sem
  imports Sched
begin

text \<open>
  Counting semaphores, \<^verbatim>\<open>src/proc.c\<close> lines 36-47 and 1286-1384. \<open>sem_wait\<close> blocks by sleeping on the
  semaphore; its resumption after a wakeup re-tests the value. The last section follows one
  semaphore through any sequence of operations by any processes.
\<close>

section \<open>State and operations\<close>

definition NSEM :: nat where "NSEM = 10"

record semaphore =
  sem_value :: int
  sem_allocated :: bool

record sstate = pstate +
  sems :: "semaphore list"

definition sem_set :: "nat \<Rightarrow> (semaphore \<Rightarrow> semaphore) \<Rightarrow> (unit, 'z sstate_scheme) kern" where
  "sem_set i f = modify (\<lambda>s. s\<lparr>sems := upd i f (sems s)\<rparr>)"

definition sem_init :: "int \<Rightarrow> (int, 'z sstate_scheme) kern" where
  "sem_init v =
    andthen (acquire L_sem) (
    bind (gets (\<lambda>s. scan (\<lambda>i. \<not> sem_allocated (sems s ! i)) 0 NSEM)) (\<lambda>r.
    case r of
      Some i \<Rightarrow>
        andthen (sem_set i (\<lambda>x. x\<lparr>sem_allocated := True\<rparr>)) (
        andthen (sem_set i (\<lambda>x. x\<lparr>sem_value := v\<rparr>)) (
        andthen (release L_sem) (return (int i))))
    | None \<Rightarrow> andthen (release L_sem) (return (-1))))"

text \<open>The validity test, which reads \<open>allocated\<close> before taking the lock.\<close>

definition sem_bad :: "int \<Rightarrow> 'z sstate_scheme \<Rightarrow> bool" where
  "sem_bad sid s \<longleftrightarrow> sid < 0 \<or> sid \<ge> int NSEM \<or> \<not> sem_allocated (sems s ! nat sid)"

text \<open>From the loop test on, with \<open>semlock\<close> held.\<close>

definition sem_wait_loop :: "nat \<Rightarrow> (int, 'z sstate_scheme) kern" where
  "sem_wait_loop sid = sleep_while (\<lambda>s. sem_value (sems s ! sid) \<le> 0) (ChSem sid) L_sem (
    andthen (sem_set sid (\<lambda>x. x\<lparr>sem_value := sem_value x - 1\<rparr>)) (
    andthen (release L_sem) (return 0)))"

definition sem_wait :: "int \<Rightarrow> (int, 'z sstate_scheme) kern" where
  "sem_wait sid =
    bind (gets (sem_bad sid)) (\<lambda>bad. if bad then return (-1) else
    andthen (acquire L_sem) (sem_wait_loop (nat sid)))"

definition sem_wait_resume :: "nat \<Rightarrow> u32 \<Rightarrow> nat \<Rightarrow> (int, 'z sstate_scheme) kern" where
  "sem_wait_resume me intena sid = andthen (sleep_resume me intena L_sem) (sem_wait_loop sid)"

definition sem_signal :: "int \<Rightarrow> (int, 'z sstate_scheme) kern" where
  "sem_signal sid =
    bind (gets (sem_bad sid)) (\<lambda>bad. if bad then return (-1) else
    andthen (acquire L_sem) (
    andthen (sem_set (nat sid) (\<lambda>x. x\<lparr>sem_value := sem_value x + 1\<rparr>)) (
    andthen (wakeup (ChSem (nat sid))) (
    andthen (release L_sem) (return 0)))))"

section \<open>What each operation does\<close>

definition sem_ready :: "'z sstate_scheme \<Rightarrow> bool" where
  "sem_ready s \<longleftrightarrow> table_ready s \<and> unlocked (mach s) L_sem \<and> length (sems s) = NSEM"

lemma sem_readyD:
  assumes "sem_ready s"
  shows "cpu_ok (mach s)" "unlocked (mach s) L_ptable" "unlocked (mach s) L_sem" "length (sems s) = NSEM"
  using assms by (auto simp: sem_ready_def)

lemma sem_init_ok:
  assumes "sem_ready s"
  shows "sem_init v s = (case scan (\<lambda>i. \<not> sem_allocated (sems s ! i)) 0 NSEM of
      None \<Rightarrow> Ret (-1) (s\<lparr>mach := crit L_sem (mach s)\<rparr>)
    | Some i \<Rightarrow> Ret (int i) (s\<lparr>mach := crit L_sem (mach s),
        sems := upd i (\<lambda>x. x\<lparr>sem_allocated := True, sem_value := v\<rparr>) (sems s)\<rparr>))"
proof (cases "scan (\<lambda>i. \<not> sem_allocated (sems s ! i)) 0 NSEM")
  case None
  then show ?thesis
    using sem_readyD [OF assms] by (simp add: sem_init_def sem_set_def kern crit_def)
next
  case (Some i)
  then have "i < NSEM" by (rule scan_SomeD)
  then show ?thesis
    using Some sem_readyD [OF assms]
    by (simp add: sem_init_def sem_set_def kern crit_def upd_def)
qed

lemma sem_wait_takes:
  assumes "sem_ready s" and "\<not> sem_bad sid s" and "0 < sem_value (sems s ! nat sid)"
  shows "sem_wait sid s = Ret 0 (s\<lparr>mach := crit L_sem (mach s),
    sems := upd (nat sid) (\<lambda>x. x\<lparr>sem_value := sem_value x - 1\<rparr>) (sems s)\<rparr>)"
  using sem_readyD [OF assms(1)] assms(2,3)
  by (simp add: sem_wait_def sem_wait_loop_def sleep_while_def sem_set_def kern crit_def)

text \<open>A process calling \<open>sem_wait\<close>: it is the current one and holds no lock.\<close>

lemma sem_wait_blocks:
  assumes "sem_ready s" and "\<not> sem_bad sid s" and "sem_value (sems s ! nat sid) \<le> 0"
    and "ncli (mach s) = 0" and "curproc (mach s) = Some i" and "i < length (procs (pt s))"
  shows "sem_wait sid s = Switch (s\<lparr>mach := rel L_sem (acq L_ptable (acq L_sem (mach s))),
    pt := (pt s)\<lparr>procs := upd i (asleep (ChSem (nat sid)) (esp (mach s))) (procs (pt s))\<rparr>\<rparr>)"
proof -
  have "sleep (ChSem (nat sid)) (Some L_sem) (s\<lparr>mach := acq L_sem (mach s)\<rparr>) =
      Switch (s\<lparr>mach := rel L_sem (acq L_ptable (acq L_sem (mach s))),
        pt := (pt s)\<lparr>procs := upd i (asleep (ChSem (nat sid)) (esp (mach s))) (procs (pt s))\<rparr>\<rparr>)"
    using sem_readyD [OF assms(1)] assms(4-6)
    by (subst sleep_switch [where i = i]) simp_all
  then show ?thesis
    using sem_readyD [OF assms(1)] assms(2,3)
    by (simp add: sem_wait_def sem_wait_loop_def sleep_while_def kern)
qed

lemma sem_signal_ok:
  assumes "sem_ready s" and "\<not> sem_bad sid s"
  shows "sem_signal sid s = Ret 0 (s\<lparr>mach := rel L_sem (crit L_ptable (acq L_sem (mach s))),
    pt := wakeup_table (ChSem (nat sid)) (pt s),
    sems := upd (nat sid) (\<lambda>x. x\<lparr>sem_value := sem_value x + 1\<rparr>) (sems s)\<rparr>)"
proof -
  let ?s = "s\<lparr>mach := acq L_sem (mach s), sems := upd (nat sid) (\<lambda>x. x\<lparr>sem_value := sem_value x + 1\<rparr>) (sems s)\<rparr>"
  note r = sem_readyD [OF assms(1)]
  have "table_ready ?s" using r by (simp add: table_ready_def del: table_readyD)
  then have "wakeup (ChSem (nat sid)) ?s = Ret () (set_table (wakeup_table (ChSem (nat sid)) (pt s)) ?s)"
    by (simp add: wakeup_ok)
  moreover have "same_mach (acq L_sem (mach s)) (crit L_ptable (acq L_sem (mach s)))"
    using r by (intro crit_same) simp_all
  note same_machD [OF this]
  ultimately show ?thesis
    using r assms(2)
    by (simp add: sem_signal_def sem_set_def kern set_table_def)
qed

lemma sem_bad_error:
  assumes "sem_bad sid s"
  shows "sem_wait sid s = Ret (-1) s" "sem_signal sid s = Ret (-1) s"
  using assms by (simp_all add: sem_wait_def sem_signal_def kern)

section \<open>Accounting\<close>

text \<open>
  A run of the kernel as seen by semaphore \<open>sid\<close>: completed signals, completed waits (at once or
  after sleeping), waits that block, and anything else the kernel does, which leaves the
  semaphore table alone. Nothing is assumed about locks: a call that returned, returned.
\<close>

datatype sem_event = Signalled | Waited | Blocked | Other

inductive sem_step :: "nat \<Rightarrow> sem_event \<Rightarrow> 'z sstate_scheme \<Rightarrow> 'z sstate_scheme \<Rightarrow> bool" for sid where
  signalled: "sem_signal (int sid) s = Ret 0 t \<Longrightarrow> sem_step sid Signalled s t"
| waited: "sem_wait (int sid) s = Ret 0 t \<Longrightarrow> sem_step sid Waited s t"
| resumed: "sem_wait_resume me intena sid s = Ret 0 t \<Longrightarrow> sem_step sid Waited s t"
| blocked: "sem_wait (int sid) s = Switch t \<Longrightarrow> sem_step sid Blocked s t"
| blocked_again: "sem_wait_resume me intena sid s = Switch t \<Longrightarrow> sem_step sid Blocked s t"
| other: "sems t = sems s \<Longrightarrow> sem_step sid Other s t"

inductive sem_run :: "nat \<Rightarrow> sem_event list \<Rightarrow> 'z sstate_scheme \<Rightarrow> 'z sstate_scheme \<Rightarrow> bool" for sid where
  run_nil: "sem_run sid [] s s"
| run_cons: "sem_step sid e s t \<Longrightarrow> sem_run sid es t u \<Longrightarrow> sem_run sid (e # es) s u"

lemma frame_on_mach: "(\<And>s m. v (s\<lparr>mach := m\<rparr>) = v s) \<Longrightarrow> frame v (on_mach f)"
  by (simp add: frame_def on_mach_def split: outcome.split)

lemma frame_set_procs: "(\<And>s T. v (s\<lparr>pt := T\<rparr>) = v s) \<Longrightarrow> frame v (set_procs g)"
  by (simp add: frame_def set_procs_def modify_def)

text \<open>Scheduling touches nothing but the machine and the process table.\<close>

lemma frame_proc_ops:
  fixes v :: "'z pstate_scheme \<Rightarrow> 'v"
  assumes m: "\<And>s m. v (s\<lparr>mach := m\<rparr>) = v s" and t: "\<And>s T. v (s\<lparr>pt := T\<rparr>) = v s"
  shows "frame v (acquire L)" "frame v (release L)" "frame v (holding L)" "frame v myproc"
    "frame v (set_procs g)" "frame v (proc_set i k)" "frame v (proc_get i l)"
    "frame v (sched :: ('a, 'z pstate_scheme) kern)" "frame v (sleep chn lk :: ('a, 'z pstate_scheme) kern)"
    "frame v (wakeup chn)" "frame v (sleep_resume me intena L)"
proof -
  note om = frame_on_mach [of v, OF m]
  show 1: "frame v (acquire L)" "frame v (release L)" "frame v (holding L)" "frame v myproc" for L
    by (simp_all add: acquire_def release_def holding_def myproc_def om)
  show 2: "frame v (set_procs g)" "frame v (proc_set i k)" "frame v (proc_get i l)" for g i k and l :: "proc \<Rightarrow> 'c"
    by (simp_all add: frame_set_procs t proc_set_def proc_get_def frame_basic)
  show 3: "frame v (sched :: ('a, 'z pstate_scheme) kern)"
    unfolding sched_def by (intro frames 1 2 om)
  show "frame v (sleep chn lk :: ('a, 'z pstate_scheme) kern)"
    unfolding sleep_def by (intro frames 1 2 3)
  show "frame v (wakeup chn)"
    unfolding wakeup_def wakeup1_def by (intro frames 1 2)
  show "frame v (sleep_resume me intena L)"
    unfolding sleep_resume_def sched_resume_def by (intro frames 1 2 om)
qed

lemma frame_sems:
  "frame sems (acquire L)" "frame sems (release L)" "frame sems (sleep chn lk)" "frame sems (wakeup chn)"
  "frame sems (sleep_resume me intena L)"
  by (rule frame_proc_ops, simp, simp)+

lemma machine_not_Switch:
  "mycpu m \<noteq> Switch m'" "pushcli m \<noteq> Switch m'" "popcli m \<noteq> Switch m'" "holding_m L m \<noteq> Switch m'"
  "acquire_m L m \<noteq> Switch m'" "release_m L m \<noteq> Switch m'"
proof -
  show 1: "mycpu m \<noteq> Switch m'" for m m'
    by (simp add: mycpu_eq split: option.split)
  have get: "cpu_get f m \<noteq> Switch m'" and set: "cpu_set g m \<noteq> Switch m'" for f :: "cpu \<Rightarrow> 'a" and g m m'
    using 1 by (auto simp: cpu_get_def cpu_set_def bind_Switch_iff gets_def modify_def)
  show 2: "pushcli m \<noteq> Switch m'" for m m'
    by (auto simp: pushcli_def bind_Switch_iff andthen_Switch_iff readeflags_def cli_def gets_def modify_def whenk_def
        return_def cpu_get_def cpu_set_def 1)
  show 3: "popcli m \<noteq> Switch m'" for m m'
    by (auto simp: popcli_def bind_Switch_iff andthen_Switch_iff readeflags_def sti_def gets_def modify_def whenk_def
        return_def panic_def cpu_get_def cpu_set_def 1)
  show 4: "holding_m L m \<noteq> Switch m'" for m m'
    by (auto simp: holding_m_def bind_Switch_iff andthen_Switch_iff gets_def return_def 1 2 3)
  show "acquire_m L m \<noteq> Switch m'"
    by (auto simp: acquire_m_def spin_xchg_def bind_Switch_iff andthen_Switch_iff gets_def return_def modify_def
        panic_def hang_def 1 2 3 4)
  show "release_m L m \<noteq> Switch m'"
    by (auto simp: release_m_def bind_Switch_iff andthen_Switch_iff gets_def return_def modify_def panic_def 1 2 3 4)
qed

lemma locks_not_Switch: "acquire L s \<noteq> Switch t" "release L s \<noteq> Switch t"
  by (auto simp: acquire_def release_def on_mach_def machine_not_Switch split: outcome.splits)

lemma sched_not_Ret: "sched s \<noteq> Ret x t"
  by (auto simp: sched_def bind_Ret_iff andthen_Ret_iff switch_away_def panic_def
      split: if_splits option.splits)

lemma sleep_not_Ret: "sleep chn lk s \<noteq> Ret x t"
  by (auto simp: sleep_def bind_Ret_iff andthen_Ret_iff panic_def sched_not_Ret split: option.splits)

text \<open>The value at \<open>sid\<close> after each kind of step.\<close>

definition value_at :: "nat \<Rightarrow> 'z sstate_scheme \<Rightarrow> int" where
  "value_at sid s = sem_value (sems s ! sid)"

lemma value_at_upd:
  "sid < length (sems s) \<Longrightarrow> sems t = upd sid f (sems s) \<Longrightarrow> value_at sid t = sem_value (f (sems s ! sid))"
  by (simp add: value_at_def)

lemma sem_wait_loop_Ret:
  "sem_wait_loop sid s = Ret r t \<Longrightarrow>
    r = 0 \<and> 0 < value_at sid s \<and> sems t = upd sid (\<lambda>x. x\<lparr>sem_value := sem_value x - 1\<rparr>) (sems s)"
  by (auto simp: sem_wait_loop_def sleep_while_def bind_Ret_iff andthen_Ret_iff gets_def sem_set_def modify_def
      return_def value_at_def sleep_not_Ret dest: frameD(1) [OF frame_sems(2)] split: if_splits)

lemma sem_wait_loop_Switch: "sem_wait_loop sid s = Switch t \<Longrightarrow> sems t = sems s"
  by (auto simp: sem_wait_loop_def sleep_while_def bind_def andthen_def gets_def sem_set_def modify_def
      return_def locks_not_Switch dest: frameD(2) [OF frame_sems(3)] split: if_splits outcome.splits)

definition sem_delta :: "sem_event \<Rightarrow> int" where
  "sem_delta e = (case e of Signalled \<Rightarrow> 1 | Waited \<Rightarrow> -1 | _ \<Rightarrow> 0)"

lemma sem_signal_Ret:
  "sem_signal (int sid) s = Ret 0 t \<Longrightarrow> sems t = upd sid (\<lambda>x. x\<lparr>sem_value := sem_value x + 1\<rparr>) (sems s)"
  by (auto simp: sem_signal_def bind_Ret_iff andthen_Ret_iff gets_def sem_set_def modify_def return_def
      dest!: frameD(1) [OF frame_sems(1)] frameD(1) [OF frame_sems(2)] frameD(1) [OF frame_sems(4)]
      split: if_splits)

lemma sem_wait_Ret:
  "sem_wait (int sid) s = Ret 0 t \<Longrightarrow>
    0 < value_at sid s \<and> sems t = upd sid (\<lambda>x. x\<lparr>sem_value := sem_value x - 1\<rparr>) (sems s)"
  by (auto simp: sem_wait_def bind_Ret_iff andthen_Ret_iff gets_def return_def value_at_def
      dest!: frameD(1) [OF frame_sems(1)] sem_wait_loop_Ret split: if_splits)

lemma sem_wait_resume_Ret:
  "sem_wait_resume me intena sid s = Ret 0 t \<Longrightarrow>
    0 < value_at sid s \<and> sems t = upd sid (\<lambda>x. x\<lparr>sem_value := sem_value x - 1\<rparr>) (sems s)"
  by (auto simp: sem_wait_resume_def andthen_Ret_iff value_at_def
      dest!: frameD(1) [OF frame_sems(5)] sem_wait_loop_Ret)

lemma sem_wait_Switch: "sem_wait (int sid) s = Switch t \<Longrightarrow> sems t = sems s"
  by (auto simp: sem_wait_def bind_Switch_iff andthen_Switch_iff gets_def return_def
      dest!: frameD [OF frame_sems(1)] sem_wait_loop_Switch split: if_splits)

lemma sem_wait_resume_Switch: "sem_wait_resume me intena sid s = Switch t \<Longrightarrow> sems t = sems s"
  by (auto simp: sem_wait_resume_def andthen_Switch_iff
      dest!: frameD [OF frame_sems(5)] sem_wait_loop_Switch)

lemma sem_step_value:
  assumes "sem_step sid e s t" and "sid < length (sems s)"
  shows "length (sems t) = length (sems s)" "value_at sid t = value_at sid s + sem_delta e"
    "e = Waited \<Longrightarrow> 0 < value_at sid s"
proof -
  have "length (sems t) = length (sems s) \<and> value_at sid t = value_at sid s + sem_delta e \<and>
      (e = Waited \<longrightarrow> 0 < value_at sid s)"
    using assms
  proof (cases rule: sem_step.cases)
    case signalled
    with assms(2) sem_signal_Ret [OF signalled(2)] show ?thesis
      by (simp add: value_at_def sem_delta_def)
  next
    case waited
    with assms(2) sem_wait_Ret [OF waited(2)] show ?thesis
      by (simp add: value_at_def sem_delta_def)
  next
    case (resumed me intena)
    with assms(2) sem_wait_resume_Ret [OF resumed(2)] show ?thesis
      by (simp add: value_at_def sem_delta_def)
  next
    case blocked
    with sem_wait_Switch [OF blocked(2)] show ?thesis
      by (simp add: value_at_def sem_delta_def)
  next
    case (blocked_again me intena)
    with sem_wait_resume_Switch [OF blocked_again(2)] show ?thesis
      by (simp add: value_at_def sem_delta_def)
  next
    case other
    then show ?thesis by (simp add: value_at_def sem_delta_def)
  qed
  then show "length (sems t) = length (sems s)" "value_at sid t = value_at sid s + sem_delta e"
    "e = Waited \<Longrightarrow> 0 < value_at sid s" by auto
qed

lemma sem_run_value:
  assumes "sem_run sid es s t" and "sid < length (sems s)"
  shows "value_at sid t = value_at sid s + int (count_list es Signalled) - int (count_list es Waited)"
    and "0 \<le> value_at sid s \<Longrightarrow> 0 \<le> value_at sid t"
  using assms
proof (induction rule: sem_run.induct)
  case (run_cons e s t es u)
  note st = sem_step_value [OF run_cons.hyps(1)]
  {
    case 1
    with run_cons.IH(1) st show ?case by (cases e) (simp_all add: sem_delta_def)
  next
    case 2
    have "0 \<le> value_at sid t"
      using 2 st by (cases e) (auto simp: sem_delta_def)
    with 2 run_cons.IH(2) st show ?case by simp
  }
qed simp_all

section \<open>A blocked waiter\<close>

lemma sem_wait_resume_takes:
  assumes "cpu_ok (mach s)" and "held (mach s) L_ptable" and "ncli (mach s) = 1" and "unlocked (mach s) L_sem"
    and "sid < length (sems s)" and "0 < value_at sid s"
  shows "\<exists>m'. sem_wait_resume i x sid s = Ret 0 (s\<lparr>mach := m',
      pt := (pt s)\<lparr>procs := upd i (\<lambda>q. q\<lparr>p_chan := ChNull\<rparr>) (procs (pt s))\<rparr>,
      sems := upd sid (\<lambda>x. x\<lparr>sem_value := sem_value x - 1\<rparr>) (sems s)\<rparr>) \<and>
    cpu_ok m' \<and> ncli m' = 0 \<and> unlocked m' L_ptable \<and> unlocked m' L_sem"
  using assms
  by (intro exI [of _ "rel L_sem (acq L_sem (rel L_ptable (with_intena x (mach s))))"])
    (simp add: sem_wait_resume_def sleep_resume_ok kern sem_wait_loop_def sleep_while_def sem_set_def value_at_def)

section \<open>Properties\<close>


definition demo_sem :: "proc list \<Rightarrow> int \<Rightarrow> sstate" where
  "demo_sem ps v = pstate.extend (demo_state (Some 0) ps 1)
     \<lparr>sems = \<lparr>sem_value = v, sem_allocated = True\<rparr> # replicate 9 \<lparr>sem_value = 0, sem_allocated = False\<rparr>\<rparr>"

lemma demo_sem_sel [simp]:
  "mach (demo_sem ps v) = demo_mach (Some 0) 0x202"
  "sems (demo_sem ps v) = \<lparr>sem_value = v, sem_allocated = True\<rparr> # replicate 9 \<lparr>sem_value = 0, sem_allocated = False\<rparr>"
  "pt (demo_sem ps v) = pt (demo_state (Some 0) ps 1)" "sem_ready (demo_sem ps v)" "\<not> sem_bad 0 (demo_sem ps v)"
  by (simp_all add: demo_sem_def sem_ready_def sem_bad_def NSEM_def table_ready_def pstate.defs demo_state_def
      del: table_readyD)




end
