(* ===== verification/Sleeplock.thy ===== *)
theory Sleeplock
  imports Sem
begin

text \<open>
  Sleep locks, \<^verbatim>\<open>src/sleeplock.c\<close>: the long-term locks of disk buffers and inodes. A lock is named
  by the object it is in; its guarding spin lock and its sleep channel are that object's.
\<close>

section \<open>Completed critical sections\<close>

lemma crit_obs [simp]:
  assumes "cpu_ok m"
  shows "cpu_ok (crit L m)" "ncli (crit L m) = ncli m" "curproc (crit L m) = curproc m"
    "held (crit L m) L' = (L' \<noteq> L \<and> held m L')" "unlocked (crit L m) L' = (L' = L \<or> unlocked m L')"
  using assms by (auto simp: crit_def)

lemma crit_sel [simp]: "mem (crit L m) = mem m" "cr3 (crit L m) = cr3 m" "esp (crit L m) = esp m"
  by (simp_all add: crit_def)

lemma wakeup_at:
  "cpu_ok (mach s) \<Longrightarrow> unlocked (mach s) L_ptable \<Longrightarrow> wakeup chn s =
    Ret () (s\<lparr>mach := crit L_ptable (mach s), pt := wakeup_table chn (pt s)\<rparr>)"
  by (simp add: wakeup_ok table_ready_def set_table_def del: table_readyD)

lemma critical_wakeup_same:
  assumes "cpu_ok m" "unlocked m L_ptable" "unlocked m L" "L \<noteq> L_ptable"
  shows "same_mach m (rel L (crit L_ptable (acq L m)))"
  using assms by (intro same_mach_critical crit_same) simp_all

section \<open>State and operations\<close>

datatype slid = SL_buf nat | SL_inode nat

record sleeplock =
  sl_locked :: u32
  sl_name :: string
  sl_pid :: int

record slstate = sstate +
  slocks :: "slid \<Rightarrow> sleeplock"

definition sl_guard :: "slid \<Rightarrow> lockid" where
  "sl_guard l = (case l of SL_buf i \<Rightarrow> L_buf i | SL_inode i \<Rightarrow> L_inode i)"

definition sl_chan :: "slid \<Rightarrow> chan" where
  "sl_chan l = (case l of SL_buf i \<Rightarrow> ChBufLock i | SL_inode i \<Rightarrow> ChInodeLock i)"

definition sl_set :: "slid \<Rightarrow> (sleeplock \<Rightarrow> sleeplock) \<Rightarrow> (unit, 'z slstate_scheme) kern" where
  "sl_set l f = modify (\<lambda>s. s\<lparr>slocks := (slocks s)(l := f (slocks s l))\<rparr>)"

definition initsleeplock :: "slid \<Rightarrow> string \<Rightarrow> (unit, 'z slstate_scheme) kern" where
  "initsleeplock l name =
    andthen (initlock (sl_guard l) ''sleep lock'')
      (sl_set l (\<lambda>k. k\<lparr>sl_name := name, sl_locked := 0, sl_pid := 0\<rparr>))"

text \<open>From the loop test on, with the guard held.\<close>

definition acquiresleep_loop :: "slid \<Rightarrow> (unit, 'z slstate_scheme) kern" where
  "acquiresleep_loop l = sleep_while (\<lambda>s. sl_locked (slocks s l) \<noteq> 0) (sl_chan l) (sl_guard l) (
    andthen (sl_set l (\<lambda>k. k\<lparr>sl_locked := 1\<rparr>)) (
    bind the_proc (\<lambda>me.
    bind (proc_get me p_pid) (\<lambda>pid.
    andthen (sl_set l (\<lambda>k. k\<lparr>sl_pid := pid\<rparr>))
      (release (sl_guard l))))))"

definition acquiresleep :: "slid \<Rightarrow> (unit, 'z slstate_scheme) kern" where
  "acquiresleep l = andthen (acquire (sl_guard l)) (acquiresleep_loop l)"

definition acquiresleep_resume :: "nat \<Rightarrow> u32 \<Rightarrow> slid \<Rightarrow> (unit, 'z slstate_scheme) kern" where
  "acquiresleep_resume me intena l = andthen (sleep_resume me intena (sl_guard l)) (acquiresleep_loop l)"

definition releasesleep :: "slid \<Rightarrow> (unit, 'z slstate_scheme) kern" where
  "releasesleep l =
    andthen (acquire (sl_guard l)) (
    andthen (sl_set l (\<lambda>k. k\<lparr>sl_locked := 0, sl_pid := 0\<rparr>)) (
    andthen (wakeup (sl_chan l))
      (release (sl_guard l))))"

definition holdingsleep :: "slid \<Rightarrow> (bool, 'z slstate_scheme) kern" where
  "holdingsleep l =
    andthen (acquire (sl_guard l)) (
    bind (gets (\<lambda>s. sl_locked (slocks s l))) (\<lambda>lk.
    bind (if lk = 0 then return False else
      bind the_proc (\<lambda>me. bind (proc_get me p_pid) (\<lambda>pid.
      gets (\<lambda>s. sl_pid (slocks s l) = pid)))) (\<lambda>r.
    andthen (release (sl_guard l)) (return r))))"

section \<open>What the operations do\<close>

lemma sl_guard_not_ptable [simp]: "sl_guard l \<noteq> L_ptable" "L_ptable \<noteq> sl_guard l"
  by (auto simp: sl_guard_def split: slid.splits)

text \<open>A process \<open>me\<close> that can use lock \<open>l\<close>'s guard.\<close>

definition sl_ready :: "nat \<Rightarrow> slid \<Rightarrow> 'z slstate_scheme \<Rightarrow> bool" where
  "sl_ready me l s \<longleftrightarrow> table_ready s \<and> unlocked (mach s) (sl_guard l) \<and> curproc (mach s) = Some me \<and>
     me < length (procs (pt s))"

lemma sl_readyD:
  assumes "sl_ready me l s"
  shows "cpu_ok (mach s)" "unlocked (mach s) L_ptable" "unlocked (mach s) (sl_guard l)"
    "curproc (mach s) = Some me" "me < length (procs (pt s))"
  using assms by (auto simp: sl_ready_def)

definition sl_take :: "int \<Rightarrow> sleeplock \<Rightarrow> sleeplock" where
  "sl_take pid k = k\<lparr>sl_locked := 1, sl_pid := pid\<rparr>"

definition sl_drop :: "sleeplock \<Rightarrow> sleeplock" where
  "sl_drop k = k\<lparr>sl_locked := 0, sl_pid := 0\<rparr>"

lemma acquiresleep_free:
  assumes "sl_ready me l s" and "sl_locked (slocks s l) = 0"
  shows "acquiresleep l s = Ret () (s\<lparr>mach := crit (sl_guard l) (mach s),
    slocks := (slocks s)(l := sl_take (p_pid (procs (pt s) ! me)) (slocks s l))\<rparr>)"
proof -
  note r = sl_readyD [OF assms(1)]
  have "touched (acq (sl_guard l) (mach s)) = acq (sl_guard l) (mach s)"
    using r by (simp add: touched_id)
  then show ?thesis
    using r assms(2)
    by (simp add: acquiresleep_def acquiresleep_loop_def sleep_while_def kern sl_set_def the_proc_def table_access
        crit_def sl_take_def)
qed

lemma acquiresleep_blocks:
  assumes "sl_ready me l s" and "sl_locked (slocks s l) \<noteq> 0" and "ncli (mach s) = 0"
  shows "acquiresleep l s = Switch (s\<lparr>mach := rel (sl_guard l) (acq L_ptable (acq (sl_guard l) (mach s))),
    pt := (pt s)\<lparr>procs := upd me (asleep (sl_chan l) (esp (mach s))) (procs (pt s))\<rparr>\<rparr>)"
proof -
  note r = sl_readyD [OF assms(1)]
  have "sleep (sl_chan l) (Some (sl_guard l)) (s\<lparr>mach := acq (sl_guard l) (mach s)\<rparr>) =
      Switch (s\<lparr>mach := rel (sl_guard l) (acq L_ptable (acq (sl_guard l) (mach s))),
        pt := (pt s)\<lparr>procs := upd me (asleep (sl_chan l) (esp (mach s))) (procs (pt s))\<rparr>\<rparr>)"
    using r assms(3) by (subst sleep_switch [where i = me]) simp_all
  then show ?thesis
    using r assms(2) by (simp add: acquiresleep_def acquiresleep_loop_def sleep_while_def kern)
qed

lemma holdingsleep_ok:
  assumes "sl_ready me l s"
  shows "holdingsleep l s = Ret (sl_locked (slocks s l) \<noteq> 0 \<and> sl_pid (slocks s l) = p_pid (procs (pt s) ! me))
    (s\<lparr>mach := crit (sl_guard l) (mach s)\<rparr>)"
proof -
  note r = sl_readyD [OF assms]
  have "touched (acq (sl_guard l) (mach s)) = acq (sl_guard l) (mach s)"
    using r by (simp add: touched_id)
  then show ?thesis
    using r by (cases "sl_locked (slocks s l) = 0")
      (simp_all add: holdingsleep_def kern the_proc_def table_access crit_def)
qed

lemma releasesleep_ok:
  assumes "table_ready s" and "unlocked (mach s) (sl_guard l)"
  shows "\<exists>m'. same_mach (mach s) m' \<and> releasesleep l s = Ret () (s\<lparr>mach := m',
    pt := wakeup_table (sl_chan l) (pt s), slocks := (slocks s)(l := sl_drop (slocks s l))\<rparr>)"
proof -
  let ?g = "sl_guard l"
  let ?s = "s\<lparr>mach := acq ?g (mach s), slocks := (slocks s)(l := sl_drop (slocks s l))\<rparr>"
  have r: "cpu_ok (mach s)" "unlocked (mach s) L_ptable" using assms(1) by simp_all
  have "table_ready ?s" using r by (simp add: table_ready_def del: table_readyD)
  then have w: "wakeup (sl_chan l) ?s = Ret () (set_table (wakeup_table (sl_chan l) (pt s)) ?s)"
    by (simp add: wakeup_ok)
  have c: "same_mach (acq ?g (mach s)) (crit L_ptable (acq ?g (mach s)))"
    using r by (intro crit_same) simp_all
  have "same_mach (mach s) (rel ?g (crit L_ptable (acq ?g (mach s))))"
    using r assms(2) c by (intro same_mach_critical) simp_all
  moreover have "releasesleep l s = Ret () (s\<lparr>mach := rel ?g (crit L_ptable (acq ?g (mach s))),
      pt := wakeup_table (sl_chan l) (pt s), slocks := (slocks s)(l := sl_drop (slocks s l))\<rparr>)"
    using r assms(2) w same_machD [OF c]
    by (simp add: releasesleep_def sl_set_def kern set_table_def sl_drop_def)
  ultimately show ?thesis by blast
qed

end
