(* ===== verification/Bio.thy ===== *)
theory Bio
  imports Sleeplock
begin

text \<open>
  The buffer cache, \<^verbatim>\<open>src/bio.c\<close>, over the disk driver of the in-memory build, \<^verbatim>\<open>src/memide.c\<close>.
  Buffers are the entries of a table of \<open>NBUF + 1\<close>, the last being the list head; \<open>prev\<close> and \<open>next\<close>
  are the indices the C pointers stand for. The disk records the writes made to it, in order, so
  that the states a crash can leave are those after a prefix of them.
\<close>

section \<open>State\<close>

definition BSIZE :: nat where "BSIZE = 512"
definition MAXOPBLOCKS :: nat where "MAXOPBLOCKS = 10"
definition LOGSIZE :: nat where "LOGSIZE = MAXOPBLOCKS * 3"
definition NBUF :: nat where "NBUF = MAXOPBLOCKS * 3"
definition B_VALID :: u32 where "B_VALID = 2"
definition B_DIRTY :: u32 where "B_DIRTY = 4"

record buf =
  b_flags :: u32
  b_dev :: u32
  b_blockno :: u32
  b_refcnt :: u32
  b_prev :: nat
  b_next :: nat
  b_data :: "u8 list"

type_synonym blocks = "nat \<Rightarrow> u8 list"

record disk =
  disksize :: u32
  memdisk :: blocks
  d_writes :: "(nat \<times> u8 list) list"

record bstate = slstate +
  bufs :: "buf list"
  dsk :: disk

definition BHEAD :: nat where "BHEAD = NBUF"

definition buf_set :: "nat \<Rightarrow> (buf \<Rightarrow> buf) \<Rightarrow> (unit, 'z bstate_scheme) kern" where
  "buf_set b f = modify (\<lambda>s. s\<lparr>bufs := upd b f (bufs s)\<rparr>)"

definition buf_get :: "nat \<Rightarrow> (buf \<Rightarrow> 'a) \<Rightarrow> ('a, 'z bstate_scheme) kern" where
  "buf_get b f = gets (\<lambda>s. f (bufs s ! b))"

section \<open>The in-memory disk\<close>

definition put_block :: "nat \<Rightarrow> u8 list \<Rightarrow> disk \<Rightarrow> disk" where
  "put_block n bs d = d\<lparr>memdisk := (memdisk d)(n := bs), d_writes := d_writes d @ [(n, bs)]\<rparr>"

definition ideinit :: "blocks \<Rightarrow> u32 \<Rightarrow> (unit, 'z bstate_scheme) kern" where
  "ideinit img sz = modify (\<lambda>s. s\<lparr>dsk := \<lparr>disksize = sz div 512, memdisk = img, d_writes = []\<rparr>\<rparr>)"

definition ideintr :: "(unit, 'z bstate_scheme) kern" where
  "ideintr = return ()"

definition iderw :: "nat \<Rightarrow> (unit, 'z bstate_scheme) kern" where
  "iderw b =
    bind (holdingsleep (SL_buf b)) (\<lambda>h.
    if \<not> h then panic ''iderw: buf not locked'' else
    bind (buf_get b b_flags) (\<lambda>fl.
    if fl AND (B_VALID OR B_DIRTY) = B_VALID then panic ''iderw: nothing to do'' else
    bind (buf_get b b_dev) (\<lambda>dev.
    if dev \<noteq> 1 then panic ''iderw: request not for disk 1'' else
    bind (buf_get b b_blockno) (\<lambda>bn.
    bind (gets (\<lambda>s. disksize (dsk s))) (\<lambda>sz.
    if sz \<le> bn then panic ''iderw: block out of range'' else
    andthen (
      if fl AND B_DIRTY \<noteq> 0 then
        andthen (buf_set b (\<lambda>u. u\<lparr>b_flags := b_flags u AND NOT B_DIRTY\<rparr>))
          (modify (\<lambda>s. s\<lparr>dsk := put_block (unat bn) (b_data (bufs s ! b)) (dsk s)\<rparr>))
      else modify (\<lambda>s. s\<lparr>bufs := upd b (\<lambda>u. u\<lparr>b_data := memdisk (dsk s) (unat bn)\<rparr>) (bufs s)\<rparr>))
    (buf_set b (\<lambda>u. u\<lparr>b_flags := b_flags u OR B_VALID\<rparr>)))))))"

section \<open>The buffer cache\<close>

definition link_front :: "nat \<Rightarrow> (unit, 'z bstate_scheme) kern" where
  "link_front b =
    bind (buf_get BHEAD b_next) (\<lambda>f.
    andthen (buf_set f (\<lambda>u. u\<lparr>b_prev := b\<rparr>))
      (buf_set BHEAD (\<lambda>u. u\<lparr>b_next := b\<rparr>)))"

definition binit_step :: "nat \<Rightarrow> (unit, 'z bstate_scheme) kern" where
  "binit_step b =
    bind (buf_get BHEAD b_next) (\<lambda>f.
    andthen (buf_set b (\<lambda>u. u\<lparr>b_next := f\<rparr>)) (
    andthen (buf_set b (\<lambda>u. u\<lparr>b_prev := BHEAD\<rparr>)) (
    andthen (initsleeplock (SL_buf b) ''buffer'') (
    link_front b))))"

fun binit_loop :: "nat list \<Rightarrow> (unit, 'z bstate_scheme) kern" where
  "binit_loop [] = return ()"
| "binit_loop (b # bs) = andthen (binit_step b) (binit_loop bs)"

definition binit :: "(unit, 'z bstate_scheme) kern" where
  "binit =
    andthen (initlock L_bcache ''bcache'') (
    andthen (buf_set BHEAD (\<lambda>u. u\<lparr>b_prev := BHEAD\<rparr>)) (
    andthen (buf_set BHEAD (\<lambda>u. u\<lparr>b_next := BHEAD\<rparr>))
      (binit_loop [0..<NBUF])))"

text \<open>
  A walk along the list from \<open>b\<close> for the first buffer with \<open>P\<close>: \<open>Some None\<close> when it comes back to the
  head. The list has \<open>NBUF\<close> buffers, so \<open>NBUF + 1\<close> steps are enough; a list that is broken is
  walked forever, which is \<open>None\<close>.
\<close>

fun bwalk :: "nat \<Rightarrow> (nat \<Rightarrow> nat) \<Rightarrow> (nat \<Rightarrow> bool) \<Rightarrow> nat \<Rightarrow> nat option option" where
  "bwalk 0 lnk P b = None"
| "bwalk (Suc n) lnk P b =
    (if b = BHEAD then Some None else if P b then Some (Some b) else bwalk n lnk P (lnk b))"

definition bcached :: "u32 \<Rightarrow> u32 \<Rightarrow> buf list \<Rightarrow> nat option option" where
  "bcached dev blockno bs = bwalk (Suc NBUF) (\<lambda>b. b_next (bs ! b))
     (\<lambda>b. b_dev (bs ! b) = dev \<and> b_blockno (bs ! b) = blockno) (b_next (bs ! BHEAD))"

definition bunused :: "buf list \<Rightarrow> nat option option" where
  "bunused bs = bwalk (Suc NBUF) (\<lambda>b. b_prev (bs ! b))
     (\<lambda>b. b_refcnt (bs ! b) = 0 \<and> b_flags (bs ! b) AND B_DIRTY = 0) (b_prev (bs ! BHEAD))"

definition bget :: "u32 \<Rightarrow> u32 \<Rightarrow> (nat, 'z bstate_scheme) kern" where
  "bget dev blockno =
    andthen (acquire L_bcache) (
    bind (gets (\<lambda>s. bcached dev blockno (bufs s))) (\<lambda>r. (case r of
      None \<Rightarrow> hang
    | Some (Some b) \<Rightarrow>
        andthen (buf_set b (\<lambda>u. u\<lparr>b_refcnt := b_refcnt u + 1\<rparr>)) (
        andthen (release L_bcache) (
        andthen (acquiresleep (SL_buf b)) (return b)))
    | Some None \<Rightarrow>
        bind (gets (\<lambda>s. bunused (bufs s))) (\<lambda>r'. (case r' of
          None \<Rightarrow> hang
        | Some None \<Rightarrow> panic ''bget: no buffers''
        | Some (Some b) \<Rightarrow>
            andthen (buf_set b (\<lambda>u. u\<lparr>b_flags := 0, b_dev := dev, b_blockno := blockno, b_refcnt := 1\<rparr>)) (
            andthen (release L_bcache) (
            andthen (acquiresleep (SL_buf b)) (return b))))))))"

definition bread :: "u32 \<Rightarrow> u32 \<Rightarrow> (nat, 'z bstate_scheme) kern" where
  "bread dev blockno =
    bind (bget dev blockno) (\<lambda>b.
    bind (buf_get b b_flags) (\<lambda>fl.
    andthen (whenk (fl AND B_VALID = 0) (iderw b)) (return b)))"

definition bwrite :: "nat \<Rightarrow> (unit, 'z bstate_scheme) kern" where
  "bwrite b =
    bind (holdingsleep (SL_buf b)) (\<lambda>h.
    if \<not> h then panic ''bwrite'' else
    andthen (buf_set b (\<lambda>u. u\<lparr>b_flags := b_flags u OR B_DIRTY\<rparr>))
      (iderw b))"

definition to_front :: "nat \<Rightarrow> (unit, 'z bstate_scheme) kern" where
  "to_front b =
    bind (buf_get b b_next) (\<lambda>n.
    bind (buf_get b b_prev) (\<lambda>p.
    andthen (buf_set n (\<lambda>u. u\<lparr>b_prev := p\<rparr>)) (
    bind (buf_get b b_prev) (\<lambda>p'.
    bind (buf_get b b_next) (\<lambda>n'.
    andthen (buf_set p' (\<lambda>u. u\<lparr>b_next := n'\<rparr>)) (
    bind (buf_get BHEAD b_next) (\<lambda>f.
    andthen (buf_set b (\<lambda>u. u\<lparr>b_next := f\<rparr>)) (
    andthen (buf_set b (\<lambda>u. u\<lparr>b_prev := BHEAD\<rparr>)) (
    link_front b)))))))))"

definition brelse :: "nat \<Rightarrow> (unit, 'z bstate_scheme) kern" where
  "brelse b =
    bind (holdingsleep (SL_buf b)) (\<lambda>h.
    if \<not> h then panic ''brelse'' else
    andthen (releasesleep (SL_buf b)) (
    andthen (acquire L_bcache) (
    andthen (buf_set b (\<lambda>u. u\<lparr>b_refcnt := b_refcnt u - 1\<rparr>)) (
    bind (buf_get b b_refcnt) (\<lambda>rc.
    andthen (whenk (rc = 0) (to_front b))
      (release L_bcache))))))"

end
