(* ===== verification/Log.thy ===== *)
theory Log
  imports Bio
begin

text \<open>
  The write-ahead log, \<^verbatim>\<open>src/log.c\<close>: transactions of file-system calls, commit and recovery, with
  the superblock reader \<open>readsb\<close> of \<^verbatim>\<open>src/fs.c\<close> that \<open>initlog\<close> calls. Block numbers are kept as the
  unsigned words the comparison with \<open>b->blockno\<close> makes of them.
\<close>

section \<open>Fields in a block\<close>

definition rd32 :: "u8 list \<Rightarrow> nat \<Rightarrow> u32" where
  "rd32 bs off = of_le32 (take 4 (drop off bs))"

definition wr32 :: "u8 list \<Rightarrow> nat \<Rightarrow> u32 \<Rightarrow> u8 list" where
  "wr32 bs off v = blit bs off (le32 v)"

section \<open>State\<close>

record superblock =
  sb_size :: u32
  sb_nblocks :: u32
  sb_ninodes :: u32
  sb_nlog :: u32
  sb_logstart :: u32
  sb_inodestart :: u32
  sb_bmapstart :: u32

record logheader =
  lh_n :: int
  lh_block :: "u32 list"

record log =
  lg_start :: u32
  lg_size :: int
  lg_outstanding :: int
  lg_committing :: bool
  lg_dev :: u32
  lg_lh :: logheader

record lstate = bstate +
  logst :: log

definition log_set :: "(log \<Rightarrow> log) \<Rightarrow> (unit, 'z lstate_scheme) kern" where
  "log_set f = modify (\<lambda>s. s\<lparr>logst := f (logst s)\<rparr>)"

definition log_get :: "(log \<Rightarrow> 'a) \<Rightarrow> ('a, 'z lstate_scheme) kern" where
  "log_get f = gets (\<lambda>s. f (logst s))"

definition lh_set :: "(logheader \<Rightarrow> logheader) \<Rightarrow> (unit, 'z lstate_scheme) kern" where
  "lh_set f = log_set (\<lambda>g. g\<lparr>lg_lh := f (lg_lh g)\<rparr>)"

definition lh_get :: "(logheader \<Rightarrow> 'a) \<Rightarrow> ('a, 'z lstate_scheme) kern" where
  "lh_get f = log_get (\<lambda>g. f (lg_lh g))"

definition set_data :: "nat \<Rightarrow> (u8 list \<Rightarrow> u8 list) \<Rightarrow> (unit, 'z bstate_scheme) kern" where
  "set_data b f = buf_set b (\<lambda>u. u\<lparr>b_data := f (b_data u)\<rparr>)"

section \<open>Commit and recovery\<close>

text \<open>The loops run \<open>tail\<close> up to \<open>log.lh.n\<close>, which their bodies leave alone.\<close>

fun install_loop :: "nat \<Rightarrow> nat \<Rightarrow> (unit, 'z lstate_scheme) kern" where
  "install_loop 0 tail = return ()"
| "install_loop (Suc k) tail =
    bind (log_get lg_dev) (\<lambda>dev.
    bind (log_get lg_start) (\<lambda>start.
    bind (bread dev (start + of_nat tail + 1)) (\<lambda>lbuf.
    bind (lh_get (\<lambda>h. lh_block h ! tail)) (\<lambda>home.
    bind (bread dev home) (\<lambda>dbuf.
    bind (buf_get lbuf b_data) (\<lambda>d.
    andthen (set_data dbuf (\<lambda>_. d)) (
    andthen (bwrite dbuf) (
    andthen (brelse lbuf) (
    andthen (brelse dbuf)
      (install_loop k (Suc tail)))))))))))"

definition install_trans :: "(unit, 'z lstate_scheme) kern" where
  "install_trans = bind (lh_get lh_n) (\<lambda>n. install_loop (nat n) 0)"

text \<open>
  The header block: \<open>n\<close>, then the block numbers. A count above \<open>LOGSIZE\<close> on the disk would have
  \<open>read_head\<close> write beyond the in-memory header, which C leaves undefined.
\<close>

definition head_blocks :: "u8 list \<Rightarrow> nat \<Rightarrow> u32 list" where
  "head_blocks d n = map (\<lambda>i. rd32 d (4 + 4 * i)) [0..<n]"

definition read_head :: "(unit, 'z lstate_scheme) kern" where
  "read_head =
    bind (log_get lg_dev) (\<lambda>dev.
    bind (log_get lg_start) (\<lambda>start.
    bind (bread dev start) (\<lambda>b.
    bind (buf_get b b_data) (\<lambda>d.
    let n = sint (rd32 d 0) in
    andthen (lh_set (\<lambda>h. h\<lparr>lh_n := n\<rparr>)) (
    if n > int LOGSIZE then panic ''undefined behaviour'' else
    andthen (lh_set (\<lambda>h. h\<lparr>lh_block := blit (lh_block h) 0 (head_blocks d (nat n))\<rparr>))
      (brelse b))))))"

fun put_words :: "u8 list \<Rightarrow> nat \<Rightarrow> u32 list \<Rightarrow> u8 list" where
  "put_words d off [] = d"
| "put_words d off (w # ws) = put_words (wr32 d off w) (off + 4) ws"

definition write_head :: "(unit, 'z lstate_scheme) kern" where
  "write_head =
    bind (log_get lg_dev) (\<lambda>dev.
    bind (log_get lg_start) (\<lambda>start.
    bind (bread dev start) (\<lambda>b.
    bind (lh_get lh_n) (\<lambda>n.
    andthen (set_data b (\<lambda>d. wr32 d 0 (word_of_int n))) (
    bind (lh_get (\<lambda>h. take (nat n) (lh_block h))) (\<lambda>ws.
    andthen (set_data b (\<lambda>d. put_words d 4 ws)) (
    andthen (bwrite b)
      (brelse b))))))))"

definition recover_from_log :: "(unit, 'z lstate_scheme) kern" where
  "recover_from_log =
    andthen read_head (
    andthen install_trans (
    andthen (lh_set (\<lambda>h. h\<lparr>lh_n := 0\<rparr>))
      write_head))"

fun write_log_loop :: "nat \<Rightarrow> nat \<Rightarrow> (unit, 'z lstate_scheme) kern" where
  "write_log_loop 0 tail = return ()"
| "write_log_loop (Suc k) tail =
    bind (log_get lg_dev) (\<lambda>dev.
    bind (log_get lg_start) (\<lambda>start.
    bind (bread dev (start + of_nat tail + 1)) (\<lambda>dst.
    bind (lh_get (\<lambda>h. lh_block h ! tail)) (\<lambda>home.
    bind (bread dev home) (\<lambda>src.
    bind (buf_get src b_data) (\<lambda>d.
    andthen (set_data dst (\<lambda>_. d)) (
    andthen (bwrite dst) (
    andthen (brelse src) (
    andthen (brelse dst)
      (write_log_loop k (Suc tail)))))))))))"

definition write_log :: "(unit, 'z lstate_scheme) kern" where
  "write_log = bind (lh_get lh_n) (\<lambda>n. write_log_loop (nat n) 0)"

definition commit :: "(unit, 'z lstate_scheme) kern" where
  "commit =
    bind (lh_get lh_n) (\<lambda>n.
    whenk (n > 0) (
      andthen write_log (
      andthen write_head (
      andthen install_trans (
      andthen (lh_set (\<lambda>h. h\<lparr>lh_n := 0\<rparr>))
        write_head)))))"

section \<open>Start of the system\<close>

definition readsb :: "u32 \<Rightarrow> (superblock, 'z bstate_scheme) kern" where
  "readsb dev =
    bind (bread dev 1) (\<lambda>b.
    bind (buf_get b b_data) (\<lambda>d.
    andthen (brelse b)
      (return \<lparr>sb_size = rd32 d 0, sb_nblocks = rd32 d 4, sb_ninodes = rd32 d 8, sb_nlog = rd32 d 12,
         sb_logstart = rd32 d 16, sb_inodestart = rd32 d 20, sb_bmapstart = rd32 d 24\<rparr>)))"

text \<open>The size of the header, 4 bytes more than \<open>LOGSIZE\<close> words, against \<open>BSIZE\<close>.\<close>

definition initlog :: "u32 \<Rightarrow> (unit, 'z lstate_scheme) kern" where
  "initlog dev =
    (if 4 + 4 * LOGSIZE \<ge> BSIZE then panic ''initlog: too big logheader'' else
     andthen (initlock L_log ''log'') (
     bind (readsb dev) (\<lambda>sb.
     andthen (log_set (\<lambda>g. g\<lparr>lg_start := sb_logstart sb, lg_size := sint (sb_nlog sb), lg_dev := dev\<rparr>))
       recover_from_log)))"

section \<open>Operations\<close>

definition log_full :: "log \<Rightarrow> bool" where
  "log_full g \<longleftrightarrow> lh_n (lg_lh g) + (lg_outstanding g + 1) * int MAXOPBLOCKS > int LOGSIZE"

definition begin_op_loop :: "(unit, 'z lstate_scheme) kern" where
  "begin_op_loop = sleep_while (\<lambda>s. lg_committing (logst s) \<or> log_full (logst s)) ChLog L_log (
    andthen (log_set (\<lambda>g. g\<lparr>lg_outstanding := lg_outstanding g + 1\<rparr>))
      (release L_log))"

definition begin_op :: "(unit, 'z lstate_scheme) kern" where
  "begin_op = andthen (acquire L_log) begin_op_loop"

definition begin_op_resume :: "nat \<Rightarrow> u32 \<Rightarrow> (unit, 'z lstate_scheme) kern" where
  "begin_op_resume me intena = andthen (sleep_resume me intena L_log) begin_op_loop"

definition end_op :: "(unit, 'z lstate_scheme) kern" where
  "end_op =
    andthen (acquire L_log) (
    andthen (log_set (\<lambda>g. g\<lparr>lg_outstanding := lg_outstanding g - 1\<rparr>)) (
    bind (log_get lg_committing) (\<lambda>c.
    if c then panic ''log.committing'' else
    bind (log_get lg_outstanding) (\<lambda>out.
    andthen (if out = 0 then log_set (\<lambda>g. g\<lparr>lg_committing := True\<rparr>) else wakeup ChLog) (
    andthen (release L_log)
      (whenk (out = 0) (
        andthen commit (
        andthen (acquire L_log) (
        andthen (log_set (\<lambda>g. g\<lparr>lg_committing := False\<rparr>)) (
        andthen (wakeup ChLog)
          (release L_log)))))))))))"

definition log_slot :: "logheader \<Rightarrow> u32 \<Rightarrow> nat" where
  "log_slot h bn = (case scan (\<lambda>i. lh_block h ! i = bn) 0 (nat (lh_n h)) of None \<Rightarrow> nat (lh_n h) | Some i \<Rightarrow> i)"

definition log_write :: "nat \<Rightarrow> (unit, 'z lstate_scheme) kern" where
  "log_write b =
    bind (gets logst) (\<lambda>g.
    if lh_n (lg_lh g) \<ge> int LOGSIZE \<or> lh_n (lg_lh g) \<ge> lg_size g - 1 then panic ''too big a transaction''
    else if lg_outstanding g < 1 then panic ''log_write outside of trans'' else
    andthen (acquire L_log) (
    bind (buf_get b b_blockno) (\<lambda>bn.
    bind (lh_get (\<lambda>h. log_slot h bn)) (\<lambda>i.
    andthen (lh_set (\<lambda>h. h\<lparr>lh_block := (lh_block h)[i := bn]\<rparr>)) (
    andthen (lh_set (\<lambda>h. if int i = lh_n h then h\<lparr>lh_n := lh_n h + 1\<rparr> else h)) (
    andthen (buf_set b (\<lambda>u. u\<lparr>b_flags := b_flags u OR B_DIRTY\<rparr>))
      (release L_log)))))))"

end
