(* ===== verification/Fs.thy ===== *)
theory Fs
  imports Log
begin

text \<open>
  The block and inode layers of the file system, \<^verbatim>\<open>src/fs.c\<close>: the free-block bitmap, the inode cache,
  the on-disk inode, the block map of a file and truncation. An inode pointer is an index of the
  inode cache. Shorts are 16-bit words read as signed numbers.
\<close>

section \<open>State\<close>

definition NINODE :: nat where "NINODE = 50"
definition NDIRECT :: nat where "NDIRECT = 12"
definition NINDIRECT :: nat where "NINDIRECT = 128"
definition MAXFILE :: nat where "MAXFILE = NDIRECT + NINDIRECT"
definition IPB :: u32 where "IPB = 8"
definition BPB :: nat where "BPB = 4096"
definition ROOTINO :: u32 where "ROOTINO = 1"
definition ROOTDEV :: u32 where "ROOTDEV = 1"
definition T_DIR :: u16 where "T_DIR = 1"
definition T_FILE :: u16 where "T_FILE = 2"
definition T_DEV :: u16 where "T_DEV = 3"

record dinode =
  d_type :: u16
  d_major :: u16
  d_minor :: u16
  d_nlink :: u16
  d_size :: u32
  d_addrs :: "u32 list"

record inode =
  i_dev :: u32
  i_inum :: u32
  i_ref :: int
  i_valid :: bool
  i_d :: dinode

record fstate = lstate +
  inodes :: "inode list"
  fssb :: superblock

definition ino_get :: "nat \<Rightarrow> (inode \<Rightarrow> 'a) \<Rightarrow> ('a, 'z fstate_scheme) kern" where
  "ino_get ip f = gets (\<lambda>s. f (inodes s ! ip))"

definition ino_set :: "nat \<Rightarrow> (inode \<Rightarrow> inode) \<Rightarrow> (unit, 'z fstate_scheme) kern" where
  "ino_set ip f = modify (\<lambda>s. s\<lparr>inodes := upd ip f (inodes s)\<rparr>)"

definition din_set :: "nat \<Rightarrow> (dinode \<Rightarrow> dinode) \<Rightarrow> (unit, 'z fstate_scheme) kern" where
  "din_set ip f = ino_set ip (\<lambda>i. i\<lparr>i_d := f (i_d i)\<rparr>)"

definition IBLOCK :: "u32 \<Rightarrow> superblock \<Rightarrow> u32" where
  "IBLOCK i sb = i div IPB + sb_inodestart sb"

definition BBLOCK :: "u32 \<Rightarrow> superblock \<Rightarrow> u32" where
  "BBLOCK b sb = b div of_nat BPB + sb_bmapstart sb"

section \<open>The disk layout of an inode\<close>

definition le16 :: "u16 \<Rightarrow> u8 list" where
  "le16 x = [ucast x, ucast (drop_bit 8 x)]"

definition of_le16 :: "u8 list \<Rightarrow> u16" where
  "of_le16 bs = ucast (bs ! 0) OR push_bit 8 (ucast (bs ! 1))"

definition dinode_bytes :: "dinode \<Rightarrow> u8 list" where
  "dinode_bytes d = le16 (d_type d) @ le16 (d_major d) @ le16 (d_minor d) @ le16 (d_nlink d)
     @ le32 (d_size d) @ concat (map le32 (d_addrs d))"

definition bytes_dinode :: "u8 list \<Rightarrow> dinode" where
  "bytes_dinode bs = \<lparr>d_type = of_le16 (take 2 bs), d_major = of_le16 (take 2 (drop 2 bs)),
     d_minor = of_le16 (take 2 (drop 4 bs)), d_nlink = of_le16 (take 2 (drop 6 bs)),
     d_size = of_le32 (take 4 (drop 8 bs)),
     d_addrs = map (\<lambda>i. of_le32 (take 4 (drop (12 + 4 * i) bs))) [0..<NDIRECT + 1]\<rparr>"

definition dip_off :: "u32 \<Rightarrow> nat" where
  "dip_off inum = 64 * unat (inum mod IPB)"

definition get_dinode :: "u8 list \<Rightarrow> u32 \<Rightarrow> dinode" where
  "get_dinode d inum = bytes_dinode (take 64 (drop (dip_off inum) d))"

definition put_dinode :: "dinode \<Rightarrow> u32 \<Rightarrow> u8 list \<Rightarrow> u8 list" where
  "put_dinode x inum d = blit d (dip_off inum) (dinode_bytes x)"

definition zero_dinode :: dinode where
  "zero_dinode = \<lparr>d_type = 0, d_major = 0, d_minor = 0, d_nlink = 0, d_size = 0,
     d_addrs = replicate (NDIRECT + 1) 0\<rparr>"

section \<open>Blocks\<close>

definition bzero :: "u32 \<Rightarrow> u32 \<Rightarrow> (unit, 'z lstate_scheme) kern" where
  "bzero dev bno =
    bind (bread dev bno) (\<lambda>b.
    andthen (set_data b (\<lambda>_. replicate BSIZE 0)) (
    andthen (log_write b)
      (brelse b)))"

definition bm_mask :: "nat \<Rightarrow> u8" where
  "bm_mask bi = push_bit (bi mod 8) 1"

definition bm_used :: "u8 list \<Rightarrow> nat \<Rightarrow> bool" where
  "bm_used d bi \<longleftrightarrow> d ! (bi div 8) AND bm_mask bi \<noteq> 0"

definition bm_set :: "nat \<Rightarrow> u8 list \<Rightarrow> u8 list" where
  "bm_set bi d = d[bi div 8 := d ! (bi div 8) OR bm_mask bi]"

definition bm_clear :: "nat \<Rightarrow> u8 list \<Rightarrow> u8 list" where
  "bm_clear bi d = d[bi div 8 := d ! (bi div 8) AND NOT (bm_mask bi)]"

text \<open>
  \<open>for(b = 0; b < sb.size; b += BPB)\<close>, with the number of iterations left; the inner loop is a
  search of one bitmap block, up to the end of the disk.
\<close>

fun balloc_loop :: "nat \<Rightarrow> u32 \<Rightarrow> nat \<Rightarrow> (u32, 'z fstate_scheme) kern" where
  "balloc_loop 0 dev b = panic ''balloc: out of blocks''"
| "balloc_loop (Suc k) dev b =
    bind (gets fssb) (\<lambda>sb.
    bind (bread dev (BBLOCK (of_nat b) sb)) (\<lambda>bp.
    bind (buf_get bp b_data) (\<lambda>d.
    case scan (\<lambda>bi. \<not> bm_used d bi) 0 (min BPB (unat (sb_size sb) - b)) of
      Some bi \<Rightarrow>
        andthen (set_data bp (bm_set bi)) (
        andthen (log_write bp) (
        andthen (brelse bp) (
        andthen (bzero dev (of_nat (b + bi)))
          (return (of_nat (b + bi))))))
    | None \<Rightarrow> andthen (brelse bp) (balloc_loop k dev (b + BPB)))))"

definition balloc :: "u32 \<Rightarrow> (u32, 'z fstate_scheme) kern" where
  "balloc dev = bind (gets (\<lambda>s. unat (sb_size (fssb s)))) (\<lambda>n. balloc_loop ((n + BPB - 1) div BPB) dev 0)"

definition bfree :: "u32 \<Rightarrow> u32 \<Rightarrow> (unit, 'z fstate_scheme) kern" where
  "bfree dev b =
    bind (gets fssb) (\<lambda>sb.
    bind (bread dev (BBLOCK b sb)) (\<lambda>bp.
    let bi = unat b mod BPB in
    bind (buf_get bp b_data) (\<lambda>d.
    if \<not> bm_used d bi then panic ''freeing free block'' else
    andthen (set_data bp (bm_clear bi)) (
    andthen (log_write bp)
      (brelse bp)))))"

section \<open>The inode cache\<close>

fun iinit_loop :: "nat \<Rightarrow> nat \<Rightarrow> (unit, 'z slstate_scheme) kern" where
  "iinit_loop 0 i = return ()"
| "iinit_loop (Suc k) i = andthen (initsleeplock (SL_inode i) ''inode'') (iinit_loop k (Suc i))"

definition sb_message :: "u8 list" where
  "sb_message = lit ''sb: size %d nblocks %d ninodes %d nlog %d logstart %d inodestart %d bmap start %d'' @ [NL]"

definition iinit :: "u32 \<Rightarrow> (unit, 'z fstate_scheme) kern" where
  "iinit dev =
    andthen (initlock L_icache ''icache'') (
    andthen (iinit_loop NINODE 0) (
    bind (readsb dev) (\<lambda>sb.
    andthen (modify (\<lambda>s. s\<lparr>fssb := sb\<rparr>))
      (cprintf (Some sb_message) (map int_arg [sb_size sb, sb_nblocks sb, sb_ninodes sb, sb_nlog sb,
         sb_logstart sb, sb_inodestart sb, sb_bmapstart sb])))))"

definition icached :: "u32 \<Rightarrow> u32 \<Rightarrow> inode list \<Rightarrow> nat option" where
  "icached dev inum t = scan (\<lambda>i. i_ref (t ! i) > 0 \<and> i_dev (t ! i) = dev \<and> i_inum (t ! i) = inum) 0 NINODE"

definition iempty :: "inode list \<Rightarrow> nat option" where
  "iempty t = scan (\<lambda>i. i_ref (t ! i) = 0) 0 NINODE"

definition iget :: "u32 \<Rightarrow> u32 \<Rightarrow> (nat, 'z fstate_scheme) kern" where
  "iget dev inum =
    andthen (acquire L_icache) (
    bind (gets inodes) (\<lambda>t.
    case icached dev inum t of
      Some ip \<Rightarrow>
        andthen (ino_set ip (\<lambda>i. i\<lparr>i_ref := i_ref i + 1\<rparr>)) (
        andthen (release L_icache) (return ip))
    | None \<Rightarrow>
       (case iempty t of
          None \<Rightarrow> panic ''iget: no inodes''
        | Some ip \<Rightarrow>
            andthen (ino_set ip (\<lambda>i. i\<lparr>i_dev := dev, i_inum := inum, i_ref := 1, i_valid := False\<rparr>)) (
            andthen (release L_icache) (return ip)))))"

fun ialloc_loop :: "nat \<Rightarrow> u32 \<Rightarrow> u16 \<Rightarrow> u32 \<Rightarrow> (nat, 'z fstate_scheme) kern" where
  "ialloc_loop 0 dev ty inum = panic ''ialloc: no inodes''"
| "ialloc_loop (Suc k) dev ty inum =
    bind (gets fssb) (\<lambda>sb.
    bind (bread dev (IBLOCK inum sb)) (\<lambda>bp.
    bind (buf_get bp b_data) (\<lambda>d.
    if d_type (get_dinode d inum) = 0 then
      andthen (set_data bp (put_dinode (zero_dinode\<lparr>d_type := ty\<rparr>) inum)) (
      andthen (log_write bp) (
      andthen (brelse bp)
        (iget dev inum)))
    else andthen (brelse bp) (ialloc_loop k dev ty (inum + 1)))))"

definition ialloc :: "u32 \<Rightarrow> u16 \<Rightarrow> (nat, 'z fstate_scheme) kern" where
  "ialloc dev ty = bind (gets (\<lambda>s. unat (sb_ninodes (fssb s)))) (\<lambda>n. ialloc_loop (n - 1) dev ty 1)"

definition iupdate :: "nat \<Rightarrow> (unit, 'z fstate_scheme) kern" where
  "iupdate ip =
    bind (ino_get ip id) (\<lambda>i.
    bind (gets fssb) (\<lambda>sb.
    bind (bread (i_dev i) (IBLOCK (i_inum i) sb)) (\<lambda>bp.
    andthen (set_data bp (put_dinode (i_d i) (i_inum i))) (
    andthen (log_write bp)
      (brelse bp)))))"

definition idup :: "nat \<Rightarrow> (nat, 'z fstate_scheme) kern" where
  "idup ip =
    andthen (acquire L_icache) (
    andthen (ino_set ip (\<lambda>i. i\<lparr>i_ref := i_ref i + 1\<rparr>)) (
    andthen (release L_icache) (return ip)))"

text \<open>A null inode pointer is \<open>None\<close>.\<close>

definition ilock :: "nat option \<Rightarrow> (unit, 'z fstate_scheme) kern" where
  "ilock ipo = (case ipo of None \<Rightarrow> panic ''ilock'' | Some ip \<Rightarrow>
    bind (ino_get ip i_ref) (\<lambda>r. if r < 1 then panic ''ilock'' else
    andthen (acquiresleep (SL_inode ip)) (
    bind (ino_get ip id) (\<lambda>i.
    whenk (\<not> i_valid i) (
      bind (gets fssb) (\<lambda>sb.
      bind (bread (i_dev i) (IBLOCK (i_inum i) sb)) (\<lambda>bp.
      bind (buf_get bp b_data) (\<lambda>d.
      andthen (din_set ip (\<lambda>_. get_dinode d (i_inum i))) (
      andthen (brelse bp) (
      andthen (ino_set ip (\<lambda>j. j\<lparr>i_valid := True\<rparr>)) (
      bind (ino_get ip (\<lambda>j. d_type (i_d j))) (\<lambda>ty.
      whenk (ty = 0) (panic ''ilock: no type'')))))))))))))"

definition iunlock :: "nat option \<Rightarrow> (unit, 'z fstate_scheme) kern" where
  "iunlock ipo = (case ipo of None \<Rightarrow> panic ''iunlock'' | Some ip \<Rightarrow>
    bind (holdingsleep (SL_inode ip)) (\<lambda>h. if \<not> h then panic ''iunlock'' else
    bind (ino_get ip i_ref) (\<lambda>r. if r < 1 then panic ''iunlock'' else
    releasesleep (SL_inode ip))))"

section \<open>The content of a file\<close>

definition addrs_get :: "nat \<Rightarrow> nat \<Rightarrow> (u32, 'z fstate_scheme) kern" where
  "addrs_get ip k = ino_get ip (\<lambda>i. d_addrs (i_d i) ! k)"

definition addrs_set :: "nat \<Rightarrow> nat \<Rightarrow> u32 \<Rightarrow> (unit, 'z fstate_scheme) kern" where
  "addrs_set ip k a = din_set ip (\<lambda>d. d\<lparr>d_addrs := (d_addrs d)[k := a]\<rparr>)"

text \<open>\<open>if((addr = ip->addrs[k]) == 0) ip->addrs[k] = addr = balloc(ip->dev)\<close>\<close>

definition addr_or_alloc :: "nat \<Rightarrow> nat \<Rightarrow> (u32, 'z fstate_scheme) kern" where
  "addr_or_alloc ip k =
    bind (addrs_get ip k) (\<lambda>a. if a \<noteq> 0 then return a else
    bind (ino_get ip i_dev) (\<lambda>dev.
    bind (balloc dev) (\<lambda>a'.
    andthen (addrs_set ip k a') (return a'))))"

definition bmap :: "nat \<Rightarrow> nat \<Rightarrow> (u32, 'z fstate_scheme) kern" where
  "bmap ip bn =
    (if bn < NDIRECT then addr_or_alloc ip bn
     else let k = bn - NDIRECT in
     if k < NINDIRECT then
       bind (addr_or_alloc ip NDIRECT) (\<lambda>a.
       bind (ino_get ip i_dev) (\<lambda>dev.
       bind (bread dev a) (\<lambda>bp.
       bind (buf_get bp (\<lambda>u. rd32 (b_data u) (4 * k))) (\<lambda>addr.
       bind (if addr \<noteq> 0 then return addr else
         bind (balloc dev) (\<lambda>a'.
         andthen (set_data bp (\<lambda>d. wr32 d (4 * k) a')) (
         andthen (log_write bp) (return a')))) (\<lambda>addr'.
       andthen (brelse bp) (return addr'))))))
     else panic ''bmap: out of range'')"

fun trunc_direct :: "nat \<Rightarrow> nat \<Rightarrow> nat \<Rightarrow> (unit, 'z fstate_scheme) kern" where
  "trunc_direct 0 ip i = return ()"
| "trunc_direct (Suc k) ip i =
    bind (addrs_get ip i) (\<lambda>a.
    andthen (whenk (a \<noteq> 0) (
      bind (ino_get ip i_dev) (\<lambda>dev.
      andthen (bfree dev a)
        (addrs_set ip i 0))))
      (trunc_direct k ip (Suc i)))"

fun trunc_indirect :: "nat \<Rightarrow> nat \<Rightarrow> nat \<Rightarrow> nat \<Rightarrow> (unit, 'z fstate_scheme) kern" where
  "trunc_indirect 0 ip bp j = return ()"
| "trunc_indirect (Suc k) ip bp j =
    bind (buf_get bp (\<lambda>u. rd32 (b_data u) (4 * j))) (\<lambda>a.
    andthen (whenk (a \<noteq> 0) (bind (ino_get ip i_dev) (\<lambda>dev. bfree dev a)))
      (trunc_indirect k ip bp (Suc j)))"

definition itrunc :: "nat \<Rightarrow> (unit, 'z fstate_scheme) kern" where
  "itrunc ip =
    andthen (trunc_direct NDIRECT ip 0) (
    bind (addrs_get ip NDIRECT) (\<lambda>a.
    andthen (whenk (a \<noteq> 0) (
      bind (ino_get ip i_dev) (\<lambda>dev.
      bind (bread dev a) (\<lambda>bp.
      andthen (trunc_indirect NINDIRECT ip bp 0) (
      andthen (brelse bp) (
      andthen (bfree dev a)
        (addrs_set ip NDIRECT 0))))))) (
    andthen (din_set ip (\<lambda>d. d\<lparr>d_size := 0\<rparr>))
      (iupdate ip))))"

definition iput :: "nat \<Rightarrow> (unit, 'z fstate_scheme) kern" where
  "iput ip =
    andthen (acquiresleep (SL_inode ip)) (
    bind (ino_get ip id) (\<lambda>i.
    andthen (whenk (i_valid i \<and> d_nlink (i_d i) = 0) (
      andthen (acquire L_icache) (
      bind (ino_get ip i_ref) (\<lambda>r.
      andthen (release L_icache)
        (whenk (r = 1) (
          andthen (itrunc ip) (
          andthen (din_set ip (\<lambda>d. d\<lparr>d_type := 0\<rparr>)) (
          andthen (iupdate ip)
            (ino_set ip (\<lambda>j. j\<lparr>i_valid := False\<rparr>)))))))))) (
    andthen (releasesleep (SL_inode ip)) (
    andthen (acquire L_icache) (
    andthen (ino_set ip (\<lambda>j. j\<lparr>i_ref := i_ref j - 1\<rparr>))
      (release L_icache))))))"

definition iunlockput :: "nat \<Rightarrow> (unit, 'z fstate_scheme) kern" where
  "iunlockput ip = andthen (iunlock (Some ip)) (iput ip)"

record stat =
  st_type :: u16
  st_dev :: u32
  st_ino :: u32
  st_nlink :: u16
  st_size :: u32

definition stati :: "nat \<Rightarrow> (stat, 'z fstate_scheme) kern" where
  "stati ip = ino_get ip (\<lambda>i. \<lparr>st_type = d_type (i_d i), st_dev = i_dev i, st_ino = i_inum i,
     st_nlink = d_nlink (i_d i), st_size = d_size (i_d i)\<rparr>)"

end
