(* ===== verification/Conin.thy ===== *)
theory Conin
  imports Fs
begin

text \<open>
  Console input and the console as a device: the line discipline of \<^verbatim>\<open>src/console.c\<close>
  (\<open>consoleintr\<close>, \<open>consoleread\<close>, \<open>consolewrite\<close>, \<open>consoleinit\<close>), the keyboard of \<^verbatim>\<open>src/kbd.c\<close> with the
  tables of \<^verbatim>\<open>src/kbd.h\<close>, the serial line's input and start in \<^verbatim>\<open>src/uart.c\<close>, and the interrupt
  controllers of \<^verbatim>\<open>src/ioapic.c\<close> and \<^verbatim>\<open>src/picirq.c\<close>. What a controller has pending when it
  interrupts is an argument: a list of bytes, oldest first.
\<close>

section \<open>State\<close>

definition NDEV :: nat where "NDEV = 10"
definition CONSOLE :: nat where "CONSOLE = 1"
definition INPUT_BUF :: nat where "INPUT_BUF = 128"
definition T_IRQ0 :: nat where "T_IRQ0 = 32"
definition IRQ_TIMER :: nat where "IRQ_TIMER = 0"
definition IRQ_KBD :: nat where "IRQ_KBD = 1"
definition IRQ_COM1 :: nat where "IRQ_COM1 = 4"
definition IRQ_IDE :: nat where "IRQ_IDE = 14"
definition IRQ_ERROR :: nat where "IRQ_ERROR = 19"
definition IRQ_SPURIOUS :: nat where "IRQ_SPURIOUS = 31"

text \<open>The function pointers a device table entry can hold.\<close>

datatype devfn = Fn_consoleread | Fn_consolewrite

record devsw =
  dv_read :: "devfn option"
  dv_write :: "devfn option"

record devices =
  dv_sw :: "devsw list"
  kbd_shift :: u32
  ioapic :: "nat \<Rightarrow> u32"
  ioapicid :: u32
  port_out :: "(u16 \<times> u8) list"

record dstate = fstate +
  devs :: devices

definition dev_set :: "(devices \<Rightarrow> devices) \<Rightarrow> (unit, 'z dstate_scheme) kern" where
  "dev_set f = modify (\<lambda>s. s\<lparr>devs := f (devs s)\<rparr>)"

definition outb :: "u16 \<Rightarrow> u8 \<Rightarrow> (unit, 'z dstate_scheme) kern" where
  "outb p v = dev_set (\<lambda>d. d\<lparr>port_out := port_out d @ [(p, v)]\<rparr>)"

section \<open>Interrupt controllers\<close>

definition REG_TABLE :: nat where "REG_TABLE = 16"
definition INT_DISABLED :: u32 where "INT_DISABLED = 0x10000"

definition ioapicread :: "nat \<Rightarrow> (u32, 'z dstate_scheme) kern" where
  "ioapicread r = gets (\<lambda>s. ioapic (devs s) r)"

definition ioapicwrite :: "nat \<Rightarrow> u32 \<Rightarrow> (unit, 'z dstate_scheme) kern" where
  "ioapicwrite r v = dev_set (\<lambda>d. d\<lparr>ioapic := (ioapic d)(r := v)\<rparr>)"

definition ioapicenable :: "nat \<Rightarrow> u32 \<Rightarrow> (unit, 'z dstate_scheme) kern" where
  "ioapicenable irq cpunum =
    andthen (ioapicwrite (REG_TABLE + 2 * irq) (of_nat (T_IRQ0 + irq)))
      (ioapicwrite (REG_TABLE + 2 * irq + 1) (push_bit 24 cpunum))"

fun ioapic_loop :: "nat \<Rightarrow> nat \<Rightarrow> (unit, 'z dstate_scheme) kern" where
  "ioapic_loop 0 i = return ()"
| "ioapic_loop (Suc k) i =
    andthen (ioapicwrite (REG_TABLE + 2 * i) (INT_DISABLED OR of_nat (T_IRQ0 + i))) (
    andthen (ioapicwrite (REG_TABLE + 2 * i + 1) 0)
      (ioapic_loop k (Suc i)))"

definition ioapicinit :: "(unit, 'z dstate_scheme) kern" where
  "ioapicinit =
    bind (ioapicread 1) (\<lambda>ver.
    bind (ioapicread 0) (\<lambda>idreg.
    bind (gets (\<lambda>s. ioapicid (devs s))) (\<lambda>aid.
    andthen (whenk (drop_bit 24 idreg \<noteq> aid)
      (cprintf (Some (lit ''ioapicinit: id isn't equal to ioapicid; not a MP'' @ [NL])) []))
      (ioapic_loop (Suc (unat (drop_bit 16 ver AND 0xFF))) 0))))"

definition picinit :: "(unit, 'z dstate_scheme) kern" where
  "picinit = andthen (outb 0x21 0xFF) (outb 0xA1 0xFF)"

section \<open>The line discipline\<close>

definition inp_at :: "u32 \<Rightarrow> nat" where
  "inp_at i = unat i mod INPUT_BUF"

text \<open>
  Kill line: \<open>while(input.e != input.w && input.buf[(input.e-1) % INPUT_BUF] != '\n')\<close>; every
  iteration brings \<open>e\<close> one closer to \<open>w\<close>, so it starts with the number of bytes between them.
\<close>

fun kill_line :: "nat \<Rightarrow> (unit, console) kern" where
  "kill_line 0 = return ()"
| "kill_line (Suc n) =
    bind (gets id) (\<lambda>k.
    if inp_e k \<noteq> inp_w k \<and> inp_buf k ! inp_at (inp_e k - 1) \<noteq> NL then
      andthen (modify (\<lambda>k. k\<lparr>inp_e := inp_e k - 1\<rparr>)) (
      andthen (consputc BACKSPACE)
        (kill_line n))
    else return ())"

definition erase_char :: "(unit, console) kern" where
  "erase_char =
    bind (gets (\<lambda>k. inp_e k \<noteq> inp_w k)) (\<lambda>b.
    whenk b (
      andthen (modify (\<lambda>k. k\<lparr>inp_e := inp_e k - 1\<rparr>))
        (consputc BACKSPACE)))"

text \<open>The default case: true when the line is complete and its readers are to be woken.\<close>

definition add_char :: "u32 \<Rightarrow> (bool, console) kern" where
  "add_char c0 =
    bind (gets (\<lambda>k. inp_e k - inp_r k < of_nat INPUT_BUF)) (\<lambda>room.
    if c0 \<noteq> 0 \<and> room then
      let c = if c0 = 13 then 10 else c0 in
      andthen (modify (\<lambda>k. k\<lparr>inp_buf := (inp_buf k)[inp_at (inp_e k) := ucast c], inp_e := inp_e k + 1\<rparr>)) (
      andthen (consputc c) (
      bind (gets (\<lambda>k. c = 10 \<or> c = 4 \<or> inp_e k = inp_r k + of_nat INPUT_BUF)) (\<lambda>eol.
      andthen (whenk eol (modify (\<lambda>k. k\<lparr>inp_w := inp_e k\<rparr>)))
        (return eol))))
    else return False)"

text \<open>One character; true for control-P, which asks for the process listing.\<close>

definition cons_char :: "u32 \<Rightarrow> (bool, 'z pstate_scheme) kern" where
  "cons_char c =
    (if c = 16 then return True
     else if c = 21 then
       andthen (on_con (bind (gets (\<lambda>k. unat (inp_e k - inp_w k))) kill_line)) (return False)
     else if c = 8 \<or> c = 127 then andthen (on_con erase_char) (return False)
     else bind (on_con (add_char c)) (\<lambda>eol.
       andthen (whenk eol (wakeup ChInput)) (return False)))"

text \<open>
  \<open>while((c = getc()) >= 0)\<close> over what the device has pending; a device with nothing pending
  answers -1.
\<close>

fun consoleintr_loop :: "(u8 option \<Rightarrow> (int, 'z pstate_scheme) kern) \<Rightarrow> u8 list \<Rightarrow> bool
    \<Rightarrow> (bool, 'z pstate_scheme) kern" where
  "consoleintr_loop getc [] dump = bind (getc None) (\<lambda>c. if c < 0 then return dump else hang)"
| "consoleintr_loop getc (b # bs) dump =
    bind (getc (Some b)) (\<lambda>c.
    if c < 0 then return dump else
    bind (cons_char (word_of_int c)) (\<lambda>d. consoleintr_loop getc bs (dump \<or> d)))"

definition consoleintr :: "(u8 option \<Rightarrow> (int, 'z pstate_scheme) kern) \<Rightarrow> u8 list
    \<Rightarrow> (unit, 'z pstate_scheme) kern" where
  "consoleintr getc pending =
    andthen (acquire L_cons) (
    bind (consoleintr_loop getc pending False) (\<lambda>dump.
    andthen (release L_cons)
      (whenk dump procdump)))"

section \<open>Keyboard and serial line\<close>

text \<open>A 256-entry table: the leading entries, the designated ones, zero elsewhere.\<close>

definition key_at :: "u8 list \<Rightarrow> (nat \<times> u8) list \<Rightarrow> nat \<Rightarrow> u8" where
  "key_at low extra d = (if d < length low then low ! d
     else case map_of extra d of Some c \<Rightarrow> c | None \<Rightarrow> 0)"

definition keypad :: "(nat \<times> u8) list" where
  "keypad = [(200, 226), (208, 227), (201, 230), (209, 231), (203, 228), (205, 229), (151, 224), (207, 225), (210, 232), (211, 233)]"

definition shiftcode :: "u32 \<Rightarrow> u32" where
  "shiftcode d = ucast (key_at [] [(29, 2), (42, 1), (54, 1), (56, 4), (157, 2), (184, 4)] (unat d))"

definition togglecode :: "u32 \<Rightarrow> u32" where
  "togglecode d = ucast (key_at [] [(58, 8), (69, 16), (70, 32)] (unat d))"

definition normalmap :: "u32 \<Rightarrow> u32" where
  "normalmap d = ucast (key_at
    [0, 27, 49, 50, 51, 52, 53, 54, 55, 56, 57, 48, 45, 61, 8, 9,
     113, 119, 101, 114, 116, 121, 117, 105, 111, 112, 91, 93, 10, 0, 97, 115,
     100, 102, 103, 104, 106, 107, 108, 59, 39, 96, 0, 92, 122, 120, 99, 118,
     98, 110, 109, 44, 46, 47, 0, 42, 0, 32, 0, 0, 0, 0, 0, 0,
     0, 0, 0, 0, 0, 0, 0, 55, 56, 57, 45, 52, 53, 54, 43, 49,
     50, 51, 48, 46, 0, 0, 0, 0]
    ([(156, 10), (181, 47)] @ keypad) (unat d))"

definition shiftmap :: "u32 \<Rightarrow> u32" where
  "shiftmap d = ucast (key_at
    [0, 27, 33, 64, 35, 36, 37, 94, 38, 42, 40, 41, 95, 43, 8, 9,
     81, 87, 69, 82, 84, 89, 85, 73, 79, 80, 123, 125, 10, 0, 65, 83,
     68, 70, 71, 72, 74, 75, 76, 58, 34, 126, 0, 124, 90, 88, 67, 86,
     66, 78, 77, 60, 62, 63, 0, 42, 0, 32, 0, 0, 0, 0, 0, 0,
     0, 0, 0, 0, 0, 0, 0, 55, 56, 57, 45, 52, 53, 54, 43, 49,
     50, 51, 48, 46, 0, 0, 0, 0]
    ([(156, 10), (181, 47)] @ keypad) (unat d))"

definition ctlmap :: "u32 \<Rightarrow> u32" where
  "ctlmap d = ucast (key_at
    [0, 0, 0, 0, 0, 0, 0, 0, 0, 0, 0, 0, 0, 0, 0, 0,
     17, 23, 5, 18, 20, 25, 21, 9, 15, 16, 0, 0, 13, 0, 1, 19,
     4, 6, 7, 8, 10, 11, 12, 0, 0, 0, 0, 28, 26, 24, 3, 22,
     2, 14, 13, 0, 0, 239, 0, 0]
    ([(156, 13), (181, 239)] @ keypad) (unat d))"

definition E0ESC :: u32 where "E0ESC = 64"

definition charcode :: "u32 \<Rightarrow> u32 \<Rightarrow> u32" where
  "charcode sh d = (if sh AND 3 = 0 then normalmap d else if sh AND 3 = 1 then shiftmap d else ctlmap d)"

definition swap_case :: "u32 \<Rightarrow> u32" where
  "swap_case c = (if 97 \<le> c \<and> c \<le> 122 then c - 32 else if 65 \<le> c \<and> c \<le> 90 then c + 32 else c)"

definition set_shift :: "u32 \<Rightarrow> (unit, 'z dstate_scheme) kern" where
  "set_shift x = dev_set (\<lambda>d. d\<lparr>kbd_shift := x\<rparr>)"

definition kbdgetc :: "u8 option \<Rightarrow> (int, 'z dstate_scheme) kern" where
  "kbdgetc port = (case port of None \<Rightarrow> return (-1) | Some b \<Rightarrow>
    let d = ucast b :: u32 in
    bind (gets (\<lambda>s. kbd_shift (devs s))) (\<lambda>sh.
    if d = 0xE0 then andthen (set_shift (sh OR E0ESC)) (return 0)
    else if d AND 0x80 \<noteq> 0 then
      let d' = if sh AND E0ESC \<noteq> 0 then d else d AND 0x7F in
      andthen (set_shift (sh AND NOT (shiftcode d' OR E0ESC))) (return 0)
    else
      let d' = if sh AND E0ESC \<noteq> 0 then d OR 0x80 else d;
          sh1 = if sh AND E0ESC \<noteq> 0 then sh AND NOT E0ESC else sh;
          sh2 = (sh1 OR shiftcode d') XOR togglecode d';
          c = charcode sh2 d' in
      andthen (set_shift sh2)
        (return (uint (if sh2 AND 8 \<noteq> 0 then swap_case c else c)))))"

definition kbdintr :: "u8 list \<Rightarrow> (unit, 'z dstate_scheme) kern" where
  "kbdintr = consoleintr kbdgetc"

definition uartgetc :: "u8 option \<Rightarrow> (int, 'z dstate_scheme) kern" where
  "uartgetc port = bind (gets (\<lambda>s. uart (con s))) (\<lambda>u.
    return (if \<not> u then -1 else case port of None \<Rightarrow> -1 | Some b \<Rightarrow> uint b))"

definition uartintr :: "u8 list \<Rightarrow> (unit, 'z dstate_scheme) kern" where
  "uartintr = consoleintr uartgetc"

fun uartputs :: "u8 list \<Rightarrow> (unit, console) kern" where
  "uartputs [] = return ()"
| "uartputs (b # bs) = andthen (uartputc (ucast b)) (uartputs bs)"

text \<open>\<open>status\<close> is what the line status port reads; all ones means that there is no port.\<close>

definition uartinit :: "u8 \<Rightarrow> (unit, 'z dstate_scheme) kern" where
  "uartinit status =
    andthen (outb 0x3FA 0) (
    andthen (outb 0x3FB 0x80) (
    andthen (outb 0x3F8 12) (
    andthen (outb 0x3F9 0) (
    andthen (outb 0x3FB 3) (
    andthen (outb 0x3FC 0) (
    andthen (outb 0x3F9 1) (
    whenk (status \<noteq> 0xFF) (
      andthen (on_con (modify (\<lambda>k. k\<lparr>uart := True\<rparr>))) (
      andthen (ioapicenable IRQ_COM1 0)
        (on_con (uartputs (lit ''xv6...'' @ [NL]))))))))))))"

section \<open>The console as a device\<close>

text \<open>
  Where \<open>readi\<close> and \<open>consoleread\<close> put bytes: an address, or a variable of the caller, whose bytes
  are part of the result. Where \<open>writei\<close> and \<open>consolewrite\<close> take them from: an address or a variable.
\<close>

datatype dest = ToMem u32 | ToVar
datatype source = FromMem u32 | FromVar "u8 list"

definition put_dst :: "dest \<Rightarrow> nat \<Rightarrow> u8 list \<Rightarrow> (unit, 'z base_scheme) kern" where
  "put_dst dst i bs = (case dst of ToMem a \<Rightarrow> vputs (a + of_nat i) bs | ToVar \<Rightarrow> return ())"

definition get_src :: "source \<Rightarrow> nat \<Rightarrow> nat \<Rightarrow> (u8 list, 'z base_scheme) kern" where
  "get_src src i n = (case src of FromMem a \<Rightarrow> vgets (a + of_nat i) n
     | FromVar bs \<Rightarrow> return (take n (drop i bs)))"

text \<open>
  The read loop with \<open>k\<close> bytes still wanted and \<open>acc\<close> already delivered; \<open>cons.lock\<close> is held. A
  reader that finds no input sleeps and resumes at the same point.
\<close>

definition consoleread_end :: "nat \<Rightarrow> u8 list \<Rightarrow> (int \<times> u8 list, 'z fstate_scheme) kern" where
  "consoleread_end ip acc =
    andthen (release L_cons) (
    andthen (ilock (Some ip)) (return (int (length acc), acc)))"

fun consoleread_loop :: "nat \<Rightarrow> nat \<Rightarrow> dest \<Rightarrow> u8 list \<Rightarrow> (int \<times> u8 list, 'z fstate_scheme) kern" where
  "consoleread_loop ip 0 dst acc = consoleread_end ip acc"
| "consoleread_loop ip (Suc k) dst acc =
    bind (gets con) (\<lambda>c.
    if inp_r c = inp_w c then
      bind the_proc (\<lambda>me.
      bind (proc_get me p_killed) (\<lambda>killed.
      if killed then andthen (release L_cons) (andthen (ilock (Some ip)) (return (-1, acc)))
      else sleep ChInput (Some L_cons)))
    else
      let ch = inp_buf c ! inp_at (inp_r c) in
      andthen (on_con (modify (\<lambda>c. c\<lparr>inp_r := inp_r c + 1\<rparr>))) (
      if ch = 4 then
        andthen (whenk (acc \<noteq> []) (on_con (modify (\<lambda>c. c\<lparr>inp_r := inp_r c - 1\<rparr>))))
          (consoleread_end ip acc)
      else
        andthen (put_dst dst (length acc) [ch]) (
        if ch = NL then consoleread_end ip (acc @ [ch])
        else consoleread_loop ip k dst (acc @ [ch]))))"

definition consoleread :: "nat \<Rightarrow> dest \<Rightarrow> u32 \<Rightarrow> (int \<times> u8 list, 'z fstate_scheme) kern" where
  "consoleread ip dst n =
    andthen (iunlock (Some ip)) (
    andthen (acquire L_cons)
      (consoleread_loop ip (nat (sint n)) dst []))"

definition consoleread_resume :: "nat \<Rightarrow> u32 \<Rightarrow> nat \<Rightarrow> nat \<Rightarrow> dest \<Rightarrow> u8 list
    \<Rightarrow> (int \<times> u8 list, 'z fstate_scheme) kern" where
  "consoleread_resume me intena ip k dst acc =
    andthen (sleep_resume me intena L_cons) (consoleread_loop ip k dst acc)"

fun consolewrite_loop :: "nat \<Rightarrow> nat \<Rightarrow> source \<Rightarrow> (unit, 'z fstate_scheme) kern" where
  "consolewrite_loop 0 i src = return ()"
| "consolewrite_loop (Suc k) i src =
    bind (get_src src i 1) (\<lambda>bs.
    andthen (on_con (consputc (ucast (bs ! 0))))
      (consolewrite_loop k (Suc i) src))"

definition consolewrite :: "nat \<Rightarrow> source \<Rightarrow> u32 \<Rightarrow> (int, 'z fstate_scheme) kern" where
  "consolewrite ip src n =
    andthen (iunlock (Some ip)) (
    andthen (acquire L_cons) (
    andthen (consolewrite_loop (nat (sint n)) 0 src) (
    andthen (release L_cons) (
    andthen (ilock (Some ip))
      (return (sint n))))))"

definition consoleinit :: "(unit, 'z dstate_scheme) kern" where
  "consoleinit =
    andthen (initlock L_cons ''console'') (
    andthen (dev_set (\<lambda>d. d\<lparr>dv_sw := upd CONSOLE (\<lambda>v. v\<lparr>dv_write := Some Fn_consolewrite\<rparr>) (dv_sw d)\<rparr>)) (
    andthen (dev_set (\<lambda>d. d\<lparr>dv_sw := upd CONSOLE (\<lambda>v. v\<lparr>dv_read := Some Fn_consoleread\<rparr>) (dv_sw d)\<rparr>)) (
    andthen (on_con (modify (\<lambda>k. k\<lparr>cn_locking := True\<rparr>)))
      (ioapicenable IRQ_KBD 0))))"

end
