(* ===== verification/Dir.thy ===== *)
theory Dir
  imports Conin
begin

text \<open>
  File contents, directories and path names, \<^verbatim>\<open>src/fs.c\<close> from \<open>readi\<close> on.
\<close>

section \<open>Reading and writing\<close>

definition dev_fn :: "(devsw \<Rightarrow> devfn option) \<Rightarrow> u16 \<Rightarrow> (devfn option, 'z dstate_scheme) kern" where
  "dev_fn sel mj =
    (if sint mj < 0 \<or> sint mj \<ge> int NDEV then return None
     else gets (\<lambda>s. sel (dv_sw (devs s) ! nat (sint mj))))"

definition chunk :: "nat \<Rightarrow> nat \<Rightarrow> nat" where
  "chunk off n = min n (BSIZE - off mod BSIZE)"

lemma chunk_pos: "0 < n \<Longrightarrow> 0 < chunk off n"
  by (simp add: chunk_def BSIZE_def)

text \<open>
  The copy loops, with \<open>n\<close> bytes left of which \<open>tot\<close> are done. Each turn moves \<open>chunk off n\<close> bytes, at
  least one.
\<close>

function readi_loop :: "nat \<Rightarrow> dest \<Rightarrow> nat \<Rightarrow> nat \<Rightarrow> nat \<Rightarrow> (u8 list, 'z fstate_scheme) kern" where
  "readi_loop ip dst tot off n =
    (if n = 0 then return [] else
     bind (ino_get ip i_dev) (\<lambda>dev.
     bind (bmap ip (off div BSIZE)) (\<lambda>a.
     bind (bread dev a) (\<lambda>bp.
     bind (buf_get bp (\<lambda>u. take (chunk off n) (drop (off mod BSIZE) (b_data u)))) (\<lambda>bs.
     andthen (put_dst dst tot bs) (
     andthen (brelse bp) (
     bind (readi_loop ip dst (tot + chunk off n) (off + chunk off n) (n - chunk off n)) (\<lambda>rest.
     return (bs @ rest)))))))))"
  by pat_completeness auto
termination
  by (relation "measure (\<lambda>(ip, dst, tot, off, n). n)") (auto simp: chunk_pos)

definition readi :: "nat \<Rightarrow> dest \<Rightarrow> u32 \<Rightarrow> u32 \<Rightarrow> (int \<times> u8 list, 'z dstate_scheme) kern" where
  "readi ip dst off n =
    bind (ino_get ip i_d) (\<lambda>d.
    if d_type d = T_DEV then
      bind (dev_fn dv_read (d_major d)) (\<lambda>f.
      case f of Some Fn_consoleread \<Rightarrow> consoleread ip dst n
      | Some Fn_consolewrite \<Rightarrow> panic ''undefined behaviour''
      | None \<Rightarrow> return (-1, []))
    else if off > d_size d \<or> off + n < off then return (-1, [])
    else
      let n' = if off + n > d_size d then d_size d - off else n in
      bind (readi_loop ip dst 0 (unat off) (unat n')) (\<lambda>bs. return (sint n', bs)))"

function writei_loop :: "nat \<Rightarrow> source \<Rightarrow> nat \<Rightarrow> nat \<Rightarrow> nat \<Rightarrow> (unit, 'z fstate_scheme) kern" where
  "writei_loop ip src tot off n =
    (if n = 0 then return () else
     bind (ino_get ip i_dev) (\<lambda>dev.
     bind (bmap ip (off div BSIZE)) (\<lambda>a.
     bind (bread dev a) (\<lambda>bp.
     bind (get_src src tot (chunk off n)) (\<lambda>bs.
     andthen (set_data bp (\<lambda>d. blit d (off mod BSIZE) bs)) (
     andthen (log_write bp) (
     andthen (brelse bp)
       (writei_loop ip src (tot + chunk off n) (off + chunk off n) (n - chunk off n)))))))))"
  by pat_completeness auto
termination
  by (relation "measure (\<lambda>(ip, src, tot, off, n). n)") (auto simp: chunk_pos)

declare readi_loop.simps [simp del] writei_loop.simps [simp del]

definition writei :: "nat \<Rightarrow> source \<Rightarrow> u32 \<Rightarrow> u32 \<Rightarrow> (int, 'z dstate_scheme) kern" where
  "writei ip src off n =
    bind (ino_get ip i_d) (\<lambda>d.
    if d_type d = T_DEV then
      bind (dev_fn dv_write (d_major d)) (\<lambda>f.
      case f of Some Fn_consolewrite \<Rightarrow> consolewrite ip src n
      | Some Fn_consoleread \<Rightarrow> panic ''undefined behaviour''
      | None \<Rightarrow> return (-1))
    else if off > d_size d \<or> off + n < off then return (-1)
    else if off + n > of_nat (MAXFILE * BSIZE) then return (-1)
    else
      andthen (writei_loop ip src 0 (unat off) (unat n)) (
      bind (ino_get ip (\<lambda>i. d_size (i_d i))) (\<lambda>sz.
      andthen (whenk (n > 0 \<and> off + n > sz) (
        andthen (din_set ip (\<lambda>d. d\<lparr>d_size := off + n\<rparr>))
          (iupdate ip)))
        (return (sint n)))))"

section \<open>Directories\<close>

definition DIRSIZ :: nat where "DIRSIZ = 14"
definition sizeof_de :: u32 where "sizeof_de = 16"

record dirent =
  de_inum :: u16
  de_name :: "u8 list"

definition bytes_dirent :: "u8 list \<Rightarrow> dirent" where
  "bytes_dirent bs = \<lparr>de_inum = of_le16 (take 2 bs), de_name = take DIRSIZ (drop 2 bs)\<rparr>"

definition dirent_bytes :: "dirent \<Rightarrow> u8 list" where
  "dirent_bytes e = le16 (de_inum e) @ de_name e"

definition namecmp :: "u8 list \<Rightarrow> u8 list \<Rightarrow> int" where
  "namecmp s t = strncmp s t DIRSIZ"

text \<open>Reading the entry at an offset; \<open>what\<close> is the message of a short read.\<close>

definition read_dirent :: "string \<Rightarrow> nat \<Rightarrow> u32 \<Rightarrow> (dirent, 'z dstate_scheme) kern" where
  "read_dirent what dp off =
    bind (readi dp ToVar off sizeof_de) (\<lambda>(r, bs).
    if r \<noteq> 16 then panic what else return (bytes_dirent bs))"

text \<open>
  \<open>for(off = 0; off < dp->size; off += sizeof(de))\<close>: with the number of entries the size holds, the
  last possibly partial.
\<close>

definition entries :: "u32 \<Rightarrow> nat" where
  "entries sz = (unat sz + 15) div 16"

fun dirlookup_loop :: "nat \<Rightarrow> nat \<Rightarrow> u8 list \<Rightarrow> u32 \<Rightarrow> ((nat \<times> u32) option, 'z dstate_scheme) kern" where
  "dirlookup_loop 0 dp name off = return None"
| "dirlookup_loop (Suc k) dp name off =
    bind (read_dirent ''dirlookup read'' dp off) (\<lambda>e.
    if de_inum e \<noteq> 0 \<and> namecmp name (de_name e) = 0 then
      bind (ino_get dp i_dev) (\<lambda>dev.
      bind (iget dev (ucast (de_inum e))) (\<lambda>ip. return (Some (ip, off))))
    else dirlookup_loop k dp name (off + sizeof_de))"

text \<open>The inode found and the offset of its entry.\<close>

definition dirlookup :: "nat \<Rightarrow> u8 list \<Rightarrow> ((nat \<times> u32) option, 'z dstate_scheme) kern" where
  "dirlookup dp name =
    bind (ino_get dp i_d) (\<lambda>d.
    if d_type d \<noteq> T_DIR then panic ''dirlookup not DIR''
    else dirlookup_loop (entries (d_size d)) dp name 0)"

fun free_slot_loop :: "nat \<Rightarrow> nat \<Rightarrow> u32 \<Rightarrow> (u32, 'z dstate_scheme) kern" where
  "free_slot_loop 0 dp off = return off"
| "free_slot_loop (Suc k) dp off =
    bind (read_dirent ''dirlink read'' dp off) (\<lambda>e.
    if de_inum e = 0 then return off else free_slot_loop k dp (off + sizeof_de))"

definition dirlink :: "nat \<Rightarrow> u8 list \<Rightarrow> u32 \<Rightarrow> (int, 'z dstate_scheme) kern" where
  "dirlink dp name inum =
    bind (dirlookup dp name) (\<lambda>r.
    case r of
      Some (ip, _) \<Rightarrow> andthen (iput ip) (return (-1))
    | None \<Rightarrow>
      bind (ino_get dp (\<lambda>i. d_size (i_d i))) (\<lambda>sz.
      bind (free_slot_loop (entries sz) dp 0) (\<lambda>off.
      bind (writei dp (FromVar (dirent_bytes \<lparr>de_inum = ucast inum, de_name = strncpy name DIRSIZ\<rparr>))
              off sizeof_de) (\<lambda>r.
      if r \<noteq> 16 then panic ''dirlink'' else return 0))))"

section \<open>Path names\<close>

text \<open>\<open>skipelem\<close>: the rest of the path and the element, cut to \<open>DIRSIZ\<close> bytes; \<open>None\<close> is the null pointer.\<close>

definition SLASH :: u8 where "SLASH = 47"

definition skipelem :: "u8 list \<Rightarrow> (u8 list \<times> u8 list) option" where
  "skipelem path =
    (let p = dropWhile (\<lambda>c. c = SLASH) path in
     if ch p = 0 then None else
     let s = takeWhile (\<lambda>c. c \<noteq> SLASH \<and> c \<noteq> 0) p;
         q = dropWhile (\<lambda>c. c \<noteq> SLASH \<and> c \<noteq> 0) p in
     Some (dropWhile (\<lambda>c. c = SLASH) q, if length s \<ge> DIRSIZ then take DIRSIZ s else s))"

lemma skipelem_shorter:
  assumes "skipelem path = Some (q, name)"
  shows "length q < length path"
proof -
  define p where "p = dropWhile (\<lambda>c. c = SLASH) path"
  have p: "ch p \<noteq> 0" and q: "q = dropWhile (\<lambda>c. c = SLASH) (dropWhile (\<lambda>c. c \<noteq> SLASH \<and> c \<noteq> 0) p)"
    using assms by (auto simp: skipelem_def Let_def p_def split: if_splits)
  obtain c cs where pc: "p = c # cs" using p by (cases p) (auto simp: ch_def)
  have "p \<noteq> []" using pc by simp
  from hd_dropWhile [OF this [unfolded p_def]] pc have "c \<noteq> SLASH" by (simp add: p_def)
  moreover have "c \<noteq> 0" using p pc by (simp add: ch_def)
  ultimately have "length q \<le> length cs"
    using q pc by (simp add: order_trans [OF length_dropWhile_le length_dropWhile_le])
  moreover have "length p \<le> length path" by (simp add: p_def length_dropWhile_le)
  ultimately show ?thesis using pc by simp
qed

text \<open>The loop of \<open>namex\<close>: every turn takes an element off the path.\<close>

function namex_loop :: "u8 list \<Rightarrow> bool \<Rightarrow> nat \<Rightarrow> u8 list \<Rightarrow> ((nat \<times> u8 list) option, 'z dstate_scheme) kern" where
  "namex_loop path parent ip name0 =
    (case skipelem path of
       None \<Rightarrow> if parent then andthen (iput ip) (return None) else return (Some (ip, name0))
     | Some (path', name) \<Rightarrow>
         andthen (ilock (Some ip)) (
         bind (ino_get ip (\<lambda>i. d_type (i_d i))) (\<lambda>ty.
         if ty \<noteq> T_DIR then andthen (iunlockput ip) (return None)
         else if parent \<and> ch path' = 0 then andthen (iunlock (Some ip)) (return (Some (ip, name)))
         else bind (dirlookup ip name) (\<lambda>r.
           case r of
             None \<Rightarrow> andthen (iunlockput ip) (return None)
           | Some (nxt, _) \<Rightarrow> andthen (iunlockput ip) (namex_loop path' parent nxt name)))))"
  by pat_completeness auto
termination
  by (relation "measure (\<lambda>(path, _). length path)") (auto dest: skipelem_shorter)

declare namex_loop.simps [simp del]

definition namex :: "u8 list \<Rightarrow> bool \<Rightarrow> ((nat \<times> u8 list) option, 'z dstate_scheme) kern" where
  "namex path parent =
    bind (if ch path = SLASH then iget ROOTDEV ROOTINO
          else bind the_proc (\<lambda>me.
            bind (proc_get me p_cwd) (\<lambda>cwd.
            case cwd of None \<Rightarrow> panic ''trap'' | Some d \<Rightarrow> idup d))) (\<lambda>ip.
    namex_loop path parent ip [])"

definition namei :: "u8 list \<Rightarrow> (nat option, 'z dstate_scheme) kern" where
  "namei path = bind (namex path False) (\<lambda>r. return (map_option fst r))"

definition nameiparent :: "u8 list \<Rightarrow> ((nat \<times> u8 list) option, 'z dstate_scheme) kern" where
  "nameiparent path = namex path True"

end
