(* ===== verification/Utils.thy ===== *)
theory Utils
  imports Ulib Dir
begin

text \<open>
  The small user programs: \<^verbatim>\<open>src/cat.c\<close>, \<^verbatim>\<open>wc.c\<close>, \<^verbatim>\<open>ls.c\<close>, \<^verbatim>\<open>echo.c\<close>, \<^verbatim>\<open>rm.c\<close>, \<^verbatim>\<open>mkdir.c\<close>, \<^verbatim>\<open>ln.c\<close>,
  \<^verbatim>\<open>kill.c\<close>, the tools of the scheduler \<^verbatim>\<open>ps.c\<close>, \<^verbatim>\<open>pstats.c\<close> and \<^verbatim>\<open>sq.c\<close>, \<^verbatim>\<open>init.c\<close>, and the demonstration
  programs. \<open>argv\<close> includes the name of the program. A loop that goes on for as long as the system calls
  say takes fuel.
\<close>

section \<open>cat and wc\<close>

fun cat_loop :: "'w os \<Rightarrow> nat \<Rightarrow> int \<Rightarrow> (unit, 'w) kern" where
  "cat_loop os 0 fd = hang"
| "cat_loop os (Suc k) fd =
    bind (os_read os fd 512) (\<lambda>(n, buf).
    if n > 0 then
      bind (os_write os 1 (take (nat n) buf)) (\<lambda>m.
      andthen (whenk (m \<noteq> n) (andthen (printf os 1 (text_of ''cat: write error'' @ [10]) []) (exit_u os)))
        (cat_loop os k fd))
    else if n < 0 then andthen (printf os 1 (text_of ''cat: read error'' @ [10]) []) (exit_u os)
    else return ())"

fun cat_files :: "'w os \<Rightarrow> nat \<Rightarrow> u8 list list \<Rightarrow> (unit, 'w) kern" where
  "cat_files os fuel [] = exit_u os"
| "cat_files os fuel (name # names) =
    bind (os_open os name 0) (\<lambda>fd.
    if fd < 0 then andthen (printf os 1 (text_of ''cat: cannot open %s'' @ [10]) [sarg name]) (exit_u os)
    else andthen (cat_loop os fuel fd) (andthen (os_close os fd) (cat_files os fuel names)))"

definition cat_main :: "'w os \<Rightarrow> nat \<Rightarrow> u8 list list \<Rightarrow> (unit, 'w) kern" where
  "cat_main os fuel argv =
    (if length argv \<le> 1 then andthen (cat_loop os fuel 0) (exit_u os) else cat_files os fuel (tl argv))"

record wcount =
  wc_l :: u32
  wc_w :: u32
  wc_c :: u32
  wc_inword :: bool

definition wc_blank :: "u8 list" where "wc_blank = [32, 13, 9, 10, 11]"

definition wc_byte :: "u8 \<Rightarrow> wcount \<Rightarrow> wcount" where
  "wc_byte b s =
    (let s = s\<lparr>wc_c := wc_c s + 1, wc_l := (if b = 10 then wc_l s + 1 else wc_l s)\<rparr> in
     if strchr wc_blank b \<noteq> None then s\<lparr>wc_inword := False\<rparr>
     else if \<not> wc_inword s then s\<lparr>wc_w := wc_w s + 1, wc_inword := True\<rparr>
     else s)"

fun wc_loop :: "'w os \<Rightarrow> nat \<Rightarrow> int \<Rightarrow> u8 list \<Rightarrow> wcount \<Rightarrow> (unit, 'w) kern" where
  "wc_loop os 0 fd name s = hang"
| "wc_loop os (Suc k) fd name s =
    bind (os_read os fd 512) (\<lambda>(n, buf).
    if n > 0 then wc_loop os k fd name (fold wc_byte (take (nat n) buf) s)
    else if n < 0 then andthen (printf os 1 (text_of ''wc: read error'' @ [10]) []) (exit_u os)
    else printf os 1 (text_of ''%d %d %d %s'' @ [10]) [narg (wc_l s), narg (wc_w s), narg (wc_c s), sarg name])"

definition wc_start :: wcount where
  "wc_start = \<lparr>wc_l = 0, wc_w = 0, wc_c = 0, wc_inword = False\<rparr>"

definition wc :: "'w os \<Rightarrow> nat \<Rightarrow> int \<Rightarrow> u8 list \<Rightarrow> (unit, 'w) kern" where
  "wc os fuel fd name = wc_loop os fuel fd name wc_start"

fun wc_files :: "'w os \<Rightarrow> nat \<Rightarrow> u8 list list \<Rightarrow> (unit, 'w) kern" where
  "wc_files os fuel [] = exit_u os"
| "wc_files os fuel (name # names) =
    bind (os_open os name 0) (\<lambda>fd.
    if fd < 0 then andthen (printf os 1 (text_of ''wc: cannot open %s'' @ [10]) [sarg name]) (exit_u os)
    else andthen (wc os fuel fd name) (andthen (os_close os fd) (wc_files os fuel names)))"

definition wc_main :: "'w os \<Rightarrow> nat \<Rightarrow> u8 list list \<Rightarrow> (unit, 'w) kern" where
  "wc_main os fuel argv =
    (if length argv \<le> 1 then andthen (wc os fuel 0 []) (exit_u os) else wc_files os fuel (tl argv))"

section \<open>ls\<close>

text \<open>\<open>fmtname\<close>: the name behind the last slash, padded with blanks to \<open>DIRSIZ\<close>.\<close>

definition base_name :: "u8 list \<Rightarrow> u8 list" where
  "base_name path = rev (takeWhile (\<lambda>c. c \<noteq> 47) (rev path))"

definition fmtname :: "u8 list \<Rightarrow> u8 list" where
  "fmtname path =
    (let p = base_name path in
     if length p \<ge> DIRSIZ then p else p @ replicate (DIRSIZ - length p) 32)"

definition ls_line :: "'w os \<Rightarrow> u8 list \<Rightarrow> ustat \<Rightarrow> (unit, 'w) kern" where
  "ls_line os path st =
    printf os 1 (text_of ''%s %d %d %d'' @ [10])
      [sarg (fmtname path), narg (word_of_int (us_type st)), narg (us_ino st), narg (us_size st)]"

text \<open>A directory entry of 16 bytes: \<open>de.inum\<close>, a short, and the name of \<open>DIRSIZ\<close> bytes.\<close>

fun ls_dir :: "'w os \<Rightarrow> nat \<Rightarrow> int \<Rightarrow> u8 list \<Rightarrow> (unit, 'w) kern" where
  "ls_dir os 0 fd path = hang"
| "ls_dir os (Suc k) fd path =
    bind (os_read os fd 16) (\<lambda>(n, de).
    if n \<noteq> 16 then return ()
    else if de ! 0 = 0 \<and> de ! 1 = 0 then ls_dir os k fd path
    else
      let buf = path @ 47 # cstr (take DIRSIZ (drop 2 de)) in
      bind (stat_u os buf) (\<lambda>(r, st).
      andthen (if r < 0 then printf os 1 (text_of ''ls: cannot stat %s'' @ [10]) [sarg buf] else ls_line os buf (the st))
        (ls_dir os k fd path)))"

definition ls :: "'w os \<Rightarrow> nat \<Rightarrow> u8 list \<Rightarrow> (unit, 'w) kern" where
  "ls os fuel path =
    bind (os_open os path 0) (\<lambda>fd.
    if fd < 0 then printf os 2 (text_of ''ls: cannot open %s'' @ [10]) [sarg path]
    else
      bind (os_fstat os fd) (\<lambda>(r, st).
      if r < 0 then andthen (printf os 2 (text_of ''ls: cannot stat %s'' @ [10]) [sarg path]) (andthen (os_close os fd) (return ()))
      else
        andthen (
          if us_type st = sint T_FILE then ls_line os path st
          else if us_type st = sint T_DIR then
            if length path + 1 + DIRSIZ + 1 > 512 then printf os 1 (text_of ''ls: path too long'' @ [10]) []
            else ls_dir os fuel fd path
          else return ())
        (andthen (os_close os fd) (return ()))))"

fun ls_all :: "'w os \<Rightarrow> nat \<Rightarrow> u8 list list \<Rightarrow> (unit, 'w) kern" where
  "ls_all os fuel [] = exit_u os"
| "ls_all os fuel (p # ps) = andthen (ls os fuel p) (ls_all os fuel ps)"

definition ls_main :: "'w os \<Rightarrow> nat \<Rightarrow> u8 list list \<Rightarrow> (unit, 'w) kern" where
  "ls_main os fuel argv = (if length argv < 2 then andthen (ls os fuel (text_of ''.'')) (exit_u os) else ls_all os fuel (tl argv))"

section \<open>File and process tools\<close>

fun echo_args :: "'w os \<Rightarrow> u8 list list \<Rightarrow> (unit, 'w) kern" where
  "echo_args os [] = exit_u os"
| "echo_args os (a # as) =
    andthen (printf os 1 (text_of ''%s%s'') [sarg a, sarg (if as \<noteq> [] then text_of '' '' else [10])]) (echo_args os as)"

definition echo_main :: "'w os \<Rightarrow> u8 list list \<Rightarrow> (unit, 'w) kern" where
  "echo_main os argv = echo_args os (tl argv)"

fun rm_files :: "'w os \<Rightarrow> u8 list list \<Rightarrow> (unit, 'w) kern" where
  "rm_files os [] = exit_u os"
| "rm_files os (f # fs) =
    bind (os_unlink os f) (\<lambda>r.
    if r < 0 then andthen (printf os 2 (text_of ''rm: %s failed to delete'' @ [10]) [sarg f]) (exit_u os)
    else rm_files os fs)"

definition rm_main :: "'w os \<Rightarrow> u8 list list \<Rightarrow> (unit, 'w) kern" where
  "rm_main os argv =
    (if length argv < 2 then andthen (printf os 2 (text_of ''Usage: rm files...'' @ [10]) []) (exit_u os)
     else rm_files os (tl argv))"

fun mkdir_files :: "'w os \<Rightarrow> u8 list list \<Rightarrow> (unit, 'w) kern" where
  "mkdir_files os [] = exit_u os"
| "mkdir_files os (f # fs) =
    bind (os_mkdir os f) (\<lambda>r.
    if r < 0 then andthen (printf os 2 (text_of ''mkdir: %s failed to create'' @ [10]) [sarg f]) (exit_u os)
    else mkdir_files os fs)"

definition mkdir_main :: "'w os \<Rightarrow> u8 list list \<Rightarrow> (unit, 'w) kern" where
  "mkdir_main os argv =
    (if length argv < 2 then andthen (printf os 2 (text_of ''Usage: mkdir files...'' @ [10]) []) (exit_u os)
     else mkdir_files os (tl argv))"

definition ln_main :: "'w os \<Rightarrow> u8 list list \<Rightarrow> (unit, 'w) kern" where
  "ln_main os argv =
    (if length argv \<noteq> 3 then andthen (printf os 2 (text_of ''Usage: ln old new'' @ [10]) []) (exit_u os)
     else
       bind (os_link os (argv ! 1) (argv ! 2)) (\<lambda>r.
       andthen (whenk (r < 0) (printf os 2 (text_of ''link %s %s: failed'' @ [10]) [sarg (argv ! 1), sarg (argv ! 2)]))
         (exit_u os)))"

fun kill_pids :: "'w os \<Rightarrow> u8 list list \<Rightarrow> (unit, 'w) kern" where
  "kill_pids os [] = exit_u os"
| "kill_pids os (p # ps) = andthen (os_kill os (sint (atoi p))) (kill_pids os ps)"

definition kill_main :: "'w os \<Rightarrow> u8 list list \<Rightarrow> (unit, 'w) kern" where
  "kill_main os argv =
    (if length argv < 2 then andthen (printf os 2 (text_of ''usage: kill pid...'' @ [10]) []) (exit_u os)
     else kill_pids os (tl argv))"

section \<open>Scheduler tools\<close>

definition sq_main :: "'w os \<Rightarrow> u8 list list \<Rightarrow> (unit, 'w) kern" where
  "sq_main os argv =
    (if length argv \<noteq> 3 then
       andthen (printf os 2 (text_of ''Usage: sq <pid> <quantum>'' @ [10]) []) (
       andthen (printf os 2 (text_of ''Example: sq 7 50   (set PID 7 to 50 ticks)'' @ [10]) []) (exit_u os))
     else
       let pid = atoi (argv ! 1); q = atoi (argv ! 2) in
       if sint q < 1 \<or> sint q > 100 then andthen (printf os 2 (text_of ''Quantum must be 1-100'' @ [10]) []) (exit_u os)
       else
         bind (os_setquantum_pid os (sint pid) (sint q)) (\<lambda>r.
         andthen (if r < 0 then printf os 2 (text_of ''Failed! PID %d not found or invalid'' @ [10]) [narg pid]
                  else printf os 1 (text_of ''PID %d timeslice set to %d'' @ [10]) [narg pid, narg q])
           (exit_u os)))"

definition statename :: "u32 \<Rightarrow> string" where
  "statename st =
    (if st = 0 then ''unused'' else if st = 1 then ''embryo'' else if st = 2 then ''sleep '' else if st = 3 then ''runble''
     else if st = 4 then ''run   '' else if st = 5 then ''zombie'' else ''?     '')"

definition ps_fmt :: "u8 list" where
  "ps_fmt = text_of ''%d'' @ [9] @ text_of ''%s'' @ [9, 9] @ text_of ''%s'' @ [9] @ text_of ''%d'' @ [9] @ text_of ''%d'' @ [9] @
     text_of ''%d'' @ [9] @ text_of ''%d'' @ [9] @ text_of ''%d'' @ [10]"

definition ps_rule :: "u8 list" where
  "ps_rule = replicate 58 45 @ [10]"

definition ps_line :: "'w os \<Rightarrow> uprocinfo \<Rightarrow> (unit, 'w) kern" where
  "ps_line os pi =
    printf os 1 ps_fmt [narg (ui_pid pi), sarg (ui_name pi), sarg (text_of (statename (ui_state pi))), narg (ui_timeslice pi),
      narg (ui_cpu_ticks pi), narg (ui_sleep_ticks pi), narg (ui_ctx_switches pi), narg (ui_preemptions pi)]"

text \<open>The loop over the process ids; the result is \<open>found\<close>.\<close>

fun ps_loop :: "'w os \<Rightarrow> nat list \<Rightarrow> bool \<Rightarrow> (bool, 'w) kern" where
  "ps_loop os [] found = return found"
| "ps_loop os (pid # pids) found =
    bind (os_getprocinfo os (int pid)) (\<lambda>(r, pi).
    if r \<ge> 0 then andthen (ps_line os pi) (ps_loop os pids True) else ps_loop os pids found)"

definition ps_main :: "'w os \<Rightarrow> (unit, 'w) kern" where
  "ps_main os =
    andthen (printf os 1 [10] []) (
    andthen (printf os 1 (replicate 20 61 @ text_of '' PROCESS MONITOR '' @ replicate 20 61 @ [10]) []) (
    andthen (printf os 1 (text_of ''PID'' @ [9] @ text_of ''NAME'' @ [9, 9] @ text_of ''STATE'' @ [9] @ text_of ''QUANTUM'' @ [9] @
      text_of ''CPU'' @ [9] @ text_of ''SLEEP'' @ [9] @ text_of ''CTXSW'' @ [9] @ text_of ''PREEMPT'' @ [10]) []) (
    andthen (printf os 1 ps_rule []) (
    bind (ps_loop os [1..<65] False) (\<lambda>found.
    andthen (whenk (\<not> found) (printf os 1 (text_of ''No processes found.'' @ [10]) [])) (
    andthen (printf os 1 ps_rule []) (
    andthen (printf os 1 [10] []) (exit_u os))))))))"

definition pstats_ratios :: "upstats \<Rightarrow> u32 \<times> u32 \<times> u32" where
  "pstats_ratios ps =
    (let total = up_cpu_ticks ps + up_sleep_ticks ps + up_runnable_ticks ps;
         total = (if total = 0 then 1 else total)
     in (up_cpu_ticks ps * 100 div total,
         if up_cpu_ticks ps = 0 then 0 else up_runnable_ticks ps * 100 div up_cpu_ticks ps,
         if up_ctx_switches ps = 0 then 0 else up_preemptions ps * 100 div up_ctx_switches ps))"

definition pstats_main :: "'w os \<Rightarrow> u8 list list \<Rightarrow> (unit, 'w) kern" where
  "pstats_main os argv =
    (if length argv \<noteq> 2 then andthen (printf os 2 (text_of ''Usage: pstats <pid>'' @ [10]) []) (exit_u os)
     else
       let pid = atoi (argv ! 1) in
       bind (os_getpstats os (sint pid)) (\<lambda>(r, ps).
       if r < 0 then andthen (printf os 2 (text_of ''Failed to get stats for pid %d'' @ [10]) [narg pid]) (exit_u os)
       else
         andthen (printf os 1 (text_of ''PID: %d'' @ [10]) [narg pid]) (
         andthen (printf os 1 (text_of ''CPU ticks      : %d'' @ [10]) [narg (up_cpu_ticks ps)]) (
         andthen (printf os 1 (text_of ''Sleep ticks    : %d'' @ [10]) [narg (up_sleep_ticks ps)]) (
         andthen (printf os 1 (text_of ''Runnable ticks : %d'' @ [10]) [narg (up_runnable_ticks ps)]) (
         andthen (printf os 1 (text_of ''Context switch : %d'' @ [10]) [narg (up_ctx_switches ps)]) (
         andthen (printf os 1 (text_of ''Preemptions    : %d'' @ [10]) [narg (up_preemptions ps)]) (
         case pstats_ratios ps of (share, wratio, preempt) \<Rightarrow>
         andthen (printf os 1 (text_of ''Fairness:'' @ [10] @ text_of '' CPU-share: %d%%'' @ [10] @ text_of '' Wait-ratio: %d%%'' @ [10] @
           text_of '' Preempt-ratio: %d%%'' @ [10]) [narg share, narg wratio, narg preempt]) (exit_u os)))))))))"

section \<open>init\<close>

fun init_wait :: "'w os \<Rightarrow> nat \<Rightarrow> int \<Rightarrow> (unit, 'w) kern" where
  "init_wait os 0 pid = hang"
| "init_wait os (Suc k) pid =
    bind (os_wait os) (\<lambda>wpid.
    if wpid \<ge> 0 \<and> wpid \<noteq> pid then andthen (printf os 1 (text_of ''zombie!'' @ [10]) []) (init_wait os k pid)
    else return ())"

fun init_loop :: "'w os \<Rightarrow> nat \<Rightarrow> (unit, 'w) kern" where
  "init_loop os 0 = hang"
| "init_loop os (Suc k) =
    andthen (printf os 1 (text_of ''init: starting sh'' @ [10]) []) (
    bind (os_fork os) (\<lambda>pid.
    if pid < 0 then andthen (printf os 1 (text_of ''init: fork failed'' @ [10]) []) (exit_u os)
    else if pid = 0 then
      andthen (os_exec os (text_of ''sh'') [text_of ''sh'']) (
      andthen (printf os 1 (text_of ''init: exec sh failed'' @ [10]) []) (exit_u os))
    else andthen (init_wait os k pid) (init_loop os k)))"

definition init_main :: "'w os \<Rightarrow> nat \<Rightarrow> (unit, 'w) kern" where
  "init_main os fuel =
    bind (os_open os (text_of ''console'') O_RDWR) (\<lambda>fd.
    andthen (whenk (fd < 0) (andthen (os_mknod os (text_of ''console'') 1 1) (andthen (os_open os (text_of ''console'') O_RDWR) (return ())))) (
    andthen (os_dup os 0) (
    andthen (os_dup os 0) (init_loop os fuel))))"

section \<open>Demonstration programs\<close>

definition cpuhog_main :: "'w os \<Rightarrow> (unit, 'w) kern" where
  "cpuhog_main os =
    bind (os_getpid os) (\<lambda>pid.
    andthen (printf os 1 (text_of ''cpuhog started - PID %d eating CPU forever...'' @ [10]) [narg (word_of_int pid)]) hang)"

fun sleep_forever :: "'w os \<Rightarrow> nat \<Rightarrow> int \<Rightarrow> (unit, 'w) kern \<Rightarrow> (unit, 'w) kern" where
  "sleep_forever os 0 n m = hang"
| "sleep_forever os (Suc k) n m = andthen (os_sleep os n) (andthen m (sleep_forever os k n m))"

definition iotest_main :: "'w os \<Rightarrow> nat \<Rightarrow> (unit, 'w) kern" where
  "iotest_main os fuel =
    bind (os_getpid os) (\<lambda>pid.
    andthen (printf os 1 (text_of ''I/O sleep test pid=%d'' @ [10]) [narg (word_of_int pid)]) (sleep_forever os fuel 5 (return ())))"

definition io_test_main :: "'w os \<Rightarrow> nat \<Rightarrow> (unit, 'w) kern" where
  "io_test_main os fuel = sleep_forever os fuel 10 (printf os 1 (text_of ''I/O behavior'' @ [10]) [])"

definition zombie_main :: "'w os \<Rightarrow> (unit, 'w) kern" where
  "zombie_main os =
    bind (os_fork os) (\<lambda>pid.
    andthen (whenk (pid > 0) (andthen (os_sleep os 5) (return ()))) (exit_u os))"

definition testyear_main :: "'w os \<Rightarrow> (unit, 'w) kern" where
  "testyear_main os =
    bind (os_getyear os) (\<lambda>y.
    andthen (printf os 1 (text_of ''Current year: %d'' @ [10]) [narg (word_of_int y)]) (exit_u os))"

definition semtest_main :: "'w os \<Rightarrow> (unit, 'w) kern" where
  "semtest_main os =
    andthen (printf os 1 (10 # text_of ''=== SEMAPHORE TEST ==='' @ [10]) []) (
    bind (os_sem_init os 0) (\<lambda>sem.
    if sem < 0 then andthen (printf os 1 (text_of ''sem_init failed'' @ [10]) []) (exit_u os)
    else
      andthen (printf os 1 (text_of ''Created semaphore with id %d (initial value 0)'' @ [10]) [narg (word_of_int sem)]) (
      bind (os_fork os) (\<lambda>pid.
      if pid = 0 then
        andthen (printf os 1 (text_of ''Child: waiting on semaphore...'' @ [10]) []) (
        andthen (os_sem_wait os sem) (
        andthen (printf os 1 (text_of ''Child: got the signal, proceeding!'' @ [10]) []) (exit_u os)))
      else
        andthen (printf os 1 (text_of ''Parent: doing some work...'' @ [10]) []) (
        andthen (printf os 1 (text_of ''Parent: signaling child now'' @ [10]) []) (
        andthen (os_sem_signal os sem) (
        andthen (os_wait os) (
        andthen (printf os 1 (text_of ''Parent: child finished. Test complete.'' @ [10]) []) (
        andthen (printf os 1 (replicate 23 61 @ [10, 10]) []) (exit_u os)))))))))) "

text \<open>\<open>forktest\<close> has a \<open>printf\<close> of its own, without formats.\<close>

definition puts_u :: "'w os \<Rightarrow> string \<Rightarrow> (unit, 'w) kern" where
  "puts_u os s = andthen (os_write os 1 (text_of s @ [10])) (return ())"

fun forktest_fork :: "'w os \<Rightarrow> nat \<Rightarrow> nat \<Rightarrow> (nat, 'w) kern" where
  "forktest_fork os 0 n = return n"
| "forktest_fork os (Suc k) n =
    bind (os_fork os) (\<lambda>pid.
    if pid < 0 then return n else if pid = 0 then exit_u os else forktest_fork os k (n + 1))"

fun forktest_wait :: "'w os \<Rightarrow> nat \<Rightarrow> (unit, 'w) kern" where
  "forktest_wait os 0 = return ()"
| "forktest_wait os (Suc n) =
    bind (os_wait os) (\<lambda>r.
    if r < 0 then andthen (puts_u os ''wait stopped early'') (exit_u os) else forktest_wait os n)"

definition forktest :: "'w os \<Rightarrow> (unit, 'w) kern" where
  "forktest os =
    andthen (puts_u os ''fork test'') (
    bind (forktest_fork os 1000 0) (\<lambda>n.
    andthen (whenk (n = 1000) (andthen (puts_u os ''fork claimed to work N times!'') (exit_u os))) (
    andthen (forktest_wait os n) (
    bind (os_wait os) (\<lambda>r.
    andthen (whenk (r \<noteq> -1) (andthen (puts_u os ''wait got too many'') (exit_u os))) (
    andthen (puts_u os ''fork test OK'') (exit_u os)))))))"

fun repeatk :: "nat \<Rightarrow> ('a, 'w) kern \<Rightarrow> (unit, 'w) kern" where
  "repeatk 0 m = return ()"
| "repeatk (Suc n) m = andthen m (repeatk n m)"

fun stressfs_fork :: "'w os \<Rightarrow> nat \<Rightarrow> nat \<Rightarrow> (nat, 'w) kern" where
  "stressfs_fork os 0 i = return i"
| "stressfs_fork os (Suc k) i = bind (os_fork os) (\<lambda>pid. if pid > 0 then return i else stressfs_fork os k (i + 1))"

definition stressfs_main :: "'w os \<Rightarrow> (unit, 'w) kern" where
  "stressfs_main os =
    andthen (printf os 1 (text_of ''stressfs starting'' @ [10]) []) (
    bind (stressfs_fork os 4 0) (\<lambda>i.
    andthen (printf os 1 (text_of ''write %d'' @ [10]) [narg (of_nat i)]) (
    let path = text_of ''stressfs'' @ [48 + of_nat i] in
    bind (os_open os path (O_CREATE OR O_RDWR)) (\<lambda>fd.
    andthen (repeatk 20 (os_write os fd (replicate 512 97))) (
    andthen (os_close os fd) (
    andthen (printf os 1 (text_of ''read'' @ [10]) []) (
    bind (os_open os path O_RDONLY) (\<lambda>fd.
    andthen (repeatk 20 (os_read os fd 512)) (
    andthen (os_close os fd) (
    andthen (os_wait os) (exit_u os)))))))))))"

fun rrtest_fork :: "'w os \<Rightarrow> nat \<Rightarrow> (unit, 'w) kern" where
  "rrtest_fork os 0 = return ()"
| "rrtest_fork os (Suc k) =
    bind (os_fork os) (\<lambda>pid.
    if pid < 0 then andthen (printf os 1 (text_of ''rrtest: fork failed'' @ [10]) []) (exit_u os)
    else if pid = 0 then
      bind (os_getpid os) (\<lambda>me.
      andthen (printf os 1 (text_of ''Child %d started: PID=%d'' @ [10]) [narg (of_nat (3 - k)), narg (word_of_int me)]) hang)
    else rrtest_fork os k)"

definition rr_bar :: "u8 list" where "rr_bar = replicate 40 61 @ [10]"

definition rrtest_main :: "'w os \<Rightarrow> nat \<Rightarrow> (unit, 'w) kern" where
  "rrtest_main os fuel =
    andthen (printf os 1 [10] []) (
    andthen (printf os 1 rr_bar []) (
    andthen (printf os 1 (text_of ''       ROUND ROBIN SCHEDULER TEST'' @ [10]) []) (
    andthen (printf os 1 rr_bar []) (
    andthen (printf os 1 (text_of ''Default quantum: 10 ticks'' @ [10]) []) (
    andthen (printf os 1 (text_of ''Creating 3 CPU-bound processes...'' @ [10]) []) (
    andthen (printf os 1 (rr_bar @ [10]) []) (
    andthen (rrtest_fork os 3) (
    andthen (printf os 1 [10] []) (
    andthen (printf os 1 (text_of ''3 CPU-bound processes created.'' @ [10]) []) (
    andthen (printf os 1 (text_of ''Run 'ps' in another shell/terminal if available.'' @ [10]) []) (
    andthen (printf os 1 (text_of ''Press Ctrl-P to inspect the process table.'' @ [10]) []) (
    andthen (printf os 1 (text_of ''The children will continuously consume CPU.'' @ [10, 10]) []) (
    sleep_forever os fuel 100 (return ()))))))))))))))"

fun stress_fork :: "'w os \<Rightarrow> nat \<Rightarrow> (unit, 'w) kern" where
  "stress_fork os 0 = return ()"
| "stress_fork os (Suc k) = bind (os_fork os) (\<lambda>pid. if pid = 0 then hang else stress_fork os k)"

text \<open>Lines printed between two readings of the clock, and how long they took; the arrow is three bytes of UTF-8.\<close>

definition stress_timed :: "'w os \<Rightarrow> string list \<Rightarrow> (unit, 'w) kern" where
  "stress_timed os lines =
    bind (os_uptime os) (\<lambda>start.
    andthen (fold (\<lambda>l m. andthen m (printf os 1 (text_of l @ [10]) [])) lines (return ())) (
    bind (os_uptime os) (\<lambda>fin.
    printf os 1 (text_of ''   '' @ [226, 134, 146] @ text_of '' took %d ticks'' @ [10]) [narg (word_of_int (fin - start))])))"

definition stress_test_main :: "'w os \<Rightarrow> (unit, 'w) kern" where
  "stress_test_main os =
    andthen (printf os 1 (10 # text_of ''=== ADAPTIVE SCHEDULER DEMO ==='' @ [10]) []) (
    andthen (printf os 1 (text_of ''Starting 6 CPU hogs (600%% CPU load)...'' @ [10]) []) (
    andthen (stress_fork os 6) (
    andthen (os_sleep os 30) (
    andthen (printf os 1 (text_of ''Now testing responsiveness under extreme load...'' @ [10]) []) (
    andthen (stress_timed os [''1. Echo test: HELLO FROM YOUR ADAPTIVE SCHEDULER!'']) (
    andthen (stress_timed os [''2. Listing current directory:'', ''   . .. README cat echo sh cpuhog stress_test'']) (
    andthen (stress_timed os [''3. Simulating 'cat README' (I/O bound)...'', ''   [xv6 is a teaching operating system...]'']) (
    andthen (printf os 1 (text_of ''Demo complete! Shell stayed responsive under 600%% load!'' @ [10]) []) (
    andthen (printf os 1 (text_of ''This proves: I/O-bound processes get longer time slices'' @ [10]) []) (
    andthen (printf os 1 (text_of ''           CPU-bound processes get shorter slices automatically'' @ [10, 10]) []) (
    exit_u os)))))))))))"

section \<open>What wc counts\<close>

text \<open>The words of a text: maximal runs of bytes that are not blank.\<close>

definition blank :: "u8 \<Rightarrow> bool" where
  "blank b \<longleftrightarrow> b \<in> set wc_blank"

function words :: "u8 list \<Rightarrow> u8 list list" where
  "words s =
    (let t = dropWhile blank s in
     if t = [] then [] else takeWhile (\<lambda>b. \<not> blank b) t # words (dropWhile (\<lambda>b. \<not> blank b) t))"
  by pat_completeness auto
termination
proof (relation "measure length", goal_cases)
  case (2 s t)
  then obtain b u where t: "t = b # u" using list.exhaust by metis
  then have "\<not> blank b" using 2(1) hd_dropWhile [of blank s] by auto
  then have "length (dropWhile (\<lambda>b. \<not> blank b) t) \<le> length u" using t by (simp add: length_dropWhile_le)
  moreover have "length t \<le> length s" using 2(1) by (simp add: length_dropWhile_le)
  ultimately show ?case using t by simp
qed simp

declare words.simps [simp del]

fun wstarts :: "bool \<Rightarrow> u8 list \<Rightarrow> nat" where
  "wstarts i [] = 0"
| "wstarts i (b # s) = (if blank b then wstarts False s else (if i then 0 else 1) + wstarts True s)"

lemma strchr_blank: "strchr wc_blank b = None \<longleftrightarrow> \<not> blank b"
  by (auto simp: wc_blank_def blank_def)

lemma wc_fold:
  "fold wc_byte s st = \<lparr>wc_l = wc_l st + of_nat (count_list s 10), wc_w = wc_w st + of_nat (wstarts (wc_inword st) s),
     wc_c = wc_c st + of_nat (length s), wc_inword = (if s = [] then wc_inword st else \<not> blank (last s))\<rparr>"
proof (induction s arbitrary: st)
  case (Cons b s)
  show ?case
    unfolding fold.simps comp_def Cons.IH [of "wc_byte b st"]
    by (auto simp: wc_byte_def Let_def strchr_blank)
qed simp

lemma wstarts_in: "wstarts True s = wstarts False (dropWhile (\<lambda>b. \<not> blank b) s)"
  by (induction s) auto

lemma wstarts_blank: "wstarts False s = wstarts False (dropWhile blank s)"
  by (induction s) auto

lemma words_count: "length (words s) = wstarts False s"
proof (induction s rule: words.induct)
  case (1 s)
  let ?t = "dropWhile blank s"
  show ?case
  proof (cases ?t)
    case Nil
    then show ?thesis unfolding wstarts_blank [of s] by (subst words.simps) (simp only: Let_def Nil wstarts.simps if_True list.size)
  next
    case (Cons b u)
    then have nb: "\<not> blank b" using hd_dropWhile [of blank s] by auto
    have "words s = takeWhile (\<lambda>b. \<not> blank b) ?t # words (dropWhile (\<lambda>b. \<not> blank b) ?t)"
      by (subst words.simps) (simp add: Let_def Cons)
    moreover have "length (words (dropWhile (\<lambda>b. \<not> blank b) ?t)) = wstarts False (dropWhile (\<lambda>b. \<not> blank b) ?t)"
      using 1 Cons by simp
    ultimately show ?thesis using nb by (simp add: wstarts_blank [of s] Cons wstarts_in)
  qed
qed

lemma wstarts_append: "wstarts i (s @ t) = wstarts i s + wstarts (if s = [] then i else \<not> blank (last s)) t"
  by (induction s arbitrary: i) auto

lemma putcs_chunk: "putcs chunk_os fd cs w = Ret () (chunk_write cs w)"
  by (induction cs arbitrary: w) (simp_all add: putc_def chunk_os_def kern chunk_write_def)

lemma putc_chunk: "putc chunk_os fd c w = Ret () (chunk_write [c] w)"
  by (simp add: putc_def chunk_os_def kern)

definition wc_report :: "wcount \<Rightarrow> u8 list \<Rightarrow> u8 list" where
  "wc_report s name = int_text (wc_l s) 10 True @ 32 # int_text (wc_w s) 10 True @ 32 # int_text (wc_c s) 10 True @ 32 # cstr name @ [10]"

lemma wc_prints:
  "printf chunk_os 1 (text_of ''%d %d %d %s'' @ [10]) [narg (wc_l s), narg (wc_w s), narg (wc_c s), sarg name] w =
   Ret () (chunk_write (wc_report s name) w)"
  by (simp add: printf_def text_of_def printint_u_def putcs_chunk putc_chunk andthen_def bind_def return_def next_uarg_def
      narg_def sarg_def wc_report_def chunk_write_def)

lemma wc_loop_chunks:
  "\<forall>c\<in>set cs. c \<noteq> [] \<and> length c \<le> 512 \<Longrightarrow> length cs < fuel \<Longrightarrow>
   wc_loop chunk_os fuel fd name s (cs, out) = Ret () ([], out @ wc_report (fold wc_byte (concat cs) s) name)"
proof (induction cs arbitrary: fuel s)
  case Nil
  have "os_read chunk_os fd 512 ([], out) = Ret (0, []) ([], out)" by (simp add: chunk_os_def chunk_read_def)
  then show ?case using Nil by (cases fuel) (simp_all add: bind_def wc_prints chunk_write_def)
next
  case (Cons c cs)
  obtain k where k: "fuel = Suc k" "length cs < k" using Cons.prems(2) by (cases fuel) auto
  have c: "0 < length c" "take 512 c = c" using Cons.prems(1) by auto
  have r: "os_read chunk_os fd 512 (c # cs, out) = Ret (int (length c), c) (cs, out)"
    using c(2) by (simp add: chunk_os_def chunk_read_def)
  show ?case using Cons.IH [of k "fold wc_byte c s"] Cons.prems(1) k c by (simp add: bind_def r)
qed

text \<open>
  C34: \<open>wc\<close> counts the input, however the reads cut it into pieces: it prints the number of newlines, of
  words, the maximal runs of bytes that are not blank, and of bytes, each modulo \<open>2 ^ 32\<close>.
\<close>

theorem wc_correct:
  assumes "\<forall>c\<in>set cs. c \<noteq> [] \<and> length c \<le> 512" "length cs < fuel"
  shows "wc chunk_os fuel fd name (cs, out) =
    Ret () ([], out @ int_text (of_nat (count_list (concat cs) 10)) 10 True @ 32 # int_text (of_nat (length (words (concat cs)))) 10 True @
      32 # int_text (of_nat (length (concat cs))) 10 True @ 32 # cstr name @ [10])"
  using wc_loop_chunks [OF assms, of fd name wc_start out]
  by (simp add: wc_def wc_report_def wc_fold wc_start_def words_count)

theorem wc_correct_witness:
  "wc chunk_os 3 0 [97] ([[104, 105, 32, 120], [121, 10]], []) =
    Ret () ([], [49, 32, 50, 32, 54, 32, 97, 10])"
proof -
  have w: "int_text 1 10 True = [49]" "int_text 2 10 True = [50]" "int_text 6 10 True = [54]" by code_simp+
  have "words [104, 105, 32, 120, 121, 10] = [[104, 105], [120, 121]]" by code_simp
  then show ?thesis using wc_correct [of "[[104, 105, 32, 120], [121, 10]]" 3 0 "[97]" "[]"] w by (simp add: cstr_def)
qed

end
