(* ===== verification/Pipe.thy ===== *)
theory Pipe
  imports Dir
begin

text \<open>
  Pipes, \<^verbatim>\<open>src/pipe.c\<close>: a ring of \<open>PIPESIZE\<close> bytes between a reader and a writer. A pipe is named by
  the address of the page it lies in; its fields are kept in a store indexed by that address.
  \<open>pipealloc\<close> needs the file table and is in \<open>File\<close>.
\<close>

section \<open>State and operations\<close>

definition PIPESIZE :: nat where "PIPESIZE = 512"

record pipe =
  pi_data :: "u8 list"
  pi_nread :: u32
  pi_nwrite :: u32
  pi_readopen :: bool
  pi_writeopen :: bool

record pistate = dstate +
  pipes :: "u32 \<Rightarrow> pipe"

definition pipe_get :: "u32 \<Rightarrow> (pipe \<Rightarrow> 'a) \<Rightarrow> ('a, 'z pistate_scheme) kern" where
  "pipe_get p f = gets (\<lambda>s. f (pipes s p))"

definition pipe_set :: "u32 \<Rightarrow> (pipe \<Rightarrow> pipe) \<Rightarrow> (unit, 'z pistate_scheme) kern" where
  "pipe_set p f = modify (\<lambda>s. s\<lparr>pipes := (pipes s)(p := f (pipes s p))\<rparr>)"

definition pipe_full :: "pipe \<Rightarrow> bool" where
  "pipe_full q \<longleftrightarrow> pi_nwrite q = pi_nread q + of_nat PIPESIZE"

definition pipe_empty :: "pipe \<Rightarrow> bool" where
  "pipe_empty q \<longleftrightarrow> pi_nread q = pi_nwrite q"

text \<open>\<open>p->data[p->nwrite++ % PIPESIZE] = b\<close> and \<open>p->data[p->nread++ % PIPESIZE]\<close>\<close>

definition pipe_put :: "u8 \<Rightarrow> pipe \<Rightarrow> pipe" where
  "pipe_put b q = q\<lparr>pi_data := (pi_data q)[unat (pi_nwrite q) mod PIPESIZE := b], pi_nwrite := pi_nwrite q + 1\<rparr>"

definition pipe_front :: "pipe \<Rightarrow> u8" where
  "pipe_front q = pi_data q ! (unat (pi_nread q) mod PIPESIZE)"

definition pipe_take :: "pipe \<Rightarrow> pipe" where
  "pipe_take q = q\<lparr>pi_nread := pi_nread q + 1\<rparr>"

definition pipeclose :: "u32 \<Rightarrow> bool \<Rightarrow> (unit, 'z pistate_scheme) kern" where
  "pipeclose p writable =
    andthen (acquire (L_pipe p)) (
    andthen (if writable then andthen (pipe_set p (\<lambda>q. q\<lparr>pi_writeopen := False\<rparr>)) (wakeup (ChPipeRead p))
             else andthen (pipe_set p (\<lambda>q. q\<lparr>pi_readopen := False\<rparr>)) (wakeup (ChPipeWrite p))) (
    bind (pipe_get p (\<lambda>q. \<not> pi_readopen q \<and> \<not> pi_writeopen q)) (\<lambda>dead.
    andthen (release (L_pipe p))
      (whenk dead (kfree p)))))"

definition am_killed :: "(bool, 'z pstate_scheme) kern" where
  "am_killed = bind the_proc (\<lambda>me. proc_get me p_killed)"

text \<open>
  The write loop with \<open>k\<close> of \<open>n\<close> bytes to go, from address \<open>a\<close>, with the lock held. A writer that
  finds the pipe full wakes the readers, sleeps, and resumes at the same byte.
\<close>

fun pipewrite_loop :: "u32 \<Rightarrow> int \<Rightarrow> nat \<Rightarrow> u32 \<Rightarrow> (int, 'z pistate_scheme) kern" where
  "pipewrite_loop p n 0 a =
    andthen (wakeup (ChPipeRead p)) (
    andthen (release (L_pipe p)) (return n))"
| "pipewrite_loop p n (Suc k) a =
    bind (pipe_get p pipe_full) (\<lambda>full.
    if full then
      bind (pipe_get p pi_readopen) (\<lambda>ro.
      bind (if ro then am_killed else return True) (\<lambda>stop.
      if stop then andthen (release (L_pipe p)) (return (-1))
      else andthen (wakeup (ChPipeRead p)) (sleep (ChPipeWrite p) (Some (L_pipe p)))))
    else
      bind (vget a) (\<lambda>b.
      andthen (pipe_set p (pipe_put b))
        (pipewrite_loop p n k (a + 1))))"

definition pipewrite :: "u32 \<Rightarrow> u32 \<Rightarrow> int \<Rightarrow> (int, 'z pistate_scheme) kern" where
  "pipewrite p addr n = andthen (acquire (L_pipe p)) (pipewrite_loop p n (nat n) addr)"

definition pipewrite_resume :: "nat \<Rightarrow> u32 \<Rightarrow> u32 \<Rightarrow> int \<Rightarrow> nat \<Rightarrow> u32 \<Rightarrow> (int, 'z pistate_scheme) kern" where
  "pipewrite_resume me intena p n k a =
    andthen (sleep_resume me intena (L_pipe p)) (pipewrite_loop p n k a)"

fun piperead_copy :: "u32 \<Rightarrow> nat \<Rightarrow> u32 \<Rightarrow> int \<Rightarrow> (int, 'z pistate_scheme) kern" where
  "piperead_copy p 0 a i = return i"
| "piperead_copy p (Suc k) a i =
    bind (pipe_get p pipe_empty) (\<lambda>e.
    if e then return i else
    bind (pipe_get p pipe_front) (\<lambda>b.
    andthen (pipe_set p pipe_take) (
    andthen (vput a b)
      (piperead_copy p k (a + 1) (i + 1)))))"

definition piperead_loop :: "u32 \<Rightarrow> u32 \<Rightarrow> int \<Rightarrow> (int, 'z pistate_scheme) kern" where
  "piperead_loop p addr n =
    bind (pipe_get p (\<lambda>q. pipe_empty q \<and> pi_writeopen q)) (\<lambda>wait.
    if wait then
      bind am_killed (\<lambda>killed.
      if killed then andthen (release (L_pipe p)) (return (-1))
      else sleep (ChPipeRead p) (Some (L_pipe p)))
    else
      bind (piperead_copy p (nat n) addr 0) (\<lambda>i.
      andthen (wakeup (ChPipeWrite p)) (
      andthen (release (L_pipe p)) (return i))))"

definition piperead :: "u32 \<Rightarrow> u32 \<Rightarrow> int \<Rightarrow> (int, 'z pistate_scheme) kern" where
  "piperead p addr n = andthen (acquire (L_pipe p)) (piperead_loop p addr n)"

definition piperead_resume :: "nat \<Rightarrow> u32 \<Rightarrow> u32 \<Rightarrow> u32 \<Rightarrow> int \<Rightarrow> (int, 'z pistate_scheme) kern" where
  "piperead_resume me intena p addr n =
    andthen (sleep_resume me intena (L_pipe p)) (piperead_loop p addr n)"

section \<open>The ring as a queue\<close>

definition pipe_len :: "pipe \<Rightarrow> nat" where
  "pipe_len q = unat (pi_nwrite q - pi_nread q)"

definition pipe_ok :: "pipe \<Rightarrow> bool" where
  "pipe_ok q \<longleftrightarrow> length (pi_data q) = PIPESIZE \<and> pipe_len q \<le> PIPESIZE"

definition pipe_slot :: "u32 \<Rightarrow> nat" where
  "pipe_slot i = unat i mod PIPESIZE"

definition pipe_list :: "pipe \<Rightarrow> u8 list" where
  "pipe_list q = map (\<lambda>i. pi_data q ! pipe_slot (pi_nread q + of_nat i)) [0..<pipe_len q]"

lemma length_pipe_list [simp]: "length (pipe_list q) = pipe_len q"
  by (simp add: pipe_list_def)

lemma pipe_slot_less [simp]: "pipe_slot i < PIPESIZE"
  by (simp add: pipe_slot_def PIPESIZE_def)

text \<open>The counters wrap at \<open>2 ^ 32\<close>, a multiple of the ring's size.\<close>

lemma pipe_slot_add: "pipe_slot (a + of_nat n) = (pipe_slot a + n) mod PIPESIZE"
proof -
  have "unat (a + of_nat n) = (unat a + n) mod 2 ^ 32"
    by (simp add: unat_word_ariths unat_of_nat mod_add_right_eq)
  moreover have "(x mod 2 ^ 32) mod 512 = x mod 512" for x :: nat
    by (simp add: mod_mod_cancel)
  ultimately show ?thesis
    by (simp add: pipe_slot_def PIPESIZE_def mod_add_left_eq)
qed

lemma pipe_slot_inj:
  assumes "pipe_slot (a + of_nat i) = pipe_slot (a + of_nat j)" "i \<le> j" "j < i + PIPESIZE"
  shows "i = j"
proof -
  have "(pipe_slot a + i) mod 512 = (pipe_slot a + j) mod 512"
    using assms(1) by (simp add: pipe_slot_add PIPESIZE_def)
  then have "512 dvd (pipe_slot a + j) - (pipe_slot a + i)"
    by (rule mod_eq_dvd_iff_nat [THEN iffD1, rotated, OF sym]) (use assms(2) in simp)
  then show ?thesis using assms(2,3) by (auto simp: PIPESIZE_def dest: dvd_imp_le)
qed


lemma pipe_full_iff: "pipe_full q \<longleftrightarrow> pipe_len q = PIPESIZE"
proof -
  have "pi_nwrite q = pi_nread q + 512 \<longleftrightarrow> pi_nwrite q - pi_nread q = 512"
    by (auto simp: algebra_simps)
  then show ?thesis
    by (simp add: pipe_full_def pipe_len_def PIPESIZE_def word_unat_eq_iff)
qed

lemma pipe_empty_iff: "pipe_empty q \<longleftrightarrow> pipe_list q = []"
  by (auto simp: pipe_empty_def pipe_list_def pipe_len_def unat_eq_0)

lemma pipe_len_put:
  assumes "pipe_ok q" and "\<not> pipe_full q"
  shows "pipe_len (pipe_put b q) = Suc (pipe_len q)"
proof -
  let ?d = "pi_nwrite q - pi_nread q"
  have "unat ?d < 512" using assms by (auto simp: pipe_ok_def pipe_full_iff pipe_len_def PIPESIZE_def)
  then have "unat (?d + 1) = Suc (unat ?d)" by (simp add: unat_word_ariths)
  then show ?thesis by (simp add: pipe_len_def pipe_put_def diff_add_eq [symmetric])
qed

lemma pipe_len_take:
  assumes "\<not> pipe_empty q"
  shows "pipe_len q = Suc (pipe_len (pipe_take q))"
proof -
  let ?d = "pi_nwrite q - pi_nread q"
  have "?d \<noteq> 0" using assms by (simp add: pipe_empty_def)
  then have "unat ?d = Suc (unat (?d - 1))" by (simp add: unat_minus_one unat_gt_0 Suc_pred')
  then show ?thesis by (simp add: pipe_len_def pipe_take_def diff_diff_eq [symmetric])
qed

lemma pipe_put_ok: "pipe_ok q \<Longrightarrow> \<not> pipe_full q \<Longrightarrow> pipe_ok (pipe_put b q)"
  using pipe_len_put [of q b] by (auto simp: pipe_ok_def pipe_full_iff pipe_put_def)

lemma pipe_take_ok: "pipe_ok q \<Longrightarrow> \<not> pipe_empty q \<Longrightarrow> pipe_ok (pipe_take q)"
  using pipe_len_take [of q] by (auto simp: pipe_ok_def pipe_take_def)

lemma pipe_nwrite_slot: "pi_nwrite q = pi_nread q + of_nat (pipe_len q)"
  by (simp add: pipe_len_def)

lemma pipe_list_put:
  assumes ok: "pipe_ok q" and room: "\<not> pipe_full q"
  shows "pipe_list (pipe_put b q) = pipe_list q @ [b]"
proof (rule nth_equalityI)
  show "length (pipe_list (pipe_put b q)) = length (pipe_list q @ [b])"
    using pipe_len_put [OF assms] by simp
next
  fix i
  assume "i < length (pipe_list (pipe_put b q))"
  then have i: "i < Suc (pipe_len q)" using pipe_len_put [OF assms] by simp
  have lt: "pipe_len q < PIPESIZE" using assms by (auto simp: pipe_ok_def pipe_full_iff)
  have new: "unat (pi_nwrite q) mod PIPESIZE = pipe_slot (pi_nread q + of_nat (pipe_len q))"
    by (simp add: pipe_nwrite_slot [symmetric] pipe_slot_def)
  have nth: "pipe_list (pipe_put b q) ! i = (pi_data q)[pipe_slot (pi_nread q + of_nat (pipe_len q)) := b] !
      pipe_slot (pi_nread q + of_nat i)"
    using i pipe_len_put [OF assms, of b] by (simp add: pipe_list_def del: upt_Suc) (simp add: pipe_put_def new)
  show "pipe_list (pipe_put b q) ! i = (pipe_list q @ [b]) ! i"
  proof (cases "i = pipe_len q")
    case True
    then show ?thesis using nth ok by (simp add: pipe_ok_def nth_append)
  next
    case False
    then have "pipe_slot (pi_nread q + of_nat (pipe_len q)) \<noteq> pipe_slot (pi_nread q + of_nat i)"
      using i lt pipe_slot_inj [of "pi_nread q" i "pipe_len q"] by auto
    then show ?thesis using nth i False by (simp add: pipe_list_def nth_append)
  qed
qed

lemma pipe_list_take:
  assumes "\<not> pipe_empty q"
  shows "pipe_list q = pipe_front q # pipe_list (pipe_take q)"
proof -
  have "[0..<pipe_len q] = 0 # map Suc [0..<pipe_len (pipe_take q)]"
    using pipe_len_take [OF assms] by (simp add: upt_conv_Cons map_Suc_upt del: upt_Suc)
  then show ?thesis
    by (simp add: pipe_list_def pipe_front_def pipe_slot_def pipe_take_def add.assoc)
qed

text \<open>The interface of a bounded first-in first-out queue, and what follows from it.\<close>

locale bounded_fifo =
  fixes ok :: "'q \<Rightarrow> bool"
    and contents :: "'q \<Rightarrow> 'a list"
    and put :: "'a \<Rightarrow> 'q \<Rightarrow> 'q"
    and front :: "'q \<Rightarrow> 'a"
    and pop :: "'q \<Rightarrow> 'q"
    and cap :: nat
  assumes bounded: "ok q \<Longrightarrow> length (contents q) \<le> cap"
    and put_ok: "ok q \<Longrightarrow> length (contents q) < cap \<Longrightarrow> ok (put x q)"
    and put_contents: "ok q \<Longrightarrow> length (contents q) < cap \<Longrightarrow> contents (put x q) = contents q @ [x]"
    and pop_ok: "ok q \<Longrightarrow> contents q \<noteq> [] \<Longrightarrow> ok (pop q)"
    and pop_contents: "ok q \<Longrightarrow> contents q \<noteq> [] \<Longrightarrow> contents q = front q # contents (pop q)"
begin

text \<open>Traffic: items put while there is room and taken while there are any, in some order.\<close>

inductive traffic :: "'q \<Rightarrow> 'a list \<Rightarrow> 'a list \<Rightarrow> 'q \<Rightarrow> bool" where
  quiet: "traffic q [] [] q"
| sent: "traffic q ws rs q' \<Longrightarrow> length (contents q') < cap \<Longrightarrow> traffic q (ws @ [x]) rs (put x q')"
| received: "traffic q ws rs q' \<Longrightarrow> contents q' \<noteq> [] \<Longrightarrow> traffic q ws (rs @ [front q']) (pop q')"

text \<open>Nothing is lost, duplicated or reordered.\<close>

lemma traffic_order:
  assumes "traffic q ws rs q'" and "ok q"
  shows "ok q' \<and> contents q @ ws = rs @ contents q'"
  using assms
proof (induction rule: traffic.induct)
  case (sent q ws rs q' x)
  then have "ok q'" "contents q @ ws = rs @ contents q'" by simp_all
  then show ?case
    using sent.hyps(2) put_ok put_contents [of q' x] by (metis append_assoc)
next
  case (received q ws rs q')
  then have "ok q'" "contents q @ ws = rs @ contents q'" by simp_all
  then show ?case
    using received.hyps(2) pop_ok pop_contents [of q'] by (metis append_Cons append_Nil append_assoc)
qed simp

lemma put_many:
  "ok q \<Longrightarrow> length (contents q) + length xs \<le> cap \<Longrightarrow>
    ok (fold put xs q) \<and> contents (fold put xs q) = contents q @ xs"
proof (induction xs arbitrary: q)
  case (Cons x xs)
  then have "length (contents q) < cap" by simp
  then show ?case using Cons put_ok [of q x] put_contents [of q x] by simp
qed simp

lemma pop_many:
  "ok q \<Longrightarrow> n \<le> length (contents q) \<Longrightarrow> ok ((pop ^^ n) q) \<and> contents ((pop ^^ n) q) = drop n (contents q)"
proof (induction n arbitrary: q)
  case (Suc n)
  then have "contents q \<noteq> []" by auto
  moreover have "ok (pop q)" "contents q = front q # contents (pop q)"
    using Suc.prems(1) pop_ok pop_contents calculation by auto
  ultimately show ?case
    using Suc.IH [of "pop q"] Suc.prems(2) by (metis drop_Suc_Cons funpow_simps_right(2) comp_apply length_Cons Suc_le_mono)
qed simp

end

interpretation pq: bounded_fifo pipe_ok pipe_list pipe_put pipe_front pipe_take PIPESIZE
proof
  fix q :: pipe and b :: u8
  assume ok: "pipe_ok q"
  show "length (pipe_list q) \<le> PIPESIZE" using ok by (simp add: pipe_ok_def)
  show "pipe_ok (pipe_put b q)" "pipe_list (pipe_put b q) = pipe_list q @ [b]" if "length (pipe_list q) < PIPESIZE"
    using that ok pipe_put_ok pipe_list_put by (auto simp: pipe_full_iff)
  show "pipe_ok (pipe_take q)" "pipe_list q = pipe_front q # pipe_list (pipe_take q)" if "pipe_list q \<noteq> []"
    using that ok pipe_take_ok pipe_list_take by (auto simp: pipe_empty_iff)
qed

section \<open>The loops on the queue\<close>

definition with_pipe :: "u32 \<Rightarrow> pipe \<Rightarrow> 'z pistate_scheme \<Rightarrow> 'z pistate_scheme" where
  "with_pipe p q s = s\<lparr>pipes := (pipes s)(p := q)\<rparr>"

lemma with_pipe_sel [simp]:
  "pipes (with_pipe p q s) = (pipes s)(p := q)" "mach (with_pipe p q s) = mach s" "pt (with_pipe p q s) = pt s"
  "with_pipe p q' (with_pipe p q s) = with_pipe p q' s" "with_pipe p (pipes s p) s = s"
  "with_pipe p q (s\<lparr>mach := m\<rparr>) = with_pipe p q s\<lparr>mach := m\<rparr>"
  "with_pipe p q (s\<lparr>pt := T\<rparr>) = with_pipe p q s\<lparr>pt := T\<rparr>"
  by (simp_all add: with_pipe_def)

lemma pipe_access [simp]: "pipe_get p f s = Ret (f (pipes s p)) s" "pipe_set p g s = Ret () (with_pipe p (g (pipes s p)) s)"
  by (simp_all add: pipe_get_def pipe_set_def kern with_pipe_def)

lemma pipewrite_loop_run:
  assumes "pipe_ok (pipes s p)" and "pipe_len (pipes s p) + j \<le> PIPESIZE" and "j \<le> k"
    and "user_bytes (mem (mach s)) (cr3 (mach s)) a j = Some bs"
  shows "pipewrite_loop p n k a s = pipewrite_loop p n (k - j) (a + of_nat j)
    (with_pipe p (fold pipe_put bs (pipes s p)) s)"
  using assms
proof (induction j arbitrary: k a s bs)
  case (Suc j)
  obtain k' where k: "k = Suc k'" using Suc.prems(3) by (cases k) auto
  obtain x bs' where x: "translate (mem (mach s)) (cr3 (mach s)) a = Some x"
    and bs: "user_bytes (mem (mach s)) (cr3 (mach s)) (a + 1) j = Some bs'" "bs = mem (mach s) x # bs'"
    using Suc.prems(4) by (auto split: option.splits)
  have room: "\<not> pipe_full (pipes s p)" using Suc.prems(2) by (simp add: pipe_full_iff)
  let ?s = "with_pipe p (pipe_put (mem (mach s) x) (pipes s p)) s"
  have "pipewrite_loop p n k a s = pipewrite_loop p n k' (a + 1) ?s"
    using room x by (simp add: k kern vget_user)
  also have "\<dots> = pipewrite_loop p n (k' - j) (a + 1 + of_nat j) (with_pipe p (fold pipe_put bs' (pipes ?s p)) ?s)"
    using Suc.prems bs room pipe_put_ok pipe_len_put by (intro Suc.IH) (auto simp: k)
  finally show ?case by (simp add: bs k add.assoc del: pipewrite_loop.simps)
qed simp

text \<open>The bytes of \<open>piperead\<close> go to memory one by one; together they are one copy.\<close>

lemma piperead_copy_run:
  assumes "pipe_ok (pipes s p)"
  shows "piperead_copy p k a i s = bind (vputs a (take k (pipe_list (pipes s p))))
      (\<lambda>_. return (i + int (min k (pipe_len (pipes s p)))))
    (with_pipe p ((pipe_take ^^ min k (pipe_len (pipes s p))) (pipes s p)) s)"
  using assms
proof (induction k arbitrary: a i s)
  case (Suc k)
  let ?q = "pipes s p"
  show ?case
  proof (cases "pipe_empty ?q")
    case True
    then have "pipe_list ?q = []" by (simp add: pipe_empty_iff)
    moreover then have "pipe_len ?q = 0" by (metis length_pipe_list list.size(3))
    ultimately show ?thesis using True by (simp add: kern)
  next
    case False
    note l = pipe_list_take [OF False] pipe_len_take [OF False]
    have ok: "pipe_ok (pipe_take ?q)" using Suc.prems False by (rule pipe_take_ok)
    show ?thesis
    proof (cases "translate (mem (mach s)) (cr3 (mach s)) a")
      case None
      then show ?thesis using False by (simp add: kern l vput_user)
    next
      case (Some x)
      let ?s = "with_pipe p (pipe_take ?q) s\<lparr>mach := (mach s)\<lparr>mem := (mem (mach s))(x := pipe_front ?q)\<rparr>\<rparr>"
      have "piperead_copy p (Suc k) a i s = piperead_copy p k (a + 1) (i + 1) ?s"
        using Some False by (simp add: kern vput_user)
      then show ?thesis
        using Some Suc.IH [of ?s "a + 1" "i + 1"] ok
        by (simp add: kern l vput_user funpow_swap1 add.assoc)
    qed
  qed
qed (simp add: kern)

text \<open>A process \<open>me\<close> about to use pipe \<open>p\<close>.\<close>

definition pipe_ready :: "nat \<Rightarrow> u32 \<Rightarrow> 'z pistate_scheme \<Rightarrow> bool" where
  "pipe_ready me p s \<longleftrightarrow> cpu_ok (mach s) \<and> unlocked (mach s) L_ptable \<and> unlocked (mach s) (L_pipe p) \<and>
     ncli (mach s) = 0 \<and> curproc (mach s) = Some me \<and> me < length (procs (pt s)) \<and> pipe_ok (pipes s p)"

lemma am_killed_ok:
  assumes "cpu_ok (mach s)" and "0 < ncli (mach s)" and "curproc (mach s) = Some me" 
  shows "am_killed s = Ret (p_killed (procs (pt s) ! me)) s"
  using assms by (simp add: am_killed_def the_proc_def kern table_access touched_id)

lemma pipewrite_fits:
  assumes "pipe_ready me p s" and "user_bytes (mem (mach s)) (cr3 (mach s)) addr (nat n) = Some bs" and "0 \<le> n"
    and "pipe_len (pipes s p) + nat n \<le> PIPESIZE"
  shows "pipewrite p addr n s = Ret n (with_pipe p (fold pipe_put bs (pipes s p)) s
    \<lparr>mach := rel (L_pipe p) (crit L_ptable (acq (L_pipe p) (mach s))), pt := wakeup_table (ChPipeRead p) (pt s)\<rparr>)"
  using assms pipewrite_loop_run [of "s\<lparr>mach := acq (L_pipe p) (mach s)\<rparr>" p "nat n" "nat n" addr bs n]
  by (simp add: pipewrite_def kern pipe_ready_def wakeup_at)

lemma pipewrite_over:
  assumes "pipe_ready me p s" and "user_bytes (mem (mach s)) (cr3 (mach s)) addr (nat n) = Some bs"
    and "PIPESIZE < pipe_len (pipes s p) + nat n"
  defines "r \<equiv> PIPESIZE - pipe_len (pipes s p)"
  shows "pipewrite p addr n s = pipewrite_loop p n (nat n - r) (addr + of_nat r)
    (with_pipe p (fold pipe_put (take r bs) (pipes s p)) s\<lparr>mach := acq (L_pipe p) (mach s)\<rparr>)"
proof -
  have "pipe_len (pipes s p) \<le> PIPESIZE" using assms(1) by (simp add: pipe_ready_def pipe_ok_def)
  then have "r \<le> nat n" "pipe_len (pipes s p) + r \<le> PIPESIZE" using assms(3) by (auto simp: r_def)
  then show ?thesis
    using assms(1,2) pipewrite_loop_run [of "s\<lparr>mach := acq (L_pipe p) (mach s)\<rparr>" p r "nat n" addr "take r bs" n]
    by (simp add: pipewrite_def kern pipe_ready_def user_bytes_take)
qed

lemma fold_pipe_put_open [simp]:
  "pi_readopen (fold pipe_put bs q) = pi_readopen q" "pi_writeopen (fold pipe_put bs q) = pi_writeopen q"
  by (induction bs arbitrary: q) (simp_all add: pipe_put_def)

lemma filled_pipe:
  assumes "pipe_ok q" and "length bs = PIPESIZE - pipe_len q"
  shows "pipe_full (fold pipe_put bs q)"
  using pq.put_many [of q bs] assms length_pipe_list [of "fold pipe_put bs q"]
  by (simp add: pipe_full_iff pipe_ok_def)

section \<open>Writing and reading\<close>

text \<open>C18: \<open>pipewrite\<close> appends all the bytes when they fit, wakes the readers and returns the count. Otherwise it
  fills the pipe: without a reader, or when killed, it fails; else it wakes the readers and goes to sleep
  on the pipe with its lock free, and nothing that was in the pipe is disturbed.\<close>

theorem pipewrite_correct:
  assumes "pipe_ready me p s" and "0 \<le> n"
    and "user_bytes (mem (mach s)) (cr3 (mach s)) addr (nat n) = Some bs"
  defines "q \<equiv> pipes s p" and "room \<equiv> PIPESIZE - length (pipe_list (pipes s p))"
    and "stop \<equiv> \<not> pi_readopen (pipes s p) \<or> p_killed (procs (pt s) ! me)"
  shows "if nat n \<le> room
    then \<exists>t. pipewrite p addr n s = Ret n t \<and> pipe_list (pipes t p) = pipe_list q @ bs \<and>
      pt t = wakeup_table (ChPipeRead p) (pt s) \<and> same_mach (mach s) (mach t)
    else if stop
    then \<exists>t. pipewrite p addr n s = Ret (-1) t \<and> pipe_list (pipes t p) = pipe_list q @ take room bs \<and>
      pt t = pt s \<and> same_mach (mach s) (mach t)
    else \<exists>t. pipewrite p addr n s = Switch t \<and> pipe_list (pipes t p) = pipe_list q @ take room bs \<and>
      procs (pt t) = upd me (asleep (ChPipeWrite p) (esp (mach s))) (map (wake (ChPipeRead p)) (procs (pt s))) \<and>
      unlocked (mach t) (L_pipe p)"
proof -
  have ok: "pipe_ok q" "length (pipe_list q) = pipe_len q" and le: "pipe_len q \<le> PIPESIZE"
    and len: "length bs = nat n"
    using assms(1,3) by (auto simp: pipe_ready_def pipe_ok_def q_def dest: user_bytes_length)
  note r = assms(1) [unfolded pipe_ready_def]
  show ?thesis
  proof (cases "nat n \<le> room")
    case True
    then have fit: "pipe_len q + nat n \<le> PIPESIZE" using le by (simp add: room_def q_def)
    then show ?thesis
      using True pipewrite_fits [OF assms(1,3,2)] pq.put_many [of q bs] ok len r critical_wakeup_same [of "mach s" "L_pipe p"]
      by (simp add: q_def)
  next
    case False
    then have over: "PIPESIZE < pipe_len q + nat n" by (simp add: room_def q_def)
    let ?q = "fold pipe_put (take room bs) q"
    have full: "pipe_full ?q" using False len ok(1) by (intro filled_pipe) (auto simp: room_def q_def min_def)
    have list: "pipe_list ?q = pipe_list q @ take room bs"
      using pq.put_many [of q "take room bs"] ok le by (simp add: room_def q_def)
    obtain k where k: "nat n - room = Suc k" using False by (cases "nat n - room") auto
    let ?s = "with_pipe p ?q s\<lparr>mach := acq (L_pipe p) (mach s)\<rparr>"
    have run: "pipewrite p addr n s = pipewrite_loop p n (Suc k) (addr + of_nat room) ?s"
      using pipewrite_over [OF assms(1,3)] over k by (simp add: room_def q_def del: pipewrite_loop.simps)
    show ?thesis
      using False run full list r
      by (simp add: kern am_killed_ok wakeup_at sleep_switch [where i = me] stop_def q_def wakeup_table_def
          same_mach_critical same_mach_refl)
  qed
qed

lemma pipe_take_open [simp]:
  "pi_readopen ((pipe_take ^^ n) q) = pi_readopen q" "pi_writeopen ((pipe_take ^^ n) q) = pi_writeopen q"
  by (induction n) (simp_all add: pipe_take_def)

text \<open>C19: \<open>piperead\<close> takes the oldest bytes, as many as there are up to the number asked for, copies them to the
  caller in order and wakes the writers; an empty pipe with its writers gone reads as end of file. An empty
  pipe with a writer puts the reader to sleep, or fails when it is killed.\<close>

theorem piperead_correct:
  assumes "pipe_ready me p s"
    and "user_put (mem (mach s)) (cr3 (mach s)) addr (take (nat n) (pipe_list (pipes s p))) = Some m'"
  defines "q \<equiv> pipes s p" and "got \<equiv> take (nat n) (pipe_list (pipes s p))"
  shows "if pipe_list q \<noteq> [] \<or> \<not> pi_writeopen q
    then \<exists>t. piperead p addr n s = Ret (int (length got)) t \<and> pipe_list q = got @ pipe_list (pipes t p) \<and>
      pt t = wakeup_table (ChPipeWrite p) (pt s) \<and> mem (mach t) = m' \<and> same_but_mem (mach s) (mach t)
    else if p_killed (procs (pt s) ! me)
    then \<exists>t. piperead p addr n s = Ret (-1) t \<and> pipes t = pipes s \<and> pt t = pt s \<and> same_mach (mach s) (mach t)
    else \<exists>t. piperead p addr n s = Switch t \<and> pipes t = pipes s \<and> unlocked (mach t) (L_pipe p) \<and>
      procs (pt t) = upd me (asleep (ChPipeRead p) (esp (mach s))) (procs (pt s))"
proof -
  note r = assms(1) [unfolded pipe_ready_def]
  let ?L = "L_pipe p"
  show ?thesis
  proof (cases "pipe_list q \<noteq> [] \<or> \<not> pi_writeopen q")
    case True
    let ?n = "min (nat n) (pipe_len q)"
    let ?q = "(pipe_take ^^ ?n) q"
    let ?m = "rel ?L (crit L_ptable ((acq ?L (mach s))\<lparr>mem := m'\<rparr>))"
    have "piperead p addr n s = Ret (int ?n) (with_pipe p ?q s\<lparr>mach := ?m, pt := wakeup_table (ChPipeWrite p) (pt s)\<rparr>)"
      using r True assms(2) piperead_copy_run [of "s\<lparr>mach := acq ?L (mach s)\<rparr>" p "nat n" addr 0]
      by (auto simp: piperead_def piperead_loop_def kern pipe_empty_iff q_def vputs_user wakeup_at)
    moreover have "same_but_mem (mach s) ?m"
      using r by (auto simp: same_but_mem_iff crit_def unlocked_not_held)
    moreover have "pipe_list q = got @ pipe_list ?q"
      using r pq.pop_many [of q ?n] by (simp add: q_def got_def min_def)
    ultimately show ?thesis using True by (auto simp: got_def q_def)
  next
    case False
    then show ?thesis
      using r by (simp add: piperead_def piperead_loop_def kern pipe_empty_iff q_def am_killed_ok
          sleep_switch [where i = me] same_mach_critical same_mach_refl)
  qed
qed

section \<open>A concrete pipe\<close>

definition demo_pi :: "pipe \<Rightarrow> pistate" where
  "demo_pi q = (let D = demo_state (Some 0) [demo_proc RUNNING 1] 1 in
    \<lparr>mach = mach D, con = con D, kmem = kmem D, kpgdir = kpgdir D, kdata = kdata D, ts_addr = ts_addr D, pt = pt D,
     sems = [], slocks = (\<lambda>_. \<lparr>sl_locked = 0, sl_name = [], sl_pid = 0\<rparr>), bufs = [],
     dsk = \<lparr>disksize = 1000, memdisk = (\<lambda>_. []), d_writes = []\<rparr>,
     logst = \<lparr>lg_start = 2, lg_size = 30, lg_outstanding = 0, lg_committing = False, lg_dev = 1,
       lg_lh = \<lparr>lh_n = 0, lh_block = replicate 30 0\<rparr>\<rparr>,
     inodes = [], fssb = \<lparr>sb_size = 1000, sb_nblocks = 941, sb_ninodes = 200, sb_nlog = 30, sb_logstart = 2,
       sb_inodestart = 32, sb_bmapstart = 58\<rparr>,
     devs = \<lparr>dv_sw = [], kbd_shift = 0, ioapic = (\<lambda>_. 0), ioapicid = 0, port_out = []\<rparr>,
     pipes = (\<lambda>_. q)\<rparr>)"

text \<open>An empty pipe whose counters are about to wrap.\<close>

definition demo_pipe :: pipe where
  "demo_pipe = \<lparr>pi_data = replicate 512 0, pi_nread = 0xFFFFFFFF, pi_nwrite = 0xFFFFFFFF,
     pi_readopen = True, pi_writeopen = True\<rparr>"

lemma demo_pi_sel [simp]:
  "mach (demo_pi q) = demo_mach (Some 0) 0x202" "pipes (demo_pi q) p = q"
  "pt (demo_pi q) = pt (demo_state (Some 0) [demo_proc RUNNING 1] 1)"
  by (simp_all add: demo_pi_def Let_def)

lemma demo_pipe_ok: "pipe_ok demo_pipe" "pipe_list demo_pipe = []" "pi_writeopen demo_pipe"
  by (simp_all add: pipe_ok_def pipe_len_def demo_pipe_def PIPESIZE_def pipe_list_def)

lemma demo_pi_ready: "pipe_ok q \<Longrightarrow> pipe_ready 0 p (demo_pi q)"
  using demo_running by (auto simp: pipe_ready_def running_def)

theorem pipewrite_correct_witness:
  "\<exists>t. pipewrite 0x80700000 0x80600000 2 (demo_pi demo_pipe) = Ret 2 t \<and>
    pipe_list (pipes t 0x80700000) = [0, 0]"
proof -
  have two: "nat 2 = Suc (Suc 0)" by simp
  have "user_bytes (mem (mach (demo_pi demo_pipe))) (cr3 (mach (demo_pi demo_pipe))) 0x80600000 (nat 2) = Some [0, 0]"
    unfolding two by (simp add: translate_def KERNBASE_def demo_mach_def)
  from pipewrite_correct [OF demo_pi_ready [OF demo_pipe_ok(1)] _ this] show ?thesis
    by (auto simp: demo_pipe_ok PIPESIZE_def)
qed

theorem piperead_correct_witness:
  "\<exists>t. piperead 0x80700000 0x80600000 9 (demo_pi (pipe_put 8 (pipe_put 7 demo_pipe))) = Ret 2 t \<and>
    mem (mach t) 0x80600001 = 8 \<and> pipe_list (pipes t 0x80700000) = []"
proof -
  let ?q = "pipe_put 8 (pipe_put 7 demo_pipe)"
  have q: "pipe_ok ?q" "pipe_list ?q = [7, 8]"
    using pq.put_many [of demo_pipe "[7, 8]"] demo_pipe_ok by (simp_all add: PIPESIZE_def)
  have "user_put (mem (mach (demo_pi ?q))) (cr3 (mach (demo_pi ?q))) 0x80600000 (take (nat 9) (pipe_list (pipes (demo_pi ?q) 0x80700000)))
      = Some ((mem (demo_mach (Some 0) 0x202))(0x80600000 := 7, 0x80600001 := 8))"
    by (simp add: q translate_def KERNBASE_def)
  from piperead_correct [OF demo_pi_ready [OF q(1)] this] show ?thesis
    by (auto simp: q)
qed

text \<open>C17: Whatever the order in which bytes are put into a pipe that has room and taken from a pipe that
  has some, what has been read followed by what is still in the pipe is what was in it at the start
  followed by what has been written: nothing is lost, duplicated or reordered, also when the counters wrap.\<close>

theorem pipe_order:
  assumes "pq.traffic q written got q'" and "pipe_ok q"
  shows "pipe_list q @ written = got @ pipe_list q' \<and> pipe_ok q' \<and> length (pipe_list q') \<le> PIPESIZE"
  using pq.traffic_order [OF assms] pq.bounded by blast

theorem pipe_order_witness:
  "pipe_list demo_pipe @ [5, 6] = [pipe_front (pipe_put 5 demo_pipe)] @ pipe_list (pipe_put 6 (pipe_take (pipe_put 5 demo_pipe)))"
proof -
  have "pq.traffic demo_pipe [5] [] (pipe_put 5 demo_pipe)"
    using pq.sent [OF pq.quiet [of demo_pipe], of 5] demo_pipe_ok by (simp add: PIPESIZE_def)
  moreover have "pipe_list (pipe_put 5 demo_pipe) = [5]"
    using pq.put_many [of demo_pipe "[5]"] demo_pipe_ok by (simp add: PIPESIZE_def)
  ultimately have r: "pq.traffic demo_pipe [5] [pipe_front (pipe_put 5 demo_pipe)] (pipe_take (pipe_put 5 demo_pipe))"
    using pq.received by fastforce
  moreover have "pipe_list (pipe_take (pipe_put 5 demo_pipe)) = []"
    using pq.traffic_order [OF r demo_pipe_ok(1)] demo_pipe_ok(2) \<open>pipe_list (pipe_put 5 demo_pipe) = [5]\<close>
    by (auto simp: Cons_eq_append_conv)
  ultimately have "pq.traffic demo_pipe [5, 6] [pipe_front (pipe_put 5 demo_pipe)] (pipe_put 6 (pipe_take (pipe_put 5 demo_pipe)))"
    using pq.sent [OF r, of 6] by (simp add: PIPESIZE_def)
  from pipe_order [OF this demo_pipe_ok(1)] show ?thesis by blast
qed

end
