(* ===== verification/File.thy ===== *)
theory File
  imports Pipe
begin

text \<open>
  Open files, \<^verbatim>\<open>src/file.c\<close>, with \<open>pipealloc\<close> of \<^verbatim>\<open>src/pipe.c\<close>. A file pointer is an index of the
  file table.
\<close>

definition NFILE :: nat where "NFILE = 100"

datatype filetype = FD_NONE | FD_PIPE | FD_INODE

record filerec =
  f_type :: filetype
  f_ref :: int
  f_readable :: bool
  f_writable :: bool
  f_pipe :: u32
  f_ip :: nat
  f_off :: u32

record ostate = pistate +
  files :: "filerec list"

definition file_get :: "nat \<Rightarrow> (filerec \<Rightarrow> 'a) \<Rightarrow> ('a, 'z ostate_scheme) kern" where
  "file_get f g = gets (\<lambda>s. g (files s ! f))"

definition file_set :: "nat \<Rightarrow> (filerec \<Rightarrow> filerec) \<Rightarrow> (unit, 'z ostate_scheme) kern" where
  "file_set f g = modify (\<lambda>s. s\<lparr>files := upd f g (files s)\<rparr>)"

definition fileinit :: "(unit, 'z ostate_scheme) kern" where
  "fileinit = initlock L_ftable ''ftable''"

definition filealloc :: "(nat option, 'z ostate_scheme) kern" where
  "filealloc =
    andthen (acquire L_ftable) (
    bind (gets (\<lambda>s. scan (\<lambda>i. f_ref (files s ! i) = 0) 0 NFILE)) (\<lambda>r.
    case r of
      Some f \<Rightarrow>
        andthen (file_set f (\<lambda>x. x\<lparr>f_ref := 1\<rparr>)) (
        andthen (release L_ftable) (return (Some f)))
    | None \<Rightarrow> andthen (release L_ftable) (return None)))"

definition filedup :: "nat \<Rightarrow> (nat, 'z ostate_scheme) kern" where
  "filedup f =
    andthen (acquire L_ftable) (
    bind (file_get f f_ref) (\<lambda>r.
    if r < 1 then panic ''filedup'' else
    andthen (file_set f (\<lambda>x. x\<lparr>f_ref := f_ref x + 1\<rparr>)) (
    andthen (release L_ftable) (return f))))"

definition fileclose :: "nat \<Rightarrow> (unit, 'z ostate_scheme) kern" where
  "fileclose f =
    andthen (acquire L_ftable) (
    bind (file_get f f_ref) (\<lambda>r.
    if r < 1 then panic ''fileclose'' else
    andthen (file_set f (\<lambda>x. x\<lparr>f_ref := f_ref x - 1\<rparr>)) (
    if r - 1 > 0 then release L_ftable else
    bind (file_get f id) (\<lambda>ff.
    andthen (file_set f (\<lambda>x. x\<lparr>f_type := FD_NONE, f_ref := 0\<rparr>)) (
    andthen (release L_ftable) (
    case f_type ff of
      FD_PIPE \<Rightarrow> pipeclose (f_pipe ff) (f_writable ff)
    | FD_INODE \<Rightarrow> andthen begin_op (andthen (iput (f_ip ff)) end_op)
    | FD_NONE \<Rightarrow> return ()))))))"

text \<open>\<open>struct stat\<close> as it lies in memory, with the padding of its two shorts.\<close>

definition put_stat :: "u32 \<Rightarrow> stat \<Rightarrow> (unit, 'z base_scheme) kern" where
  "put_stat a st =
    andthen (vput32 (a + 4) (st_dev st)) (
    andthen (vput32 (a + 8) (st_ino st)) (
    andthen (vputs a (le16 (st_type st))) (
    andthen (vputs (a + 12) (le16 (st_nlink st)))
      (vput32 (a + 16) (st_size st)))))"

definition filestat :: "nat \<Rightarrow> u32 \<Rightarrow> (int, 'z ostate_scheme) kern" where
  "filestat f st =
    bind (file_get f id) (\<lambda>x.
    if f_type x = FD_INODE then
      andthen (ilock (Some (f_ip x))) (
      bind (stati (f_ip x)) (\<lambda>r.
      andthen (put_stat st r) (
      andthen (iunlock (Some (f_ip x))) (return 0))))
    else return (-1))"

definition fileread :: "nat \<Rightarrow> u32 \<Rightarrow> int \<Rightarrow> (int, 'z ostate_scheme) kern" where
  "fileread f addr n =
    bind (file_get f id) (\<lambda>x.
    if \<not> f_readable x then return (-1) else
    case f_type x of
      FD_PIPE \<Rightarrow> piperead (f_pipe x) addr n
    | FD_INODE \<Rightarrow>
        andthen (ilock (Some (f_ip x))) (
        bind (file_get f f_off) (\<lambda>off.
        bind (readi (f_ip x) (ToMem addr) off (word_of_int n)) (\<lambda>(r, _).
        andthen (whenk (r > 0) (file_set f (\<lambda>y. y\<lparr>f_off := f_off y + word_of_int r\<rparr>))) (
        andthen (iunlock (Some (f_ip x))) (return r)))))
    | FD_NONE \<Rightarrow> panic ''fileread'')"

definition max_write :: int where
  "max_write = ((int MAXOPBLOCKS - 1 - 1 - 2) div 2) * 512"

text \<open>The loop of \<open>filewrite\<close> at byte \<open>i\<close> of \<open>n\<close>: a transaction per piece of at most \<open>max\<close> bytes.\<close>

function filewrite_loop :: "nat \<Rightarrow> u32 \<Rightarrow> int \<Rightarrow> int \<Rightarrow> (int, 'z ostate_scheme) kern" where
  "filewrite_loop f addr n i =
    (if i < n then
       let n1 = min (n - i) max_write in
       andthen begin_op (
       bind (file_get f f_ip) (\<lambda>ip.
       andthen (ilock (Some ip)) (
       bind (file_get f f_off) (\<lambda>off.
       bind (writei ip (FromMem (addr + word_of_int i)) off (word_of_int n1)) (\<lambda>r.
       andthen (whenk (r > 0) (file_set f (\<lambda>y. y\<lparr>f_off := f_off y + word_of_int r\<rparr>))) (
       andthen (iunlock (Some ip)) (
       andthen end_op (
       if r < 0 then return (if i = n then n else -1)
       else if r \<noteq> n1 then panic ''short filewrite''
       else filewrite_loop f addr n (i + n1)))))))))
     else return (if i = n then n else -1))"
  by pat_completeness auto
termination
  by (relation "measure (\<lambda>(f, addr, n, i). nat (n - i))") (auto simp: max_write_def MAXOPBLOCKS_def)

declare filewrite_loop.simps [simp del]

definition filewrite :: "nat \<Rightarrow> u32 \<Rightarrow> int \<Rightarrow> (int, 'z ostate_scheme) kern" where
  "filewrite f addr n =
    bind (file_get f id) (\<lambda>x.
    if \<not> f_writable x then return (-1) else
    case f_type x of
      FD_PIPE \<Rightarrow> pipewrite (f_pipe x) addr n
    | FD_INODE \<Rightarrow> filewrite_loop f addr n 0
    | FD_NONE \<Rightarrow> panic ''filewrite'')"

section \<open>Making a pipe\<close>

definition close_opt :: "nat option \<Rightarrow> (unit, 'z ostate_scheme) kern" where
  "close_opt f = (case f of None \<Rightarrow> return () | Some x \<Rightarrow> fileclose x)"

definition pipe_bad :: "nat option \<Rightarrow> nat option \<Rightarrow> ((nat \<times> nat) option, 'z ostate_scheme) kern" where
  "pipe_bad f0 f1 = andthen (close_opt f0) (andthen (close_opt f1) (return None))"

text \<open>The two files, reading end first; \<open>None\<close> is the result -1.\<close>

definition pipealloc :: "((nat \<times> nat) option, 'z ostate_scheme) kern" where
  "pipealloc =
    bind filealloc (\<lambda>r0.
    case r0 of None \<Rightarrow> pipe_bad None None | Some f0 \<Rightarrow>
    bind filealloc (\<lambda>r1.
    (case r1 of None \<Rightarrow> pipe_bad (Some f0) None | Some f1 \<Rightarrow>
    bind kalloc (\<lambda>p.
    if p = 0 then pipe_bad (Some f0) (Some f1) else
    andthen (pipe_set p (\<lambda>q. q\<lparr>pi_nread := 0, pi_nwrite := 0, pi_readopen := True, pi_writeopen := True\<rparr>)) (
    andthen (initlock (L_pipe p) ''pipe'') (
    andthen (file_set f0 (\<lambda>x. x\<lparr>f_type := FD_PIPE, f_readable := True, f_writable := False, f_pipe := p\<rparr>)) (
    andthen (file_set f1 (\<lambda>x. x\<lparr>f_type := FD_PIPE, f_readable := False, f_writable := True, f_pipe := p\<rparr>))
      (return (Some (f0, f1))))))))))"

end
