(* ===== verification/Sysarg.thy ===== *)
theory Sysarg
  imports File
begin

text \<open>
  System-call arguments, \<^verbatim>\<open>src/syscall.c\<close> lines 16-83: words, buffers and strings of the calling
  process, checked against its size. \<open>None\<close> is the result -1.
\<close>

section \<open>Fetching arguments\<close>

definition fetchint :: "u32 \<Rightarrow> (u32 option, 'z pstate_scheme) kern" where
  "fetchint addr =
    bind the_proc (\<lambda>me.
    bind (proc_get me p_sz) (\<lambda>sz.
    if addr \<ge> sz \<or> addr + 4 > sz then return None
    else bind (vget32 addr) (\<lambda>x. return (Some x))))"

text \<open>The scan for the terminating zero, with the bytes left up to the end of the process.\<close>

fun fetchstr_loop :: "nat \<Rightarrow> u32 \<Rightarrow> (u8 list option, 'z base_scheme) kern" where
  "fetchstr_loop 0 a = return None"
| "fetchstr_loop (Suc k) a =
    bind (vget a) (\<lambda>c. if c = 0 then return (Some []) else
    bind (fetchstr_loop k (a + 1)) (\<lambda>r. return (map_option ((#) c) r)))"

text \<open>The string at the address, which is where the caller's pointer is set to.\<close>

definition fetchstr :: "u32 \<Rightarrow> (u8 list option, 'z pstate_scheme) kern" where
  "fetchstr addr =
    bind the_proc (\<lambda>me.
    bind (proc_get me p_sz) (\<lambda>sz.
    if addr \<ge> sz then return None else fetchstr_loop (unat sz - unat addr) addr))"

definition tf_esp :: u32 where "tf_esp = 68"

definition argint :: "nat \<Rightarrow> (u32 option, 'z pstate_scheme) kern" where
  "argint n =
    bind the_proc (\<lambda>me.
    bind (proc_get me p_tf) (\<lambda>tf.
    bind (load (tf + tf_esp)) (\<lambda>sp.
    fetchint (sp + 4 + 4 * of_nat n))))"

definition argptr :: "nat \<Rightarrow> int \<Rightarrow> (u32 option, 'z pstate_scheme) kern" where
  "argptr n len =
    bind the_proc (\<lambda>me.
    bind (argint n) (\<lambda>r.
    case r of None \<Rightarrow> return None | Some i \<Rightarrow>
    bind (proc_get me p_sz) (\<lambda>sz.
    if len < 0 \<or> i \<ge> sz \<or> i + word_of_int len > sz then return None else return (Some i))))"

definition argstr :: "nat \<Rightarrow> (u8 list option, 'z pstate_scheme) kern" where
  "argstr n = bind (argint n) (\<lambda>r. case r of None \<Rightarrow> return None | Some a \<Rightarrow> fetchstr a)"

text \<open>\<open>if(arg... < 0) return -1\<close>\<close>

definition or_fail :: "('a option, 's) kern \<Rightarrow> ('a \<Rightarrow> (int, 's) kern) \<Rightarrow> (int, 's) kern" where
  "or_fail f g = bind f (\<lambda>r. case r of None \<Rightarrow> return (-1) | Some x \<Rightarrow> g x)"

end
