(* ===== verification/Proclife.thy ===== *)
theory Proclife
  imports Sysarg
begin

text \<open>
  The life of a process, \<^verbatim>\<open>src/proc.c\<close>: \<open>userinit\<close>, \<open>fork\<close>, \<open>exit\<close> and \<open>forkret\<close>, which need the file
  system that \<open>Proc\<close> does not import.
\<close>

section \<open>State\<close>

record kmisc =
  ticks :: u32
  forkret_first :: bool
  idt :: "nat \<Rightarrow> gatedesc"

record xstate = ostate +
  misc :: kmisc

definition misc_set :: "(kmisc \<Rightarrow> kmisc) \<Rightarrow> (unit, 'z xstate_scheme) kern" where
  "misc_set f = modify (\<lambda>s. s\<lparr>misc := f (misc s)\<rparr>)"

definition store16 :: "u32 \<Rightarrow> u16 \<Rightarrow> (unit, 'z base_scheme) kern" where
  "store16 a v = set_mem (\<lambda>m. poke m a (le16 v))"

section \<open>The first process\<close>

text \<open>\<open>code\<close> is the linked image of \<^verbatim>\<open>initcode.S\<close>.\<close>

definition userinit :: "u8 list \<Rightarrow> (unit, 'z ostate_scheme) kern" where
  "userinit code =
    bind allocproc (\<lambda>r.
    andthen (modify (\<lambda>s. s\<lparr>pt := (pt s)\<lparr>initproc := r\<rparr>\<rparr>)) (
    case r of None \<Rightarrow> panic ''trap'' | Some p \<Rightarrow>
    bind setupkvm (\<lambda>d.
    andthen (proc_set p (\<lambda>q. q\<lparr>p_pgdir := d\<rparr>)) (
    if d = 0 then panic ''userinit: out of memory?'' else
    andthen (inituvm d code) (
    andthen (proc_set p (\<lambda>q. q\<lparr>p_sz := PGSIZE\<rparr>)) (
    bind (proc_get p p_tf) (\<lambda>tf.
    let ucode = of_nat (SEG_UCODE * 8) OR ucast DPL_USER; udata = of_nat (SEG_UDATA * 8) OR ucast DPL_USER in
    andthen (set_mem (\<lambda>m. memset m tf 0 sizeof_tf)) (
    andthen (store16 (tf + 60) ucode) (
    andthen (store16 (tf + 44) udata) (
    andthen (store16 (tf + 40) udata) (
    andthen (store16 (tf + 72) udata) (
    andthen (store (tf + 64) FL_IF) (
    andthen (store (tf + 68) PGSIZE) (
    andthen (store (tf + 56) 0) (
    andthen (proc_set p (\<lambda>q. q\<lparr>p_name := blit (p_name q) 0 (safestrcpy (lit ''initcode'') 16)\<rparr>)) (
    bind (namei (lit ''/'')) (\<lambda>cwd.
    andthen (proc_set p (\<lambda>q. q\<lparr>p_cwd := cwd\<rparr>)) (
    andthen (acquire L_ptable) (
    andthen (proc_set p (\<lambda>q. q\<lparr>p_state := RUNNABLE\<rparr>))
      (release L_ptable))))))))))))))))))))"

section \<open>Fork\<close>

fun fork_files :: "nat \<Rightarrow> nat \<Rightarrow> nat \<Rightarrow> nat \<Rightarrow> (unit, 'z ostate_scheme) kern" where
  "fork_files 0 i me np = return ()"
| "fork_files (Suc k) i me np =
    bind (proc_get me (\<lambda>p. p_ofile p ! i)) (\<lambda>fo.
    andthen (case fo of None \<Rightarrow> return () | Some f \<Rightarrow>
      bind (filedup f) (\<lambda>g. proc_set np (\<lambda>p. p\<lparr>p_ofile := (p_ofile p)[i := Some g]\<rparr>)))
      (fork_files k (Suc i) me np))"

definition fork :: "(int, 'z ostate_scheme) kern" where
  "fork =
    bind the_proc (\<lambda>me.
    bind allocproc (\<lambda>r.
    case r of None \<Rightarrow> return (-1) | Some np \<Rightarrow>
    bind (proc_get me (\<lambda>p. (p_pgdir p, p_sz p))) (\<lambda>(pgdir, sz).
    bind (copyuvm pgdir sz) (\<lambda>d.
    andthen (proc_set np (\<lambda>p. p\<lparr>p_pgdir := d\<rparr>)) (
    if d = 0 then
      bind (proc_get np p_kstack) (\<lambda>kstack.
      andthen (kfree kstack) (
      andthen (proc_set np (\<lambda>p. p\<lparr>p_kstack := 0\<rparr>)) (
      andthen (acquire L_ptable) (
      andthen (proc_set np (\<lambda>p. p\<lparr>p_state := UNUSED, p_pid := 0\<rparr>)) (
      andthen (release L_ptable) (return (-1)))))))
    else
      andthen (proc_set np (\<lambda>p. p\<lparr>p_sz := sz, p_parent := Some me\<rparr>)) (
      bind (proc_get np p_tf) (\<lambda>ntf.
      bind (proc_get me p_tf) (\<lambda>tf.
      andthen (set_mem (\<lambda>m. memmove m ntf tf sizeof_tf)) (
      andthen (store (ntf + 28) 0) (
      andthen (fork_files NOFILE 0 me np) (
      bind (proc_get me p_cwd) (\<lambda>cwd.
      case cwd of None \<Rightarrow> panic ''trap'' | Some dir \<Rightarrow>
      bind (idup dir) (\<lambda>dir'.
      andthen (proc_set np (\<lambda>p. p\<lparr>p_cwd := Some dir'\<rparr>)) (
      bind (proc_get me p_name) (\<lambda>name.
      andthen (proc_set np (\<lambda>p. p\<lparr>p_name := blit (p_name p) 0 (safestrcpy name 16)\<rparr>)) (
      bind (proc_get np p_pid) (\<lambda>pid.
      andthen (acquire L_ptable) (
      andthen (proc_set np (\<lambda>p. p\<lparr>p_state := RUNNABLE, p_timeslice := DEFAULT_QUANTUM, p_ticks_used := 0,
        p_stats := zero_stats\<rparr>)) (
      andthen (release L_ptable)
        (return pid))))))))))))))))))))"

section \<open>Exit\<close>

fun exit_files :: "nat \<Rightarrow> nat \<Rightarrow> nat \<Rightarrow> (unit, 'z ostate_scheme) kern" where
  "exit_files 0 fd me = return ()"
| "exit_files (Suc k) fd me =
    bind (proc_get me (\<lambda>p. p_ofile p ! fd)) (\<lambda>fo.
    andthen (case fo of None \<Rightarrow> return () | Some f \<Rightarrow>
      andthen (fileclose f) (proc_set me (\<lambda>p. p\<lparr>p_ofile := (p_ofile p)[fd := None]\<rparr>)))
      (exit_files k (Suc fd) me))"

text \<open>A process pointer as a sleep channel.\<close>

definition chan_of :: "nat option \<Rightarrow> chan" where
  "chan_of p = (case p of None \<Rightarrow> ChNull | Some i \<Rightarrow> ChProc i)"

fun reparent_loop :: "nat \<Rightarrow> nat \<Rightarrow> nat \<Rightarrow> (unit, 'z pstate_scheme) kern" where
  "reparent_loop 0 i me = return ()"
| "reparent_loop (Suc k) i me =
    bind (proc_get i id) (\<lambda>p.
    andthen (whenk (p_parent p = Some me) (
      bind (gets (\<lambda>s. initproc (pt s))) (\<lambda>ini.
      andthen (proc_set i (\<lambda>q. q\<lparr>p_parent := ini\<rparr>))
        (whenk (p_state p = ZOMBIE) (wakeup1 (chan_of ini))))))
      (reparent_loop k (Suc i) me))"

text \<open>\<open>exit\<close> from the point where it holds \<open>ptable.lock\<close>.\<close>

definition exit_switch :: "nat \<Rightarrow> ('a, 'z pstate_scheme) kern" where
  "exit_switch me =
    bind (proc_get me p_parent) (\<lambda>par.
    andthen (wakeup1 (chan_of par)) (
    andthen (reparent_loop NPROC 0 me) (
    andthen (proc_set me (\<lambda>p. p\<lparr>p_state := ZOMBIE\<rparr>))
      sched)))"

definition exit :: "('a, 'z ostate_scheme) kern" where
  "exit =
    bind myproc (\<lambda>mp.
    bind (gets (\<lambda>s. initproc (pt s))) (\<lambda>ini.
    if mp = ini then panic ''init exiting'' else
    case mp of None \<Rightarrow> panic ''trap'' | Some me \<Rightarrow>
    andthen (exit_files NOFILE 0 me) (
    andthen begin_op (
    bind (proc_get me p_cwd) (\<lambda>cwd.
    case cwd of None \<Rightarrow> panic ''trap'' | Some dir \<Rightarrow>
    andthen (iput dir) (
    andthen end_op (
    andthen (proc_set me (\<lambda>p. p\<lparr>p_cwd := None\<rparr>)) (
    andthen (acquire L_ptable)
      (exit_switch me)))))))))"

section \<open>A new process's first steps\<close>

definition forkret :: "(unit, 'z xstate_scheme) kern" where
  "forkret =
    andthen (release L_ptable) (
    bind (gets (\<lambda>s. forkret_first (misc s))) (\<lambda>b.
    whenk b (
      andthen (misc_set (\<lambda>k. k\<lparr>forkret_first := False\<rparr>)) (
      andthen (iinit ROOTDEV)
        (initlog ROOTDEV)))))"

end
