(* ===== verification/Exec.thy ===== *)
theory Exec
  imports Proclife
begin

text \<open>
  Loading a program, \<^verbatim>\<open>src/exec.c\<close>, with \<open>loaduvm\<close> of \<^verbatim>\<open>src/vm.c\<close> and the headers of \<^verbatim>\<open>src/elf.h\<close>.
\<close>

section \<open>Headers\<close>

definition ELF_MAGIC :: u32 where "ELF_MAGIC = 0x464C457F"
definition ELF_PROG_LOAD :: u32 where "ELF_PROG_LOAD = 1"
definition MAXARG :: nat where "MAXARG = 32"

record elfhdr =
  e_magic :: u32
  e_entry :: u32
  e_phoff :: u32
  e_phnum :: u16

definition bytes_elfhdr :: "u8 list \<Rightarrow> elfhdr" where
  "bytes_elfhdr b = \<lparr>e_magic = rd32 b 0, e_entry = rd32 b 24, e_phoff = rd32 b 28,
     e_phnum = of_le16 (take 2 (drop 44 b))\<rparr>"

record proghdr =
  ph_type :: u32
  ph_off :: u32
  ph_vaddr :: u32
  ph_filesz :: u32
  ph_memsz :: u32

definition bytes_proghdr :: "u8 list \<Rightarrow> proghdr" where
  "bytes_proghdr b = \<lparr>ph_type = rd32 b 0, ph_off = rd32 b 4, ph_vaddr = rd32 b 8,
     ph_filesz = rd32 b 16, ph_memsz = rd32 b 20\<rparr>"

section \<open>Loading a segment\<close>

text \<open>\<open>for(i = 0; i < sz; i += PGSIZE)\<close>, with the number of pages left.\<close>

fun loaduvm_loop :: "nat \<Rightarrow> u32 \<Rightarrow> u32 \<Rightarrow> nat \<Rightarrow> u32 \<Rightarrow> u32 \<Rightarrow> u32 \<Rightarrow> (int, 'z dstate_scheme) kern" where
  "loaduvm_loop 0 pgdir addr ip off sz i = return 0"
| "loaduvm_loop (Suc k) pgdir addr ip off sz i =
    bind (walkpgdir pgdir (addr + i) False) (\<lambda>pte.
    if pte = 0 then panic ''loaduvm: address should exist'' else
    bind (load pte) (\<lambda>e.
    let n = if sz - i < PGSIZE then sz - i else PGSIZE in
    bind (readi ip (ToMem (P2V (PTE_ADDR e))) (off + i) n) (\<lambda>(r, _).
    if r \<noteq> uint n then return (-1)
    else loaduvm_loop k pgdir addr ip off sz (i + PGSIZE))))"

definition loaduvm :: "u32 \<Rightarrow> u32 \<Rightarrow> nat \<Rightarrow> u32 \<Rightarrow> u32 \<Rightarrow> (int, 'z dstate_scheme) kern" where
  "loaduvm pgdir addr ip off sz =
    (if addr mod PGSIZE \<noteq> 0 then panic ''loaduvm: addr must be page aligned''
     else loaduvm_loop ((unat sz + 4095) div 4096) pgdir addr ip off sz 0)"

section \<open>Exec\<close>

text \<open>The program-header loop: the size of the image, or \<open>None\<close> for \<open>goto bad\<close>.\<close>

fun exec_load :: "nat \<Rightarrow> u32 \<Rightarrow> nat \<Rightarrow> u32 \<Rightarrow> u32 \<Rightarrow> (u32 option, 'z dstate_scheme) kern" where
  "exec_load 0 pgdir ip off sz = return (Some sz)"
| "exec_load (Suc k) pgdir ip off sz =
    bind (readi ip ToVar off 32) (\<lambda>(r, b).
    if r \<noteq> 32 then return None else
    let ph = bytes_proghdr b in
    if ph_type ph \<noteq> ELF_PROG_LOAD then exec_load k pgdir ip (off + 32) sz
    else if ph_memsz ph < ph_filesz ph then return None
    else if ph_vaddr ph + ph_memsz ph < ph_vaddr ph then return None
    else
      bind (allocuvm pgdir sz (ph_vaddr ph + ph_memsz ph)) (\<lambda>sz'.
      if sz' = 0 then return None
      else if ph_vaddr ph mod PGSIZE \<noteq> 0 then return None
      else
        bind (loaduvm pgdir (ph_vaddr ph) ip (ph_off ph) (ph_filesz ph)) (\<lambda>r'.
        if r' < 0 then return None else exec_load k pgdir ip (off + 32) sz')))"

text \<open>Pushing the argument strings: the final stack pointer and the pointers to them.\<close>

fun push_args :: "u8 list list \<Rightarrow> u32 \<Rightarrow> u32 \<Rightarrow> u32 list \<Rightarrow> ((u32 \<times> u32 list) option, 'z kstate_scheme) kern" where
  "push_args [] pgdir sp ptrs = return (Some (sp, ptrs))"
| "push_args (a # as) pgdir sp ptrs =
    (if length ptrs \<ge> MAXARG then return None else
     let sp' = (sp - of_nat (strlen a + 1)) AND NOT 3 in
     bind (copyout pgdir sp' (cstr a @ [0])) (\<lambda>r.
     if r < 0 then return None else push_args as pgdir sp' (ptrs @ [sp'])))"

definition ustack :: "u32 \<Rightarrow> u32 list \<Rightarrow> u32 list" where
  "ustack sp ptrs = [0xFFFFFFFF, of_nat (length ptrs), sp - of_nat ((length ptrs + 1) * 4)] @ ptrs @ [0]"

definition last_elem :: "u8 list \<Rightarrow> u8 list" where
  "last_elem path = rev (takeWhile (\<lambda>c. c \<noteq> SLASH) (rev (cstr path)))"

definition exec_bad :: "u32 \<Rightarrow> nat option \<Rightarrow> (int, 'z fstate_scheme) kern" where
  "exec_bad pgdir ipo =
    andthen (whenk (pgdir \<noteq> 0) (freevm pgdir)) (
    andthen (case ipo of None \<Rightarrow> return () | Some ip \<Rightarrow> andthen (iunlockput ip) end_op)
      (return (-1)))"

text \<open>The second half, after the image is loaded and the transaction ended.\<close>

definition exec_stack :: "nat \<Rightarrow> u8 list \<Rightarrow> u8 list list \<Rightarrow> elfhdr \<Rightarrow> u32 \<Rightarrow> u32 \<Rightarrow> (int, 'z dstate_scheme) kern" where
  "exec_stack me path argv elf pgdir sz0 =
    (let base = PGROUNDUP sz0 in
     bind (allocuvm pgdir base (base + 2 * PGSIZE)) (\<lambda>sz.
     if sz = 0 then exec_bad pgdir None else
     andthen (clearpteu pgdir (sz - 2 * PGSIZE)) (
     bind (push_args argv pgdir sz []) (\<lambda>r.
     case r of None \<Rightarrow> exec_bad pgdir None | Some (sp, ptrs) \<Rightarrow>
     let sp' = sp - of_nat ((3 + length ptrs + 1) * 4) in
     bind (copyout pgdir sp' (concat (map le32 (ustack sp ptrs)))) (\<lambda>r.
     if r < 0 then exec_bad pgdir None else
     andthen (proc_set me (\<lambda>p. p\<lparr>p_name := blit (p_name p) 0 (safestrcpy (last_elem path) 16)\<rparr>)) (
     bind (proc_get me p_pgdir) (\<lambda>oldpgdir.
     andthen (proc_set me (\<lambda>p. p\<lparr>p_sz := sz, p_pgdir := pgdir\<rparr>)) (
     bind (proc_get me p_tf) (\<lambda>tf.
     andthen (store (tf + 56) (e_entry elf)) (
     andthen (store (tf + 68) sp') (
     bind (proc_get me (\<lambda>q. (p_kstack q, p_pgdir q))) (\<lambda>kd.
     andthen (switchuvm (Some kd)) (
     andthen (freevm oldpgdir) (return 0))))))))))))))"

definition exec :: "u8 list \<Rightarrow> u8 list list \<Rightarrow> (int, 'z dstate_scheme) kern" where
  "exec path argv =
    bind the_proc (\<lambda>me.
    andthen begin_op (
    bind (namei path) (\<lambda>ipo.
    case ipo of
      None \<Rightarrow> andthen end_op (andthen (cprintf (Some (lit ''exec: fail'' @ [NL])) []) (return (-1)))
    | Some ip \<Rightarrow>
      andthen (ilock (Some ip)) (
      bind (readi ip ToVar 0 52) (\<lambda>(r, b).
      if r \<noteq> 52 then exec_bad 0 (Some ip) else
      let elf = bytes_elfhdr b in
      if e_magic elf \<noteq> ELF_MAGIC then exec_bad 0 (Some ip) else
      bind setupkvm (\<lambda>pgdir.
      if pgdir = 0 then exec_bad 0 (Some ip) else
      bind (exec_load (unat (e_phnum elf)) pgdir ip (e_phoff elf) 0) (\<lambda>szo.
      case szo of
        None \<Rightarrow> exec_bad pgdir (Some ip)
      | Some sz \<Rightarrow>
          andthen (iunlockput ip) (
          andthen end_op
            (exec_stack me path argv elf pgdir sz)))))))))"

end
