(* ===== verification/Sysfile.thy ===== *)
theory Sysfile
  imports Exec Fcntl
begin

text \<open>
  The file-system calls, \<^verbatim>\<open>src/sysfile.c\<close>: argument checks, then the operations of the file layer.
\<close>

section \<open>Descriptors\<close>


definition argfd :: "nat \<Rightarrow> ((nat \<times> nat) option, 'z pstate_scheme) kern" where
  "argfd n =
    bind (argint n) (\<lambda>r.
    case r of None \<Rightarrow> return None | Some w \<Rightarrow>
    let fd = sint w in
    if fd < 0 \<or> fd \<ge> int NOFILE then return None else
    bind the_proc (\<lambda>me.
    bind (proc_get me (\<lambda>p. p_ofile p ! nat fd)) (\<lambda>fo.
    return (map_option (\<lambda>f. (nat fd, f)) fo))))"

definition fdalloc :: "nat \<Rightarrow> (int, 'z pstate_scheme) kern" where
  "fdalloc f =
    bind the_proc (\<lambda>me.
    bind (proc_get me (\<lambda>p. scan (\<lambda>fd. p_ofile p ! fd = None) 0 NOFILE)) (\<lambda>r.
    case r of
      None \<Rightarrow> return (-1)
    | Some fd \<Rightarrow> andthen (proc_set me (\<lambda>p. p\<lparr>p_ofile := (p_ofile p)[fd := Some f]\<rparr>)) (return (int fd))))"

definition fd_clear :: "nat \<Rightarrow> (unit, 'z pstate_scheme) kern" where
  "fd_clear fd = bind the_proc (\<lambda>me. proc_set me (\<lambda>p. p\<lparr>p_ofile := (p_ofile p)[fd := None]\<rparr>))"

definition sys_dup :: "(int, 'z ostate_scheme) kern" where
  "sys_dup = or_fail (argfd 0) (\<lambda>(_, f).
    bind (fdalloc f) (\<lambda>fd. if fd < 0 then return (-1) else andthen (filedup f) (return fd)))"

definition sys_read :: "(int, 'z ostate_scheme) kern" where
  "sys_read = or_fail (argfd 0) (\<lambda>(_, f). or_fail (argint 2) (\<lambda>n. or_fail (argptr 1 (sint n)) (\<lambda>p.
    fileread f p (sint n))))"

definition sys_write :: "(int, 'z ostate_scheme) kern" where
  "sys_write = or_fail (argfd 0) (\<lambda>(_, f). or_fail (argint 2) (\<lambda>n. or_fail (argptr 1 (sint n)) (\<lambda>p.
    filewrite f p (sint n))))"

definition sys_close :: "(int, 'z ostate_scheme) kern" where
  "sys_close = or_fail (argfd 0) (\<lambda>(fd, f).
    andthen (fd_clear fd) (andthen (fileclose f) (return 0)))"

definition sys_fstat :: "(int, 'z ostate_scheme) kern" where
  "sys_fstat = or_fail (argfd 0) (\<lambda>(_, f). or_fail (argptr 1 20) (\<lambda>st. filestat f st))"

section \<open>Links\<close>

definition nlink_add :: "nat \<Rightarrow> u16 \<Rightarrow> (unit, 'z fstate_scheme) kern" where
  "nlink_add ip k = andthen (din_set ip (\<lambda>d. d\<lparr>d_nlink := d_nlink d + k\<rparr>)) (iupdate ip)"

definition link_bad :: "nat \<Rightarrow> (int, 'z fstate_scheme) kern" where
  "link_bad ip =
    andthen (ilock (Some ip)) (
    andthen (nlink_add ip (-1)) (
    andthen (iunlockput ip) (
    andthen end_op (return (-1)))))"

definition sys_link :: "(int, 'z ostate_scheme) kern" where
  "sys_link = or_fail (argstr 0) (\<lambda>old. or_fail (argstr 1) (\<lambda>new.
    andthen begin_op (
    bind (namei old) (\<lambda>ipo.
    case ipo of None \<Rightarrow> andthen end_op (return (-1)) | Some ip \<Rightarrow>
    andthen (ilock (Some ip)) (
    bind (ino_get ip (\<lambda>i. d_type (i_d i))) (\<lambda>ty.
    if ty = T_DIR then andthen (iunlockput ip) (andthen end_op (return (-1))) else
    andthen (nlink_add ip 1) (
    andthen (iunlock (Some ip)) (
    bind (nameiparent new) (\<lambda>dpo.
    case dpo of None \<Rightarrow> link_bad ip | Some (dp, name) \<Rightarrow>
    andthen (ilock (Some dp)) (
    bind (gets (\<lambda>s. (i_dev (inodes s ! dp), i_dev (inodes s ! ip), i_inum (inodes s ! ip)))) (\<lambda>(dd, di, inum).
    bind (if dd \<noteq> di then return (-1) else dirlink dp name inum) (\<lambda>r.
    if r < 0 then andthen (iunlockput dp) (link_bad ip) else
    andthen (iunlockput dp) (
    andthen (iput ip) (
    andthen end_op (return 0)))))))))))))))"

fun isdirempty_loop :: "nat \<Rightarrow> nat \<Rightarrow> u32 \<Rightarrow> (bool, 'z dstate_scheme) kern" where
  "isdirempty_loop 0 dp off = return True"
| "isdirempty_loop (Suc k) dp off =
    bind (read_dirent ''isdirempty: readi'' dp off) (\<lambda>e.
    if de_inum e \<noteq> 0 then return False else isdirempty_loop k dp (off + sizeof_de))"

text \<open>The loop starts after the two entries for the directory and its parent.\<close>

definition isdirempty :: "nat \<Rightarrow> (bool, 'z dstate_scheme) kern" where
  "isdirempty dp = bind (ino_get dp (\<lambda>i. d_size (i_d i))) (\<lambda>sz. isdirempty_loop (entries sz - 2) dp (2 * sizeof_de))"

definition unlink_bad :: "nat \<Rightarrow> (int, 'z fstate_scheme) kern" where
  "unlink_bad dp = andthen (iunlockput dp) (andthen end_op (return (-1)))"

definition sys_unlink :: "(int, 'z ostate_scheme) kern" where
  "sys_unlink = or_fail (argstr 0) (\<lambda>path.
    andthen begin_op (
    bind (nameiparent path) (\<lambda>dpo.
    case dpo of None \<Rightarrow> andthen end_op (return (-1)) | Some (dp, name) \<Rightarrow>
    andthen (ilock (Some dp)) (
    if namecmp name (lit ''.'') = 0 \<or> namecmp name (lit ''..'') = 0 then unlink_bad dp else
    bind (dirlookup dp name) (\<lambda>ipo.
    case ipo of None \<Rightarrow> unlink_bad dp | Some (ip, off) \<Rightarrow>
    andthen (ilock (Some ip)) (
    bind (ino_get ip i_d) (\<lambda>d.
    if sint (d_nlink d) < 1 then panic ''unlink: nlink < 1'' else
    bind (if d_type d = T_DIR then isdirempty ip else return True) (\<lambda>ok.
    if \<not> ok then andthen (iunlockput ip) (unlink_bad dp) else
    bind (writei dp (FromVar (replicate 16 0)) off sizeof_de) (\<lambda>r.
    if r \<noteq> 16 then panic ''unlink: writei'' else
    andthen (whenk (d_type d = T_DIR) (nlink_add dp (-1))) (
    andthen (iunlockput dp) (
    andthen (nlink_add ip (-1)) (
    andthen (iunlockput ip) (
    andthen end_op (return 0))))))))))))))"

section \<open>Creating files\<close>

text \<open>The new or existing inode, locked.\<close>

definition create :: "u8 list \<Rightarrow> u16 \<Rightarrow> u16 \<Rightarrow> u16 \<Rightarrow> (nat option, 'z dstate_scheme) kern" where
  "create path ty mj mn =
    bind (nameiparent path) (\<lambda>dpo.
    case dpo of None \<Rightarrow> return None | Some (dp, name) \<Rightarrow>
    andthen (ilock (Some dp)) (
    bind (dirlookup dp name) (\<lambda>found.
    case found of
      Some (ip, _) \<Rightarrow>
        andthen (iunlockput dp) (
        andthen (ilock (Some ip)) (
        bind (ino_get ip (\<lambda>i. d_type (i_d i))) (\<lambda>t.
        if ty = T_FILE \<and> t = T_FILE then return (Some ip)
        else andthen (iunlockput ip) (return None))))
    | None \<Rightarrow>
        bind (ino_get dp i_dev) (\<lambda>dev.
        bind (ialloc dev ty) (\<lambda>ip.
        andthen (ilock (Some ip)) (
        andthen (din_set ip (\<lambda>d. d\<lparr>d_major := mj, d_minor := mn, d_nlink := 1\<rparr>)) (
        andthen (iupdate ip) (
        bind (ino_get ip i_inum) (\<lambda>inum.
        bind (ino_get dp i_inum) (\<lambda>pinum.
        andthen (whenk (ty = T_DIR) (
          andthen (nlink_add dp 1) (
          bind (dirlink ip (lit ''.'') inum) (\<lambda>r1.
          if r1 < 0 then panic ''create dots'' else
          bind (dirlink ip (lit ''..'') pinum) (\<lambda>r2.
          whenk (r2 < 0) (panic ''create dots'')))))) (
        bind (dirlink dp name inum) (\<lambda>r.
        if r < 0 then panic ''create: dirlink'' else
        andthen (iunlockput dp) (return (Some ip))))))))))))))"

text \<open>The inode to open, locked, or \<open>None\<close> after the transaction is ended.\<close>

definition open_inode :: "u8 list \<Rightarrow> u32 \<Rightarrow> (nat option, 'z dstate_scheme) kern" where
  "open_inode path omode =
    (if omode AND O_CREATE \<noteq> 0 then
       bind (create path T_FILE 0 0) (\<lambda>ipo.
       case ipo of None \<Rightarrow> andthen end_op (return None) | Some ip \<Rightarrow> return (Some ip))
     else
       bind (namei path) (\<lambda>ipo.
       case ipo of None \<Rightarrow> andthen end_op (return None) | Some ip \<Rightarrow>
       andthen (ilock (Some ip)) (
       bind (ino_get ip (\<lambda>i. d_type (i_d i))) (\<lambda>ty.
       if ty = T_DIR \<and> omode \<noteq> 0 then andthen (iunlockput ip) (andthen end_op (return None))
       else return (Some ip)))))"

definition open_bad :: "nat \<Rightarrow> (int, 'z fstate_scheme) kern" where
  "open_bad ip = andthen (iunlockput ip) (andthen end_op (return (-1)))"

definition sys_open :: "(int, 'z ostate_scheme) kern" where
  "sys_open = or_fail (argstr 0) (\<lambda>path. or_fail (argint 1) (\<lambda>omode.
    andthen begin_op (
    or_fail (open_inode path omode) (\<lambda>ip.
    bind filealloc (\<lambda>fo.
    case fo of None \<Rightarrow> open_bad ip | Some f \<Rightarrow>
    bind (fdalloc f) (\<lambda>fd.
    if fd < 0 then andthen (fileclose f) (open_bad ip) else
    andthen (iunlock (Some ip)) (
    andthen end_op (
    andthen (file_set f (\<lambda>x. x\<lparr>f_type := FD_INODE, f_readable := (omode AND O_WRONLY = 0),
      f_writable := (omode AND O_WRONLY \<noteq> 0 \<or> omode AND O_RDWR \<noteq> 0), f_ip := ip, f_off := 0\<rparr>))
      (return fd)))))))))"

text \<open>\<open>begin_op\<close> comes before the arguments are looked at.\<close>

definition made :: "(nat option, 'z dstate_scheme) kern \<Rightarrow> (int, 'z dstate_scheme) kern" where
  "made m = bind m (\<lambda>ipo. case ipo of None \<Rightarrow> andthen end_op (return (-1))
     | Some ip \<Rightarrow> andthen (iunlockput ip) (andthen end_op (return 0)))"

definition sys_mkdir :: "(int, 'z ostate_scheme) kern" where
  "sys_mkdir = andthen begin_op (made (
    bind (argstr 0) (\<lambda>r. case r of None \<Rightarrow> return None | Some path \<Rightarrow> create path T_DIR 0 0)))"

definition sys_mknod :: "(int, 'z ostate_scheme) kern" where
  "sys_mknod = andthen begin_op (made (
    bind (argstr 0) (\<lambda>r. case r of None \<Rightarrow> return None | Some path \<Rightarrow>
    bind (argint 1) (\<lambda>r1. (case r1 of None \<Rightarrow> return None | Some mj \<Rightarrow>
    bind (argint 2) (\<lambda>r2. (case r2 of None \<Rightarrow> return None | Some mn \<Rightarrow>
    create path T_DEV (ucast mj) (ucast mn))))))))"

section \<open>The other calls\<close>

definition sys_chdir :: "(int, 'z ostate_scheme) kern" where
  "sys_chdir =
    bind the_proc (\<lambda>me.
    andthen begin_op (
    bind (bind (argstr 0) (\<lambda>r. case r of None \<Rightarrow> return None | Some path \<Rightarrow> namei path)) (\<lambda>ipo.
    case ipo of None \<Rightarrow> andthen end_op (return (-1)) | Some ip \<Rightarrow>
    andthen (ilock (Some ip)) (
    bind (ino_get ip (\<lambda>i. d_type (i_d i))) (\<lambda>ty.
    if ty \<noteq> T_DIR then andthen (iunlockput ip) (andthen end_op (return (-1))) else
    andthen (iunlock (Some ip)) (
    bind (proc_get me p_cwd) (\<lambda>cwd.
    andthen (case cwd of None \<Rightarrow> panic ''trap'' | Some dir \<Rightarrow> iput dir) (
    andthen end_op (
    andthen (proc_set me (\<lambda>p. p\<lparr>p_cwd := Some ip\<rparr>)) (return 0))))))))))"

text \<open>The argument vector: at most \<open>MAXARG\<close> slots, ended by a null pointer.\<close>

fun fetch_argv :: "nat \<Rightarrow> u32 \<Rightarrow> (u8 list list option, 'z pstate_scheme) kern" where
  "fetch_argv 0 a = return None"
| "fetch_argv (Suc k) a =
    bind (fetchint a) (\<lambda>r.
    case r of None \<Rightarrow> return None | Some uarg \<Rightarrow>
    if uarg = 0 then return (Some []) else
    bind (fetchstr uarg) (\<lambda>st.
    (case st of None \<Rightarrow> return None | Some x \<Rightarrow>
    bind (fetch_argv k (a + 4)) (\<lambda>rest. return (map_option ((#) x) rest)))))"

definition sys_exec :: "(int, 'z ostate_scheme) kern" where
  "sys_exec = or_fail (argstr 0) (\<lambda>path. or_fail (argint 1) (\<lambda>uargv.
    or_fail (fetch_argv MAXARG uargv) (\<lambda>argv. exec path argv)))"

definition sys_pipe :: "(int, 'z ostate_scheme) kern" where
  "sys_pipe = or_fail (argptr 0 8) (\<lambda>fd.
    bind pipealloc (\<lambda>r.
    case r of None \<Rightarrow> return (-1) | Some (rfile, wfile) \<Rightarrow>
    bind (fdalloc rfile) (\<lambda>fd0.
    bind (if fd0 < 0 then return (-1) else fdalloc wfile) (\<lambda>fd1.
    if fd0 < 0 \<or> fd1 < 0 then
      andthen (whenk (fd0 \<ge> 0) (fd_clear (nat fd0))) (
      andthen (fileclose rfile) (
      andthen (fileclose wfile) (return (-1))))
    else
      andthen (vput32 fd (word_of_int fd0)) (
      andthen (vput32 (fd + 4) (word_of_int fd1)) (return 0))))))"

end
