(* ===== verification/Syscall.thy ===== *)
theory Syscall
  imports Sysfile
begin

text \<open>
  The process system calls, \<^verbatim>\<open>src/sysproc.c\<close>, and the dispatcher of \<^verbatim>\<open>src/syscall.c\<close>.
\<close>

section \<open>Process calls\<close>

definition sys_fork :: "(int, 'z xstate_scheme) kern" where
  "sys_fork = fork"

definition sys_exit :: "(int, 'z xstate_scheme) kern" where
  "sys_exit = andthen (exit :: (unit, 'z xstate_scheme) kern) (return 0)"

definition sys_wait :: "(int, 'z xstate_scheme) kern" where
  "sys_wait = wait"

definition sys_kill :: "(int, 'z xstate_scheme) kern" where
  "sys_kill = or_fail (argint 0) (\<lambda>pid. kill (sint pid))"

definition sys_getpid :: "(int, 'z xstate_scheme) kern" where
  "sys_getpid = bind the_proc (\<lambda>me. proc_get me p_pid)"

definition sys_sbrk :: "(int, 'z xstate_scheme) kern" where
  "sys_sbrk = or_fail (argint 0) (\<lambda>n.
    bind the_proc (\<lambda>me.
    bind (proc_get me p_sz) (\<lambda>addr.
    bind (growproc (sint n)) (\<lambda>r.
    if r < 0 then return (-1) else return (sint addr)))))"

text \<open>
  The loop of \<open>sys_sleep\<close>, with \<open>tickslock\<close> held: the comparison of an unsigned difference with \<open>n\<close> is
  unsigned.
\<close>

definition sys_sleep_loop :: "u32 \<Rightarrow> u32 \<Rightarrow> (int, 'z xstate_scheme) kern" where
  "sys_sleep_loop n ticks0 =
    bind (gets (\<lambda>s. ticks (misc s))) (\<lambda>t.
    if t - ticks0 < n then
      bind the_proc (\<lambda>me.
      bind (proc_get me p_killed) (\<lambda>killed.
      if killed then andthen (release L_tick) (return (-1))
      else sleep ChTicks (Some L_tick)))
    else andthen (release L_tick) (return 0))"

definition sys_sleep :: "(int, 'z xstate_scheme) kern" where
  "sys_sleep = or_fail (argint 0) (\<lambda>n.
    andthen (acquire L_tick) (
    bind (gets (\<lambda>s. ticks (misc s))) (\<lambda>ticks0. sys_sleep_loop n ticks0)))"

definition sys_sleep_resume :: "nat \<Rightarrow> u32 \<Rightarrow> u32 \<Rightarrow> u32 \<Rightarrow> (int, 'z xstate_scheme) kern" where
  "sys_sleep_resume me intena n ticks0 = andthen (sleep_resume me intena L_tick) (sys_sleep_loop n ticks0)"

definition sys_uptime :: "(int, 'z xstate_scheme) kern" where
  "sys_uptime =
    andthen (acquire L_tick) (
    bind (gets (\<lambda>s. ticks (misc s))) (\<lambda>t.
    andthen (release L_tick) (return (sint t))))"

definition sys_getyear :: "(int, 'z xstate_scheme) kern" where
  "sys_getyear = return 2025"

definition sys_setquantum_pid :: "(int, 'z xstate_scheme) kern" where
  "sys_setquantum_pid = or_fail (argint 0) (\<lambda>pid. or_fail (argint 1) (\<lambda>q. setquantum_pid (sint pid) (sint q)))"

definition sys_gettimeslice :: "(int, 'z xstate_scheme) kern" where
  "sys_gettimeslice = or_fail (argint 0) (\<lambda>pid. gettimeslice (sint pid))"

definition sizeof_procinfo :: int where "sizeof_procinfo = 44"
definition sizeof_pstats :: int where "sizeof_pstats = 20"

definition sys_getprocinfo :: "(int, 'z xstate_scheme) kern" where
  "sys_getprocinfo = or_fail (argint 0) (\<lambda>pid. or_fail (argptr 1 sizeof_procinfo) (\<lambda>a. getprocinfo (sint pid) a))"

definition sys_getpstats :: "(int, 'z xstate_scheme) kern" where
  "sys_getpstats = or_fail (argint 0) (\<lambda>pid. or_fail (argptr 1 sizeof_pstats) (\<lambda>a. getpstats (sint pid) a))"

definition sys_sem_init :: "(int, 'z xstate_scheme) kern" where
  "sys_sem_init = or_fail (argint 0) (\<lambda>v. sem_init (sint v))"

definition sys_sem_wait :: "(int, 'z xstate_scheme) kern" where
  "sys_sem_wait = or_fail (argint 0) (\<lambda>i. sem_wait (sint i))"

definition sys_sem_signal :: "(int, 'z xstate_scheme) kern" where
  "sys_sem_signal = or_fail (argint 0) (\<lambda>i. sem_signal (sint i))"

section \<open>Dispatch\<close>

definition syscalls :: "(int, 'z xstate_scheme) kern option list" where
  "syscalls = [None, Some sys_fork, Some sys_exit, Some sys_wait, Some sys_pipe, Some sys_read, Some sys_kill,
     Some sys_exec, Some sys_fstat, Some sys_chdir, Some sys_dup, Some sys_getpid, Some sys_sbrk, Some sys_sleep,
     Some sys_uptime, Some sys_open, Some sys_write, Some sys_mknod, Some sys_unlink, Some sys_link,
     Some sys_mkdir, Some sys_close, Some sys_getyear, Some sys_setquantum_pid, Some sys_gettimeslice,
     Some sys_getpstats, Some sys_getprocinfo, Some sys_sem_init, Some sys_sem_wait, Some sys_sem_signal]"

definition tf_eax :: u32 where "tf_eax = 28"

text \<open>The end of a call that has returned \<open>r\<close>, at once or after sleeping.\<close>

definition syscall_return :: "nat \<Rightarrow> int \<Rightarrow> (unit, 'z pstate_scheme) kern" where
  "syscall_return me r = bind (proc_get me p_tf) (\<lambda>tf. store (tf + tf_eax) (word_of_int r))"

definition syscall :: "(unit, 'z xstate_scheme) kern" where
  "syscall =
    bind the_proc (\<lambda>me.
    bind (proc_get me p_tf) (\<lambda>tf.
    bind (load (tf + tf_eax)) (\<lambda>num.
    case (if 0 < sint num \<and> sint num < int (length (syscalls :: (int, 'z xstate_scheme) kern option list)) then syscalls ! nat (sint num) else None) of
      Some f \<Rightarrow> bind f (syscall_return me)
    | None \<Rightarrow>
        bind (proc_get me id) (\<lambda>p.
        andthen (cprintf (Some (lit ''%d %s: unknown sys call %d'' @ [NL]))
          [int_arg (word_of_int (p_pid p)), str_arg (p_name p), int_arg num])
          (syscall_return me (-1))))))"

end
