(* ===== verification/Trap.thy ===== *)
theory Trap
  imports Syscall
begin

text \<open>
  Traps, \<^verbatim>\<open>src/trap.c\<close>: the interrupt descriptor table, system calls, device interrupts and the
  timer with its Round-Robin preemption. The arguments of \<open>trap\<close> beside the trap frame are what the
  hardware supplies: the bytes a device has pending and the faulting address. The table of
  entry points \<open>vectors\<close> is generated by the build.
\<close>

definition T_SYSCALL :: nat where "T_SYSCALL = 64"
definition tf_trapno :: u32 where "tf_trapno = 48"
definition tf_err :: u32 where "tf_err = 52"
definition tf_eip :: u32 where "tf_eip = 56"
definition tf_cs :: u32 where "tf_cs = 60"

definition tvinit :: "(nat \<Rightarrow> u32) \<Rightarrow> (unit, 'z xstate_scheme) kern" where
  "tvinit vectors =
    (let kcode = of_nat (SEG_KCODE * 8) in
     andthen (misc_set (\<lambda>k. k\<lparr>idt := (\<lambda>i. if i < 256 then SETGATE False kcode (vectors i) 0 else idt k i)\<rparr>)) (
     andthen (misc_set (\<lambda>k. k\<lparr>idt := (idt k)(T_SYSCALL := SETGATE True kcode (vectors T_SYSCALL) DPL_USER)\<rparr>))
       (initlock L_tick ''time'')))"

definition die_if_killed :: "(unit, 'z xstate_scheme) kern" where
  "die_if_killed = bind the_proc (\<lambda>me. bind (proc_get me p_killed) (\<lambda>k. whenk k exit))"

text \<open>After the call, also when it has slept in between.\<close>

definition trap_syscall :: "u32 \<Rightarrow> (unit, 'z xstate_scheme) kern" where
  "trap_syscall tf =
    andthen die_if_killed (
    bind the_proc (\<lambda>me.
    andthen (proc_set me (\<lambda>p. p\<lparr>p_tf := tf\<rparr>)) (
    andthen syscall
      die_if_killed)))"

definition timer_irq :: "(unit, 'z xstate_scheme) kern" where
  "timer_irq =
    bind (on_mach cpuid) (\<lambda>c.
    andthen (whenk (c = 0) (
      andthen (acquire L_tick) (
      andthen (misc_set (\<lambda>k. k\<lparr>ticks := ticks k + 1\<rparr>)) (
      andthen (wakeup ChTicks) (
      andthen (release L_tick)
        update_sleep_stats)))))
      (on_mach lapiceoi))"

definition unexpected :: "u32 \<Rightarrow> u32 \<Rightarrow> u32 \<Rightarrow> (unit, 'z xstate_scheme) kern" where
  "unexpected no tf cr2 =
    bind myproc (\<lambda>mp.
    bind (load (tf + tf_cs)) (\<lambda>cs.
    bind (load (tf + tf_eip)) (\<lambda>eip.
    if mp = None \<or> cs AND 3 = 0 then
      bind (on_mach cpuid) (\<lambda>c.
      andthen (cprintf (Some (lit ''unexpected trap %d from cpu %d eip %x (cr2=0x%x)'' @ [NL]))
        [int_arg no, int_arg (of_nat c), int_arg eip, int_arg cr2])
        (panic ''trap''))
    else
      bind the_proc (\<lambda>me.
      bind (proc_get me id) (\<lambda>p.
      bind (load (tf + tf_err)) (\<lambda>err.
      bind (on_mach cpuid) (\<lambda>c.
      andthen (cprintf (Some (lit ''pid %d %s: trap %d err %d on cpu %d eip 0x%x addr 0x%x--kill proc'' @ [NL]))
        [int_arg (word_of_int (p_pid p)), str_arg (p_name p), int_arg no, int_arg err, int_arg (of_nat c),
         int_arg eip, int_arg cr2])
        (proc_set me (\<lambda>q. q\<lparr>p_killed := True\<rparr>)))))))))"

definition trap_irq :: "u32 \<Rightarrow> u32 \<Rightarrow> u8 list \<Rightarrow> u32 \<Rightarrow> (unit, 'z xstate_scheme) kern" where
  "trap_irq no tf pending cr2 =
    (if no = of_nat (T_IRQ0 + IRQ_TIMER) then timer_irq
     else if no = of_nat (T_IRQ0 + IRQ_IDE) then andthen ideintr (on_mach lapiceoi)
     else if no = of_nat (T_IRQ0 + IRQ_IDE + 1) then return ()
     else if no = of_nat (T_IRQ0 + IRQ_KBD) then andthen (kbdintr pending) (on_mach lapiceoi)
     else if no = of_nat (T_IRQ0 + IRQ_COM1) then andthen (uartintr pending) (on_mach lapiceoi)
     else if no = of_nat (T_IRQ0 + 7) \<or> no = of_nat (T_IRQ0 + IRQ_SPURIOUS) then
       bind (on_mach cpuid) (\<lambda>c.
       bind (load (tf + tf_cs)) (\<lambda>cs.
       bind (load (tf + tf_eip)) (\<lambda>eip.
       andthen (cprintf (Some (lit ''cpu%d: spurious interrupt at %x:%x'' @ [NL]))
         [int_arg (of_nat c), int_arg (cs AND 0xFFFF), int_arg eip])
         (on_mach lapiceoi))))
     else unexpected no tf cr2)"

text \<open>\<open>if(myproc() && myproc()->killed && (tf->cs&3) == DPL_USER) exit();\<close>\<close>

definition kill_check :: "u32 \<Rightarrow> (unit, 'z xstate_scheme) kern" where
  "kill_check tf =
    bind myproc (\<lambda>mp. case mp of None \<Rightarrow> return () | Some _ \<Rightarrow>
    bind the_proc (\<lambda>me.
    bind (proc_get me p_killed) (\<lambda>k.
    bind (load (tf + tf_cs)) (\<lambda>cs.
    whenk (k \<and> cs AND 3 = DPL_USER) exit))))"

definition trap :: "u32 \<Rightarrow> u8 list \<Rightarrow> u32 \<Rightarrow> (unit, 'z xstate_scheme) kern" where
  "trap tf pending cr2 =
    bind (load (tf + tf_trapno)) (\<lambda>no.
    if no = of_nat T_SYSCALL then trap_syscall tf else
    andthen (trap_irq no tf pending cr2) (
    andthen (kill_check tf) (
    andthen (if no = of_nat (T_IRQ0 + IRQ_TIMER) then rr_tick
             else bind myproc (\<lambda>mp. case mp of None \<Rightarrow> return () | Some _ \<Rightarrow> bind the_proc (\<lambda>_. return ())))
      (kill_check tf))))"

text \<open>A timer trap that has yielded, when its process runs again.\<close>

definition trap_resume :: "u32 \<Rightarrow> u32 \<Rightarrow> (unit, 'z xstate_scheme) kern" where
  "trap_resume intena tf = andthen (yield_resume intena) (kill_check tf)"

end
