(* ===== verification/Mp.thy ===== *)
theory Mp
  imports Conin
begin

text \<open>
  Detection of the processors and the local interrupt controller: \<^verbatim>\<open>src/mp.c\<close>, whose tables the BIOS has
  left in memory, and \<^verbatim>\<open>src/lapic.c\<close> with the real-time clock. What the clock's registers hold and what the
  port of the interrupt mode register returns are arguments.
\<close>

section \<open>The tables of the BIOS\<close>

definition NCPU :: nat where "NCPU = 8"

fun sum_bytes :: "memory \<Rightarrow> u32 \<Rightarrow> nat \<Rightarrow> u8" where
  "sum_bytes m addr 0 = 0"
| "sum_bytes m addr (Suc n) = m addr + sum_bytes m (addr + 1) n"

definition bytes_at :: "memory \<Rightarrow> u32 \<Rightarrow> nat \<Rightarrow> u8 list" where
  "bytes_at m a n = map (\<lambda>i. m (a + of_nat i)) [0..<n]"

definition half_at :: "memory \<Rightarrow> u32 \<Rightarrow> u32" where
  "half_at m a = ucast (m a) OR push_bit 8 (ucast (m (a + 1)))"

definition sizeof_mp :: u32 where "sizeof_mp = 16"

text \<open>The loop of \<open>mpsearch1\<close> over the next \<open>n\<close> structures at \<open>p\<close>.\<close>

fun mpsearch_loop :: "memory \<Rightarrow> nat \<Rightarrow> u32 \<Rightarrow> u32 option" where
  "mpsearch_loop m 0 p = None"
| "mpsearch_loop m (Suc n) p =
    (if bytes_at m p 4 = [95, 77, 80, 95] \<and> sum_bytes m p (unat sizeof_mp) = 0 then Some p
     else mpsearch_loop m n (p + sizeof_mp))"

definition mpsearch1 :: "memory \<Rightarrow> u32 \<Rightarrow> nat \<Rightarrow> u32 option" where
  "mpsearch1 m a len = mpsearch_loop m (len div unat sizeof_mp) (P2V a)"

definition mpsearch :: "memory \<Rightarrow> u32 option" where
  "mpsearch m =
    (let bda = P2V 0x400;
         p = push_bit 4 (half_at m (bda + 0x0E));
         first = (if p \<noteq> 0 then mpsearch1 m p 1024 else mpsearch1 m (half_at m (bda + 0x13) * 1024 - 1024) 1024)
     in case first of Some mp \<Rightarrow> Some mp | None \<Rightarrow> mpsearch1 m 0xF0000 0x10000)"

text \<open>The configuration table and the floating structure that points to it.\<close>

definition mp_physaddr :: "memory \<Rightarrow> u32 \<Rightarrow> u32" where "mp_physaddr m mp = load32 m (mp + 4)"
definition mp_imcrp :: "memory \<Rightarrow> u32 \<Rightarrow> u8" where "mp_imcrp m mp = m (mp + 12)"
definition conf_length :: "memory \<Rightarrow> u32 \<Rightarrow> u32" where "conf_length m c = half_at m (c + 4)"
definition conf_version :: "memory \<Rightarrow> u32 \<Rightarrow> u8" where "conf_version m c = m (c + 6)"
definition conf_lapicaddr :: "memory \<Rightarrow> u32 \<Rightarrow> u32" where "conf_lapicaddr m c = load32 m (c + 36)"
definition sizeof_mpconf :: u32 where "sizeof_mpconf = 44"

definition mpconfig :: "memory \<Rightarrow> (u32 \<times> u32) option" where
  "mpconfig m =
    (case mpsearch m of
       None \<Rightarrow> None
     | Some mp \<Rightarrow>
         let conf = P2V (mp_physaddr m mp) in
         if mp_physaddr m mp = 0 then None
         else if bytes_at m conf 4 \<noteq> [80, 67, 77, 80] then None
         else if conf_version m conf \<noteq> 1 \<and> conf_version m conf \<noteq> 4 then None
         else if sum_bytes m conf (unat (conf_length m conf)) \<noteq> 0 then None
         else Some (conf, mp))"

definition MPPROC :: u8 where "MPPROC = 0"
definition MPBUS :: u8 where "MPBUS = 1"
definition MPIOAPIC :: u8 where "MPIOAPIC = 2"
definition MPIOINTR :: u8 where "MPIOINTR = 3"
definition MPLINTR :: u8 where "MPLINTR = 4"

text \<open>What the loop of \<open>mpinit\<close> finds: the processors' ids, in order, the I/O APIC and \<open>ismp\<close>.\<close>

record mpinfo =
  mi_apicids :: "u8 list"
  mi_ioapic :: "u8 option"
  mi_ismp :: bool

definition mp_proc :: "u8 \<Rightarrow> mpinfo \<Rightarrow> mpinfo" where
  "mp_proc aid i = (if length (mi_apicids i) < NCPU then i\<lparr>mi_apicids := mi_apicids i @ [aid]\<rparr> else i)"

text \<open>
  The loop over the entries from \<open>p\<close> to \<open>e\<close>; \<open>None\<close> when it never ends. The default case leaves the switch with
  \<open>break\<close>, not the loop, and \<open>p\<close> stays where it is.
\<close>

partial_function (option) mp_scan :: "memory \<Rightarrow> u32 \<Rightarrow> mpinfo \<Rightarrow> u32 \<Rightarrow> mpinfo option" where
  "mp_scan m e i p =
    (if p < e then
       if m p = MPPROC then mp_scan m e (mp_proc (m (p + 1)) i) (p + 20)
       else if m p = MPIOAPIC then mp_scan m e (i\<lparr>mi_ioapic := Some (m (p + 1))\<rparr>) (p + 8)
       else if m p = MPBUS \<or> m p = MPIOINTR \<or> m p = MPLINTR then mp_scan m e i (p + 8)
       else mp_scan m e (i\<lparr>mi_ismp := False\<rparr>) p
     else Some i)"

text \<open>\<open>regs\<close> is the register file of the local APIC at \<open>conf->lapicaddr\<close>, \<open>imcr\<close> what port 0x23 returns.\<close>

definition mpinit :: "(u32 \<Rightarrow> nat \<Rightarrow> u32) \<Rightarrow> u8 \<Rightarrow> (unit, 'z dstate_scheme) kern" where
  "mpinit regs imcr =
    bind (gets (\<lambda>s. mem (mach s))) (\<lambda>m.
    case mpconfig m of
      None \<Rightarrow> panic ''Expect to run on an SMP''
    | Some (conf, mp) \<Rightarrow>
        let la = conf_lapicaddr m conf in
        andthen (on_mach (modify (\<lambda>k. k\<lparr>lapic := (if la = 0 then None else Some (regs la))\<rparr>))) (
        bind (gets (\<lambda>s. map c_apicid (take (ncpu (mach s)) (cpus (mach s))))) (\<lambda>ids.
        case mp_scan m (conf + conf_length m conf) \<lparr>mi_apicids = ids, mi_ioapic = None, mi_ismp = True\<rparr> (conf + sizeof_mpconf) of
          None \<Rightarrow> hang
        | Some i \<Rightarrow>
            andthen (on_mach (modify (\<lambda>k. k\<lparr>cpus := map2 (\<lambda>c a. c\<lparr>c_apicid := a\<rparr>) (cpus k) (mi_apicids i) @ drop (length (mi_apicids i)) (cpus k),
              ncpu := length (mi_apicids i)\<rparr>))) (
            andthen (case mi_ioapic i of None \<Rightarrow> return () | Some a \<Rightarrow> dev_set (\<lambda>d. d\<lparr>ioapicid := ucast a\<rparr>)) (
            if \<not> mi_ismp i then panic ''Didn't find a suitable machine''
            else whenk (mp_imcrp m mp \<noteq> 0) (andthen (outb 0x22 0x70) (outb 0x23 (imcr OR 1))))))))"

section \<open>The local APIC\<close>

definition LID :: nat where "LID = 8"
definition LVER :: nat where "LVER = 12"
definition LTPR :: nat where "LTPR = 32"
definition LEOI :: nat where "LEOI = 44"
definition LSVR :: nat where "LSVR = 60"
definition LESR :: nat where "LESR = 160"
definition ICRLO :: nat where "ICRLO = 192"
definition ICRHI :: nat where "ICRHI = 196"
definition LTIMER :: nat where "LTIMER = 200"
definition PCINT :: nat where "PCINT = 208"
definition LINT0 :: nat where "LINT0 = 212"
definition LINT1 :: nat where "LINT1 = 216"
definition LERROR :: nat where "LERROR = 220"
definition TICR :: nat where "TICR = 224"
definition TDCR :: nat where "TDCR = 248"

definition DELIVS :: u32 where "DELIVS = 0x1000"

text \<open>
  \<open>busy\<close> is what the delivery status of the command register reads, read after read, while the controller
  sends the command: the loop ends at the first read without \<open>DELIVS\<close>.
\<close>

fun lapic_wait :: "u32 list \<Rightarrow> (unit, machine) kern" where
  "lapic_wait [] = hang"
| "lapic_wait (r # rs) = (if r AND DELIVS \<noteq> 0 then lapic_wait rs else return ())"

definition lapicinit :: "u32 list \<Rightarrow> (unit, machine) kern" where
  "lapicinit busy =
    bind (gets lapic) (\<lambda>l.
    case l of None \<Rightarrow> return () | Some regs \<Rightarrow>
    andthen (lapicw LSVR (0x100 OR of_nat (T_IRQ0 + IRQ_SPURIOUS))) (
    andthen (lapicw TDCR 0xB) (
    andthen (lapicw LTIMER (0x20000 OR of_nat (T_IRQ0 + IRQ_TIMER))) (
    andthen (lapicw TICR 10000000) (
    andthen (lapicw LINT0 0x10000) (
    andthen (lapicw LINT1 0x10000) (
    bind (gets (\<lambda>m. (the (lapic m)) LVER)) (\<lambda>ver.
    andthen (whenk (drop_bit 16 ver AND 0xFF \<ge> 4) (lapicw PCINT 0x10000)) (
    andthen (lapicw LERROR (of_nat (T_IRQ0 + IRQ_ERROR))) (
    andthen (lapicw LESR 0) (
    andthen (lapicw LESR 0) (
    andthen (lapicw LEOI 0) (
    andthen (lapicw ICRHI 0) (
    andthen (lapicw ICRLO (0x80000 OR 0x500 OR 0x8000)) (
    andthen (lapic_wait busy) (
    lapicw LTPR 0))))))))))))))))"

definition microdelay :: "int \<Rightarrow> (unit, 's) kern" where
  "microdelay us = return ()"

definition CMOS_PORT :: u16 where "CMOS_PORT = 0x70"

definition lapicstartap :: "u8 \<Rightarrow> u32 \<Rightarrow> (unit, 'z dstate_scheme) kern" where
  "lapicstartap aid addr =
    (let wrv = P2V (push_bit 4 0x40 OR 0x67);
         hi = push_bit 24 (ucast aid);
         startup = andthen (on_mach (lapicw ICRHI hi)) (andthen (on_mach (lapicw ICRLO (0x600 OR drop_bit 12 addr))) (microdelay 200))
     in
     andthen (outb CMOS_PORT 0xF) (
     andthen (outb (CMOS_PORT + 1) 0x0A) (
     andthen (on_mach (modify (\<lambda>m. m\<lparr>mem := (mem m)(wrv := 0, wrv + 1 := 0,
       wrv + 2 := ucast (drop_bit 4 addr), wrv + 3 := ucast (drop_bit 12 addr))\<rparr>))) (
     andthen (on_mach (lapicw ICRHI hi)) (
     andthen (on_mach (lapicw ICRLO (0x500 OR 0x8000 OR 0x4000))) (
     andthen (microdelay 200) (
     andthen (on_mach (lapicw ICRLO (0x500 OR 0x8000))) (
     andthen (microdelay 100) (
     andthen startup startup)))))))))"

section \<open>The real-time clock\<close>

record rtcdate =
  rtc_second :: u32
  rtc_minute :: u32
  rtc_hour :: u32
  rtc_day :: u32
  rtc_month :: u32
  rtc_year :: u32

text \<open>\<open>rd n reg\<close> is what register \<open>reg\<close> of the clock holds at the \<open>n\<close>th read.\<close>

definition cmos_read :: "(nat \<Rightarrow> u8 \<Rightarrow> u8) \<Rightarrow> nat \<Rightarrow> u8 \<Rightarrow> (u32, 'z dstate_scheme) kern" where
  "cmos_read rd n reg = andthen (outb CMOS_PORT reg) (andthen (microdelay 200) (return (ucast (rd n reg))))"

definition fill_rtcdate :: "(nat \<Rightarrow> u8 \<Rightarrow> u8) \<Rightarrow> nat \<Rightarrow> (rtcdate, 'z dstate_scheme) kern" where
  "fill_rtcdate rd n =
    bind (cmos_read rd n 0) (\<lambda>s.
    bind (cmos_read rd (n + 1) 2) (\<lambda>mi.
    bind (cmos_read rd (n + 2) 4) (\<lambda>h.
    bind (cmos_read rd (n + 3) 7) (\<lambda>d.
    bind (cmos_read rd (n + 4) 8) (\<lambda>mo.
    bind (cmos_read rd (n + 5) 9) (\<lambda>y.
    return \<lparr>rtc_second = s, rtc_minute = mi, rtc_hour = h, rtc_day = d, rtc_month = mo, rtc_year = y\<rparr>))))))"

fun cmos_stable :: "(nat \<Rightarrow> u8 \<Rightarrow> u8) \<Rightarrow> nat \<Rightarrow> nat \<Rightarrow> (rtcdate, 'z dstate_scheme) kern" where
  "cmos_stable rd 0 n = hang"
| "cmos_stable rd (Suc k) n =
    bind (fill_rtcdate rd n) (\<lambda>t1.
    bind (cmos_read rd (n + 6) 0x0A) (\<lambda>sa.
    if sa AND 0x80 \<noteq> 0 then cmos_stable rd k (n + 7)
    else
      bind (fill_rtcdate rd (n + 7)) (\<lambda>t2.
      if t1 = t2 then return t1 else cmos_stable rd k (n + 13))))"

definition bcd_conv :: "u32 \<Rightarrow> u32" where
  "bcd_conv x = drop_bit 4 x * 10 + (x AND 0xF)"

definition cmostime :: "(nat \<Rightarrow> u8 \<Rightarrow> u8) \<Rightarrow> nat \<Rightarrow> (rtcdate, 'z dstate_scheme) kern" where
  "cmostime rd fuel =
    bind (cmos_read rd 0 0x0B) (\<lambda>sb.
    bind (cmos_stable rd fuel 1) (\<lambda>t.
    let t = (if sb AND 4 = 0 then \<lparr>rtc_second = bcd_conv (rtc_second t), rtc_minute = bcd_conv (rtc_minute t), rtc_hour = bcd_conv (rtc_hour t),
               rtc_day = bcd_conv (rtc_day t), rtc_month = bcd_conv (rtc_month t), rtc_year = bcd_conv (rtc_year t)\<rparr> else t)
    in return (t\<lparr>rtc_year := rtc_year t + 2000\<rparr>)))"

section \<open>What mpinit finds\<close>

text \<open>The entries of a table, as the BIOS lays them out.\<close>

datatype mpentry =
    EProc u8 "u8 list"
  | EIoapic u8 "u8 list"
  | EOther u8 "u8 list"

fun entry_bytes :: "mpentry \<Rightarrow> u8 list" where
  "entry_bytes (EProc aid r) = MPPROC # aid # r"
| "entry_bytes (EIoapic no r) = MPIOAPIC # no # r"
| "entry_bytes (EOther t r) = t # r"

fun entry_ok :: "mpentry \<Rightarrow> bool" where
  "entry_ok (EProc aid r) = (length r = 18)"
| "entry_ok (EIoapic no r) = (length r = 6)"
| "entry_ok (EOther t r) = (t \<in> {MPBUS, MPIOINTR, MPLINTR} \<and> length r = 7)"

fun entry_find :: "mpentry \<Rightarrow> mpinfo \<Rightarrow> mpinfo" where
  "entry_find (EProc aid r) i = mp_proc aid i"
| "entry_find (EIoapic no r) i = i\<lparr>mi_ioapic := Some no\<rparr>"
| "entry_find (EOther t r) i = i"

lemmas mp_types = MPPROC_def MPBUS_def MPIOAPIC_def MPIOINTR_def MPLINTR_def

definition holds_at :: "memory \<Rightarrow> u32 \<Rightarrow> u8 list \<Rightarrow> bool" where
  "holds_at m p bs \<longleftrightarrow> (\<forall>k<length bs. m (p + of_nat k) = bs ! k)"

lemma holds_at_append: "holds_at m p (xs @ ys) \<longleftrightarrow> holds_at m p xs \<and> holds_at m (p + of_nat (length xs)) ys"
proof -
  have "holds_at m (p + of_nat (length xs)) ys" if h: "holds_at m p (xs @ ys)"
    unfolding holds_at_def
  proof (intro allI impI)
    fix k assume "k < length ys"
    then show "m (p + of_nat (length xs) + of_nat k) = ys ! k"
      using h [unfolded holds_at_def, rule_format, of "length xs + k"] by (simp add: add.assoc)
  qed
  moreover have "holds_at m p (xs @ ys)" if h: "holds_at m p xs" "holds_at m (p + of_nat (length xs)) ys"
    unfolding holds_at_def
  proof (intro allI impI)
    fix k assume k: "k < length (xs @ ys)"
    show "m (p + of_nat k) = (xs @ ys) ! k"
    proof (cases "k < length xs")
      case False
      then obtain j where j: "k = length xs + j" by (metis le_Suc_ex not_le)
      then show ?thesis using h(2) k by (simp add: holds_at_def add.assoc)
    qed (use h(1) in \<open>simp add: holds_at_def nth_append\<close>)
  qed
  ultimately show ?thesis by (auto simp: holds_at_def nth_append)
qed

lemma entry_len: "entry_ok e \<Longrightarrow> 8 \<le> length (entry_bytes e)"
  by (cases e) auto

lemma mp_scan_entry:
  assumes "holds_at m p (entry_bytes e)" "entry_ok e" "p < lim"
  shows "mp_scan m lim i p = mp_scan m lim (entry_find e i) (p + of_nat (length (entry_bytes e)))"
proof -
  have l: "0 < length (entry_bytes e)" "1 < length (entry_bytes e)" using entry_len [OF assms(2)] by linarith+
  have b: "m p = entry_bytes e ! 0" "m (p + 1) = entry_bytes e ! 1"
    using assms(1) [unfolded holds_at_def, rule_format, OF l(1)] assms(1) [unfolded holds_at_def, rule_format, OF l(2)] by simp_all
  show ?thesis using assms(2,3) b by (subst mp_scan.simps) (cases e; auto simp: mp_types)
qed

lemma mp_scan_done: "\<not> p < lim \<Longrightarrow> mp_scan m lim i p = Some i"
  by (subst mp_scan.simps) simp

abbreviation table_bytes :: "mpentry list \<Rightarrow> u8 list" where
  "table_bytes es \<equiv> concat (map entry_bytes es)"

lemma mp_scan_table:
  "list_all entry_ok es \<Longrightarrow> holds_at m p (table_bytes es) \<Longrightarrow> unat p + length (table_bytes es) + length rest < 2 ^ 32 \<Longrightarrow>
   lim = p + of_nat (length (table_bytes es) + length rest) \<Longrightarrow>
   mp_scan m lim i p = mp_scan m lim (fold entry_find es i) (p + of_nat (length (table_bytes es)))"
proof (induction es arbitrary: p i)
  case (Cons e es)
  let ?n = "length (entry_bytes e)"
  have ok: "entry_ok e" "8 \<le> ?n" using Cons.prems(1) entry_len by simp_all
  have h: "holds_at m p (entry_bytes e)" "holds_at m (p + of_nat ?n) (table_bytes es)"
    using Cons.prems(2) by (simp_all add: holds_at_append)
  have u: "unat (p + of_nat k :: u32) = unat p + k" if "k \<le> length (table_bytes (e # es)) + length rest" for k
    using that Cons.prems(3) by (simp add: unat_word_ariths unat_of_nat)
  have "0 < length (table_bytes (e # es)) + length rest" using ok(2) by (simp only: list.map concat.simps length_append)
  then have "p < lim" unfolding word_less_nat_alt Cons.prems(4) by (subst u) simp_all
  then have "mp_scan m lim i p = mp_scan m lim (entry_find e i) (p + of_nat ?n)" by (rule mp_scan_entry [OF h(1) ok(1)])
  also have "\<dots> = mp_scan m lim (fold entry_find es (entry_find e i)) (p + of_nat ?n + of_nat (length (table_bytes es)))"
    using Cons.prems u [of ?n] h(2) by (intro Cons.IH) (simp_all add: add.assoc)
  finally show ?case by (simp add: add.assoc)
qed simp

lemma mp_scan_unknown:
  assumes "p < lim" "m p \<notin> {MPPROC, MPBUS, MPIOAPIC, MPIOINTR, MPLINTR}"
  shows "mp_scan m lim i p = None"
proof (rule ccontr)
  let ?P = "\<lambda>m lim i p r. \<not> (p < lim \<and> m p \<notin> {MPPROC, MPBUS, MPIOAPIC, MPIOINTR, MPLINTR})"
  assume "mp_scan m lim i p \<noteq> None"
  then obtain r where "mp_scan m lim i p = Some r" by blast
  then have "?P m lim i p r" by (rule mp_scan.raw_induct [of ?P, rotated]) (auto split: if_splits, blast)
  then show False using assms by blast
qed

section \<open>Properties\<close>

text \<open>
  C30: The scan of the configuration table terminates and finds what the table lists: over any sequence of
  well-formed entries it collects the APIC ids of the processors in order, at most \<open>NCPU\<close> of them, and the last I/O APIC.
\<close>

theorem mp_scan_correct:
  assumes "list_all entry_ok es" "holds_at m p (table_bytes es)" "unat p + length (table_bytes es) < 2 ^ 32"
  shows "mp_scan m (p + of_nat (length (table_bytes es))) \<lparr>mi_apicids = [], mi_ioapic = None, mi_ismp = True\<rparr> p =
    Some \<lparr>mi_apicids = take NCPU (concat (map (\<lambda>e. case e of EProc aid r \<Rightarrow> [aid] | _ \<Rightarrow> []) es)),
      mi_ioapic = fold (\<lambda>e u. case e of EIoapic no r \<Rightarrow> Some no | _ \<Rightarrow> u) es None, mi_ismp = True\<rparr>"
proof -
  let ?aids = "\<lambda>es. concat (map (\<lambda>e. case e of EProc aid r \<Rightarrow> [aid] | _ \<Rightarrow> []) es)"
  have "fold entry_find es \<lparr>mi_apicids = take NCPU ids, mi_ioapic = a, mi_ismp = True\<rparr> =
    \<lparr>mi_apicids = take NCPU (ids @ ?aids es), mi_ioapic = fold (\<lambda>e u. case e of EIoapic no r \<Rightarrow> Some no | _ \<Rightarrow> u) es a, mi_ismp = True\<rparr>" for ids a
  proof (induction es arbitrary: ids a)
    case (Cons e es)
    have "mp_proc aid \<lparr>mi_apicids = take NCPU ids, mi_ioapic = a, mi_ismp = True\<rparr> = \<lparr>mi_apicids = take NCPU (ids @ [aid]), mi_ioapic = a, mi_ismp = True\<rparr>" for aid
      by (auto simp: mp_proc_def take_Cons')
    then show ?case using Cons.IH by (cases e) (simp_all del: take_append)
  qed simp
  from this [of "[]"] show ?thesis using mp_scan_table [OF assms(1,2), of "[]"] assms(3) by (simp add: mp_scan_done)
qed

theorem mp_scan_correct_witness:
  "mp_scan (\<lambda>a. if a = 4097 then 7 else if a = 4116 then 2 else if a = 4117 then 9 else 0) (4096 + 28)
     \<lparr>mi_apicids = [], mi_ioapic = None, mi_ismp = True\<rparr> 4096 = Some \<lparr>mi_apicids = [7], mi_ioapic = Some 9, mi_ismp = True\<rparr>"
proof -
  let ?es = "[EProc 7 (replicate 18 0), EIoapic 9 (replicate 6 0)]"
  let ?m = "\<lambda>a :: u32. if a = 4097 then 7 else if a = 4116 then 2 else if a = 4117 then 9 else 0 :: u8"
  have k: "\<forall>k<28. ?m (4096 + of_nat k) = table_bytes ?es ! k" by code_simp
  have "length (table_bytes ?es) = 28" by simp
  then have h: "holds_at ?m 4096 (table_bytes ?es)" using k unfolding holds_at_def by metis
  show ?thesis using mp_scan_correct [OF _ h] by (simp add: NCPU_def)
qed

text \<open>
  C36: An entry of an unknown type is never left: the \<open>break\<close> of the default case ends the switch and not the loop,
  which looks at the same entry again. \<open>mpinit\<close> hangs there; the panic "Didn't find a suitable machine" is
  never reached.
\<close>

theorem mpinit_unknown_entry_hangs:
  assumes "mpconfig (mem (mach s)) = Some (conf, mp)" "ncpu (mach s) = 0" "list_all entry_ok es"
    "holds_at (mem (mach s)) (conf + sizeof_mpconf) (table_bytes es @ [t])" "t \<notin> {MPPROC, MPBUS, MPIOAPIC, MPIOINTR, MPLINTR}"
    "conf_length (mem (mach s)) conf = sizeof_mpconf + of_nat (length (table_bytes es) + 1 + n)"
    "unat conf + unat sizeof_mpconf + length (table_bytes es) + 1 + n < 2 ^ 32"
  shows "mpinit regs imcr s = Hang"
proof -
  let ?m = "mem (mach s)" and ?p = "conf + sizeof_mpconf" and ?n = "length (table_bytes es)"
  let ?i = "\<lparr>mi_apicids = [], mi_ioapic = None, mi_ismp = True\<rparr>"
  define lim where "lim = ?p + of_nat (?n + 1 + n)"
  have up: "unat ?p = unat conf + unat sizeof_mpconf" using assms(7) by (simp add: unat_word_ariths)
  have h: "holds_at ?m ?p (table_bytes es)" "?m (?p + of_nat ?n) = t"
    using assms(4) by (simp_all add: holds_at_append) (simp add: holds_at_def)
  have "mp_scan ?m lim ?i ?p = mp_scan ?m lim (fold entry_find es ?i) (?p + of_nat ?n)"
    using mp_scan_table [OF assms(3) h(1), of "replicate (1 + n) 0"] up assms(7) by (simp add: lim_def)
  also have "\<dots> = None"
  proof (rule mp_scan_unknown)
    have u: "unat (?p + of_nat k) = unat ?p + k" if "k \<le> ?n + 1 + n" for k
      using that assms(7) up by (simp add: unat_word_ariths unat_of_nat)
    have "?n \<le> ?n + 1 + n" by simp
    from u [OF this] u [OF order.refl] show "?p + of_nat ?n < lim" unfolding lim_def word_less_nat_alt by linarith
    show "?m (?p + of_nat ?n) \<notin> {MPPROC, MPBUS, MPIOAPIC, MPIOINTR, MPLINTR}" using h(2) assms(5) by simp
  qed
  finally have none: "mp_scan ?m (conf + conf_length ?m conf) ?i ?p = None"
    unfolding lim_def assms(6) by (simp only: add.assoc)
  show ?thesis unfolding mpinit_def using assms(1,2) none by (simp add: kern on_mach_def Let_def)
qed

text \<open>A machine whose table has one entry, of type 255.\<close>

definition odd_mem :: memory where
  "odd_mem a = (case map_of
     [(P2V 0x40E, 0xC0), (P2V 0x40F, 0x9F),
      (P2V 0x9FC00, 95), (P2V 0x9FC01, 77), (P2V 0x9FC02, 80), (P2V 0x9FC03, 95), (P2V 0x9FC05, 16), (P2V 0x9FC08, 1),
      (P2V 0x9FC09, 1), (P2V 0x9FC0A, 147),
      (P2V 0x1000, 80), (P2V 0x1001, 67), (P2V 0x1002, 77), (P2V 0x1003, 80), (P2V 0x1004, 45), (P2V 0x1006, 1),
      (P2V 0x1007, 163), (P2V 0x102C, 255)] a of None \<Rightarrow> 0 | Some b \<Rightarrow> b)"

theorem mpinit_unknown_entry_hangs_witness:
  "\<forall>s :: dstate. mpinit (\<lambda>_ _. 0) 0 (s\<lparr>mach := (mach s)\<lparr>mem := odd_mem, ncpu := 0\<rparr>\<rparr>) = Hang"
proof
  fix s :: dstate
  let ?s = "s\<lparr>mach := (mach s)\<lparr>mem := odd_mem, ncpu := 0\<rparr>\<rparr>"
  have c: "mpconfig odd_mem = Some (0x80001000, 0x8009FC00)" by code_simp
  have t: "odd_mem (0x80001000 + sizeof_mpconf) = 255" "conf_length odd_mem 0x80001000 = sizeof_mpconf + of_nat (length (table_bytes []) + 1 + 0)"
    by code_simp+
  have "holds_at odd_mem (0x80001000 + sizeof_mpconf) (table_bytes [] @ [255])" using t(1) by (simp add: holds_at_def)
  then show "mpinit (\<lambda>_ _. 0) 0 ?s = Hang"
    using mpinit_unknown_entry_hangs [of ?s "0x80001000" "0x8009FC00" "[]" 255 0] c t(2) by (simp add: mp_types sizeof_mpconf_def)
qed

end
