(* ===== verification/Boot.thy ===== *)
theory Boot
  imports Trap Mp
begin

text \<open>
  The start of the kernel, \<^verbatim>\<open>src/main.c\<close>: \<open>main\<close> on the boot processor, \<open>startothers\<close> and \<open>mpenter\<close> for the
  other ones, \<open>mpmain\<close>, and the page directory \<open>entrypgdir\<close> that \<^verbatim>\<open>entry.S\<close> and \<^verbatim>\<open>entryother.S\<close> load.
  Addresses the linker fixes are the record \<open>linkmap\<close>; what a device answers while it is initialised is the
  record \<open>hardware\<close>. Loading the interrupt descriptor table register (\<open>idtinit\<close>) has no part of the state.
\<close>

section \<open>Parameters of the boot\<close>

text \<open>
  \<open>lm_end\<close> is the first address after the kernel, \<open>lm_entryother\<close> and \<open>lm_entryother_size\<close> the linked image of
  \<^verbatim>\<open>entryother.S\<close>, \<open>lm_mpenter\<close> and \<open>lm_entrypgdir\<close> the addresses of these two, \<open>lm_vectors\<close> the trap
  entries, \<open>lm_initcode\<close> the image of \<^verbatim>\<open>initcode.S\<close> and \<open>lm_fs\<close>, \<open>lm_fs_size\<close> the linked file system image.
\<close>

record linkmap =
  lm_end :: u32
  lm_entryother :: u32
  lm_entryother_size :: u32
  lm_mpenter :: u32
  lm_entrypgdir :: u32
  lm_vectors :: "nat \<Rightarrow> u32"
  lm_initcode :: "u8 list"
  lm_fs :: blocks
  lm_fs_size :: u32

text \<open>
  \<open>hw_regs\<close> is the register file of the local APIC at an address, \<open>hw_imcr\<close> the interrupt mode register,
  \<open>hw_busy\<close> what the delivery status reads, \<open>hw_uart\<close> the line status of the serial port.
\<close>

record hardware =
  hw_regs :: "u32 \<Rightarrow> nat \<Rightarrow> u32"
  hw_imcr :: u8
  hw_busy :: "u32 list"
  hw_uart :: u8

section \<open>The boot page directory\<close>

definition PTE_PS :: u32 where "PTE_PS = 0x080"

definition entrypgdir :: "nat \<Rightarrow> u32" where
  "entrypgdir i = (if i = 0 \<or> i = unat (drop_bit 22 KERNBASE) then 0 OR PTE_P OR PTE_W OR PTE_PS else 0)"

section \<open>Starting the processors\<close>

text \<open>\<open>mpmain\<close> up to the loop of the scheduler, whose rounds run on the processor it returns.\<close>

definition mpmain :: "(nat, 'z xstate_scheme) kern" where
  "mpmain =
    bind (on_mach cpuid) (\<lambda>a.
    bind (on_mach cpuid) (\<lambda>b.
    andthen (cprintf (Some (lit ''cpu%d: starting %d'' @ [NL])) [int_arg (of_nat a), int_arg (of_nat b)]) (
    andthen (on_mach (cpu_set (\<lambda>k. k\<lparr>c_started := 1\<rparr>)))
      scheduler_start)))"

definition mpenter :: "hardware \<Rightarrow> (nat, 'z xstate_scheme) kern" where
  "mpenter hw =
    andthen switchkvm (
    andthen (on_mach seginit) (
    andthen (on_mach (lapicinit (hw_busy hw)))
      mpmain))"

definition entry_code :: u32 where "entry_code = P2V 0x7000"

text \<open>
  One round of the loop for processor \<open>c\<close>. \<open>ap c\<close> is what the other processor does to the shared state until the
  boot processor, spinning on \<open>c->started\<close>, goes on; without it the loop spins forever.
\<close>

definition start_ap :: "linkmap \<Rightarrow> (nat \<Rightarrow> 'z xstate_scheme \<Rightarrow> 'z xstate_scheme) \<Rightarrow> nat \<Rightarrow> (unit, 'z xstate_scheme) kern" where
  "start_ap lm ap c =
    bind kalloc (\<lambda>stack.
    andthen (store (entry_code - 4) (stack + KSTACKSIZE)) (
    andthen (store (entry_code - 8) (lm_mpenter lm)) (
    andthen (store (entry_code - 12) (V2P (lm_entrypgdir lm))) (
    bind (gets (\<lambda>s. c_apicid (cpus (mach s) ! c))) (\<lambda>aid.
    andthen (lapicstartap aid (V2P entry_code)) (
    andthen (modify (ap c)) (
    bind (gets (\<lambda>s. c_started (cpus (mach s) ! c))) (\<lambda>st.
    if st = 0 then hang else return ()))))))))"

fun startothers_loop :: "linkmap \<Rightarrow> (nat \<Rightarrow> 'z xstate_scheme \<Rightarrow> 'z xstate_scheme) \<Rightarrow> nat \<Rightarrow> nat \<Rightarrow> (unit, 'z xstate_scheme) kern" where
  "startothers_loop lm ap 0 c = return ()"
| "startothers_loop lm ap (Suc n) c =
    bind (on_mach mycpu) (\<lambda>me.
    andthen (if c = me then return () else start_ap lm ap c)
      (startothers_loop lm ap n (c + 1)))"

definition startothers :: "linkmap \<Rightarrow> (nat \<Rightarrow> 'z xstate_scheme \<Rightarrow> 'z xstate_scheme) \<Rightarrow> (unit, 'z xstate_scheme) kern" where
  "startothers lm ap =
    andthen (set_mem (\<lambda>m. memmove m entry_code (lm_entryother lm) (lm_entryother_size lm))) (
    bind (gets (\<lambda>s. ncpu (mach s))) (\<lambda>n.
    startothers_loop lm ap n 0))"

section \<open>The boot processor\<close>

definition main :: "linkmap \<Rightarrow> hardware \<Rightarrow> (nat \<Rightarrow> 'z xstate_scheme \<Rightarrow> 'z xstate_scheme) \<Rightarrow> (nat, 'z xstate_scheme) kern" where
  "main lm hw ap =
    andthen (kinit1 (lm_end lm) (P2V (4 * 1024 * 1024))) (
    andthen kvmalloc (
    andthen (mpinit (hw_regs hw) (hw_imcr hw)) (
    andthen (on_mach (lapicinit (hw_busy hw))) (
    andthen (on_mach seginit) (
    andthen picinit (
    andthen ioapicinit (
    andthen consoleinit (
    andthen (uartinit (hw_uart hw)) (
    andthen pinit (
    andthen (tvinit (lm_vectors lm)) (
    andthen binit (
    andthen fileinit (
    andthen (ideinit (lm_fs lm) (lm_fs_size lm)) (
    andthen (startothers lm ap) (
    andthen (kinit2 (P2V (4 * 1024 * 1024)) (P2V PHYSTOP)) (
    andthen (userinit (lm_initcode lm))
      mpmain))))))))))))))))"

end
