(* ===== verification/Ide.thy ===== *)
theory Ide
  imports Conin
begin

text \<open>
  The IDE disk driver, \<^verbatim>\<open>src/ide.c\<close>, which the default build links instead of the in-memory disk of
  \<^verbatim>\<open>src/memide.c\<close>; its functions are named \<open>ide_\<close> here. What the controller answers is part of the state:
  \<open>ide_status\<close> what the successive reads of the status port 0x1f7 return, \<open>ide_sectors\<close> the sectors the data
  port delivers, and \<open>ide_sent\<close> records those written to it.
\<close>

section \<open>State\<close>

definition FSSIZE :: nat where "FSSIZE = 1000"
definition IDE_BSY :: u8 where "IDE_BSY = 0x80"
definition IDE_DRDY :: u8 where "IDE_DRDY = 0x40"
definition IDE_DF :: u8 where "IDE_DF = 0x20"
definition IDE_ERR :: u8 where "IDE_ERR = 0x01"

record idedrv =
  idequeue :: "nat option"
  qnext :: "nat \<Rightarrow> nat option"
  havedisk1 :: bool
  ide_status :: "u8 list"
  ide_sectors :: "u8 list list"
  ide_sent :: "u8 list list"

record idstate = dstate +
  ide :: idedrv

definition ide_set :: "(idedrv \<Rightarrow> idedrv) \<Rightarrow> (unit, 'z idstate_scheme) kern" where
  "ide_set f = modify (\<lambda>s. s\<lparr>ide := f (ide s)\<rparr>)"

section \<open>The controller\<close>

text \<open>\<open>while(((r = inb(0x1f7)) & (IDE_BSY|IDE_DRDY)) != IDE_DRDY);\<close> a controller that never is ready hangs.\<close>

fun ready_status :: "u8 list \<Rightarrow> (u8 \<times> u8 list) option" where
  "ready_status [] = None"
| "ready_status (r # rs) = (if r AND (IDE_BSY OR IDE_DRDY) \<noteq> IDE_DRDY then ready_status rs else Some (r, rs))"

definition idewait :: "bool \<Rightarrow> (int, 'z idstate_scheme) kern" where
  "idewait checkerr =
    bind (gets (\<lambda>s. ready_status (ide_status (ide s)))) (\<lambda>x.
    case x of
      None \<Rightarrow> hang
    | Some (r, rs) \<Rightarrow>
        andthen (ide_set (\<lambda>d. d\<lparr>ide_status := rs\<rparr>))
          (return (if checkerr \<and> r AND (IDE_DF OR IDE_ERR) \<noteq> 0 then -1 else 0)))"

definition inb_status :: "(u8, 'z idstate_scheme) kern" where
  "inb_status =
    bind (gets (\<lambda>s. ide_status (ide s))) (\<lambda>x.
    case x of [] \<Rightarrow> return 0 | r # rs \<Rightarrow> andthen (ide_set (\<lambda>d. d\<lparr>ide_status := rs\<rparr>)) (return r))"

fun probe_disk1 :: "nat \<Rightarrow> (unit, 'z idstate_scheme) kern" where
  "probe_disk1 0 = return ()"
| "probe_disk1 (Suc n) =
    bind inb_status (\<lambda>r.
    if r \<noteq> 0 then ide_set (\<lambda>d. d\<lparr>havedisk1 := True\<rparr>) else probe_disk1 n)"

definition ide_init :: "(unit, 'z idstate_scheme) kern" where
  "ide_init =
    andthen (initlock L_ide ''ide'') (
    bind (gets (\<lambda>s. ncpu (mach s))) (\<lambda>n.
    andthen (ioapicenable IRQ_IDE (of_nat n - 1)) (
    andthen (idewait False) (
    andthen (outb 0x1f6 (0xe0 OR push_bit 4 1)) (
    andthen (probe_disk1 1000)
      (outb 0x1f6 0xe0))))))"

text \<open>\<open>BSIZE\<close> is one sector, so \<open>sector_per_block\<close> is 1 and the commands are the single-sector ones.\<close>

definition idestart :: "nat option \<Rightarrow> (unit, 'z idstate_scheme) kern" where
  "idestart bo =
    (case bo of None \<Rightarrow> panic ''idestart'' | Some b \<Rightarrow>
    bind (buf_get b id) (\<lambda>u.
    if b_blockno u \<ge> of_nat FSSIZE then panic ''incorrect blockno'' else
    let sector = b_blockno u * 1 in
    andthen (idewait False) (
    andthen (outb 0x3f6 0) (
    andthen (outb 0x1f2 1) (
    andthen (outb 0x1f3 (ucast (sector AND 0xff))) (
    andthen (outb 0x1f4 (ucast (drop_bit 8 sector AND 0xff))) (
    andthen (outb 0x1f5 (ucast (drop_bit 16 sector AND 0xff))) (
    andthen (outb 0x1f6 (0xe0 OR ucast (push_bit 4 (b_dev u AND 1)) OR ucast (drop_bit 24 sector AND 0x0f))) (
    if b_flags u AND B_DIRTY \<noteq> 0 then
      andthen (outb 0x1f7 0x30) (ide_set (\<lambda>d. d\<lparr>ide_sent := ide_sent d @ [b_data u]\<rparr>))
    else outb 0x1f7 0x20)))))))))"

text \<open>\<open>insl\<close> of one sector.\<close>

definition insl :: "nat \<Rightarrow> (unit, 'z idstate_scheme) kern" where
  "insl b =
    bind (gets (\<lambda>s. ide_sectors (ide s))) (\<lambda>ss.
    andthen (buf_set b (\<lambda>u. u\<lparr>b_data := (case ss of [] \<Rightarrow> replicate BSIZE 0 | x # _ \<Rightarrow> x)\<rparr>))
      (ide_set (\<lambda>d. d\<lparr>ide_sectors := tl ss\<rparr>)))"

section \<open>Requests\<close>

definition ide_data :: "nat \<Rightarrow> (unit, 'z idstate_scheme) kern" where
  "ide_data b =
    bind (buf_get b b_flags) (\<lambda>fl.
    if fl AND B_DIRTY = 0 then bind (idewait True) (\<lambda>r. whenk (r \<ge> 0) (insl b)) else return ())"

definition ide_intr :: "(unit, 'z idstate_scheme) kern" where
  "ide_intr =
    andthen (acquire L_ide) (
    bind (gets (\<lambda>s. idequeue (ide s))) (\<lambda>q.
    case q of
      None \<Rightarrow> release L_ide
    | Some b \<Rightarrow>
        andthen (ide_set (\<lambda>d. d\<lparr>idequeue := qnext d b\<rparr>)) (
        andthen (ide_data b) (
        andthen (buf_set b (\<lambda>u. u\<lparr>b_flags := b_flags u OR B_VALID\<rparr>)) (
        andthen (buf_set b (\<lambda>u. u\<lparr>b_flags := b_flags u AND NOT B_DIRTY\<rparr>)) (
        andthen (wakeup (ChBuf b)) (
        bind (gets (\<lambda>s. idequeue (ide s))) (\<lambda>q.
        andthen (whenk (q \<noteq> None) (idestart q))
          (release L_ide)))))))))"

text \<open>\<open>for(pp=&idequeue; *pp; pp=&(*pp)->qnext); *pp = b;\<close> the last request, \<open>None\<close> when the list is circular.\<close>

partial_function (option) ide_last :: "(nat \<Rightarrow> nat option) \<Rightarrow> nat \<Rightarrow> nat option" where
  "ide_last qn b = (case qn b of None \<Rightarrow> Some b | Some c \<Rightarrow> ide_last qn c)"

definition ide_append :: "nat \<Rightarrow> idedrv \<Rightarrow> idedrv option" where
  "ide_append b d =
    (let d = d\<lparr>qnext := (qnext d)(b := None)\<rparr> in
     case idequeue d of
       None \<Rightarrow> Some (d\<lparr>idequeue := Some b\<rparr>)
     | Some h \<Rightarrow> map_option (\<lambda>l. d\<lparr>qnext := (qnext d)(l := Some b)\<rparr>) (ide_last (qnext d) h))"

definition ide_rw_wait :: "nat \<Rightarrow> (unit, 'z idstate_scheme) kern" where
  "ide_rw_wait b =
    sleep_while (\<lambda>s. b_flags (bufs s ! b) AND (B_VALID OR B_DIRTY) \<noteq> B_VALID) (ChBuf b) L_ide (release L_ide)"

definition ide_rw :: "nat \<Rightarrow> (unit, 'z idstate_scheme) kern" where
  "ide_rw b =
    bind (holdingsleep (SL_buf b)) (\<lambda>h.
    if \<not> h then panic ''iderw: buf not locked'' else
    bind (buf_get b b_flags) (\<lambda>fl.
    if fl AND (B_VALID OR B_DIRTY) = B_VALID then panic ''iderw: nothing to do'' else
    bind (buf_get b b_dev) (\<lambda>dev.
    bind (gets (\<lambda>s. havedisk1 (ide s))) (\<lambda>d1.
    if dev \<noteq> 0 \<and> \<not> d1 then panic ''iderw: ide disk 1 not present'' else
    andthen (acquire L_ide) (
    bind (gets (\<lambda>s. ide_append b (ide s))) (\<lambda>r.
    case r of None \<Rightarrow> hang | Some d' \<Rightarrow>
    andthen (ide_set (\<lambda>_. d')) (
    andthen (whenk (idequeue d' = Some b) (idestart (Some b)))
      (ide_rw_wait b))))))))"

definition ide_rw_resume :: "nat \<Rightarrow> u32 \<Rightarrow> nat \<Rightarrow> (unit, 'z idstate_scheme) kern" where
  "ide_rw_resume i intena b = andthen (sleep_resume i intena L_ide) (ide_rw_wait b)"

section \<open>The queue\<close>

text \<open>The requests from \<open>idequeue\<close> on, oldest first.\<close>

fun chain :: "nat option \<Rightarrow> (nat \<Rightarrow> nat option) \<Rightarrow> nat list \<Rightarrow> bool" where
  "chain q qn [] \<longleftrightarrow> q = None"
| "chain q qn (b # bs) \<longleftrightarrow> q = Some b \<and> chain (qn b) qn bs"

definition queue_is :: "idedrv \<Rightarrow> nat list \<Rightarrow> bool" where
  "queue_is d bs \<longleftrightarrow> chain (idequeue d) (qnext d) bs \<and> distinct bs"

lemma chain_cong: "\<forall>b\<in>set bs. qn' b = qn b \<Longrightarrow> chain q qn' bs = chain q qn bs"
  by (induction bs arbitrary: q) auto

lemma ide_last_chain: "chain (Some h) qn bs \<Longrightarrow> ide_last qn h = Some (last bs)"
proof (induction bs arbitrary: h)
  case (Cons b bs)
  show ?case
  proof (cases bs)
    case Nil
    then show ?thesis using Cons.prems by (subst ide_last.simps) simp
  next
    case (Cons c cs)
    then have "qn h = Some c" "chain (Some c) qn bs" using Cons.prems Cons by auto
    then show ?thesis using Cons.IH [of c] Cons.prems Cons by (subst ide_last.simps) simp
  qed
qed simp

lemma chain_add:
  assumes "chain q qn bs" "bs \<noteq> []" "distinct bs" "b \<notin> set bs" "qn b = None"
  shows "chain q (qn(last bs := Some b)) (bs @ [b])"
  using assms
proof (induction bs arbitrary: q)
  case (Cons c bs)
  show ?case
  proof (cases "bs = []")
    case True
    then show ?thesis using Cons.prems by auto
  next
    case False
    then have "c \<noteq> last bs" using Cons.prems(3) last_in_set by fastforce
    then show ?thesis using Cons False by auto
  qed
qed simp

lemma ide_append_queue:
  assumes "queue_is d bs" "b \<notin> set bs"
  obtains d' where "ide_append b d = Some d'" "queue_is d' (bs @ [b])" "idequeue d' = Some b \<longleftrightarrow> bs = []"
    "\<exists>qn q. d' = d\<lparr>qnext := qn, idequeue := q\<rparr>"
proof (cases bs)
  case Nil
  then have "idequeue d = None" using assms(1) by (simp add: queue_is_def)
  then show ?thesis using Nil by (intro that [of "d\<lparr>qnext := (qnext d)(b := None), idequeue := Some b\<rparr>"])
    (auto simp: ide_append_def queue_is_def)
next
  case (Cons h t)
  let ?qn = "(qnext d)(b := None)"
  have c: "chain (Some h) ?qn bs" "distinct bs" "idequeue d = Some h"
    using assms Cons chain_cong [of bs ?qn "qnext d" "Some h"] by (auto simp: queue_is_def)
  define d' where "d' = d\<lparr>qnext := ?qn(last bs := Some b)\<rparr>"
  have "ide_append b d = Some d'" using c(3) ide_last_chain [OF c(1)] by (simp add: ide_append_def d'_def Let_def)
  moreover have "queue_is d' (bs @ [b])" using chain_add [OF c(1) _ c(2) assms(2)] Cons c(2,3) assms(2) by (simp add: queue_is_def d'_def)
  moreover have "idequeue d' = Some b \<longleftrightarrow> bs = []" using Cons assms(2) c(3) by (auto simp: d'_def)
  moreover have "d' = d\<lparr>qnext := qnext d', idequeue := idequeue d'\<rparr>" by (simp add: d'_def)
  ultimately show ?thesis using that by blast
qed

section \<open>The commands\<close>

text \<open>The bytes that start the request for a buffer.\<close>

definition start_ports :: "buf \<Rightarrow> (u16 \<times> u8) list" where
  "start_ports u = [(0x3f6, 0), (0x1f2, 1), (0x1f3, ucast (b_blockno u AND 0xff)), (0x1f4, ucast (drop_bit 8 (b_blockno u) AND 0xff)),
     (0x1f5, ucast (drop_bit 16 (b_blockno u) AND 0xff)),
     (0x1f6, 0xe0 OR ucast (push_bit 4 (b_dev u AND 1)) OR ucast (drop_bit 24 (b_blockno u) AND 0x0f)),
     (0x1f7, if b_flags u AND B_DIRTY \<noteq> 0 then 0x30 else 0x20)]"

definition started :: "buf \<Rightarrow> u8 list \<Rightarrow> 'z idstate_scheme \<Rightarrow> 'z idstate_scheme" where
  "started u rs s = s\<lparr>devs := (devs s)\<lparr>port_out := port_out (devs s) @ start_ports u\<rparr>,
     ide := (ide s)\<lparr>ide_status := rs, ide_sent := (if b_flags u AND B_DIRTY \<noteq> 0 then ide_sent (ide s) @ [b_data u] else ide_sent (ide s))\<rparr>\<rparr>"

lemma idestart_ok:
  assumes "b_blockno (bufs s ! b) < of_nat FSSIZE" "ready_status (ide_status (ide s)) = Some (r, rs)"
  shows "idestart (Some b) s = Ret () (started (bufs s ! b) rs s)"
  using assms
  by (simp add: idestart_def kern buf_get_def not_le idewait_def ide_set_def outb_def dev_set_def started_def start_ports_def Let_def)

section \<open>Interrupts and requests\<close>

definition read_done :: "u8 \<Rightarrow> u8 list \<Rightarrow> buf \<Rightarrow> buf" where
  "read_done st sector u =
    (if b_flags u AND B_DIRTY = 0 \<and> st AND (IDE_DF OR IDE_ERR) = 0 then u\<lparr>b_data := sector\<rparr> else u)"

definition completed :: "u8 \<Rightarrow> u8 list \<Rightarrow> buf \<Rightarrow> buf" where
  "completed st sector u = (read_done st sector u)\<lparr>b_flags := (b_flags u OR B_VALID) AND NOT B_DIRTY\<rparr>"

text \<open>The data phase: the status \<open>st\<close> is read, and the sector when it reports no error.\<close>

lemma ide_data_phase:
  assumes "b < length (bufs s)" "ready_status (ide_status (ide s)) = Some (st, rs)" "ide_sectors (ide s) = sector # ss"
  shows "ide_data b s =
    Ret () (s\<lparr>bufs := upd b (read_done st sector) (bufs s), ide := (ide s)\<lparr>
      ide_status := (if b_flags (bufs s ! b) AND B_DIRTY = 0 then rs else ide_status (ide s)),
      ide_sectors := (if b_flags (bufs s ! b) AND B_DIRTY = 0 \<and> st AND (IDE_DF OR IDE_ERR) = 0 then ss else ide_sectors (ide s))\<rparr>\<rparr>)"
proof (cases "b_flags (bufs s ! b) AND B_DIRTY = 0")
  case True
  show ?thesis
  proof (cases "st AND (IDE_DF OR IDE_ERR) = 0")
    case ok: True
    have "upd b (read_done st sector) (bufs s) = upd b (\<lambda>u. u\<lparr>b_data := sector\<rparr>) (bufs s)"
      using True ok assms(1) by (simp add: upd_def read_done_def)
    then show ?thesis using True ok assms by (simp add: ide_data_def buf_get_def idewait_def insl_def ide_set_def buf_set_def kern)
  next
    case bad: False
    have "upd b (read_done st sector) (bufs s) = bufs s" using bad assms(1) by (intro upd_id_same) (simp_all add: read_done_def)
    then show ?thesis using True bad assms by (simp add: ide_data_def buf_get_def idewait_def ide_set_def kern)
  qed
next
  case False
  have "upd b (read_done st sector) (bufs s) = bufs s" using False assms(1) by (intro upd_id_same) (simp_all add: read_done_def)
  then show ?thesis using False by (simp add: ide_data_def buf_get_def kern)
qed

lemma ide_intr_step:
  assumes r: "table_ready s" "unlocked (mach s) L_ide" and q: "idequeue (ide s) = Some b" "b < length (bufs s)"
    "ready_status (ide_status (ide s)) = Some (st, rs)" "ide_sectors (ide s) = sector # ss"
    and nx: "\<And>c. qnext (ide s) b = Some c \<Longrightarrow> c \<noteq> b \<and> b_blockno (bufs s ! c) < of_nat FSSIZE \<and>
      (\<exists>y. ready_status (if b_flags (bufs s ! b) AND B_DIRTY = 0 then rs else ide_status (ide s)) = Some y)"
  shows "\<exists>t. ide_intr s = Ret () t \<and> idequeue (ide t) = qnext (ide s) b \<and> qnext (ide t) = qnext (ide s) \<and>
    bufs t = upd b (completed st sector) (bufs s) \<and> pt t = wakeup_table (ChBuf b) (pt s) \<and> same_mach (mach s) (mach t) \<and>
    port_out (devs t) = port_out (devs s) @ (case qnext (ide s) b of None \<Rightarrow> [] | Some c \<Rightarrow> start_ports (bufs s ! c))"
proof -
  have c: "cpu_ok (mach s)" "unlocked (mach s) L_ptable" using r(1) by simp_all
  define s1 where "s1 = s\<lparr>mach := acq L_ide (mach s), ide := (ide s)\<lparr>idequeue := qnext (ide s) b\<rparr>\<rparr>"
  define s2 where "s2 = s1\<lparr>bufs := upd b (completed st sector) (bufs s), ide := (ide s)\<lparr>idequeue := qnext (ide s) b,
      ide_status := (if b_flags (bufs s ! b) AND B_DIRTY = 0 then rs else ide_status (ide s)),
      ide_sectors := (if b_flags (bufs s ! b) AND B_DIRTY = 0 \<and> st AND (IDE_DF OR IDE_ERR) = 0 then ss else ide_sectors (ide s))\<rparr>\<rparr>"
  define s3 where "s3 = s2\<lparr>mach := crit L_ptable (acq L_ide (mach s)), pt := wakeup_table (ChBuf b) (pt s)\<rparr>"
  have run: "ide_intr s = andthen (whenk (qnext (ide s) b \<noteq> None) (idestart (qnext (ide s) b))) (release L_ide) s3"
  proof -
    have d: "b < length (bufs s1)" "ready_status (ide_status (ide s1)) = Some (st, rs)" "ide_sectors (ide s1) = sector # ss"
      using q by (simp_all add: s1_def)
    have f: "(\<lambda>u. u\<lparr>b_flags := b_flags u AND NOT B_DIRTY\<rparr>) \<circ> ((\<lambda>u. u\<lparr>b_flags := b_flags u OR B_VALID\<rparr>) \<circ> read_done st sector) = completed st sector"
      by (auto simp: completed_def read_done_def)
    define s1' where "s1' = s1\<lparr>bufs := upd b (read_done st sector) (bufs s), ide := ide s2\<rparr>"
    have p: "ide_data b s1 = Ret () s1'" using ide_data_phase [OF d] by (simp add: s1'_def s2_def s1_def)
    have b2: "buf_set b (\<lambda>u. u\<lparr>b_flags := b_flags u AND NOT B_DIRTY\<rparr>) (s1'\<lparr>bufs := upd b (\<lambda>u. u\<lparr>b_flags := b_flags u OR B_VALID\<rparr>) (bufs s1')\<rparr>) = Ret () s2"
      using q(2) f by (simp add: buf_set_def modify_def s1'_def s2_def s1_def)
    have w: "wakeup (ChBuf b) s2 = Ret () s3"
      using c r(2) wakeup_at [of s2 "ChBuf b"] by (simp add: s2_def s1_def s3_def)
    have "acquire L_ide s = Ret () (s\<lparr>mach := acq L_ide (mach s)\<rparr>)" using c r(2) by simp
    moreover have "ide_set (\<lambda>d. d\<lparr>idequeue := qnext d b\<rparr>) (s\<lparr>mach := acq L_ide (mach s)\<rparr>) = Ret () s1" by (simp add: ide_set_def modify_def s1_def)
    moreover have "buf_set b (\<lambda>u. u\<lparr>b_flags := b_flags u OR B_VALID\<rparr>) s1' = Ret () (s1'\<lparr>bufs := upd b (\<lambda>u. u\<lparr>b_flags := b_flags u OR B_VALID\<rparr>) (bufs s1')\<rparr>)"
      by (simp add: buf_set_def modify_def)
    moreover have "idequeue (ide s3) = qnext (ide s) b" by (simp_all add: s1_def s2_def s3_def)
    ultimately show ?thesis using p b2 w q(1) unfolding ide_intr_def
      by (simp add: andthen_def bind_def gets_def buf_get_def)
  qed
  have same: "same_mach (acq L_ide (mach s)) (crit L_ptable (acq L_ide (mach s)))" using c by (intro crit_same) simp_all
  have fin: "same_mach (mach s) (rel L_ide (mach s3))"
    using c r(2) same by (auto simp: s3_def intro!: same_mach_critical)
  have rel: "release L_ide u = Ret () (u\<lparr>mach := rel L_ide (mach u)\<rparr>)" if "mach u = mach s3" for u :: "'a idstate_scheme"
    using same_machD [OF same] c r(2) that by (simp add: s3_def)
  show ?thesis
  proof (cases "qnext (ide s) b")
    case None
    then show ?thesis using run rel [of s3] fin by (auto simp: kern s3_def s2_def s1_def)
  next
    case (Some c)
    then obtain r' rs' where x: "c \<noteq> b" "b_blockno (bufs s ! c) < of_nat FSSIZE" "ready_status (ide_status (ide s3)) = Some (r', rs')"
      using nx by (auto simp: s3_def s2_def)
    have "bufs s3 ! c = bufs s ! c" using x(1) by (simp add: s3_def s2_def upd_def)
    then have "idestart (Some c) s3 = Ret () (started (bufs s ! c) rs' s3)" using idestart_ok [of s3 c] x(2,3) by simp
    then show ?thesis using run rel [of "started (bufs s ! c) rs' s3"] fin Some
      by (auto simp: kern started_def s3_def s2_def s1_def)
  qed
qed

lemma valid_flags: "(x OR B_VALID) AND NOT B_DIRTY AND (B_VALID OR B_DIRTY) = B_VALID" for x :: u32
proof -
  have "bit ((x OR 2) AND NOT 4 AND (2 OR 4)) n = bit (2 :: u32) n" for n
    by (auto simp: bit_simps numeral_eq_Suc nth_Cons)
  then show ?thesis by (simp add: B_VALID_def B_DIRTY_def bit_eq_iff)
qed

lemma ide_rw_start:
  assumes r: "sl_ready me (SL_buf b) s" "unlocked (mach s) L_ide" "ncli (mach s) = 0"
    and l: "sl_locked (slocks s (SL_buf b)) \<noteq> 0" "sl_pid (slocks s (SL_buf b)) = p_pid (procs (pt s) ! me)"
    and f: "b_flags (bufs s ! b) AND (B_VALID OR B_DIRTY) \<noteq> B_VALID" "b_dev (bufs s ! b) = 0 \<or> havedisk1 (ide s)"
      "b_blockno (bufs s ! b) < of_nat FSSIZE" and w: "ready_status (ide_status (ide s)) = Some (st, rs)"
    and q: "queue_is (ide s) xs" "b \<notin> set xs"
  shows "\<exists>t. ide_rw b s = Switch t \<and> queue_is (ide t) (xs @ [b]) \<and> bufs t = bufs s \<and>
    procs (pt t) = upd me (asleep (ChBuf b) (esp (mach s))) (procs (pt s)) \<and>
    port_out (devs t) = port_out (devs s) @ (if xs = [] then start_ports (bufs s ! b) else [])"
proof -
  note R = sl_readyD [OF r(1)]
  obtain d' where A: "ide_append b (ide s) = Some d'" "queue_is d' (xs @ [b])" "idequeue d' = Some b \<longleftrightarrow> xs = []"
    and e: "\<exists>qn q. d' = (ide s)\<lparr>qnext := qn, idequeue := q\<rparr>" using ide_append_queue [OF q] by metis
  define m where "m = crit (L_buf b) (mach s)"
  have g: "sl_guard (SL_buf b) = L_buf b" by (simp add: sl_guard_def)
  have same: "same_mach (mach s) m" unfolding m_def using R by (intro crit_same) (simp_all add: g)
  have esp: "esp m = esp (mach s)" using same by (simp add: same_mach_def)
  note M = same_machD [OF same]
  define s1 where "s1 = s\<lparr>mach := acq L_ide m, ide := d'\<rparr>"
  define s2 where "s2 = (if xs = [] then started (bufs s ! b) rs s1 else s1)"
  have st: "whenk (idequeue d' = Some b) (idestart (Some b)) s1 = Ret () s2"
  proof (cases "xs = []")
    case True
    have "ready_status (ide_status (ide s1)) = Some (st, rs)" using w e by (auto simp: s1_def)
    then have "idestart (Some b) s1 = Ret () (started (bufs s1 ! b) rs s1)" using f(3) by (intro idestart_ok) (simp_all add: s1_def)
    then show ?thesis using True A(3) by (simp add: whenk_def s2_def s1_def)
  qed (use A(3) in \<open>simp add: whenk_def s2_def return_def\<close>)
  have s2: "mach s2 = acq L_ide m" "pt s2 = pt s" "bufs s2 = bufs s" "idequeue (ide s2) = idequeue d'" "qnext (ide s2) = qnext d'"
    by (simp_all add: s2_def s1_def started_def)
  have sl: "sleep (ChBuf b) (Some L_ide) s2 = Switch (s2\<lparr>mach := rel L_ide (acq L_ptable (acq L_ide m)),
      pt := (pt s)\<lparr>procs := upd me (asleep (ChBuf b) (esp (mach s))) (procs (pt s))\<rparr>\<rparr>)"
    using M R r(2,3) s2 esp by (subst sleep_switch [where i = me]) simp_all
  have hs: "holdingsleep (SL_buf b) s = Ret True (s\<lparr>mach := m\<rparr>)" using holdingsleep_ok [OF r(1)] l by (simp add: m_def g)
  have ac: "acquire L_ide (s\<lparr>mach := m\<rparr>) = Ret () (s\<lparr>mach := acq L_ide m\<rparr>)" using M R r(2) by simp
  have run: "ide_rw b s = sleep (ChBuf b) (Some L_ide) s2"
    using hs ac f(1,2) A(1) st s2(3)
    by (auto simp: ide_rw_def ide_rw_wait_def sleep_while_def ide_set_def bind_def andthen_def buf_get_def gets_def modify_def s1_def)
  have "port_out (devs s2) = port_out (devs s) @ (if xs = [] then start_ports (bufs s ! b) else [])"
    by (simp add: s2_def s1_def started_def)
  then show ?thesis using run sl A(2) s2 by (auto simp: queue_is_def)
qed

section \<open>Properties\<close>

text \<open>
  C21: A request joins the end of the queue. \<open>iderw\<close> on a locked buffer that is not up to date appends it behind the
  requests that wait, starts the disk with its block exactly when the queue was empty, and its process sleeps
  on the buffer, which is untouched.
\<close>

theorem ide_rw_enqueues:
  assumes "sl_ready me (SL_buf b) s" "unlocked (mach s) L_ide" "ncli (mach s) = 0"
    and "sl_locked (slocks s (SL_buf b)) \<noteq> 0" "sl_pid (slocks s (SL_buf b)) = p_pid (procs (pt s) ! me)"
    and "b_flags (bufs s ! b) AND (B_VALID OR B_DIRTY) \<noteq> B_VALID" "b_dev (bufs s ! b) = 0 \<or> havedisk1 (ide s)"
      "b_blockno (bufs s ! b) < of_nat FSSIZE" and "ready_status (ide_status (ide s)) = Some (st, rs)"
    and "queue_is (ide s) xs" "b \<notin> set xs"
  shows "\<exists>t. ide_rw b s = Switch t \<and> queue_is (ide t) (xs @ [b]) \<and> bufs t = bufs s \<and>
      procs (pt t) = upd me (asleep (ChBuf b) (esp (mach s))) (procs (pt s)) \<and>
      port_out (devs t) = port_out (devs s) @ (if xs = [] then start_ports (bufs s ! b) else [])"
  by (rule ide_rw_start [OF assms])

text \<open>
  C20: An interrupt completes the oldest request. The buffer at the head of the queue leaves it and is marked valid and
  clean, its process is woken, no other buffer changes, and the request behind it is started. A buffer that was
  to be read gets the sector, unless the controller reports an error: then it keeps its old contents, valid all the same.
\<close>

theorem ide_intr_serves:
  assumes "table_ready s" "unlocked (mach s) L_ide" "queue_is (ide s) (b # xs)" "b < length (bufs s)"
    and "ready_status (ide_status (ide s)) = Some (st, rs)" "ide_sectors (ide s) = sector # ss"
    and "\<And>c ys. xs = c # ys \<Longrightarrow> b_blockno (bufs s ! c) < of_nat FSSIZE \<and>
        ready_status (if b_flags (bufs s ! b) AND B_DIRTY = 0 then rs else ide_status (ide s)) \<noteq> None"
  shows "\<exists>t. ide_intr s = Ret () t \<and> queue_is (ide t) xs \<and> pt t = wakeup_table (ChBuf b) (pt s) \<and>
      b_flags (bufs t ! b) AND (B_VALID OR B_DIRTY) = B_VALID \<and>
      b_data (bufs t ! b) = (if b_flags (bufs s ! b) AND B_DIRTY = 0 \<and> st AND (IDE_DF OR IDE_ERR) = 0 then sector else b_data (bufs s ! b)) \<and>
      (\<forall>c. c \<noteq> b \<longrightarrow> bufs t ! c = bufs s ! c) \<and>
      port_out (devs t) = port_out (devs s) @ (case xs of [] \<Rightarrow> [] | c # _ \<Rightarrow> start_ports (bufs s ! c))"
proof -
  have q: "idequeue (ide s) = Some b" "chain (qnext (ide s) b) (qnext (ide s)) xs" "distinct (b # xs)"
    using assms(3) by (auto simp: queue_is_def)
  have nx: "c \<noteq> b \<and> b_blockno (bufs s ! c) < of_nat FSSIZE \<and>
      (\<exists>y. ready_status (if b_flags (bufs s ! b) AND B_DIRTY = 0 then rs else ide_status (ide s)) = Some y)"
    if "qnext (ide s) b = Some c" for c
    using that q(2,3) assms(7) by (cases xs) auto
  obtain t where T: "ide_intr s = Ret () t" "idequeue (ide t) = qnext (ide s) b" "qnext (ide t) = qnext (ide s)"
    "bufs t = upd b (completed st sector) (bufs s)" "pt t = wakeup_table (ChBuf b) (pt s)"
    "port_out (devs t) = port_out (devs s) @ (case qnext (ide s) b of None \<Rightarrow> [] | Some c \<Rightarrow> start_ports (bufs s ! c))"
    using ide_intr_step [OF assms(1,2) q(1) assms(4-6) nx] by blast
  have "queue_is (ide t) xs" using T(2,3) q(2,3) by (simp add: queue_is_def)
  moreover have "b_flags (bufs t ! b) AND (B_VALID OR B_DIRTY) = B_VALID"
    using T(4) assms(4) valid_flags by (simp add: completed_def upd_def and.assoc)
  moreover have "b_data (bufs t ! b) = (if b_flags (bufs s ! b) AND B_DIRTY = 0 \<and> st AND (IDE_DF OR IDE_ERR) = 0 then sector else b_data (bufs s ! b))"
    using T(4) assms(4) by (simp add: completed_def read_done_def upd_def)
  moreover have "\<forall>c. c \<noteq> b \<longrightarrow> bufs t ! c = bufs s ! c" using T(4) by (simp add: upd_def)
  moreover have "(case qnext (ide s) b of None \<Rightarrow> [] | Some c \<Rightarrow> start_ports (bufs s ! c)) = (case xs of [] \<Rightarrow> [] | c # _ \<Rightarrow> start_ports (bufs s ! c))"
    using q(2) by (cases xs) auto
  ultimately show ?thesis using T(1,5,6) by metis
qed

section \<open>A request on a small machine\<close>

definition demo_ide_buf :: "u32 \<Rightarrow> buf" where
  "demo_ide_buf n = \<lparr>b_flags = 0, b_dev = 1, b_blockno = n, b_refcnt = 1, b_prev = 0, b_next = 0, b_data = replicate BSIZE 0\<rparr>"

definition demo_ide :: "idstate \<Rightarrow> idstate" where
  "demo_ide s = s\<lparr>mach := demo_mach (Some 0) 0x202, pt := pt (demo_state (Some 0) [demo_proc RUNNING 1] 1),
     slocks := (\<lambda>_. \<lparr>sl_locked = 1, sl_name = ''buffer'', sl_pid = 1\<rparr>), bufs := [demo_ide_buf 7, demo_ide_buf 8],
     ide := \<lparr>idequeue = Some 0, qnext = (\<lambda>_. None), havedisk1 = True, ide_status = [0x80, 0x41, 0x40], ide_sectors = [replicate BSIZE 5], ide_sent = []\<rparr>\<rparr>"

lemma demo_ide_ready:
  "sl_ready 0 (SL_buf 1) (demo_ide s)" "unlocked (mach (demo_ide s)) L_ide" "ncli (mach (demo_ide s)) = 0" "table_ready (demo_ide s)"
  by (simp_all add: sl_ready_def table_ready_def demo_ide_def demo_state_def NPROC_def del: table_readyD)

theorem ide_rw_enqueues_witness: "\<forall>s. \<exists>t. ide_rw 1 (demo_ide s) = Switch t \<and> queue_is (ide t) [0, 1]"
proof
  fix s
  show "\<exists>t. ide_rw 1 (demo_ide s) = Switch t \<and> queue_is (ide t) [0, 1]"
    using ide_rw_enqueues [OF demo_ide_ready(1,2,3) [of s], of "0x41" "[0x40]" "[0]"]
    by (auto simp: demo_ide_def demo_state_def demo_proc_def demo_ide_buf_def B_VALID_def B_DIRTY_def FSSIZE_def IDE_BSY_def IDE_DRDY_def queue_is_def)
qed

theorem ide_intr_serves_witness: "\<forall>s. \<exists>t. ide_intr (demo_ide s) = Ret () t \<and> queue_is (ide t) [] \<and> b_data (bufs t ! 0) = replicate BSIZE 0"
proof
  fix s
  have "queue_is (ide (demo_ide s)) [0]" by (simp add: demo_ide_def queue_is_def)
  then show "\<exists>t. ide_intr (demo_ide s) = Ret () t \<and> queue_is (ide t) [] \<and> b_data (bufs t ! 0) = replicate BSIZE 0"
    using ide_intr_serves [OF demo_ide_ready(4,2) [of s], of 0 "[]" "0x41" "[0x40]" "replicate BSIZE 5" "[]"]
    by (auto simp: demo_ide_def demo_ide_buf_def IDE_BSY_def IDE_DRDY_def IDE_DF_def IDE_ERR_def)
qed

end
