(* ===== verification/Bootload.thy ===== *)
theory Bootload
  imports Kstring
begin

text \<open>
  The boot loader, \<^verbatim>\<open>src/bootmain.c\<close>: it reads the kernel's ELF image from the disk, sector by sector, into
  physical memory. The disk is a function from sector numbers to their 512 bytes; \<open>bt_status\<close> is what the
  successive reads of the status port return and \<open>bt_ports\<close> what has been written to the ports.
\<close>

section \<open>The loader\<close>

record boot =
  bt_mem :: memory
  bt_status :: "u8 list"
  bt_ports :: "(u16 \<times> u8) list"

definition SECTSIZE :: u32 where "SECTSIZE = 512"

definition bt_outb :: "u16 \<Rightarrow> u8 \<Rightarrow> (unit, boot) kern" where
  "bt_outb p v = modify (\<lambda>b. b\<lparr>bt_ports := bt_ports b @ [(p, v)]\<rparr>)"

fun wait_ready :: "u8 list \<Rightarrow> u8 list option" where
  "wait_ready [] = None"
| "wait_ready (r # rs) = (if r AND 0xC0 \<noteq> 0x40 then wait_ready rs else Some rs)"

definition waitdisk :: "(unit, boot) kern" where
  "waitdisk =
    bind (gets (\<lambda>b. wait_ready (bt_status b))) (\<lambda>x.
    case x of None \<Rightarrow> hang | Some rs \<Rightarrow> modify (\<lambda>b. b\<lparr>bt_status := rs\<rparr>))"

fun put_bytes :: "memory \<Rightarrow> u32 \<Rightarrow> u8 list \<Rightarrow> memory" where
  "put_bytes m a [] = m"
| "put_bytes m a (b # bs) = put_bytes (m(a := b)) (a + 1) bs"

definition readsect :: "(nat \<Rightarrow> u8 list) \<Rightarrow> u32 \<Rightarrow> u32 \<Rightarrow> (unit, boot) kern" where
  "readsect dk dst offset =
    andthen waitdisk (
    andthen (bt_outb 0x1F2 1) (
    andthen (bt_outb 0x1F3 (ucast offset)) (
    andthen (bt_outb 0x1F4 (ucast (drop_bit 8 offset))) (
    andthen (bt_outb 0x1F5 (ucast (drop_bit 16 offset))) (
    andthen (bt_outb 0x1F6 (ucast (drop_bit 24 offset) OR 0xE0)) (
    andthen (bt_outb 0x1F7 0x20) (
    andthen waitdisk
      (modify (\<lambda>b. b\<lparr>bt_mem := put_bytes (bt_mem b) dst (dk (unat offset))\<rparr>)))))))))"

text \<open>
  \<open>for(; pa < epa; pa += SECTSIZE, offset++)\<close>: there are \<open>2 ^ 23\<close> sectors in the address space, so a loop that
  takes more rounds has come back to where it started and never ends.
\<close>

fun readseg_loop :: "(nat \<Rightarrow> u8 list) \<Rightarrow> nat \<Rightarrow> u32 \<Rightarrow> u32 \<Rightarrow> u32 \<Rightarrow> (unit, boot) kern" where
  "readseg_loop dk 0 pa epa offset = hang"
| "readseg_loop dk (Suc k) pa epa offset =
    (if pa < epa then andthen (readsect dk pa offset) (readseg_loop dk k (pa + SECTSIZE) epa (offset + 1)) else return ())"

definition readseg :: "(nat \<Rightarrow> u8 list) \<Rightarrow> u32 \<Rightarrow> u32 \<Rightarrow> u32 \<Rightarrow> (unit, boot) kern" where
  "readseg dk pa count offset =
    readseg_loop dk (2 ^ 23 + 1) (pa - offset mod SECTSIZE) (pa + count) (offset div SECTSIZE + 1)"

text \<open>The program headers from \<open>ph\<close> on; \<open>paddr\<close>, \<open>filesz\<close>, \<open>memsz\<close> and \<open>off\<close> are at 12, 16, 20 and 4.\<close>

fun load_segments :: "(nat \<Rightarrow> u8 list) \<Rightarrow> nat \<Rightarrow> u32 \<Rightarrow> (unit, boot) kern" where
  "load_segments dk 0 ph = return ()"
| "load_segments dk (Suc n) ph =
    bind (gets bt_mem) (\<lambda>m.
    let pa = load32 m (ph + 12); filesz = load32 m (ph + 16) in
    andthen (readseg dk pa filesz (load32 m (ph + 4))) (
    bind (gets bt_mem) (\<lambda>m.
    let filesz = load32 m (ph + 16); memsz = load32 m (ph + 20) in
    andthen (whenk (memsz > filesz) (modify (\<lambda>b. b\<lparr>bt_mem := stosb (bt_mem b) (pa + filesz) 0 (unat (memsz - filesz))\<rparr>)))
      (load_segments dk n (ph + 32)))))"

text \<open>The result is the entry point that is jumped to, or \<open>None\<close> when the image is not an ELF file.\<close>

definition bootmain :: "(nat \<Rightarrow> u8 list) \<Rightarrow> (u32 option, boot) kern" where
  "bootmain dk =
    (let elf = 0x10000 in
     andthen (readseg dk elf 4096 0) (
     bind (gets bt_mem) (\<lambda>m.
     if load32 m elf \<noteq> 0x464C457F then return None
     else
       andthen (load_segments dk (unat (m (elf + 44)) + 256 * unat (m (elf + 45))) (elf + load32 m (elf + 28))) (
       bind (gets bt_mem) (\<lambda>m. return (Some (load32 m (elf + 24))))))))"

section \<open>What a segment is\<close>

lemma put_bytes_at:
  "unat a + length bs \<le> 2 ^ 32 \<Longrightarrow>
   put_bytes m a bs x = (if unat a \<le> unat x \<and> unat x < unat a + length bs then bs ! (unat x - unat a) else m x)"
proof (induction bs arbitrary: m a)
  case (Cons b bs)
  show ?case
  proof (cases "bs = []")
    case True
    then show ?thesis by (auto simp: word_unat_eq_iff)
  next
    case False
    then have "unat a + 1 < 2 ^ 32" using Cons.prems by (cases bs) auto
    then have a: "unat (a + 1) = unat a + 1" by (simp add: unat_word_ariths)
    show ?thesis using Cons.IH [of "a + 1"] Cons.prems a by (auto simp: word_unat_eq_iff nth_Cons')
  qed
qed auto

text \<open>The byte \<open>i\<close> of the disk.\<close>

definition disk_byte :: "(nat \<Rightarrow> u8 list) \<Rightarrow> nat \<Rightarrow> u8" where
  "disk_byte dk i = dk (i div 512) ! (i mod 512)"

text \<open>A disk that answers every wait.\<close>

definition quick :: "nat \<Rightarrow> u8 list \<Rightarrow> bool" where
  "quick n rs \<longleftrightarrow> n \<le> length rs \<and> (\<forall>r\<in>set rs. r AND 0xC0 = 0x40)"

lemma waitdisk_quick: "quick (Suc n) (bt_status b) \<Longrightarrow> waitdisk b = Ret () (b\<lparr>bt_status := tl (bt_status b)\<rparr>) \<and> quick n (tl (bt_status b))"
  by (cases "bt_status b") (auto simp: quick_def waitdisk_def kern)

lemma readsect_quick:
  assumes "quick (Suc (Suc n)) (bt_status b)"
  obtains b' where "readsect dk dst off b = Ret () b'" "bt_mem b' = put_bytes (bt_mem b) dst (dk (unat off))" "quick n (bt_status b')"
proof -
  note w = waitdisk_quick [OF assms]
  let ?b = "b\<lparr>bt_status := tl (bt_status b), bt_ports := bt_ports b @ [(0x1F2, 1), (0x1F3, ucast off), (0x1F4, ucast (drop_bit 8 off)),
    (0x1F5, ucast (drop_bit 16 off)), (0x1F6, ucast (drop_bit 24 off) OR 0xE0), (0x1F7, 0x20)]\<rparr>"
  have "quick (Suc n) (bt_status ?b)" using w by simp
  note w2 = waitdisk_quick [OF this]
  show ?thesis
    using that [of "?b\<lparr>bt_status := tl (tl (bt_status b)), bt_mem := put_bytes (bt_mem b) dst (dk (unat off))\<rparr>"] w w2
    by (simp add: readsect_def kern bt_outb_def)
qed

lemma readseg_loop_ok:
  assumes "\<forall>i. length (dk i) = 512"
  shows "unat epa \<le> unat pa + 512 * n \<Longrightarrow> (0 < n \<Longrightarrow> unat pa + 512 * (n - 1) < unat epa) \<Longrightarrow> unat pa + 512 * n < 2 ^ 32 \<Longrightarrow>
    unat off + n < 2 ^ 32 \<Longrightarrow> n < k \<Longrightarrow> quick (2 * n) (bt_status b) \<Longrightarrow>
    \<exists>b'. readseg_loop dk k pa epa off b = Ret () b' \<and> (\<forall>x. bt_mem b' x =
      (if unat pa \<le> unat x \<and> unat x < unat pa + 512 * n then disk_byte dk (512 * unat off + (unat x - unat pa)) else bt_mem b x))"
proof (induction n arbitrary: k pa off b)
  case 0
  then obtain j where "k = Suc j" by (cases k) auto
  moreover have "\<not> pa < epa" using 0(1) by (simp add: word_less_nat_alt)
  ultimately show ?case by (auto simp: kern)
next
  case (Suc n)
  obtain j where j: "k = Suc j" "n < j" using Suc.prems(5) by (cases k) auto
  have lt: "pa < epa" using Suc.prems(2) by (simp add: word_less_nat_alt)
  obtain b1 where R: "readsect dk pa off b = Ret () b1" "bt_mem b1 = put_bytes (bt_mem b) pa (dk (unat off))" "quick (2 * n) (bt_status b1)"
    using readsect_quick [of "2 * n" b dk pa off] Suc.prems(6) by auto
  have u: "unat (pa + SECTSIZE) = unat pa + 512" "unat (off + 1) = unat off + 1"
    using Suc.prems(3,4) by (simp_all add: unat_word_ariths SECTSIZE_def)
  obtain b' where B: "readseg_loop dk j (pa + SECTSIZE) epa (off + 1) b1 = Ret () b'"
    "\<And>x. bt_mem b' x = (if unat pa + 512 \<le> unat x \<and> unat x < unat pa + 512 + 512 * n
       then disk_byte dk (512 * (unat off + 1) + (unat x - (unat pa + 512))) else bt_mem b1 x)"
    using Suc.IH [of "pa + SECTSIZE" "off + 1" j b1] Suc.prems j R(3) u by fastforce
  have m1: "bt_mem b1 x = (if unat pa \<le> unat x \<and> unat x < unat pa + 512 then dk (unat off) ! (unat x - unat pa) else bt_mem b x)" for x
    unfolding R(2) using put_bytes_at [of pa "dk (unat off)"] assms Suc.prems(3) by simp
  have "bt_mem b' x = (if unat pa \<le> unat x \<and> unat x < unat pa + 512 * Suc n then disk_byte dk (512 * unat off + (unat x - unat pa)) else bt_mem b x)" for x
  proof (cases "unat pa \<le> unat x \<and> unat x < unat pa + 512")
    case True
    define y where "y = unat x - unat pa"
    have "y < 512" using True unfolding y_def by linarith
    then have "disk_byte dk (512 * unat off + (unat x - unat pa)) = dk (unat off) ! (unat x - unat pa)"
      unfolding y_def [symmetric] by (simp add: disk_byte_def)
    then show ?thesis using True B(2) m1 by simp
  next
    case False
    then show ?thesis using B(2) [of x] m1 [of x] by (auto simp: algebra_simps)
  qed
  then show ?case using R(1) B(1) lt j(1) by (auto simp: kern)
qed



end
