(* ===== verification/Mkfs.thy ===== *)
theory Mkfs
  imports Dir Ide
begin

text \<open>
  The program that builds the initial file system image, \<^verbatim>\<open>src/mkfs.c\<close>, which runs on the build machine. The image
  is the list of its 512-byte sectors; writing behind its end extends it, reading there fails. The input files
  and whether a transfer of a sector succeeds are those of the build machine: \<open>hs_open\<close> gives, for a name, what
  the reads of the file return one after the other, and \<open>hs_io\<close> tells for a sector whether seeking to it and
  the transfer succeed. A failed assertion and \<open>exit(1)\<close> end in \<open>Panic\<close>; progress messages are not modelled.
\<close>

section \<open>The layout\<close>

definition NINODES :: nat where "NINODES = 200"

definition nbitmap :: u32 where "nbitmap = of_nat FSSIZE div (512 * 8) + 1"
definition ninodeblocks :: u32 where "ninodeblocks = of_nat NINODES div IPB + 1"
definition nlog :: u32 where "nlog = of_nat LOGSIZE"
definition nmeta :: u32 where "nmeta = 2 + nlog + ninodeblocks + nbitmap"
definition nblocks :: u32 where "nblocks = of_nat FSSIZE - nmeta"

text \<open>Little-endian order, written byte by byte; the build machine stores its integers in that order.\<close>

definition xshort :: "u16 \<Rightarrow> u16" where
  "xshort x = of_le16 [ucast x, ucast (drop_bit 8 x)]"

definition xint :: "u32 \<Rightarrow> u32" where
  "xint x = of_le32 [ucast x, ucast (drop_bit 8 x), ucast (drop_bit 16 x), ucast (drop_bit 24 x)]"

definition mk_sb :: superblock where
  "mk_sb = \<lparr>sb_size = xint (of_nat FSSIZE), sb_nblocks = xint nblocks, sb_ninodes = xint (of_nat NINODES), sb_nlog = xint nlog,
     sb_logstart = xint 2, sb_inodestart = xint (2 + nlog), sb_bmapstart = xint (2 + nlog + ninodeblocks)\<rparr>"

definition sb_bytes :: "superblock \<Rightarrow> u8 list" where
  "sb_bytes sb = le32 (sb_size sb) @ le32 (sb_nblocks sb) @ le32 (sb_ninodes sb) @ le32 (sb_nlog sb)
     @ le32 (sb_logstart sb) @ le32 (sb_inodestart sb) @ le32 (sb_bmapstart sb)"

section \<open>The image\<close>

record host =
  hs_open :: "u8 list \<Rightarrow> u8 list list option"
  hs_io :: "u32 \<Rightarrow> bool"

record mkfs =
  mk_img :: "u8 list list"
  freeinode :: u32
  freeblock :: u32

definition zeroes :: "u8 list" where "zeroes = replicate BSIZE 0"

text \<open>The sector at the byte offset \<open>sec * BSIZE\<close>, a 32-bit number.\<close>

definition sect_at :: "u32 \<Rightarrow> nat" where
  "sect_at sec = unat (sec * of_nat BSIZE) div BSIZE"

definition wsect :: "host \<Rightarrow> u32 \<Rightarrow> u8 list \<Rightarrow> (unit, mkfs) kern" where
  "wsect h sec buf =
    (if \<not> hs_io h sec then panic ''exit(1)'' else
     modify (\<lambda>s. s\<lparr>mk_img :=
       (if sect_at sec < length (mk_img s) then (mk_img s)[sect_at sec := buf]
        else mk_img s @ replicate (sect_at sec - length (mk_img s)) zeroes @ [buf])\<rparr>))"

definition rsect :: "host \<Rightarrow> u32 \<Rightarrow> (u8 list, mkfs) kern" where
  "rsect h sec =
    (if \<not> hs_io h sec then panic ''exit(1)'' else
     bind (gets mk_img) (\<lambda>img.
     if sect_at sec < length img then return (img ! sect_at sec) else panic ''exit(1)''))"

definition winode :: "host \<Rightarrow> u32 \<Rightarrow> dinode \<Rightarrow> (unit, mkfs) kern" where
  "winode h inum ip =
    (let bn = IBLOCK inum mk_sb in
     bind (rsect h bn) (\<lambda>buf. wsect h bn (put_dinode ip inum buf)))"

definition rinode :: "host \<Rightarrow> u32 \<Rightarrow> (dinode, mkfs) kern" where
  "rinode h inum =
    (let bn = IBLOCK inum mk_sb in
     bind (rsect h bn) (\<lambda>buf. return (get_dinode buf inum)))"

definition mk_ialloc :: "host \<Rightarrow> u16 \<Rightarrow> (u32, mkfs) kern" where
  "mk_ialloc h type =
    bind (gets freeinode) (\<lambda>inum.
    andthen (modify (\<lambda>s. s\<lparr>freeinode := inum + 1\<rparr>)) (
    andthen (winode h inum (zero_dinode\<lparr>d_type := xshort type, d_nlink := xshort 1, d_size := xint 0\<rparr>))
      (return inum)))"

definition mk_balloc :: "host \<Rightarrow> u32 \<Rightarrow> (unit, mkfs) kern" where
  "mk_balloc h used =
    (if \<not> sint used < 512 * 8 then panic ''assert'' else
     wsect h (sb_bmapstart mk_sb) (fold bm_set [0..<nat (sint used)] zeroes))"

section \<open>Appending to a file\<close>

text \<open>\<open>xint(freeblock++)\<close>\<close>

definition new_block :: "(u32, mkfs) kern" where
  "new_block = bind (gets freeblock) (\<lambda>b. andthen (modify (\<lambda>s. s\<lparr>freeblock := b + 1\<rparr>)) (return (xint b)))"

text \<open>The block of the file that holds its block number \<open>fbn\<close>, allocated when it is not there yet.\<close>

definition file_block :: "host \<Rightarrow> dinode \<Rightarrow> nat \<Rightarrow> (u32 \<times> dinode, mkfs) kern" where
  "file_block h din fbn =
    (if fbn < NDIRECT then
       bind (if xint (d_addrs din ! fbn) = 0 then bind new_block (\<lambda>b. return (din\<lparr>d_addrs := (d_addrs din)[fbn := b]\<rparr>)) else return din) (\<lambda>din.
       return (xint (d_addrs din ! fbn), din))
     else
       bind (if xint (d_addrs din ! NDIRECT) = 0 then bind new_block (\<lambda>b. return (din\<lparr>d_addrs := (d_addrs din)[NDIRECT := b]\<rparr>)) else return din) (\<lambda>din.
       bind (rsect h (xint (d_addrs din ! NDIRECT))) (\<lambda>ind.
       bind (if rd32 ind (4 * (fbn - NDIRECT)) = 0
             then bind new_block (\<lambda>b.
                  let ind = wr32 ind (4 * (fbn - NDIRECT)) b in
                  andthen (wsect h (xint (d_addrs din ! NDIRECT)) ind) (return ind))
             else return ind) (\<lambda>ind.
       return (xint (rd32 ind (4 * (fbn - NDIRECT))), din)))))"

lemma rest_of_block:
  fixes off :: u32
  shows "(off div 512 + 1) * 512 - off = 512 - off mod 512" "0 < unat ((off div 512 + 1) * 512 - off)" "unat ((off div 512 + 1) * 512 - off) = 512 - unat off mod 512"
proof -
  have e: "off div 512 * 512 + off mod 512 = off" by (simp add: word_mod_div_equality)
  show r: "(off div 512 + 1) * 512 - off = 512 - off mod 512"
    using e by (simp add: algebra_simps)
  have m: "unat (off mod 512) = unat off mod 512" by (simp add: unat_mod)
  then have "unat (off mod 512) < 512" by simp
  then have "off mod 512 \<le> 512" by (simp add: word_le_nat_alt)
  then show u: "unat ((off div 512 + 1) * 512 - off) = 512 - unat off mod 512" unfolding r by (simp add: unat_sub m)
  show "0 < unat ((off div 512 + 1) * 512 - off)" unfolding u by simp
qed

text \<open>\<open>while(n > 0)\<close> over the bytes that are left; it gives the inode and the offset at the end.\<close>

function (sequential) iappend_loop :: "host \<Rightarrow> u8 list \<Rightarrow> dinode \<Rightarrow> u32 \<Rightarrow> (dinode \<times> u32, mkfs) kern" where
  "iappend_loop h p din off =
    (if p = [] then return (din, off) else
     let fbn = off div of_nat BSIZE in
     if \<not> unat fbn < MAXFILE then panic ''assert'' else
     let n1 = min (length p) (unat ((fbn + 1) * of_nat BSIZE - off)) in
     bind (file_block h din (unat fbn)) (\<lambda>(x, din).
     bind (rsect h x) (\<lambda>buf.
     andthen (wsect h x (blit buf (unat (off - fbn * of_nat BSIZE)) (take n1 p)))
       (iappend_loop h (drop n1 p) din (off + of_nat n1)))))"
  by pat_completeness auto
termination
  by (relation "measure (\<lambda>(h, p, din, off). length p)") (auto simp: BSIZE_def neq_Nil_conv rest_of_block(2) [unfolded distrib_right mult_1])

definition iappend :: "host \<Rightarrow> u32 \<Rightarrow> u8 list \<Rightarrow> (unit, mkfs) kern" where
  "iappend h inum xp =
    bind (rinode h inum) (\<lambda>din.
    bind (iappend_loop h xp din (xint (d_size din))) (\<lambda>(din, off).
    winode h inum (din\<lparr>d_size := xint off\<rparr>)))"

section \<open>The program\<close>

fun write_zeroes :: "host \<Rightarrow> nat \<Rightarrow> nat \<Rightarrow> (unit, mkfs) kern" where
  "write_zeroes h 0 i = return ()"
| "write_zeroes h (Suc n) i = andthen (wsect h (of_nat i) zeroes) (write_zeroes h n (i + 1))"

fun append_reads :: "host \<Rightarrow> u32 \<Rightarrow> u8 list list \<Rightarrow> (unit, mkfs) kern" where
  "append_reads h inum [] = return ()"
| "append_reads h inum (b # bs) = andthen (iappend h inum b) (append_reads h inum bs)"

definition mk_dirent :: "u32 \<Rightarrow> u8 list \<Rightarrow> u8 list" where
  "mk_dirent inum name = dirent_bytes \<lparr>de_inum = xshort (ucast inum), de_name = name\<rparr>"

definition add_file :: "host \<Rightarrow> u32 \<Rightarrow> u8 list \<Rightarrow> (unit, mkfs) kern" where
  "add_file h rootino arg =
    (if 47 \<in> set arg then panic ''assert'' else
     case hs_open h arg of
       None \<Rightarrow> panic ''exit(1)''
     | Some reads \<Rightarrow>
         let name = (if take 1 arg = [95] then drop 1 arg else arg) in
         bind (mk_ialloc h T_FILE) (\<lambda>inum.
         andthen (iappend h rootino (mk_dirent inum (strncpy name DIRSIZ)))
           (append_reads h inum reads)))"

fun add_files :: "host \<Rightarrow> u32 \<Rightarrow> u8 list list \<Rightarrow> (unit, mkfs) kern" where
  "add_files h rootino [] = return ()"
| "add_files h rootino (a # as) = andthen (add_file h rootino a) (add_files h rootino as)"

text \<open>\<open>off = ((off/BSIZE) + 1) * BSIZE\<close>\<close>

definition fix_root_size :: "host \<Rightarrow> u32 \<Rightarrow> (unit, mkfs) kern" where
  "fix_root_size h rootino =
    bind (rinode h rootino) (\<lambda>din.
    let off = (xint (d_size din) div of_nat BSIZE + 1) * of_nat BSIZE in
    winode h rootino (din\<lparr>d_size := xint off\<rparr>))"

text \<open>
  \<open>main\<close> after the image file, the first of its arguments, has been opened and truncated; \<open>files\<close> are
  the other arguments.
\<close>

definition mkfs_main :: "host \<Rightarrow> u8 list list \<Rightarrow> (unit, mkfs) kern" where
  "mkfs_main h files =
    andthen (modify (\<lambda>s. s\<lparr>mk_img := [], freeinode := 1, freeblock := nmeta\<rparr>)) (
    andthen (write_zeroes h FSSIZE 0) (
    andthen (wsect h 1 (blit zeroes 0 (sb_bytes mk_sb))) (
    bind (mk_ialloc h T_DIR) (\<lambda>rootino.
    if rootino \<noteq> ROOTINO then panic ''assert'' else
    andthen (iappend h rootino (mk_dirent rootino (46 # replicate 13 0))) (
    andthen (iappend h rootino (mk_dirent rootino (46 # 46 # replicate 12 0))) (
    andthen (add_files h rootino files) (
    andthen (fix_root_size h rootino) (
    bind (gets freeblock) (mk_balloc h)))))))))"

end
