(* ===== verification/Cache.thy ===== *)
theory Cache
  imports Bio
begin

text \<open>
  The buffer cache is right: the linked list of buffers refines a list in most-recently-used
  order, and a cache of \<open>NBUF\<close> buffers is invisible behind \<open>bread\<close>, \<open>bwrite\<close> and \<open>brelse\<close>, which
  read and write the blocks of the disk.
\<close>

section \<open>Doubly linked rings\<close>

text \<open>\<open>lseg f a xs b\<close>: following \<open>f\<close> from \<open>a\<close> leads through \<open>xs\<close> to \<open>b\<close>.\<close>

fun lseg :: "(nat \<Rightarrow> nat) \<Rightarrow> nat \<Rightarrow> nat list \<Rightarrow> nat \<Rightarrow> bool" where
  "lseg f a [] b \<longleftrightarrow> f a = b"
| "lseg f a (x # xs) b \<longleftrightarrow> f a = x \<and> lseg f x xs b"

lemma lseg_append: "lseg f a (xs @ y # ys) b \<longleftrightarrow> lseg f a xs y \<and> lseg f y ys b"
  by (induction xs arbitrary: a) auto

lemma lseg_upd: "c \<notin> set (a # xs) \<Longrightarrow> lseg (f(c := v)) a xs b = lseg f a xs b"
  by (induction xs arbitrary: a) auto

lemma lseg_hd: "lseg f a xs b \<Longrightarrow> f a = hd (xs @ [b])"
  by (cases xs) auto

lemma lseg_last: "lseg f a xs b \<Longrightarrow> f (last (a # xs)) = b"
  by (induction xs arbitrary: a) auto

text \<open>Redirecting the last link, and the first.\<close>

lemma lseg_to: "lseg f a xs b \<Longrightarrow> distinct (a # xs) \<Longrightarrow> lseg (f(last (a # xs) := c)) a xs c"
proof (induction xs arbitrary: a)
  case (Cons x xs)
  have "lseg f x xs b" "distinct (x # xs)" using Cons.prems by simp_all
  then have 1: "lseg (f(last (x # xs) := c)) x xs c" by (rule Cons.IH)
  have 2: "a \<noteq> last (x # xs)" using Cons.prems(2) last_in_set [of "x # xs"] by auto
  have 3: "last (a # x # xs) = last (x # xs)" by simp
  show ?case unfolding 3 lseg.simps using 1 2 Cons.prems(1) by (simp del: last.simps)
qed simp

lemma lseg_from: "lseg f a xs b \<Longrightarrow> c \<notin> set xs \<Longrightarrow> f c = f a \<Longrightarrow> lseg f c xs b"
  by (cases xs) auto

definition ring :: "(nat \<Rightarrow> nat) \<Rightarrow> (nat \<Rightarrow> nat) \<Rightarrow> nat list \<Rightarrow> bool" where
  "ring nx pv xs \<longleftrightarrow> distinct (BHEAD # xs) \<and> lseg nx BHEAD xs BHEAD \<and> lseg pv BHEAD (rev xs) BHEAD"

lemma ring_links:
  assumes "ring nx pv (ys @ b # zs)"
  shows "nx b = hd (zs @ [BHEAD])" "pv b = last (BHEAD # ys)"
proof -
  have "lseg nx b zs BHEAD" "lseg pv b (rev ys) BHEAD"
    using assms by (auto simp: ring_def lseg_append)
  then show "nx b = hd (zs @ [BHEAD])" "pv b = last (BHEAD # ys)"
    by (auto dest!: lseg_hd simp: hd_append hd_rev)
qed

lemma lseg_skip:
  assumes "lseg f a (ys @ b # zs) c" and "distinct (a # ys @ b # zs)"
  shows "lseg (f(last (a # ys) := f b)) a (ys @ zs) c"
proof (cases zs)
  case Nil
  then show ?thesis using assms lseg_to [of f a ys b c] by (auto simp: lseg_append)
next
  case (Cons z zs')
  then have "lseg f a ys b" "f b = z" "lseg f z zs' c" using assms(1) by (auto simp: lseg_append)
  moreover have "last (a # ys) \<notin> set (z # zs')" using assms(2) Cons last_in_set [of "a # ys"] by auto
  ultimately show ?thesis
    using assms(2) Cons lseg_to [of f a ys b z] lseg_upd [of "last (a # ys)" z zs' f z c] by (auto simp: lseg_append)
qed

lemma ring_unlink:
  assumes "ring nx pv (ys @ b # zs)"
  shows "ring (nx(pv b := nx b)) (pv(nx b := pv b)) (ys @ zs)"
proof -
  have d: "distinct (BHEAD # ys @ b # zs)" and n: "lseg nx BHEAD (ys @ b # zs) BHEAD"
    and p: "lseg pv BHEAD (rev zs @ b # rev ys) BHEAD"
    using assms by (auto simp: ring_def)
  have "last (BHEAD # rev zs) = hd (zs @ [BHEAD])"
    by (simp add: last_rev hd_append)
  moreover have "distinct (BHEAD # rev zs @ b # rev ys)" using d by auto
  ultimately show ?thesis
    using d lseg_skip [OF n d] lseg_skip [OF p] ring_links [OF assms] by (auto simp: ring_def)
qed

lemma ring_push:
  assumes "ring nx pv xs" and "b \<notin> set xs" and "b \<noteq> BHEAD"
  shows "ring (nx(b := nx BHEAD, BHEAD := b)) (pv(b := BHEAD, nx BHEAD := b)) (b # xs)"
proof -
  have d: "distinct (BHEAD # xs)" and n: "lseg nx BHEAD xs BHEAD" and p: "lseg pv BHEAD (rev xs) BHEAD"
    using assms(1) by (auto simp: ring_def)
  have "lseg (nx(b := nx BHEAD)) BHEAD xs BHEAD" using n assms by (subst lseg_upd) auto
  then have "lseg (nx(b := nx BHEAD)) b xs BHEAD" by (rule lseg_from) (use assms in auto)
  then have "lseg (nx(b := nx BHEAD, BHEAD := b)) b xs BHEAD" using d assms by (subst lseg_upd) auto
  moreover have "lseg (pv(b := BHEAD, nx BHEAD := b)) BHEAD (rev xs @ [b]) BHEAD"
  proof -
    have "lseg (pv(b := BHEAD)) BHEAD (rev xs) BHEAD" using p assms by (subst lseg_upd) auto
    moreover have "last (BHEAD # rev xs) = nx BHEAD"
      using lseg_hd [OF n] by (simp add: last_rev hd_append)
    ultimately have "lseg (pv(b := BHEAD, nx BHEAD := b)) BHEAD (rev xs) b"
      using lseg_to [of "pv(b := BHEAD)" BHEAD "rev xs" BHEAD b] d by auto
    moreover have "nx BHEAD \<noteq> b" using lseg_hd [OF n] assms by (cases xs) auto
    ultimately show ?thesis by (auto simp: lseg_append)
  qed
  ultimately show ?thesis using d assms by (auto simp: ring_def)
qed

text \<open>Moving a buffer to the front.\<close>

lemma ring_to_front:
  assumes "ring nx pv xs" and "b \<in> set xs"
  defines "nx1 \<equiv> nx(pv b := nx b)" and "pv1 \<equiv> pv(nx b := pv b)"
  shows "ring (nx1(b := nx1 BHEAD, BHEAD := b)) (pv1(b := BHEAD, nx1 BHEAD := b)) (b # remove1 b xs)"
proof -
  obtain ys zs where xs: "xs = ys @ b # zs" using assms(2) by (auto simp: in_set_conv_decomp)
  have d: "distinct (BHEAD # ys @ b # zs)" using assms(1) by (simp add: xs ring_def)
  then have "remove1 b xs = ys @ zs" by (simp add: xs remove1_append)
  moreover have "ring nx1 pv1 (ys @ zs)" using assms(1) ring_unlink by (simp add: xs nx1_def pv1_def)
  ultimately show ?thesis using d ring_push [of nx1 pv1 "ys @ zs" b] by auto
qed

text \<open>The walk of \<open>bget\<close> is a search of the list.\<close>

lemma bwalk_lseg:
  assumes "lseg f a xs BHEAD" and "BHEAD \<notin> set xs" and "length xs < n"
  shows "bwalk n f P (f a) = Some (find P xs)"
  using assms
proof (induction xs arbitrary: a n)
  case (Cons x xs)
  then obtain n' where "n = Suc n'" by (cases n) auto
  with Cons show ?case by auto
qed (auto simp: gr0_conv_Suc)

section \<open>The buffer table\<close>

abbreviation nxt :: "buf list \<Rightarrow> nat \<Rightarrow> nat" where "nxt bs \<equiv> \<lambda>i. b_next (bs ! i)"
abbreviation prv :: "buf list \<Rightarrow> nat \<Rightarrow> nat" where "prv bs \<equiv> \<lambda>i. b_prev (bs ! i)"

definition lru :: "buf list \<Rightarrow> nat list \<Rightarrow> bool" where
  "lru bs xs \<longleftrightarrow> length bs = Suc NBUF \<and> ring (nxt bs) (prv bs) xs \<and> set xs = {..<NBUF}"

text \<open>What a buffer holds beside its links.\<close>

definition held_in :: "buf \<Rightarrow> buf" where
  "held_in u = u\<lparr>b_prev := 0, b_next := 0\<rparr>"

lemma held_in_sel [simp]:
  "b_flags (held_in u) = b_flags u" "b_dev (held_in u) = b_dev u" "b_blockno (held_in u) = b_blockno u"
  "b_refcnt (held_in u) = b_refcnt u" "b_data (held_in u) = b_data u"
  "held_in (u\<lparr>b_prev := p\<rparr>) = held_in u" "held_in (u\<lparr>b_next := n\<rparr>) = held_in u"
  by (simp_all add: held_in_def)

lemma field_upd: "(\<And>u. g (f u) = g u) \<Longrightarrow> g (upd i f bs ! j) = g (bs ! j)"
  by (cases "i < length bs"; cases "i = j") (simp_all add: upd_def list_update_beyond)

lemma field_upd_at: "i < length bs \<Longrightarrow> g (upd i f bs ! j) = (if j = i then g (f (bs ! i)) else g (bs ! j))"
  by (simp add: upd_def)

lemma links_upd [simp]:
  "nxt (upd i (\<lambda>u. u\<lparr>b_prev := v\<rparr>) bs) = nxt bs" "prv (upd i (\<lambda>u. u\<lparr>b_next := v\<rparr>) bs) = prv bs"
  "i < length bs \<Longrightarrow> nxt (upd i (\<lambda>u. u\<lparr>b_next := v\<rparr>) bs) = (nxt bs)(i := v)"
  "i < length bs \<Longrightarrow> prv (upd i (\<lambda>u. u\<lparr>b_prev := v\<rparr>) bs) = (prv bs)(i := v)"
  by (auto simp: fun_eq_iff field_upd field_upd_at)

lemma map_upd_same: "(\<And>u. g (f u) = g u) \<Longrightarrow> map g (upd i f bs) = map g bs"
  by (rule nth_equalityI) (simp_all add: field_upd)

lemma lru_upd:
  assumes "\<And>u. b_next (f u) = b_next u" "\<And>u. b_prev (f u) = b_prev u" and "lru bs xs"
  shows "lru (upd i f bs) xs"
  using assms by (simp add: lru_def field_upd [of b_next] field_upd [of b_prev])

lemma lru_bounds:
  assumes "lru bs xs" and "i < NBUF"
  shows "i < length bs" "b_next (bs ! i) < length bs" "b_prev (bs ! i) < length bs" "i \<in> set xs" "i \<noteq> BHEAD"
    "b_next (bs ! i) \<noteq> i" "b_prev (bs ! i) \<noteq> i"
proof -
  show "i < length bs" "i \<in> set xs" "i \<noteq> BHEAD" using assms by (auto simp: lru_def BHEAD_def)
  then obtain ys zs where xs: "xs = ys @ i # zs" by (auto simp: in_set_conv_decomp)
  have r: "ring (nxt bs) (prv bs) (ys @ i # zs)" and set: "set (ys @ i # zs) = {..<NBUF}" and len: "length bs = Suc NBUF"
    using assms(1) unfolding xs lru_def by blast+
  have n: "hd (zs @ [BHEAD]) \<in> set (zs @ [BHEAD])" by (cases zs) auto
  have p: "last (BHEAD # ys) \<in> set (BHEAD # ys)" by (rule last_in_set) simp
  have "set ys \<subseteq> {..<NBUF}" "set zs \<subseteq> {..<NBUF}" unfolding set [symmetric] by auto
  then have "set (zs @ [BHEAD]) \<subseteq> {..<Suc NBUF}" "set (BHEAD # ys) \<subseteq> {..<Suc NBUF}"
    by (auto simp: BHEAD_def less_Suc_eq)
  then show "b_next (bs ! i) < length bs" "b_prev (bs ! i) < length bs"
    unfolding ring_links [OF r] len using n p by blast+
  have "i \<notin> set (zs @ [BHEAD])" "i \<notin> set (BHEAD # ys)" using r by (auto simp: ring_def)
  then show "b_next (bs ! i) \<noteq> i" "b_prev (bs ! i) \<noteq> i"
    unfolding ring_links [OF r] using n p by metis+
qed

lemma lru_head: "lru bs xs \<Longrightarrow> BHEAD < length bs" "lru bs xs \<Longrightarrow> b_next (bs ! BHEAD) < length bs"
proof -
  assume l: "lru bs xs"
  then show "BHEAD < length bs" by (simp add: lru_def BHEAD_def)
  have x: "set xs = {..<NBUF}" "lseg (nxt bs) BHEAD xs BHEAD" "length bs = Suc NBUF"
    using l by (simp_all add: lru_def ring_def)
  have "hd (xs @ [BHEAD]) \<in> set (xs @ [BHEAD])" by (cases xs) auto
  moreover have "set (xs @ [BHEAD]) \<subseteq> {..<Suc NBUF}" using x(1) by (simp add: BHEAD_def lessThan_Suc)
  ultimately show "b_next (bs ! BHEAD) < length bs"
    unfolding lseg_hd [OF x(2)] x(3) by blast
qed

text \<open>The list surgery of \<open>brelse\<close>, on the table.\<close>

lemma to_front_ok:
  assumes "lru (bufs s) xs" and "b < NBUF"
  shows "\<exists>bs. to_front b s = Ret () (s\<lparr>bufs := bs\<rparr>) \<and> lru bs (b # remove1 b xs) \<and>
    map held_in bs = map held_in (bufs s)"
proof -
  let ?bs = "bufs s"
  note bd = lru_bounds [OF assms] lru_head [OF assms(1)]
  let ?n = "nxt ?bs b" and ?p = "prv ?bs b"
  let ?b2 = "upd ?p (\<lambda>u. u\<lparr>b_next := ?n\<rparr>) (upd ?n (\<lambda>u. u\<lparr>b_prev := ?p\<rparr>) ?bs)"
  let ?f = "nxt ?b2 BHEAD"
  let ?b4 = "upd b (\<lambda>u. u\<lparr>b_prev := BHEAD\<rparr>) (upd b (\<lambda>u. u\<lparr>b_next := ?f\<rparr>) ?b2)"
  let ?b6 = "upd BHEAD (\<lambda>u. u\<lparr>b_next := b\<rparr>) (upd ?f (\<lambda>u. u\<lparr>b_prev := b\<rparr>) ?b4)"
  have f: "?f = ((nxt ?bs)(?p := ?n)) BHEAD" using bd by (simp add: fun_eq_iff field_upd_at field_upd)
  have fl: "?f < length ?bs" using bd by (simp add: f)
  have fh: "nxt ?b4 BHEAD = ?f" using bd by (simp add: field_upd_at field_upd)
  have "to_front b s = Ret () (s\<lparr>bufs := ?b6\<rparr>)"
    using bd fh by (simp add: to_front_def link_front_def kern buf_get_def buf_set_def)
  moreover have "ring (nxt ?b6) (prv ?b6) (b # remove1 b xs)"
  proof -
    have "nxt ?b6 = (nxt ?bs)(?p := ?n, b := ?f, BHEAD := b)" using bd fl by (simp del: upd_upd_same)
    moreover have "prv ?b6 = (prv ?bs)(?n := ?p, b := BHEAD, ?f := b)" using bd fl by (simp del: upd_upd_same)
    ultimately show ?thesis
      using ring_to_front [of "nxt ?bs" "prv ?bs" xs b] assms(1) bd(4) unfolding f lru_def by simp
  qed
  moreover have "set (b # remove1 b xs) = {..<NBUF}"
    using assms by (auto simp: lru_def ring_def set_remove1_eq)
  moreover have "map held_in ?b6 = map held_in ?bs" by (simp add: map_upd_same)
  ultimately show ?thesis using assms(1) by (auto simp: lru_def)
qed

section \<open>The cache behind the operations\<close>

text \<open>The buffer of a block of disk 1, and the block as the cache presents it.\<close>

definition cached_at :: "buf list \<Rightarrow> u32 \<Rightarrow> nat option" where
  "cached_at bs n = scan (\<lambda>i. b_dev (bs ! i) = 1 \<and> b_blockno (bs ! i) = n) 0 NBUF"

definition blk :: "'z bstate_scheme \<Rightarrow> u32 \<Rightarrow> u8 list" where
  "blk s n = (case cached_at (bufs s) n of
     Some i \<Rightarrow> if b_flags (bufs s ! i) \<noteq> 0 then b_data (bufs s ! i) else memdisk (dsk s) (unat n)
   | None \<Rightarrow> memdisk (dsk s) (unat n))"

definition dirty :: "'z bstate_scheme \<Rightarrow> u32 \<Rightarrow> bool" where
  "dirty s n \<longleftrightarrow> (\<exists>i<NBUF. b_dev (bufs s ! i) = 1 \<and> b_blockno (bufs s ! i) = n \<and> b_flags (bufs s ! i) = 6)"

text \<open>
  A buffer is empty (flags 0), a copy of its block (valid), or ahead of it (valid and dirty); no
  block has two buffers.
\<close>

definition cache_ok :: "'z bstate_scheme \<Rightarrow> bool" where
  "cache_ok s \<longleftrightarrow> (\<exists>xs. lru (bufs s) xs) \<and>
    (\<forall>i<NBUF. b_flags (bufs s ! i) = 0 \<or> b_flags (bufs s ! i) = 2 \<or> b_flags (bufs s ! i) = 6) \<and>
    (\<forall>i<NBUF. b_flags (bufs s ! i) \<noteq> 0 \<longrightarrow> b_dev (bufs s ! i) = 1) \<and>
    (\<forall>i<NBUF. b_flags (bufs s ! i) = 2 \<longrightarrow> b_data (bufs s ! i) = memdisk (dsk s) (unat (b_blockno (bufs s ! i)))) \<and>
    (\<forall>i<NBUF. \<forall>j<NBUF. b_dev (bufs s ! i) = 1 \<longrightarrow> b_dev (bufs s ! j) = 1 \<longrightarrow>
       b_blockno (bufs s ! i) = b_blockno (bufs s ! j) \<longrightarrow> i = j)"

text \<open>The buffers \<open>H\<close> are in use by process \<open>me\<close> and hold their blocks; the others are used by no one.\<close>

definition in_use :: "nat \<Rightarrow> nat set \<Rightarrow> 'z bstate_scheme \<Rightarrow> bool" where
  "in_use me H s \<longleftrightarrow> H \<subseteq> {..<NBUF} \<and>
    (\<forall>i<NBUF. b_refcnt (bufs s ! i) = (if i \<in> H then 1 else 0)) \<and>
    (\<forall>i<NBUF. sl_locked (slocks s (SL_buf i)) = (if i \<in> H then 1 else 0)) \<and>
    (\<forall>i\<in>H. sl_pid (slocks s (SL_buf i)) = p_pid (procs (pt s) ! me)) \<and>
    (\<forall>i\<in>H. b_flags (bufs s ! i) \<noteq> 0)"

definition bio_ready :: "nat \<Rightarrow> 'z bstate_scheme \<Rightarrow> bool" where
  "bio_ready me s \<longleftrightarrow> cpu_ok (mach s) \<and> unlocked (mach s) L_ptable \<and> unlocked (mach s) L_bcache \<and>
    (\<forall>i. unlocked (mach s) (L_buf i)) \<and> curproc (mach s) = Some me \<and> me < length (procs (pt s))"

definition bio_same :: "'z bstate_scheme \<Rightarrow> 'z bstate_scheme \<Rightarrow> bool" where
  "bio_same s t \<longleftrightarrow> (\<exists>m T l b d. t = s\<lparr>mach := m, pt := T, slocks := l, bufs := b, dsk := d\<rparr>) \<and>
    same_mach (mach s) (mach t) \<and> map p_pid (procs (pt t)) = map p_pid (procs (pt s)) \<and>
    (\<forall>i. slocks t (SL_inode i) = slocks s (SL_inode i)) \<and> disksize (dsk t) = disksize (dsk s)"

lemma bio_same_ready: "bio_same s t \<Longrightarrow> bio_ready me s \<Longrightarrow> bio_ready me t"
  by (auto simp: bio_same_def bio_ready_def same_mach_def dest: map_eq_imp_length_eq)

lemma bio_same_pid:
  assumes "bio_same s t" and "bio_ready me s"
  shows "p_pid (procs (pt t) ! me) = p_pid (procs (pt s) ! me)"
proof -
  have "map p_pid (procs (pt t)) ! me = map p_pid (procs (pt s)) ! me" "me < length (procs (pt s))"
    "length (procs (pt t)) = length (procs (pt s))"
    using assms by (auto simp: bio_same_def bio_ready_def dest: map_eq_imp_length_eq)
  then show ?thesis by simp
qed

lemma bio_same_trans: "bio_same s t \<Longrightarrow> bio_same t u \<Longrightarrow> bio_same s u"
  by (auto simp: bio_same_def intro: same_mach_trans) blast

lemma bio_ready_sl: "bio_ready me s \<Longrightarrow> sl_ready me (SL_buf i) s"
  by (simp add: bio_ready_def sl_ready_def table_ready_def sl_guard_def del: table_readyD)

lemma cached_at_Some:
  assumes "cache_ok s"
  shows "cached_at (bufs s) n = Some i \<longleftrightarrow> i < NBUF \<and> b_dev (bufs s ! i) = 1 \<and> b_blockno (bufs s ! i) = n"
proof
  assume "i < NBUF \<and> b_dev (bufs s ! i) = 1 \<and> b_blockno (bufs s ! i) = n"
  moreover have "j = i" if "j < NBUF" "b_dev (bufs s ! j) = 1" "b_blockno (bufs s ! j) = n" for j
    using assms that calculation unfolding cache_ok_def by metis
  ultimately show "cached_at (bufs s) n = Some i"
    by (auto simp: cached_at_def scan_Some_iff) (metis less_trans less_irrefl_nat)
qed (auto simp: cached_at_def scan_Some_iff)

lemma cached_at_None: "cached_at bs n = None \<longleftrightarrow> (\<forall>i<NBUF. \<not> (b_dev (bs ! i) = 1 \<and> b_blockno (bs ! i) = n))"
  by (auto simp: cached_at_def scan_None_iff)

lemma find_in: "find P xs = Some i \<Longrightarrow> i \<in> set xs \<and> P i"
  by (auto simp: find_Some_iff)

lemma find_notin: "find P xs = None \<Longrightarrow> i \<in> set xs \<Longrightarrow> \<not> P i"
  by (auto simp: find_None_iff)

lemma bcached_lru:
  assumes "lru bs xs"
  shows "bcached dev n bs = Some (find (\<lambda>b. b_dev (bs ! b) = dev \<and> b_blockno (bs ! b) = n) xs)"
proof -
  have "distinct xs" "set xs = {..<NBUF}" "lseg (nxt bs) BHEAD xs BHEAD" "BHEAD \<notin> set xs"
    using assms by (simp_all add: lru_def ring_def BHEAD_def)
  moreover then have "length xs = NBUF" using distinct_card [of xs] by simp
  ultimately show ?thesis unfolding bcached_def by (intro bwalk_lseg) simp_all
qed

lemma bunused_lru:
  assumes "lru bs xs"
  shows "bunused bs = Some (find (\<lambda>b. b_refcnt (bs ! b) = 0 \<and> b_flags (bs ! b) AND B_DIRTY = 0) (rev xs))"
proof -
  have "distinct xs" "set xs = {..<NBUF}" "lseg (prv bs) BHEAD (rev xs) BHEAD" "BHEAD \<notin> set (rev xs)"
    using assms by (simp_all add: lru_def ring_def BHEAD_def)
  moreover then have "length (rev xs) = NBUF" using distinct_card [of xs] by simp
  ultimately show ?thesis unfolding bunused_def by (intro bwalk_lseg) simp_all
qed

lemma bcached_hit:
  assumes "cache_ok s"
  shows "bcached 1 n (bufs s) = Some (cached_at (bufs s) n)"
proof -
  obtain xs where l: "lru (bufs s) xs" using assms by (auto simp: cache_ok_def)
  let ?r = "find (\<lambda>b. b_dev (bufs s ! b) = 1 \<and> b_blockno (bufs s ! b) = n) xs"
  have mem: "i \<in> set xs \<longleftrightarrow> i < NBUF" for i using l by (simp add: lru_def)
  have "?r = cached_at (bufs s) n"
  proof (cases ?r)
    case None
    then have "cached_at (bufs s) n = None" using find_notin [OF None] by (simp add: cached_at_None mem)
    then show ?thesis using None by simp
  next
    case (Some i)
    then have "cached_at (bufs s) n = Some i"
      using find_in [OF Some] by (simp add: cached_at_Some [OF assms] mem)
    then show ?thesis using Some by simp
  qed
  then show ?thesis using bcached_lru [OF l] by simp
qed

lemma bunused_some:
  assumes "cache_ok s" and "\<exists>i<NBUF. b_refcnt (bufs s ! i) = 0 \<and> b_flags (bufs s ! i) AND B_DIRTY = 0"
  obtains i where "bunused (bufs s) = Some (Some i)" "i < NBUF" "b_refcnt (bufs s ! i) = 0"
    "b_flags (bufs s ! i) AND B_DIRTY = 0"
proof -
  obtain xs where l: "lru (bufs s) xs" using assms(1) by (auto simp: cache_ok_def)
  then have mem: "i \<in> set (rev xs) \<longleftrightarrow> i < NBUF" for i by (simp add: lru_def)
  let ?P = "\<lambda>b. b_refcnt (bufs s ! b) = 0 \<and> b_flags (bufs s ! b) AND B_DIRTY = 0"
  obtain i where i: "find ?P (rev xs) = Some i"
    using assms(2) find_notin [of ?P "rev xs"] mem by (cases "find ?P (rev xs)") blast+
  show ?thesis using that [of i] find_in [OF i] i bunused_lru [OF l] mem by simp
qed

lemma upd_cong_at: "f (xs ! i) = g (xs ! i) \<Longrightarrow> upd i f xs = upd i g xs"
  by (simp add: upd_def)

lemma flag_bits [simp]:
  "(0 :: u32) AND B_DIRTY = 0" "(2 :: u32) AND B_DIRTY = 0" "(6 :: u32) AND B_DIRTY \<noteq> 0"
  "(0 :: u32) AND B_VALID = 0" "(2 :: u32) AND B_VALID \<noteq> 0" "(6 :: u32) AND B_VALID \<noteq> 0"
  "(0 :: u32) AND (B_VALID OR B_DIRTY) \<noteq> B_VALID" "(6 :: u32) AND (B_VALID OR B_DIRTY) \<noteq> B_VALID"
  "(0 :: u32) OR B_VALID = 2" "(2 :: u32) OR B_VALID = 2" "(2 :: u32) OR B_DIRTY = 6" "(6 :: u32) OR B_DIRTY = 6"
  "(6 :: u32) AND NOT B_DIRTY = 2" "B_VALID \<noteq> 0"
  by (simp_all add: B_DIRTY_def B_VALID_def)

text \<open>The part of \<open>bget\<close> after a buffer is chosen.\<close>

definition owned :: "nat \<Rightarrow> nat \<Rightarrow> 'z bstate_scheme \<Rightarrow> slid \<Rightarrow> sleeplock" where
  "owned me b s = (slocks s)(SL_buf b := sl_take (p_pid (procs (pt s) ! me)) (slocks s (SL_buf b)))"

lemma bget_tail:
  assumes "bio_ready me s" and "sl_locked (slocks s (SL_buf b)) = 0"
  shows "andthen (release L_bcache) (andthen (acquiresleep (SL_buf b)) (return b))
      (s\<lparr>mach := acq L_bcache (mach s), bufs := bs\<rparr>) =
    Ret b (s\<lparr>bufs := bs, mach := crit (L_buf b) (crit L_bcache (mach s)), slocks := owned me b s\<rparr>)"
proof -
  let ?s = "s\<lparr>bufs := bs, mach := crit L_bcache (mach s)\<rparr>"
  have "bio_ready me ?s" using assms(1) by (simp add: bio_ready_def)
  then have "acquiresleep (SL_buf b) ?s = Ret () (?s\<lparr>mach := crit (L_buf b) (mach ?s), slocks := owned me b s\<rparr>)"
    using assms(2) acquiresleep_free [OF bio_ready_sl, of me ?s b] by (simp add: owned_def sl_guard_def)
  then show ?thesis using assms(1) by (simp add: kern bio_ready_def crit_def)
qed

lemma bget_hit:
  assumes "bio_ready me s" and "cache_ok s" and "cached_at (bufs s) n = Some b" and "sl_locked (slocks s (SL_buf b)) = 0"
  shows "bget 1 n s = Ret b (s\<lparr>bufs := upd b (\<lambda>u. u\<lparr>b_refcnt := b_refcnt u + 1\<rparr>) (bufs s),
    mach := crit (L_buf b) (crit L_bcache (mach s)), slocks := owned me b s\<rparr>)"
proof -
  have "bget 1 n s = andthen (release L_bcache) (andthen (acquiresleep (SL_buf b)) (return b))
      (s\<lparr>mach := acq L_bcache (mach s), bufs := upd b (\<lambda>u. u\<lparr>b_refcnt := b_refcnt u + 1\<rparr>) (bufs s)\<rparr>)"
    using assms by (simp add: bget_def kern bio_ready_def bcached_hit buf_set_def)
  then show ?thesis using bget_tail [OF assms(1,4)] by simp
qed

lemma bget_miss:
  assumes "bio_ready me s" and "cache_ok s" and "cached_at (bufs s) n = None"
    and "bunused (bufs s) = Some (Some b)" and "sl_locked (slocks s (SL_buf b)) = 0"
  shows "bget 1 n s = Ret b (s\<lparr>bufs := upd b (\<lambda>u. u\<lparr>b_flags := 0, b_dev := 1, b_blockno := n, b_refcnt := 1\<rparr>) (bufs s),
    mach := crit (L_buf b) (crit L_bcache (mach s)), slocks := owned me b s\<rparr>)"
proof -
  have "bget 1 n s = andthen (release L_bcache) (andthen (acquiresleep (SL_buf b)) (return b))
      (s\<lparr>mach := acq L_bcache (mach s),
         bufs := upd b (\<lambda>u. u\<lparr>b_flags := 0, b_dev := 1, b_blockno := n, b_refcnt := 1\<rparr>) (bufs s)\<rparr>)"
    using assms by (simp add: bget_def kern bio_ready_def bcached_hit buf_set_def)
  then show ?thesis using bget_tail [OF assms(1,5)] by simp
qed

lemma holdingsleep_own:
  assumes "bio_ready me s" and "sl_locked (slocks s (SL_buf b)) = 1"
    and "sl_pid (slocks s (SL_buf b)) = p_pid (procs (pt s) ! me)"
  shows "holdingsleep (SL_buf b) s = Ret True (s\<lparr>mach := crit (L_buf b) (mach s)\<rparr>)"
  using assms holdingsleep_ok [OF bio_ready_sl [OF assms(1)], of b] by (simp add: sl_guard_def)

lemma iderw_read:
  assumes "bio_ready me s" and "sl_locked (slocks s (SL_buf b)) = 1" "sl_pid (slocks s (SL_buf b)) = p_pid (procs (pt s) ! me)"
    and "b < length (bufs s)" "b_flags (bufs s ! b) = 0" "b_dev (bufs s ! b) = 1" "b_blockno (bufs s ! b) < disksize (dsk s)"
  shows "iderw b s = Ret () (s\<lparr>mach := crit (L_buf b) (mach s),
    bufs := upd b (\<lambda>u. u\<lparr>b_data := memdisk (dsk s) (unat (b_blockno u)), b_flags := 2\<rparr>) (bufs s)\<rparr>)"
  using assms(4-7) holdingsleep_own [OF assms(1-3)]
  by (simp add: iderw_def kern buf_get_def buf_set_def upd_def not_le B_VALID_def B_DIRTY_def)

lemma iderw_write:
  assumes "bio_ready me s" and "sl_locked (slocks s (SL_buf b)) = 1" "sl_pid (slocks s (SL_buf b)) = p_pid (procs (pt s) ! me)"
    and "b < length (bufs s)" "b_flags (bufs s ! b) = 6" "b_dev (bufs s ! b) = 1" "b_blockno (bufs s ! b) < disksize (dsk s)"
  shows "iderw b s = Ret () (s\<lparr>mach := crit (L_buf b) (mach s), bufs := upd b (\<lambda>u. u\<lparr>b_flags := 2\<rparr>) (bufs s),
    dsk := put_block (unat (b_blockno (bufs s ! b))) (b_data (bufs s ! b)) (dsk s)\<rparr>)"
  using assms(4-7) holdingsleep_own [OF assms(1-3)]
  by (simp add: iderw_def kern buf_get_def buf_set_def upd_def not_le B_VALID_def B_DIRTY_def)

lemma crit_same2:
  assumes "bio_ready me s"
  shows "same_mach (mach s) (crit (L_buf b) (crit L_bcache (mach s)))"
  using assms crit_same [of "mach s" L_bcache] crit_same [of "crit L_bcache (mach s)" "L_buf b"]
  by (auto simp: bio_ready_def intro: same_mach_trans)

definition fill :: "u32 \<Rightarrow> u32 \<Rightarrow> u8 list \<Rightarrow> buf \<Rightarrow> buf" where
  "fill n f d u = u\<lparr>b_flags := f, b_dev := 1, b_blockno := n, b_refcnt := 1, b_data := d\<rparr>"

lemma dirty_cached:
  assumes "cache_ok s"
  shows "dirty s n \<longleftrightarrow> (case cached_at (bufs s) n of None \<Rightarrow> False | Some i \<Rightarrow> b_flags (bufs s ! i) = 6)"
proof (cases "cached_at (bufs s) n")
  case None
  then have "\<not> dirty s n" by (auto simp: dirty_def cached_at_None)
  then show ?thesis using None by simp
next
  case (Some i)
  have "j = i" if "j < NBUF" "b_dev (bufs s ! j) = 1" "b_blockno (bufs s ! j) = n" for j
    using that Some cached_at_Some [OF assms, of n] by (metis option.inject)
  then show ?thesis using Some cached_at_Some [OF assms, of n i] by (auto simp: dirty_def)
qed

lemma bread_fill:
  assumes "bget 1 n s = Ret b (s\<lparr>bufs := upd b g (bufs s), mach := m, slocks := owned me b s\<rparr>)"
    and "bio_ready me s" and "same_mach (mach s) m" and "b < length (bufs s)" and "n < disksize (dsk s)"
    and "b_dev (g (bufs s ! b)) = 1" "b_blockno (g (bufs s ! b)) = n" "b_refcnt (g (bufs s ! b)) = 1"
    and "b_flags (g (bufs s ! b)) = 0 \<or> b_flags (g (bufs s ! b)) = 2 \<or> b_flags (g (bufs s ! b)) = 6"
    and "b_prev (g (bufs s ! b)) = b_prev (bufs s ! b)" "b_next (g (bufs s ! b)) = b_next (bufs s ! b)"
  defines "u \<equiv> g (bufs s ! b)"
  defines "d \<equiv> (if b_flags u = 0 then memdisk (dsk s) (unat n) else b_data u)"
  shows "\<exists>m'. same_mach (mach s) m' \<and> bread 1 n s = Ret b (s\<lparr>bufs :=
    upd b (fill n (if b_flags u = 6 then 6 else 2) d) (bufs s), mach := m', slocks := owned me b s\<rparr>)"
proof -
  let ?t = "s\<lparr>bufs := upd b g (bufs s), mach := m, slocks := owned me b s\<rparr>"
  have R: "bio_ready me ?t"
    using assms(2,3) by (auto simp: bio_ready_def same_mach_def)
  have at: "bufs ?t ! b = u" using assms(4) by (simp add: u_def)
  have fillu: "upd b h (bufs s) = upd b (fill n f d') (bufs s)"
    if "h (bufs s ! b) = u\<lparr>b_flags := f, b_data := d'\<rparr>" for h f d'
    by (rule upd_cong_at) (use that assms(6-8,10,11) in \<open>simp add: fill_def u_def\<close>)
  show ?thesis
  proof (cases "b_flags u = 0")
    case True
    have "iderw b ?t = Ret () (?t\<lparr>mach := crit (L_buf b) m,
        bufs := upd b (\<lambda>u. u\<lparr>b_data := memdisk (dsk s) (unat (b_blockno u)), b_flags := 2\<rparr>) (bufs ?t)\<rparr>)"
      using iderw_read [OF R, of b] at assms True by (simp add: owned_def sl_take_def u_def)
    moreover have "upd b (\<lambda>u. u\<lparr>b_data := memdisk (dsk s) (unat (b_blockno u)), b_flags := 2\<rparr>) (bufs ?t) =
        upd b (fill n 2 d) (bufs s)"
      using assms(4,7) True fillu [where h = "(\<lambda>u. u\<lparr>b_data := memdisk (dsk s) (unat (b_blockno u)), b_flags := 2\<rparr>) \<circ> g" and f = 2 and d' = d]
      by (simp add: u_def d_def)
    moreover have "same_mach (mach s) (crit (L_buf b) m)"
      using R assms(3) crit_same [of m "L_buf b"] by (auto simp: bio_ready_def intro: same_mach_trans)
    ultimately show ?thesis
      using True at by (intro exI [of _ "crit (L_buf b) m"]) (simp add: bread_def assms(1) kern buf_get_def)
  next
    case False
    have "upd b g (bufs s) = upd b (fill n (b_flags u) d) (bufs s)"
      using False by (intro fillu) (simp add: u_def d_def)
    moreover have "b_flags u = (if b_flags u = 6 then 6 else 2)" using False assms(9) by (auto simp: u_def)
    moreover have "b_flags u AND B_VALID \<noteq> 0" using False assms(9) by (auto simp: u_def)
    ultimately show ?thesis
      using at assms(3) by (intro exI [of _ m]) (simp add: bread_def assms(1) kern buf_get_def)
  qed
qed

lemma blk_at:
  assumes "cache_ok s" and "i < NBUF" and "b_dev (bufs s ! i) = 1" and "b_flags (bufs s ! i) \<noteq> 0"
  shows "blk s (b_blockno (bufs s ! i)) = b_data (bufs s ! i)"
  using assms cached_at_Some [OF assms(1), of "b_blockno (bufs s ! i)" i] by (simp add: blk_def)

lemma blk_clean:
  assumes "cache_ok s" and "\<not> dirty s n"
  shows "blk s n = memdisk (dsk s) (unat n)"
proof (cases "cached_at (bufs s) n")
  case (Some i)
  then have i: "i < NBUF" "b_blockno (bufs s ! i) = n" "b_flags (bufs s ! i) \<noteq> 6"
    using cached_at_Some [OF assms(1), of n i] assms(2) dirty_cached [OF assms(1), of n] by auto
  then have "b_flags (bufs s ! i) = 0 \<or> b_flags (bufs s ! i) = 2 \<and> b_data (bufs s ! i) = memdisk (dsk s) (unat n)"
    using assms(1) unfolding cache_ok_def by metis
  then show ?thesis using Some by (auto simp: blk_def)
qed (simp add: blk_def)

text \<open>\<open>blk\<close> is determined by the dirty buffers and the disk.\<close>

lemma blk_eqI:
  assumes "cache_ok s" "cache_ok t" and "dirty t n = dirty s n"
    and "\<And>i. i < NBUF \<Longrightarrow> b_dev (bufs s ! i) = 1 \<Longrightarrow> b_blockno (bufs s ! i) = n \<Longrightarrow> b_flags (bufs s ! i) = 6 \<Longrightarrow>
      b_dev (bufs t ! i) = 1 \<and> b_blockno (bufs t ! i) = n \<and> b_flags (bufs t ! i) = 6 \<and> b_data (bufs t ! i) = b_data (bufs s ! i)"
    and "\<not> dirty s n \<Longrightarrow> memdisk (dsk t) (unat n) = memdisk (dsk s) (unat n)"
  shows "blk t n = blk s n"
proof (cases "dirty s n")
  case True
  then obtain i where i: "i < NBUF" "b_dev (bufs s ! i) = 1" "b_blockno (bufs s ! i) = n" "b_flags (bufs s ! i) = 6"
    by (auto simp: dirty_def)
  note t = assms(4) [OF i]
  have "blk s n = b_data (bufs s ! i)" using blk_at [OF assms(1) i(1,2)] i by simp
  moreover have "blk t n = b_data (bufs t ! i)" using blk_at [OF assms(2) i(1)] t by auto
  ultimately show ?thesis using t by simp
next
  case False
  then show ?thesis using blk_clean [OF assms(1)] blk_clean [OF assms(2)] assms(3,5) by simp
qed

lemma cache_ok_cases:
  assumes "cache_ok s" and "i < NBUF"
  shows "b_flags (bufs s ! i) = 0 \<or> b_flags (bufs s ! i) = 2 \<or> b_flags (bufs s ! i) = 6"
    and "b_flags (bufs s ! i) \<noteq> 0 \<Longrightarrow> b_dev (bufs s ! i) = 1" "i < length (bufs s)"
  using assms by (auto simp: cache_ok_def lru_def)

text \<open>One buffer of the cache takes a block over, or changes its contents.\<close>

lemma one_buffer:
  assumes K: "cache_ok s" and b: "b < NBUF" and t: "bufs t = upd b g (bufs s)"
    and ln: "\<And>u. b_next (g u) = b_next u" "\<And>u. b_prev (g u) = b_prev u"
    and dev: "b_dev (g (bufs s ! b)) = 1" and no: "b_blockno (g (bufs s ! b)) = n"
    and fl: "b_flags (g (bufs s ! b)) = 2 \<or> b_flags (g (bufs s ! b)) = 6"
    and dat: "b_flags (g (bufs s ! b)) = 2 \<Longrightarrow> b_data (g (bufs s ! b)) = memdisk (dsk t) (unat n)"
    and dsk: "\<And>m. m \<noteq> n \<Longrightarrow> memdisk (dsk t) (unat m) = memdisk (dsk s) (unat m)"
    and only: "\<And>j. j < NBUF \<Longrightarrow> j \<noteq> b \<Longrightarrow> \<not> (b_dev (bufs s ! j) = 1 \<and> b_blockno (bufs s ! j) = n)"
    and old: "b_flags (bufs s ! b) = 6 \<Longrightarrow> b_blockno (bufs s ! b) = n"
  shows "cache_ok t" and "dirty t = (dirty s)(n := b_flags (g (bufs s ! b)) = 6)"
    and "blk t = (blk s)(n := b_data (g (bufs s ! b)))"
proof -
  have at: "bufs t ! b = g (bufs s ! b)" using cache_ok_cases(3) [OF K b] by (simp add: t upd_def)
  have ot [simp]: "bufs t ! i = bufs s ! i" if "i \<noteq> b" for i using that by (simp add: t upd_def)
  obtain xs where "lru (bufs s) xs" using K by (auto simp: cache_ok_def)
  then have "lru (bufs t) xs" unfolding t using ln by (intro lru_upd) auto
  moreover have "b_flags (bufs t ! i) = 2 \<longrightarrow> b_data (bufs t ! i) = memdisk (dsk t) (unat (b_blockno (bufs t ! i)))"
    if "i < NBUF" for i
  proof (cases "i = b")
    case False
    have "b_flags (bufs s ! i) = 2 \<longrightarrow> b_data (bufs s ! i) = memdisk (dsk s) (unat (b_blockno (bufs s ! i))) \<and>
        b_blockno (bufs s ! i) \<noteq> n"
      using K that False only [of i] by (auto simp: cache_ok_def)
    then show ?thesis using False dsk [of "b_blockno (bufs s ! i)"] by simp
  qed (use dat no at in simp)
  moreover have "i = j" if "i < NBUF" "j < NBUF" "b_dev (bufs t ! i) = 1" "b_dev (bufs t ! j) = 1"
    "b_blockno (bufs t ! i) = b_blockno (bufs t ! j)" for i j
    using that K only [of i] only [of j] at no unfolding cache_ok_def
    by (cases "i = b"; cases "j = b") simp_all
  moreover have "(b_flags (bufs t ! i) = 0 \<or> b_flags (bufs t ! i) = 2 \<or> b_flags (bufs t ! i) = 6) \<and>
      (b_flags (bufs t ! i) \<noteq> 0 \<longrightarrow> b_dev (bufs t ! i) = 1)" if "i < NBUF" for i
    using cache_ok_cases [OF K that] fl dev at by (cases "i = b") simp_all
  ultimately show K': "cache_ok t"
    unfolding cache_ok_def by blast
  have d: "dirty t m \<longleftrightarrow> (if m = n then b_flags (g (bufs s ! b)) = 6 else dirty s m)" for m
  proof (cases "m = n")
    case True
    have "i = b" if "i < NBUF" "b_dev (bufs t ! i) = 1" "b_blockno (bufs t ! i) = n" for i
      using that only [of i] by (cases "i = b") simp_all
    then have "dirty t n \<longleftrightarrow> b_flags (bufs t ! b) = 6"
      using b dev no unfolding dirty_def at [symmetric] by metis
    then show ?thesis using True at by simp
  next
    case False
    have "b_dev (bufs t ! i) = 1 \<and> b_blockno (bufs t ! i) = m \<and> b_flags (bufs t ! i) = 6 \<longleftrightarrow>
      b_dev (bufs s ! i) = 1 \<and> b_blockno (bufs s ! i) = m \<and> b_flags (bufs s ! i) = 6" if "i < NBUF" for i
      using at no old False by (cases "i = b") auto
    then have "dirty t m \<longleftrightarrow> dirty s m" unfolding dirty_def by blast
    then show ?thesis using False by simp
  qed
  then show "dirty t = (dirty s)(n := b_flags (g (bufs s ! b)) = 6)" by (simp add: fun_eq_iff)
  have "blk t n = b_data (g (bufs s ! b))"
    using blk_at [OF K' b] at dev no fl by auto
  moreover have "blk t m = blk s m" if "m \<noteq> n" for m
  proof -
    have "bufs t ! i = bufs s ! i" if "b_blockno (bufs s ! i) = m" "b_flags (bufs s ! i) = 6" for i
      using that old \<open>m \<noteq> n\<close> by (cases "i = b") simp_all
    then show ?thesis using that d [of m] dsk [OF that] by (intro blk_eqI [OF K K']) simp_all
  qed
  ultimately show "blk t = (blk s)(n := b_data (g (bufs s ! b)))" by (simp add: fun_eq_iff)
qed

section \<open>The operations of the cache\<close>

definition cache_inv :: "nat \<Rightarrow> nat set \<Rightarrow> 'z bstate_scheme \<Rightarrow> bool" where
  "cache_inv me H s \<longleftrightarrow> bio_ready me s \<and> cache_ok s \<and> in_use me H s"

lemma cache_invD:
  assumes "cache_inv me H s"
  shows "bio_ready me s" "cache_ok s" "in_use me H s"
  using assms by (simp_all add: cache_inv_def)

lemma blk_held: "cache_inv me H s \<Longrightarrow> b \<in> H \<Longrightarrow> b_data (bufs s ! b) = blk s (b_blockno (bufs s ! b))"
  using blk_at [of s b] cache_ok_cases(2) [of s b] by (auto simp: cache_inv_def in_use_def)

text \<open>A buffer can be recycled while the dirty blocks and the buffers in use do not take all of them.\<close>

lemma card_dirty:
  assumes "cache_ok s"
  shows "card {i. i < NBUF \<and> b_flags (bufs s ! i) = 6} = card {n. dirty s n}"
proof -
  let ?D = "{i. i < NBUF \<and> b_flags (bufs s ! i) = 6}"
  have dev: "b_dev (bufs s ! i) = 1" if "i \<in> ?D" for i
    using that cache_ok_cases(2) [OF assms, of i] by auto
  have inj: "inj_on (\<lambda>i. b_blockno (bufs s ! i)) ?D"
    using assms dev unfolding inj_on_def cache_ok_def by blast
  have im: "(\<lambda>i. b_blockno (bufs s ! i)) ` ?D = {n. dirty s n}"
  proof (intro set_eqI iffI)
    fix n
    assume "n \<in> {n. dirty s n}"
    then obtain i where "i < NBUF" "b_blockno (bufs s ! i) = n" "b_flags (bufs s ! i) = 6" by (auto simp: dirty_def)
    then show "n \<in> (\<lambda>i. b_blockno (bufs s ! i)) ` ?D" by force
  next
    fix n
    assume "n \<in> (\<lambda>i. b_blockno (bufs s ! i)) ` ?D"
    then obtain i where i: "i \<in> ?D" "n = b_blockno (bufs s ! i)" by (elim imageE)
    show "n \<in> {n. dirty s n}"
      unfolding dirty_def mem_Collect_eq using i dev [OF i(1)] by (intro exI [of _ i]) simp
  qed
  show ?thesis unfolding im [symmetric] by (rule card_image [OF inj, symmetric])
qed

lemma free_buffer:
  assumes "cache_inv me H s" and "card {n. dirty s n} + card H < NBUF"
  shows "\<exists>i<NBUF. b_refcnt (bufs s ! i) = 0 \<and> b_flags (bufs s ! i) AND B_DIRTY = 0"
proof -
  note K = cache_invD [OF assms(1)]
  let ?D = "{i. i < NBUF \<and> b_flags (bufs s ! i) = 6}"
  have H: "finite H" using K(3) by (auto simp: in_use_def intro: finite_subset)
  have "card (?D \<union> H) < card {..<NBUF}"
    using assms(2) card_Un_le [of ?D H] card_dirty [OF K(2)] by simp
  then have "\<not> {..<NBUF} \<subseteq> ?D \<union> H" using H card_mono [of "?D \<union> H" "{..<NBUF}"] by fastforce
  then obtain i where i: "i < NBUF" "b_flags (bufs s ! i) \<noteq> 6" "i \<notin> H" by auto
  then show ?thesis using cache_ok_cases(1) [OF K(2) i(1)] K(3) by (auto simp: in_use_def)
qed

lemma bread_cases:
  assumes I: "cache_inv me H s" and n: "n < disksize (dsk s)" and H: "\<And>i. i \<in> H \<Longrightarrow> b_blockno (bufs s ! i) \<noteq> n"
    and room: "dirty s n \<or> card {n. dirty s n} + card H < NBUF"
  obtains b m' where "b < NBUF" "b \<notin> H" "same_mach (mach s) m'"
    "cached_at (bufs s) n = Some b \<or> cached_at (bufs s) n = None \<and> b_flags (bufs s ! b) \<noteq> 6"
    "bread 1 n s = Ret b (s\<lparr>bufs := upd b (fill n (if dirty s n then 6 else 2) (blk s n)) (bufs s), mach := m', slocks := owned me b s\<rparr>)"
proof (cases "cached_at (bufs s) n")
  case (Some b)
  note K = cache_invD [OF I]
  have b: "b < NBUF" "b_dev (bufs s ! b) = 1" "b_blockno (bufs s ! b) = n" using cached_at_Some [OF K(2)] Some by simp_all
  then have nH: "b \<notin> H" using H [of b] by auto
  then have "sl_locked (slocks s (SL_buf b)) = 0" "b_refcnt (bufs s ! b) = 0" using K(3) b by (simp_all add: in_use_def)
  note free = this
  obtain m' where "same_mach (mach s) m'" "bread 1 n s = Ret b (s\<lparr>bufs :=
      upd b (fill n (if b_flags (bufs s ! b) = 6 then 6 else 2)
        (if b_flags (bufs s ! b) = 0 then memdisk (dsk s) (unat n) else b_data (bufs s ! b))) (bufs s),
      mach := m', slocks := owned me b s\<rparr>)"
    using bread_fill [OF bget_hit [OF K(1,2) Some free(1)] K(1) crit_same2 [OF K(1)] cache_ok_cases(3) [OF K(2) b(1)] n]
      b free cache_ok_cases(1) [OF K(2) b(1)] by auto
  moreover have "dirty s n \<longleftrightarrow> b_flags (bufs s ! b) = 6" using Some dirty_cached [OF K(2), of n] by simp
  moreover have "blk s n = (if b_flags (bufs s ! b) = 0 then memdisk (dsk s) (unat n) else b_data (bufs s ! b))"
    using Some by (simp add: blk_def)
  ultimately show ?thesis using that [of b m'] b nH Some by simp
next
  case None
  note K = cache_invD [OF I]
  have "\<not> dirty s n" using None dirty_cached [OF K(2), of n] by simp
  then obtain b where b: "bunused (bufs s) = Some (Some b)" "b < NBUF" "b_refcnt (bufs s ! b) = 0"
    "b_flags (bufs s ! b) AND B_DIRTY = 0" using bunused_some [OF K(2) free_buffer [OF I]] room by metis
  then have nH: "b \<notin> H" and "b_flags (bufs s ! b) \<noteq> 6" using K(3) by (auto simp: in_use_def)
  have "sl_locked (slocks s (SL_buf b)) = 0" using K(3) b(2) nH by (simp add: in_use_def)
  then obtain m' where "same_mach (mach s) m'" "bread 1 n s = Ret b (s\<lparr>bufs :=
      upd b (fill n 2 (memdisk (dsk s) (unat n))) (bufs s), mach := m', slocks := owned me b s\<rparr>)"
    using bread_fill [OF bget_miss [OF K(1,2) None b(1)] K(1) crit_same2 [OF K(1)] cache_ok_cases(3) [OF K(2) b(2)] n]
    by auto
  moreover have "blk s n = memdisk (dsk s) (unat n)" using None by (simp add: blk_def)
  ultimately show ?thesis
    using that [of b m'] b nH None \<open>\<not> dirty s n\<close> \<open>b_flags (bufs s ! b) \<noteq> 6\<close> by simp
qed

lemma put_block_sel [simp]:
  "memdisk (put_block n d D) = (memdisk D)(n := d)" "disksize (put_block n d D) = disksize D"
  "d_writes (put_block n d D) = d_writes D @ [(n, d)]"
  by (simp_all add: put_block_def)

lemma bio_sameI:
  assumes "t = s\<lparr>mach := mach t, pt := pt t, slocks := slocks t, bufs := bufs t, dsk := dsk t\<rparr>"
    "same_mach (mach s) (mach t)" "map p_pid (procs (pt t)) = map p_pid (procs (pt s))"
    "\<And>i. slocks t (SL_inode i) = slocks s (SL_inode i)" "disksize (dsk t) = disksize (dsk s)"
  shows "bio_same s t"
  using assms unfolding bio_same_def by blast

lemma bread_ok:
  assumes I: "cache_inv me H s" and n: "n < disksize (dsk s)" and H: "\<And>i. i \<in> H \<Longrightarrow> b_blockno (bufs s ! i) \<noteq> n"
    and room: "dirty s n \<or> card {n. dirty s n} + card H < NBUF"
  shows "\<exists>b t. bread 1 n s = Ret b t \<and> b \<notin> H \<and> cache_inv me (insert b H) t \<and> bio_same s t \<and> dsk t = dsk s \<and>
    blk t = blk s \<and> dirty t = dirty s \<and> b_blockno (bufs t ! b) = n \<and> (\<forall>i\<in>H. bufs t ! i = bufs s ! i)"
proof -
  note K = cache_invD [OF I]
  obtain b m' where b: "b < NBUF" "b \<notin> H" "same_mach (mach s) m'"
      "cached_at (bufs s) n = Some b \<or> cached_at (bufs s) n = None \<and> b_flags (bufs s ! b) \<noteq> 6"
    and e: "bread 1 n s = Ret b (s\<lparr>bufs := upd b (fill n (if dirty s n then 6 else 2) (blk s n)) (bufs s), mach := m', slocks := owned me b s\<rparr>)"
    using bread_cases [OF assms] by metis
  let ?g = "fill n (if dirty s n then 6 else 2) (blk s n)"
  let ?t = "s\<lparr>bufs := upd b ?g (bufs s), mach := m', slocks := owned me b s\<rparr>"
  have len: "b < length (bufs s)" by (rule cache_ok_cases(3) [OF K(2) b(1)])
  have only: "\<not> (b_dev (bufs s ! j) = 1 \<and> b_blockno (bufs s ! j) = n)" if "j < NBUF" "j \<noteq> b" for j
    using b(4) that cached_at_Some [OF K(2), of n j] by auto
  have old: "b_flags (bufs s ! b) = 6 \<Longrightarrow> b_blockno (bufs s ! b) = n"
    using b(4) cached_at_Some [OF K(2), of n b] by auto
  have c: "cache_ok ?t \<and> dirty ?t = (dirty s)(n := dirty s n) \<and> blk ?t = (blk s)(n := blk s n)"
    using one_buffer [OF K(2) b(1), of ?t ?g n] only old blk_clean [OF K(2), of n]
    by (auto simp: fill_def fun_upd_idem)
  have same: "bio_same s ?t"
    using b(3) by (intro bio_sameI) (simp_all add: owned_def)
  have u: "in_use me (insert b H) ?t"
    using K(3) b(1,2) len by (auto simp: in_use_def owned_def sl_take_def fill_def upd_def nth_list_update)
  have "cache_inv me (insert b H) ?t" using c u bio_same_ready [OF same K(1)] by (simp add: cache_inv_def)
  moreover have "bufs ?t ! i = bufs s ! i" if "i \<in> H" for i using that b(2) by (cases "i = b") (simp_all add: upd_def)
  moreover have "b_blockno (bufs ?t ! b) = n" using len by (simp add: upd_def fill_def)
  ultimately show ?thesis using e b(2) same c
    by (intro exI [of _ b] exI [of _ ?t]) simp
qed


text \<open>A process changes the contents of a buffer it holds and writes it, or pins it dirty for the log.\<close>

lemma held_facts:
  assumes "cache_inv me H s" and "b \<in> H"
  shows "b < NBUF" "b < length (bufs s)" "b_dev (bufs s ! b) = 1" "b_refcnt (bufs s ! b) = 1"
    "b_flags (bufs s ! b) = 2 \<or> b_flags (bufs s ! b) = 6"
    "sl_locked (slocks s (SL_buf b)) = 1" "sl_pid (slocks s (SL_buf b)) = p_pid (procs (pt s) ! me)"
proof -
  note K = cache_invD [OF assms(1)]
  show b: "b < NBUF" using K(3) assms(2) by (auto simp: in_use_def)
  show "b < length (bufs s)" by (rule cache_ok_cases(3) [OF K(2) b])
  show "b_dev (bufs s ! b) = 1" "b_flags (bufs s ! b) = 2 \<or> b_flags (bufs s ! b) = 6" "b_refcnt (bufs s ! b) = 1"
    "sl_locked (slocks s (SL_buf b)) = 1" "sl_pid (slocks s (SL_buf b)) = p_pid (procs (pt s) ! me)"
    using cache_ok_cases [OF K(2) b] K(3) assms(2) b by (auto simp: in_use_def)
qed

lemma held_only:
  assumes "cache_inv me H s" and "b \<in> H" and "j < NBUF" "j \<noteq> b"
  shows "\<not> (b_dev (bufs s ! j) = 1 \<and> b_blockno (bufs s ! j) = b_blockno (bufs s ! b))"
  using held_facts(1,3) [OF assms(1,2)] cache_invD(2) [OF assms(1)] assms(3,4) unfolding cache_ok_def by blast

lemma in_use_upd:
  assumes "in_use me H s" and "b < length (bufs s)" and "b_refcnt (g (bufs s ! b)) = b_refcnt (bufs s ! b)" "b_flags (g (bufs s ! b)) \<noteq> 0"
    and "bufs t = upd b g (bufs s)" "slocks t = slocks s" "pt t = pt s"
  shows "in_use me H t"
  using assms by (auto simp: in_use_def upd_def nth_list_update)

definition with_data :: "u8 list \<Rightarrow> u32 \<Rightarrow> buf \<Rightarrow> buf" where
  "with_data d f u = u\<lparr>b_data := d, b_flags := f\<rparr>"

lemma bwrite_ok:
  assumes I: "cache_inv me H s" and b: "b \<in> H" and n: "b_blockno (bufs s ! b) < disksize (dsk s)"
  defines "u \<equiv> bufs s ! b"
  shows "\<exists>t. andthen (buf_set b (\<lambda>u. u\<lparr>b_data := f (b_data u)\<rparr>)) (bwrite b) s = Ret () t \<and> cache_inv me H t \<and> bio_same s t \<and>
    dsk t = put_block (unat (b_blockno u)) (f (b_data u)) (dsk s) \<and>
    blk t = (blk s)(b_blockno u := f (b_data u)) \<and> dirty t = (dirty s)(b_blockno u := False) \<and>
    (\<forall>i. b_blockno (bufs t ! i) = b_blockno (bufs s ! i))"
proof -
  note K = cache_invD [OF I] and F = held_facts [OF I b]
  let ?m = "crit (L_buf b) (mach s)"
  let ?d = "f (b_data u)"
  let ?s = "s\<lparr>mach := ?m, bufs := upd b (with_data ?d 6) (bufs s)\<rparr>"
  let ?t = "s\<lparr>mach := crit (L_buf b) ?m, bufs := upd b (with_data ?d 2) (bufs s), dsk := put_block (unat (b_blockno u)) ?d (dsk s)\<rparr>"
  have R: "bio_ready me (s\<lparr>bufs := bs\<rparr>)" "bio_ready me (s\<lparr>mach := ?m, bufs := bs\<rparr>)" for bs
    using K(1) by (simp_all add: bio_ready_def)
  have e1: "upd b (\<lambda>u. u\<lparr>b_flags := b_flags u OR B_DIRTY\<rparr>) (upd b (\<lambda>u. u\<lparr>b_data := f (b_data u)\<rparr>) (bufs s)) =
      upd b (with_data ?d 6) (bufs s)"
    using F(2,5) by (auto simp: upd_def with_data_def u_def)
  have e2: "upd b (\<lambda>u. u\<lparr>b_flags := 2\<rparr>) (upd b (with_data ?d 6) (bufs s)) = upd b (with_data ?d 2) (bufs s)"
    using F(2) by (auto simp: upd_def with_data_def)
  have "iderw b ?s = Ret () ?t"
    using iderw_write [where b = b, OF R(2) [of "upd b (with_data ?d 6) (bufs s)"]] F n e2
    by (simp add: u_def) (simp add: upd_def with_data_def)
  then have "andthen (buf_set b (\<lambda>u. u\<lparr>b_data := f (b_data u)\<rparr>)) (bwrite b) s = Ret () ?t"
    using holdingsleep_own [where b = b, OF R(1)] F(6,7) by (simp add: bwrite_def kern buf_set_def e1)
  moreover have c: "cache_ok ?t \<and> dirty ?t = (dirty s)(b_blockno u := False) \<and> blk ?t = (blk s)(b_blockno u := ?d)"
    using one_buffer [OF K(2) F(1), of ?t "with_data ?d 2" "b_blockno u"] held_only [OF I b] F(3)
    by (auto simp: with_data_def u_def word_unat_eq_iff [symmetric])
  moreover have same: "bio_same s ?t"
    using K(1) same_mach_trans [OF crit_same [of "mach s" "L_buf b"] crit_same [of ?m "L_buf b"]]
    by (intro bio_sameI) (simp_all add: bio_ready_def put_block_def)
  moreover have "in_use me H ?t" by (rule in_use_upd [OF K(3) F(2), of "with_data ?d 2"]) (simp_all add: with_data_def)
  moreover have "b_blockno (bufs ?t ! i) = b_blockno (bufs s ! i)" for i
    by (simp add: field_upd [of b_blockno] with_data_def)
  ultimately show ?thesis using bio_same_ready [OF same K(1)] by (intro exI [of _ ?t]) (simp add: cache_inv_def)
qed

text \<open>The contents and the dirty flag of a buffer in use change together.\<close>

lemma pin_ok:
  assumes I: "cache_inv me H s" and b: "b \<in> H"
    and t: "t = s\<lparr>bufs := upd b (with_data d 6) (bufs s)\<rparr>"
  shows "cache_inv me H t" "bio_same s t" "blk t = (blk s)(b_blockno (bufs s ! b) := d)"
    "dirty t = (dirty s)(b_blockno (bufs s ! b) := True)" "b_blockno (bufs t ! i) = b_blockno (bufs s ! i)"
proof -
  note K = cache_invD [OF I] and F = held_facts [OF I b]
  show same: "bio_same s t" unfolding t using K(1) by (intro bio_sameI) (simp_all add: same_mach_def bio_ready_def)
  have c: "cache_ok t \<and> dirty t = (dirty s)(b_blockno (bufs s ! b) := True) \<and> blk t = (blk s)(b_blockno (bufs s ! b) := d)"
    using one_buffer [OF K(2) F(1), of t "with_data d 6" "b_blockno (bufs s ! b)"] held_only [OF I b] F(3)
    by (auto simp: with_data_def t)
  then show "blk t = (blk s)(b_blockno (bufs s ! b) := d)" "dirty t = (dirty s)(b_blockno (bufs s ! b) := True)" by simp_all
  have "in_use me H t" by (rule in_use_upd [OF K(3) F(2), of "with_data d 6"]) (simp_all add: with_data_def t)
  then show "cache_inv me H t" using c bio_same_ready [OF same K(1)] by (simp add: cache_inv_def)
  show "b_blockno (bufs t ! i) = b_blockno (bufs s ! i)" by (simp add: t field_upd [of b_blockno] with_data_def)
qed

lemma map_nth_eq: "map f xs = map f ys \<Longrightarrow> f (xs ! i) = f (ys ! i)"
proof (induction xs arbitrary: ys i)
  case (Cons x xs)
  obtain y zs where ys: "ys = y # zs" and e: "f x = f y" "map f xs = map f zs"
    using Cons.prems by (cases ys) simp_all
  show ?case using Cons.IH [OF e(2), of "i - 1"] e(1) unfolding ys nth_Cons' by simp
qed simp

lemma cache_ok_held_in:
  assumes "cache_ok s" "lru (bufs t) xs" "dsk t = dsk s"
    and f: "\<And>i. b_flags (bufs t ! i) = b_flags (bufs s ! i)" "\<And>i. b_dev (bufs t ! i) = b_dev (bufs s ! i)"
      "\<And>i. b_blockno (bufs t ! i) = b_blockno (bufs s ! i)" "\<And>i. b_data (bufs t ! i) = b_data (bufs s ! i)"
  shows "cache_ok t" "blk t = blk s" "dirty t = dirty s"
proof -
  show "cache_ok t" using assms(1-3) unfolding cache_ok_def f by auto
  have "cached_at (bufs t) = cached_at (bufs s)" by (simp add: fun_eq_iff cached_at_def f)
  then show "blk t = blk s" unfolding fun_eq_iff blk_def f assms(3) by simp
  show "dirty t = dirty s" unfolding fun_eq_iff dirty_def f by simp
qed

lemma brelse_ok:
  assumes I: "cache_inv me H s" and b: "b \<in> H"
  shows "\<exists>t. brelse b s = Ret () t \<and> cache_inv me (H - {b}) t \<and> bio_same s t \<and> dsk t = dsk s \<and>
    blk t = blk s \<and> dirty t = dirty s \<and> (\<forall>i. b_blockno (bufs t ! i) = b_blockno (bufs s ! i)) \<and>
    (\<exists>xs. lru (bufs s) xs \<and> lru (bufs t) (b # remove1 b xs))"
proof -
  note K = cache_invD [OF I] and F = held_facts [OF I b]
  have R: "bio_ready me (s\<lparr>mach := crit (L_buf b) (mach s)\<rparr>)" using K(1) by (simp add: bio_ready_def)
  obtain m' where m': "same_mach (crit (L_buf b) (mach s)) m'" and
    r: "releasesleep (SL_buf b) (s\<lparr>mach := crit (L_buf b) (mach s)\<rparr>) =
      Ret () (s\<lparr>mach := m', pt := wakeup_table (sl_chan (SL_buf b)) (pt s),
        slocks := (slocks s)(SL_buf b := sl_drop (slocks s (SL_buf b)))\<rparr>)"
    using releasesleep_ok [of "s\<lparr>mach := crit (L_buf b) (mach s)\<rparr>" "SL_buf b"] bio_ready_sl [OF R, of b]
    by (auto simp: sl_ready_def)
  let ?s = "s\<lparr>pt := wakeup_table (sl_chan (SL_buf b)) (pt s),
        slocks := (slocks s)(SL_buf b := sl_drop (slocks s (SL_buf b))), mach := acq L_bcache m',
        bufs := upd b (\<lambda>u. u\<lparr>b_refcnt := b_refcnt u - 1\<rparr>) (bufs s)\<rparr>"
  obtain xs where xs: "lru (bufs s) xs" using K(2) by (auto simp: cache_ok_def)
  have "lru (bufs ?s) xs" using xs by (simp add: lru_upd)
  then obtain bs where tf: "to_front b ?s = Ret () (?s\<lparr>bufs := bs\<rparr>)" "lru bs (b # remove1 b xs)"
      "map held_in bs = map held_in (bufs ?s)"
    using to_front_ok [of ?s xs b] F(1) by auto
  let ?t = "s\<lparr>pt := wakeup_table (sl_chan (SL_buf b)) (pt s),
        slocks := (slocks s)(SL_buf b := sl_drop (slocks s (SL_buf b))), bufs := bs, mach := crit L_bcache m'\<rparr>"
  have sm: "same_mach (mach s) m'" using same_mach_trans [OF crit_same m'] K(1) by (simp add: bio_ready_def)
  then have u: "cpu_ok m'" "unlocked m' L_bcache" using K(1) by (auto simp: bio_ready_def same_mach_def)
  have "brelse b s = Ret () ?t"
    using holdingsleep_own [OF K(1) F(6,7)] r tf(1) u F(2,4)
    by (simp add: brelse_def kern buf_set_def buf_get_def crit_def)
  moreover have same: "bio_same s ?t"
    using same_mach_trans [OF sm crit_same [of m' L_bcache]] u
    by (intro bio_sameI) (simp_all add: wakeup_table_def wake_def)
  moreover have at: "held_in (bs ! i) = held_in (bufs ?s ! i)" for i using map_nth_eq [OF tf(3)] .
  have f: "b_flags (bs ! i) = b_flags (bufs s ! i)" "b_dev (bs ! i) = b_dev (bufs s ! i)"
    "b_blockno (bs ! i) = b_blockno (bufs s ! i)" "b_data (bs ! i) = b_data (bufs s ! i)"
    "b_refcnt (bs ! i) = (if i = b then 0 else b_refcnt (bufs s ! i))" for i
    using arg_cong [OF at [of i], of b_flags] arg_cong [OF at [of i], of b_dev] arg_cong [OF at [of i], of b_blockno]
      arg_cong [OF at [of i], of b_data] arg_cong [OF at [of i], of b_refcnt] F(2,4)
    by (simp_all add: field_upd [of b_flags] field_upd [of b_dev] field_upd [of b_blockno] field_upd [of b_data]
        field_upd_at [of _ _ b_refcnt])
  moreover have "cache_ok ?t" "blk ?t = blk s" "dirty ?t = dirty s"
    using cache_ok_held_in [OF K(2), of ?t] tf(2) f by simp_all
  moreover have "p_pid (procs (pt ?t) ! me) = p_pid (procs (pt s) ! me)"
    by (rule bio_same_pid [OF same K(1)])
  then have "in_use me (H - {b}) ?t" using K(3) F(1) b by (auto simp: in_use_def f sl_drop_def)
  ultimately show ?thesis
    using bio_same_ready [OF same K(1)] xs tf(2) by (intro exI [of _ ?t]) (auto simp: cache_inv_def)
qed

section \<open>Start of the cache\<close>

lemma initsleeplock_ok:
  "\<exists>m. initsleeplock l nm s = Ret () (s\<lparr>mach := m, slocks := (slocks s)(l := (slocks s l)\<lparr>sl_name := nm, sl_locked := 0, sl_pid := 0\<rparr>)\<rparr>)"
  by (auto simp: initsleeplock_def initlock_def initlock_m_def on_mach_def sl_set_def kern)

lemma binit_step_ok:
  assumes "b < NBUF" and "length (bufs s) = Suc NBUF" and "ring (nxt (bufs s)) (prv (bufs s)) xs" "b \<notin> set xs" "set xs \<subseteq> {..<NBUF}"
  shows "\<exists>t. binit_step b s = Ret () t \<and> length (bufs t) = Suc NBUF \<and>
    ring (nxt (bufs t)) (prv (bufs t)) (b # xs) \<and> map held_in (bufs t) = map held_in (bufs s) \<and> dsk t = dsk s \<and>
    sl_locked (slocks t (SL_buf b)) = 0 \<and> (\<forall>l. l \<noteq> SL_buf b \<longrightarrow> slocks t l = slocks s l)"
proof -
  let ?bs = "bufs s" and ?f = "nxt (bufs s) BHEAD"
  let ?b2 = "upd b (\<lambda>u. u\<lparr>b_prev := BHEAD\<rparr>) (upd b (\<lambda>u. u\<lparr>b_next := ?f\<rparr>) ?bs)"
  let ?b4 = "upd BHEAD (\<lambda>u. u\<lparr>b_next := b\<rparr>) (upd ?f (\<lambda>u. u\<lparr>b_prev := b\<rparr>) ?b2)"
  obtain m where i: "initsleeplock (SL_buf b) ''buffer'' (s\<lparr>bufs := ?b2\<rparr>) = Ret () (s\<lparr>bufs := ?b2, mach := m,
      slocks := (slocks s)(SL_buf b := (slocks s (SL_buf b))\<lparr>sl_name := ''buffer'', sl_locked := 0, sl_pid := 0\<rparr>)\<rparr>)"
    using initsleeplock_ok [of "SL_buf b" "''buffer''" "s\<lparr>bufs := ?b2\<rparr>"] by auto
  have l: "b < length ?bs" "BHEAD < length ?bs" "b \<noteq> BHEAD" using assms(1,2) by (simp_all add: BHEAD_def)
  have h: "hd (xs @ [BHEAD]) \<in> set (xs @ [BHEAD])" by (cases xs) auto
  have "?f = hd (xs @ [BHEAD])" using assms(3) by (intro lseg_hd) (simp add: ring_def)
  then have fl: "?f < length ?bs" using h assms(2,5) by (auto simp: BHEAD_def less_Suc_eq)
  have fh: "nxt ?b2 BHEAD = ?f" using l by (simp add: field_upd_at field_upd)
  have "binit_step b s = Ret () (s\<lparr>bufs := ?b4, mach := m,
      slocks := (slocks s)(SL_buf b := (slocks s (SL_buf b))\<lparr>sl_name := ''buffer'', sl_locked := 0, sl_pid := 0\<rparr>)\<rparr>)"
    using i fh by (simp add: binit_step_def link_front_def kern buf_get_def buf_set_def del: upd_upd_same)
  moreover have "ring (nxt ?b4) (prv ?b4) (b # xs)"
  proof -
    have "nxt ?b4 = (nxt ?bs)(b := ?f, BHEAD := b)" using l fl by (simp del: upd_upd_same)
    moreover have "prv ?b4 = (prv ?bs)(b := BHEAD, ?f := b)" using l fl by (simp del: upd_upd_same)
    ultimately show ?thesis using ring_push [OF assms(3,4)] l(3) by simp
  qed
  moreover have "map held_in ?b4 = map held_in ?bs" by (simp add: map_upd_same)
  ultimately show ?thesis using assms(2) by auto
qed

lemma binit_loop_ok:
  "length (bufs s) = Suc NBUF \<Longrightarrow> ring (nxt (bufs s)) (prv (bufs s)) xs \<Longrightarrow> distinct (ys @ xs) \<Longrightarrow>
   set (ys @ xs) \<subseteq> {..<NBUF} \<Longrightarrow>
   \<exists>t. binit_loop ys s = Ret () t \<and> length (bufs t) = Suc NBUF \<and> ring (nxt (bufs t)) (prv (bufs t)) (rev ys @ xs) \<and>
     map held_in (bufs t) = map held_in (bufs s) \<and> dsk t = dsk s \<and>
     (\<forall>i. sl_locked (slocks t (SL_buf i)) = (if i \<in> set ys then 0 else sl_locked (slocks s (SL_buf i))))"
proof (induction ys arbitrary: s xs)
  case Nil
  then show ?case by (simp add: kern)
next
  case (Cons b ys)
  have "b < NBUF" "b \<notin> set xs" "set xs \<subseteq> {..<NBUF}" using Cons.prems(3,4) by auto
  then obtain t where t: "binit_step b s = Ret () t" "length (bufs t) = Suc NBUF"
      "ring (nxt (bufs t)) (prv (bufs t)) (b # xs)" "map held_in (bufs t) = map held_in (bufs s)" "dsk t = dsk s"
      "sl_locked (slocks t (SL_buf b)) = 0" "\<And>l. l \<noteq> SL_buf b \<Longrightarrow> slocks t l = slocks s l"
    using binit_step_ok [OF _ Cons.prems(1,2)] by blast
  obtain u where "binit_loop ys t = Ret () u" "length (bufs u) = Suc NBUF"
      "ring (nxt (bufs u)) (prv (bufs u)) (rev ys @ b # xs)" "map held_in (bufs u) = map held_in (bufs t)" "dsk u = dsk t"
      "\<And>i. sl_locked (slocks u (SL_buf i)) = (if i \<in> set ys then 0 else sl_locked (slocks t (SL_buf i)))"
    using Cons.IH [OF t(2,3)] Cons.prems(3,4) by auto
  then show ?case using t by (intro exI [of _ u]) (auto simp: kern)
qed

lemma binit_ok:
  assumes "length (bufs s) = Suc NBUF"
  shows "\<exists>t. binit s = Ret () t \<and> lru (bufs t) (rev [0..<NBUF]) \<and> map held_in (bufs t) = map held_in (bufs s) \<and>
    dsk t = dsk s \<and> (\<forall>i<NBUF. sl_locked (slocks t (SL_buf i)) = 0)"
proof -
  let ?bs = "upd BHEAD (\<lambda>u. u\<lparr>b_next := BHEAD\<rparr>) (upd BHEAD (\<lambda>u. u\<lparr>b_prev := BHEAD\<rparr>) (bufs s))"
  obtain m where i: "initlock L_bcache ''bcache'' s = Ret () (s\<lparr>mach := m\<rparr>)"
    by (auto simp: initlock_def initlock_m_def on_mach_def kern)
  have h: "BHEAD < length (bufs s)" using assms by (simp add: BHEAD_def)
  have "ring (nxt ?bs) (prv ?bs) []" using h by (simp add: ring_def field_upd_at)
  then obtain t where "binit_loop [0..<NBUF] (s\<lparr>mach := m, bufs := ?bs\<rparr>) = Ret () t" "length (bufs t) = Suc NBUF"
      "ring (nxt (bufs t)) (prv (bufs t)) (rev [0..<NBUF])" "map held_in (bufs t) = map held_in (bufs s)" "dsk t = dsk s"
      "\<And>i. i < NBUF \<Longrightarrow> sl_locked (slocks t (SL_buf i)) = 0"
    using binit_loop_ok [of "s\<lparr>mach := m, bufs := ?bs\<rparr>" "[]" "[0..<NBUF]"] assms by (auto simp: map_upd_same atLeast0LessThan)
  then show ?thesis using i by (intro exI [of _ t]) (auto simp: binit_def kern buf_set_def lru_def atLeast0LessThan)
qed

section \<open>The promises of the cache\<close>

text \<open>A cache of 30 buffers as \<open>binit\<close> leaves it, on a disk of 64 blocks, with process 0 running.\<close>

definition demo_block :: "nat \<Rightarrow> u8 list" where
  "demo_block n = replicate BSIZE (of_nat n)"

definition demo_bufs :: "buf list" where
  "demo_bufs = map (\<lambda>i. \<lparr>b_flags = 0, b_dev = 0, b_blockno = 0, b_refcnt = 0,
     b_prev = (if i = NBUF then 0 else if i = 29 then BHEAD else Suc i),
     b_next = (if i = NBUF then 29 else if i = 0 then BHEAD else i - 1), b_data = replicate BSIZE 0\<rparr>) [0..<Suc NBUF]"

definition demo_cache :: "blocks \<Rightarrow> bstate" where
  "demo_cache img = slstate.extend (sstate.extend (demo_sem [demo_proc RUNNING 1] 0)
     (slstate.fields (\<lambda>_. \<lparr>sl_locked = 0, sl_name = ''buffer'', sl_pid = 0\<rparr>)))
     (bstate.fields demo_bufs \<lparr>disksize = 64, memdisk = img, d_writes = []\<rparr>)"

lemma demo_cache_sel [simp]:
  "mach (demo_cache img) = demo_mach (Some 0) 0x202" "pt (demo_cache img) = pt (demo_state (Some 0) [demo_proc RUNNING 1] 1)"
  "bufs (demo_cache img) = demo_bufs" "dsk (demo_cache img) = \<lparr>disksize = 64, memdisk = img, d_writes = []\<rparr>"
  "slocks (demo_cache img) l = \<lparr>sl_locked = 0, sl_name = ''buffer'', sl_pid = 0\<rparr>"
  by (simp_all add: demo_cache_def slstate.defs sstate.defs bstate.defs)

lemma lseg_down: "(\<And>i. i < n \<Longrightarrow> f (Suc i) = i) \<Longrightarrow> f a = n \<Longrightarrow> f 0 = c \<Longrightarrow> lseg f a (rev [0..<Suc n]) c"
proof (induction n arbitrary: a)
  case (Suc n)
  then have "lseg f (Suc n) (rev [0..<Suc n]) c" by (intro Suc.IH) simp_all
  then show ?case using Suc.prems by simp
qed simp

lemma lseg_up: "(\<And>i. m \<le> i \<Longrightarrow> Suc i < n \<Longrightarrow> f i = Suc i) \<Longrightarrow> m < n \<Longrightarrow> f a = m \<Longrightarrow> f (n - 1) = c \<Longrightarrow> lseg f a [m..<n] c"
proof (induction "n - m" arbitrary: a m)
  case (Suc k)
  show ?case
  proof (cases "Suc m = n")
    case False
    then have "lseg f m [Suc m..<n] c" using Suc.prems Suc.hyps(2) by (intro Suc.hyps(1)) simp_all
    then show ?thesis using Suc.prems False by (simp add: upt_conv_Cons)
  qed (use Suc.prems in auto)
qed simp

lemma demo_lru: "lru demo_bufs (rev [0..<NBUF])"
proof -
  have at: "demo_bufs ! i = \<lparr>b_flags = 0, b_dev = 0, b_blockno = 0, b_refcnt = 0,
     b_prev = (if i = NBUF then 0 else if i = 29 then BHEAD else Suc i),
     b_next = (if i = NBUF then 29 else if i = 0 then BHEAD else i - 1), b_data = replicate BSIZE 0\<rparr>" if "i < Suc NBUF" for i
    using that unfolding demo_bufs_def by (subst nth_map) (simp_all del: upt_Suc)
  have "lseg (nxt demo_bufs) BHEAD (rev [0..<Suc 29]) BHEAD"
    by (rule lseg_down) (simp_all add: at BHEAD_def NBUF_def MAXOPBLOCKS_def)
  moreover have "lseg (prv demo_bufs) BHEAD [0..<30] BHEAD"
    by (rule lseg_up) (simp_all add: at BHEAD_def NBUF_def MAXOPBLOCKS_def)
  ultimately show ?thesis
    by (simp add: lru_def ring_def NBUF_def MAXOPBLOCKS_def BHEAD_def demo_bufs_def atLeast0LessThan del: upt_Suc)
qed

lemma demo_cache_at:
  assumes "i < NBUF"
  shows "b_flags (demo_bufs ! i) = 0" "b_dev (demo_bufs ! i) = 0" "b_refcnt (demo_bufs ! i) = 0"
  using assms unfolding demo_bufs_def by (subst nth_map, simp, simp del: upt_Suc)+

lemma demo_cache_inv: "cache_inv 0 {} (demo_cache img)" "dirty (demo_cache img) n = False"
  "blk (demo_cache img) n = img (unat n)"
proof -
  have "cache_ok (demo_cache img)" using demo_lru unfolding cache_ok_def by (auto simp: demo_cache_at)
  then show I: "cache_inv 0 {} (demo_cache img)"
    using demo_running by (simp add: cache_inv_def in_use_def bio_ready_def demo_cache_at running_def)
  show d: "dirty (demo_cache img) n = False" by (auto simp: dirty_def demo_cache_at)
  then show "blk (demo_cache img) n = img (unat n)" using blk_clean [OF cache_invD(2) [OF I], of n] by simp
qed

text \<open>
  C14: \<open>bread\<close> of a block that no process holds returns a buffer locked for the caller that contains the
  block: the last contents written through the cache, whether the block was cached, dirty or only on the disk. It
  neither panics nor waits as long as the dirty blocks and the buffers in use are fewer than \<open>NBUF\<close>;
  it writes nothing to the disk and changes no other block, and the invariant of the cache holds after it.
\<close>

theorem bread_correct:
  assumes "cache_inv me H s" and "n < disksize (dsk s)" and "\<forall>i\<in>H. b_blockno (bufs s ! i) \<noteq> n"
    and "card {m. dirty s m} + card H < NBUF"
  shows "\<exists>b t. bread 1 n s = Ret b t \<and> b \<notin> H \<and> b_blockno (bufs t ! b) = n \<and> b_data (bufs t ! b) = blk s n \<and>
    cache_inv me (insert b H) t \<and> dsk t = dsk s \<and> blk t = blk s \<and> dirty t = dirty s"
proof -
  obtain b t where "bread 1 n s = Ret b t" "b \<notin> H" "cache_inv me (insert b H) t" "dsk t = dsk s"
      "blk t = blk s" "dirty t = dirty s" "b_blockno (bufs t ! b) = n"
    using bread_ok [OF assms(1,2) bspec [OF assms(3)] disjI2 [OF assms(4)]] by blast
  then show ?thesis using blk_held [of me "insert b H" t b] by auto
qed

theorem bread_correct_witness:
  "\<exists>b t. bread 1 5 (demo_cache demo_block) = Ret b t \<and> b_data (bufs t ! b) = replicate BSIZE 5"
  using bread_correct [OF demo_cache_inv(1), of 5 demo_block]
  by (auto simp: demo_cache_inv demo_block_def NBUF_def MAXOPBLOCKS_def)

text \<open>
  C29: The sequence every user of the cache runs, \<open>bread\<close>, a change of the data, \<open>bwrite\<close>, \<open>brelse\<close>,
  puts the new contents on the disk as one write and gives the buffer back; a later \<open>bread\<close> of the
  block returns them, and every other block keeps its contents.
\<close>

theorem write_read_roundtrip:
  assumes "cache_inv me {} s" and "n < disksize (dsk s)" and "card {m. dirty s m} < NBUF"
  shows "\<exists>t c u. bind (bread 1 n) (\<lambda>b. andthen (buf_set b (\<lambda>u. u\<lparr>b_data := f (b_data u)\<rparr>)) (
      andthen (bwrite b) (brelse b))) s = Ret () t \<and>
    cache_inv me {} t \<and> dsk t = put_block (unat n) (f (blk s n)) (dsk s) \<and>
    bread 1 n t = Ret c u \<and> b_data (bufs u ! c) = f (blk s n) \<and> (\<forall>m. m \<noteq> n \<longrightarrow> blk u m = blk s m)"
proof -
  obtain b s1 where s1: "bread 1 n s = Ret b s1" "cache_inv me {b} s1" "bio_same s s1" "dsk s1 = dsk s"
      "blk s1 = blk s" "dirty s1 = dirty s" "b_blockno (bufs s1 ! b) = n"
    using bread_ok [OF assms(1,2)] assms(3) by auto
  have d: "b_data (bufs s1 ! b) = blk s n" using blk_held [OF s1(2)] s1 by simp
  obtain s2 where s2: "andthen (buf_set b (\<lambda>u. u\<lparr>b_data := f (b_data u)\<rparr>)) (bwrite b) s1 = Ret () s2" "cache_inv me {b} s2"
      "dsk s2 = put_block (unat n) (f (blk s n)) (dsk s)" "blk s2 = (blk s)(n := f (blk s n))" "dirty s2 = (dirty s)(n := False)"
    using bwrite_ok [OF s1(2), of b f] assms(2) s1 d by auto
  obtain t where t: "brelse b s2 = Ret () t" "cache_inv me {} t" "dsk t = dsk s2" "blk t = blk s2" "dirty t = dirty s2"
    using brelse_ok [OF s2(2), of b] by auto
  have "card {m. dirty t m} \<le> card {m. dirty s m}" using t s2 by (intro card_mono) auto
  then obtain c u where u: "bread 1 n t = Ret c u" "cache_inv me {c} u" "blk u = blk t" "b_blockno (bufs u ! c) = n"
    using bread_ok [OF t(2), of n] assms(2,3) t s2 by auto
  have "b_data (bufs u ! c) = f (blk s n)" using blk_held [OF u(2)] u t s2 by simp
  moreover have "bind (bread 1 n) (\<lambda>b. andthen (buf_set b (\<lambda>u. u\<lparr>b_data := f (b_data u)\<rparr>)) (
      andthen (bwrite b) (brelse b))) s = Ret () t"
    using s1(1) s2(1) t(1) by (simp add: kern buf_set_def)
  ultimately show ?thesis using u t s2 by fastforce
qed

theorem write_read_roundtrip_witness:
  "\<exists>t c u. bind (bread 1 7) (\<lambda>b. andthen (buf_set b (\<lambda>u. u\<lparr>b_data := (b_data u)[0 := 99]\<rparr>)) (
      andthen (bwrite b) (brelse b))) (demo_cache demo_block) = Ret () t \<and>
    d_writes (dsk t) = [(7, (replicate BSIZE 7)[0 := 99])] \<and>
    bread 1 7 t = Ret c u \<and> b_data (bufs u ! c) = (replicate BSIZE 7)[0 := 99]"
proof -
  have c: "7 < disksize (dsk (demo_cache demo_block))" "card {m. dirty (demo_cache demo_block) m} < NBUF"
    by (simp_all add: demo_cache_inv NBUF_def MAXOPBLOCKS_def)
  have b: "blk (demo_cache demo_block) 7 = replicate BSIZE 7" by (simp add: demo_cache_inv demo_block_def)
  obtain t c u where "bind (bread 1 7) (\<lambda>b. andthen (buf_set b (\<lambda>u. u\<lparr>b_data := (b_data u)[0 := 99]\<rparr>)) (
      andthen (bwrite b) (brelse b))) (demo_cache demo_block) = Ret () t"
      "dsk t = put_block (unat (7 :: u32)) ((replicate BSIZE 7)[0 := 99]) (dsk (demo_cache demo_block))"
      "bread 1 7 t = Ret c u" "b_data (bufs u ! c) = (replicate BSIZE 7)[0 := 99]"
    using write_read_roundtrip [OF demo_cache_inv(1) c, of "\<lambda>d. d[0 := 99]"] unfolding b by blast
  moreover from this(2) have "d_writes (dsk t) = [(7, (replicate BSIZE 7)[0 := 99])]" by simp
  ultimately show ?thesis by blast
qed

lemma find_split: "find P xs = Some v \<Longrightarrow> \<exists>us ws. xs = us @ v # ws \<and> (\<forall>u\<in>set us. \<not> P u)"
proof (induction xs)
  case (Cons x xs)
  show ?case
  proof (cases "P x")
    case True
    then show ?thesis using Cons.prems by (intro exI [of _ "[]"] exI [of _ xs]) simp
  next
    case False
    then obtain us ws where "xs = us @ v # ws" "\<forall>u\<in>set us. \<not> P u" using Cons by auto
    then show ?thesis using False by (intro exI [of _ "x # us"] exI [of _ ws]) simp
  qed
qed simp

lemma lseg_unique: "lseg f a xs c \<Longrightarrow> lseg f a ys c \<Longrightarrow> c \<notin> set xs \<Longrightarrow> c \<notin> set ys \<Longrightarrow> xs = ys"
proof (induction xs arbitrary: a ys)
  case Nil
  then show ?case by (cases ys) auto
next
  case (Cons x xs)
  then show ?case by (cases ys) auto
qed

lemma lru_unique: "lru bs xs \<Longrightarrow> lru bs ys \<Longrightarrow> xs = ys"
  by (auto simp: lru_def ring_def intro: lseg_unique)

text \<open>
  C15: The cache recycles in the order of release: \<open>brelse\<close> moves its buffer to the front of the list,
  and \<open>bget\<close> of a block that is not cached takes, from the back of the list, the first buffer that no
  process uses and whose contents are not waiting for the log.
\<close>

theorem lru_recycling:
  assumes "cache_inv me H s" and "lru (bufs s) xs" and "b \<in> H"
    and "\<exists>i<NBUF. b_refcnt (bufs s ! i) = 0 \<and> b_flags (bufs s ! i) AND B_DIRTY = 0"
  shows "(\<exists>t. brelse b s = Ret () t \<and> lru (bufs t) (b # remove1 b xs)) \<and>
    (cached_at (bufs s) n = None \<longrightarrow> (\<exists>v t ys zs. bget 1 n s = Ret v t \<and> xs = ys @ v # zs \<and>
       b_blockno (bufs t ! v) = n \<and> lru (bufs t) xs \<and>
       (\<forall>z\<in>set zs. b_refcnt (bufs s ! z) \<noteq> 0 \<or> b_flags (bufs s ! z) AND B_DIRTY \<noteq> 0)))"
proof (intro conjI impI)
  note K = cache_invD [OF assms(1)]
  obtain t ys where t: "brelse b s = Ret () t" "lru (bufs s) ys" "lru (bufs t) (b # remove1 b ys)"
    using brelse_ok [OF assms(1,3)] by blast
  then show "\<exists>t. brelse b s = Ret () t \<and> lru (bufs t) (b # remove1 b xs)"
    using lru_unique [OF assms(2) t(2)] by auto
  assume none: "cached_at (bufs s) n = None"
  let ?P = "\<lambda>b. b_refcnt (bufs s ! b) = 0 \<and> b_flags (bufs s ! b) AND B_DIRTY = 0"
  obtain v where v: "bunused (bufs s) = Some (Some v)" "v < NBUF" "?P v" by (rule bunused_some [OF K(2) assms(4)]) blast
  have f: "find ?P (rev xs) = Some v" using v(1) bunused_lru [OF assms(2)] by simp
  obtain us ws where "rev xs = us @ v # ws" "\<forall>u\<in>set us. \<not> ?P u" using find_split [OF f] by blast
  then have xs: "xs = rev ws @ v # rev us" "\<forall>u\<in>set us. \<not> ?P u" by (simp_all add: rev_eq_append_conv)
  have "v \<notin> H" using v(2,3) K(3) by (auto simp: in_use_def)
  then have "sl_locked (slocks s (SL_buf v)) = 0" using v(2) K(3) by (simp add: in_use_def)
  note g = bget_miss [OF K(1,2) none v(1) this]
  have "lru (upd v (\<lambda>u. u\<lparr>b_flags := 0, b_dev := 1, b_blockno := n, b_refcnt := 1\<rparr>) (bufs s)) xs"
    using assms(2) by (intro lru_upd) simp_all
  then show "\<exists>v t ys zs. bget 1 n s = Ret v t \<and> xs = ys @ v # zs \<and> b_blockno (bufs t ! v) = n \<and> lru (bufs t) xs \<and>
       (\<forall>z\<in>set zs. b_refcnt (bufs s ! z) \<noteq> 0 \<or> b_flags (bufs s ! z) AND B_DIRTY \<noteq> 0)"
    using g xs cache_ok_cases(3) [OF K(2) v(2)]
    by (intro exI [of _ v] exI [of _ "s\<lparr>bufs := upd v (\<lambda>u. u\<lparr>b_flags := 0, b_dev := 1, b_blockno := n, b_refcnt := 1\<rparr>) (bufs s),
        mach := crit (L_buf v) (crit L_bcache (mach s)), slocks := owned me v s\<rparr>"] exI [of _ "rev ws"] exI [of _ "rev us"])
      (auto simp: field_upd_at)
qed

theorem lru_recycling_witness:
  "\<exists>b s xs t. bread 1 5 (demo_cache demo_block) = Ret b s \<and> lru (bufs s) xs \<and>
    brelse b s = Ret () t \<and> lru (bufs t) (b # remove1 b xs)"
proof -
  have c: "5 < disksize (dsk (demo_cache demo_block))"
    "dirty (demo_cache demo_block) 5 \<or> card {m. dirty (demo_cache demo_block) m} + card ({} :: nat set) < NBUF"
    by (simp_all add: demo_cache_inv NBUF_def MAXOPBLOCKS_def)
  obtain b s where s: "bread 1 5 (demo_cache demo_block) = Ret b s" "cache_inv 0 {b} s" "dirty s = dirty (demo_cache demo_block)"
    using bread_ok [OF demo_cache_inv(1) c(1) _ c(2)] by blast
  then have "card {m. dirty s m} + card {b} < NBUF" by (simp add: demo_cache_inv NBUF_def MAXOPBLOCKS_def)
  note free = free_buffer [OF s(2) this]
  obtain xs where xs: "lru (bufs s) xs" using cache_invD(2) [OF s(2)] by (auto simp: cache_ok_def)
  obtain t where "brelse b s = Ret () t" "lru (bufs t) (b # remove1 b xs)"
    using lru_recycling [OF s(2) xs _ free, of b] by auto
  then show ?thesis using s(1) xs by blast
qed

end
