(* ===== verification/Commit.thy ===== *)
theory Commit
  imports Log Cache
begin

text \<open>
  The write-ahead log of \<^verbatim>\<open>src/log.c\<close> proved over the buffer cache: what commit and recovery write, in
  which order, and what recovery finds on the disk after a crash at any point of commit.
\<close>

section \<open>Blocks of the log\<close>

definition put_all :: "(nat \<times> u8 list) list \<Rightarrow> disk \<Rightarrow> disk" where
  "put_all ws d = fold (\<lambda>(n, bs). put_block n bs) ws d"

lemma put_all_simps [simp]:
  "put_all [] d = d" "put_all (w # ws) d = put_all ws (put_block (fst w) (snd w) d)"
  "put_all (us @ ws) d = put_all ws (put_all us d)" "disksize (put_all ws d) = disksize d"
  "d_writes (put_all ws d) = d_writes d @ ws"
proof -
  show "put_all [] d = d" "put_all (w # ws) d = put_all ws (put_block (fst w) (snd w) d)"
    "put_all (us @ ws) d = put_all ws (put_all us d)"
    by (simp_all add: put_all_def split_def)
  show "disksize (put_all ws d) = disksize d" "d_writes (put_all ws d) = d_writes d @ ws"
    by (induction ws arbitrary: d) (simp_all add: put_all_def split_def)
qed

lemma put_all_other: "n \<notin> fst ` set ws \<Longrightarrow> memdisk (put_all ws d) n = memdisk d n"
  by (induction ws arbitrary: d) auto

lemma put_all_at:
  "distinct (map fst ws) \<Longrightarrow> i < length ws \<Longrightarrow> memdisk (put_all ws d) (fst (ws ! i)) = snd (ws ! i)"
proof (induction ws arbitrary: d i)
  case (Cons w ws)
  then show ?case by (cases i) (auto simp: put_all_other)
qed simp

text \<open>Block \<open>i\<close> of the log that starts at \<open>st\<close>, and a log whose blocks and home blocks are apart.\<close>

definition lblk :: "u32 \<Rightarrow> nat \<Rightarrow> u32" where
  "lblk st i = st + of_nat i + 1"

definition log_layout :: "u32 \<Rightarrow> u32 list \<Rightarrow> u32 \<Rightarrow> bool" where
  "log_layout st W sz \<longleftrightarrow> length W < NBUF \<and> distinct W \<and> unat st + length W < unat sz \<and>
    (\<forall>w\<in>set W. w < sz \<and> unat w \<notin> {unat st..unat st + length W})"

lemma lblk_unat:
  assumes "log_layout st W sz" and "i < length W"
  shows "unat (lblk st i) = unat st + i + 1"
proof -
  have "unat st + i + 1 < 2 ^ 32" using assms unsigned_less [of sz, where ?'a = nat] by (simp add: log_layout_def)
  moreover have "lblk st i = of_nat (unat st + i + 1)" by (simp add: lblk_def)
  moreover have "unat (of_nat k :: u32) = k" if "k < 2 ^ 32" for k using that by (simp add: unat_of_nat)
  ultimately show ?thesis by metis
qed

lemma lblk_facts:
  assumes "log_layout st W sz" and "i < length W"
  shows "lblk st i < sz" "lblk st i \<noteq> st" "lblk st i \<notin> set W" "W ! i < sz" "W ! i \<noteq> st" "lblk st i \<noteq> W ! i"
proof -
  note u = lblk_unat [OF assms]
  show "lblk st i < sz" "lblk st i \<noteq> st" "lblk st i \<notin> set W" "W ! i < sz"
    using assms u by (auto simp: log_layout_def word_less_nat_alt)
  then show "lblk st i \<noteq> W ! i" using assms(2) nth_mem by metis
  have "unat (W ! i) \<notin> {unat st..unat st + length W}"
    using assms(1) nth_mem [OF assms(2)] unfolding log_layout_def by blast
  then show "W ! i \<noteq> st" by auto
qed

section \<open>Two blocks at a time\<close>

lemma two_reads:
  assumes I: "cache_inv me {} s" and xy: "x \<noteq> y" "x < disksize (dsk s)" "y < disksize (dsk s)"
    and room: "card {n. dirty s n} < NBUF" "dirty s y \<or> card {n. dirty s n} + 1 < NBUF"
  shows "\<exists>b c s1 s2. bread 1 x s = Ret b s1 \<and> bread 1 y s1 = Ret c s2 \<and> b \<noteq> c \<and> cache_inv me {b, c} s2 \<and>
    bio_same s s1 \<and> bio_same s s2 \<and> dsk s2 = dsk s \<and> blk s2 = blk s \<and> dirty s2 = dirty s \<and>
    b_blockno (bufs s2 ! b) = x \<and> b_blockno (bufs s2 ! c) = y"
proof -
  obtain b s1 where s1: "bread 1 x s = Ret b s1" "cache_inv me {b} s1" "bio_same s s1" "dsk s1 = dsk s"
      "blk s1 = blk s" "dirty s1 = dirty s" "b_blockno (bufs s1 ! b) = x"
    using bread_ok [OF I xy(2)] room by auto
  obtain c s2 where s2: "bread 1 y s1 = Ret c s2" "c \<noteq> b" "cache_inv me {b, c} s2" "bio_same s1 s2" "dsk s2 = dsk s1"
      "blk s2 = blk s1" "dirty s2 = dirty s1" "b_blockno (bufs s2 ! c) = y" "bufs s2 ! b = bufs s1 ! b"
    using bread_ok [OF s1(2), of y] xy room s1 by (auto simp: insert_commute)
  then show ?thesis using s1 bio_same_trans [OF s1(3) s2(4)] by auto
qed

lemma two_rels:
  assumes I: "cache_inv me {b, c} s" and "b \<noteq> c"
  shows "\<exists>s1 t. brelse b s = Ret () s1 \<and> brelse c s1 = Ret () t \<and> cache_inv me {} t \<and> bio_same s t \<and> dsk t = dsk s \<and>
    blk t = blk s \<and> dirty t = dirty s"
proof -
  have e: "{b, c} - {b} = {c}" using assms(2) by auto
  obtain s1 where s1: "brelse b s = Ret () s1" "cache_inv me {c} s1" "bio_same s s1" "dsk s1 = dsk s" "blk s1 = blk s"
      "dirty s1 = dirty s"
    using brelse_ok [OF I, of b] unfolding e by auto
  obtain t where "brelse c s1 = Ret () t" "cache_inv me {} t" "bio_same s1 t" "dsk t = dsk s1" "blk t = blk s1"
      "dirty t = dirty s1"
    using brelse_ok [OF s1(2), of c] by auto
  then show ?thesis using s1 bio_same_trans [OF s1(3)] by auto
qed

lemma bio_same_log [simp]: "bio_same s t \<Longrightarrow> logst t = logst s"
  by (auto simp: bio_same_def)

lemma write_step:
  fixes s :: "'z bstate_scheme"
  assumes "cache_inv me H s" and "c \<in> H" and "b_blockno (bufs s ! c) < disksize (dsk s)"
  shows "\<exists>t. (\<forall>K :: (unit, 'z bstate_scheme) kern. andthen (set_data c (\<lambda>_. d)) (andthen (bwrite c) K) s = K t) \<and> cache_inv me H t \<and> bio_same s t \<and>
    dsk t = put_block (unat (b_blockno (bufs s ! c))) d (dsk s) \<and> blk t = (blk s)(b_blockno (bufs s ! c) := d) \<and>
    dirty t = (dirty s)(b_blockno (bufs s ! c) := False)"
proof -
  obtain t where t: "andthen (buf_set c (\<lambda>u. u\<lparr>b_data := (\<lambda>_. d) (b_data u)\<rparr>)) (bwrite c) s = Ret () t" "cache_inv me H t" "bio_same s t"
    "dsk t = put_block (unat (b_blockno (bufs s ! c))) d (dsk s)" "blk t = (blk s)(b_blockno (bufs s ! c) := d)"
    "dirty t = (dirty s)(b_blockno (bufs s ! c) := False)"
    using bwrite_ok [OF assms, of "\<lambda>_. d"] by auto
  moreover have "andthen (set_data c (\<lambda>_. d)) (andthen (bwrite c) K) s = K t" for K :: "(unit, 'z bstate_scheme) kern"
    using t(1) by (simp add: set_data_def buf_set_def kern)
  ultimately show ?thesis by blast
qed

section \<open>The copying loops\<close>

definition log_at :: "u32 \<Rightarrow> u32 list \<Rightarrow> log \<Rightarrow> bool" where
  "log_at st W g \<longleftrightarrow> lg_dev g = 1 \<and> lg_start g = st \<and> lh_n (lg_lh g) = int (length W) \<and>
     length (lh_block (lg_lh g)) = LOGSIZE \<and> take (length W) (lh_block (lg_lh g)) = W"

lemma log_atD:
  assumes "log_at st W g"
  shows "lg_dev g = 1" "lg_start g = st" "lh_n (lg_lh g) = int (length W)" "i < length W \<Longrightarrow> lh_block (lg_lh g) ! i = W ! i"
  using assms nth_take [of i "length W" "lh_block (lg_lh g)"] by (auto simp: log_at_def)

lemma install_step:
  fixes s :: "'z lstate_scheme"
  assumes I: "cache_inv me {} s" and L: "log_at st W (logst s)" "log_layout st W (disksize (dsk s))" "i < length W"
    and room: "card {n. dirty s n} < NBUF" "dirty s (W ! i) \<or> card {n. dirty s n} + 1 < NBUF"
  shows "\<exists>t. install_loop (Suc k) i s = install_loop k (Suc i) t \<and> cache_inv me {} t \<and> bio_same s t \<and>
    dsk t = put_block (unat (W ! i)) (blk s (lblk st i)) (dsk s) \<and> blk t = (blk s)(W ! i := blk s (lblk st i)) \<and>
    dirty t = (dirty s)(W ! i := False)"
proof -
  note F = lblk_facts [OF L(2,3)] and G = log_atD [OF L(1)]
  obtain b c s1 s2 where s2: "bread 1 (lblk st i) s = Ret b s1" "bread 1 (W ! i) s1 = Ret c s2" "b \<noteq> c" "cache_inv me {b, c} s2"
      "bio_same s s1" "bio_same s s2" "dsk s2 = dsk s" "blk s2 = blk s" "dirty s2 = dirty s"
      "b_blockno (bufs s2 ! b) = lblk st i" "b_blockno (bufs s2 ! c) = W ! i"
    using two_reads [OF I F(6,1,4) room] by blast
  have d: "b_data (bufs s2 ! b) = blk s (lblk st i)" using blk_held [OF s2(4), of b] s2 by simp
  have "b_blockno (bufs s2 ! c) < disksize (dsk s2)" using s2 F by simp
  then obtain s3 where s3:  "\<And>K :: (unit, 'z lstate_scheme) kern. andthen (set_data c (\<lambda>_. blk s (lblk st i))) (andthen (bwrite c) K) s2 = K s3" "cache_inv me {b, c} s3"
      "bio_same s2 s3" "dsk s3 = put_block (unat (W ! i)) (blk s (lblk st i)) (dsk s)"
      "blk s3 = (blk s)(W ! i := blk s (lblk st i))" "dirty s3 = (dirty s)(W ! i := False)"
    using write_step [OF s2(4), of c "blk s (lblk st i)"] s2 by auto
  obtain s4 t where t: "brelse b s3 = Ret () s4" "brelse c s4 = Ret () t" "cache_inv me {} t" "bio_same s3 t" "dsk t = dsk s3"
      "blk t = blk s3" "dirty t = dirty s3"
    using two_rels [OF s3(2) s2(3)] by blast
  have "bio_same s t" using s2(6) s3(3) t(4) bio_same_trans by blast
  moreover have "install_loop (Suc k) i s = install_loop k (Suc i) t"
    using s2 d s3(1) t(1,2) G L(3) by (simp add: kern log_get_def lh_get_def buf_get_def lblk_def [symmetric])
  ultimately show ?thesis using t s3 by auto
qed

lemma write_log_step:
  fixes s :: "'z lstate_scheme"
  assumes I: "cache_inv me {} s" and L: "log_at st W (logst s)" "log_layout st W (disksize (dsk s))" "i < length W"
    and room: "card {n. dirty s n} < NBUF" "dirty s (W ! i) \<or> card {n. dirty s n} + 1 < NBUF"
  shows "\<exists>t. write_log_loop (Suc k) i s = write_log_loop k (Suc i) t \<and> cache_inv me {} t \<and> bio_same s t \<and>
    dsk t = put_block (unat (lblk st i)) (blk s (W ! i)) (dsk s) \<and> blk t = (blk s)(lblk st i := blk s (W ! i)) \<and>
    dirty t = (dirty s)(lblk st i := False)"
proof -
  note F = lblk_facts [OF L(2,3)] and G = log_atD [OF L(1)]
  obtain b c s1 s2 where s2: "bread 1 (lblk st i) s = Ret b s1" "bread 1 (W ! i) s1 = Ret c s2" "b \<noteq> c" "cache_inv me {b, c} s2"
      "bio_same s s1" "bio_same s s2" "dsk s2 = dsk s" "blk s2 = blk s" "dirty s2 = dirty s"
      "b_blockno (bufs s2 ! b) = lblk st i" "b_blockno (bufs s2 ! c) = W ! i"
    using two_reads [OF I F(6,1,4) room] by blast
  have d: "b_data (bufs s2 ! c) = blk s (W ! i)" using blk_held [OF s2(4), of c] s2 by simp
  have "b_blockno (bufs s2 ! b) < disksize (dsk s2)" using s2 F by simp
  then obtain s3 where s3:  "\<And>K :: (unit, 'z lstate_scheme) kern. andthen (set_data b (\<lambda>_. blk s (W ! i))) (andthen (bwrite b) K) s2 = K s3" "cache_inv me {c, b} s3"
      "bio_same s2 s3" "dsk s3 = put_block (unat (lblk st i)) (blk s (W ! i)) (dsk s)"
      "blk s3 = (blk s)(lblk st i := blk s (W ! i))" "dirty s3 = (dirty s)(lblk st i := False)"
    using write_step [OF s2(4), of b "blk s (W ! i)"] s2 by (auto simp: insert_commute)
  obtain s4 t where t: "brelse c s3 = Ret () s4" "brelse b s4 = Ret () t" "cache_inv me {} t" "bio_same s3 t" "dsk t = dsk s3"
      "blk t = blk s3" "dirty t = dirty s3"
    using two_rels [OF s3(2)] s2(3) by blast
  have "bio_same s t" using s2(6) s3(3) t(4) bio_same_trans by blast
  moreover have "write_log_loop (Suc k) i s = write_log_loop k (Suc i) t"
    using s2 d s3(1) t(1,2) G L(3) by (simp add: kern log_get_def lh_get_def buf_get_def lblk_def [symmetric])
  ultimately show ?thesis using t s3 by auto
qed

lemma cache_inv_same: "cache_inv me H s \<Longrightarrow> bio_same s s"
  by (rule bio_sameI) (simp_all add: cache_inv_def bio_ready_def same_mach_def)

lemma card_pending: "log_layout st W sz \<Longrightarrow> card {n. p \<and> n \<in> set (drop i W)} < NBUF"
proof -
  assume "log_layout st W sz"
  moreover have "card {n. p \<and> n \<in> set (drop i W)} \<le> card (set W)"
    by (rule card_mono) (auto dest: in_set_dropD)
  ultimately show ?thesis using card_length [of W] by (simp add: log_layout_def)
qed

lemma pending_step:
  assumes "log_layout st W sz" and "i < length W"
  shows "(\<lambda>n. p \<and> n \<in> set (drop i W))(W ! i := False) = (\<lambda>n. p \<and> n \<in> set (drop (Suc i) W))"
    and "W ! i \<notin> set (drop (Suc i) W)"
proof -
  have e: "drop i W = W ! i # drop (Suc i) W" using assms(2) by (simp add: Cons_nth_drop_Suc)
  have "distinct (drop i W)" using assms(1) by (simp add: log_layout_def)
  then show n: "W ! i \<notin> set (drop (Suc i) W)" unfolding e by simp
  then show "(\<lambda>n. p \<and> n \<in> set (drop i W))(W ! i := False) = (\<lambda>n. p \<and> n \<in> set (drop (Suc i) W))"
    unfolding e by (auto simp: fun_eq_iff)
qed

lemma pending_room:
  assumes "log_layout st W sz" and "i < length W"
  shows "p \<and> W ! i \<in> set (drop i W) \<or> card {n. p \<and> n \<in> set (drop i W)} + 1 < NBUF"
  using Cons_nth_drop_Suc [OF assms(2), symmetric] by (cases p) (simp_all add: NBUF_def MAXOPBLOCKS_def)

lemma upt_loop: "i + Suc k = n \<Longrightarrow> map f [i..<n] = f i # map f [Suc i..<n]"
  by (simp add: upt_conv_Cons)

lemma install_loop_ok:
  "cache_inv me {} s \<Longrightarrow> log_at st W (logst s) \<Longrightarrow> log_layout st W (disksize (dsk s)) \<Longrightarrow> i + k = length W \<Longrightarrow>
   dirty s = (\<lambda>n. p \<and> n \<in> set (drop i W)) \<Longrightarrow>
   \<exists>t. install_loop k i s = Ret () t \<and> cache_inv me {} t \<and> bio_same s t \<and>
     dsk t = put_all (map (\<lambda>j. (unat (W ! j), blk s (lblk st j))) [i..<length W]) (dsk s) \<and>
     (\<forall>n. n \<notin> set W \<longrightarrow> blk t n = blk s n) \<and> dirty t = (\<lambda>_. False)"
proof (induction k arbitrary: i s)
  case 0
  have "dirty s = (\<lambda>_. False)" using 0(4) unfolding 0(5) by simp
  then show ?case using 0(1,4) cache_inv_same [OF 0(1)] by (simp add: kern)
next
  case (Suc k)
  have i: "i < length W" using Suc.prems(4) by simp
  have room: "card {n. dirty s n} < NBUF" "dirty s (W ! i) \<or> card {n. dirty s n} + 1 < NBUF"
    unfolding Suc.prems(5) using card_pending [OF Suc.prems(3)] pending_room [OF Suc.prems(3) i] by blast+
  obtain u where u: "install_loop (Suc k) i s = install_loop k (Suc i) u" "cache_inv me {} u" "bio_same s u"
      "dsk u = put_block (unat (W ! i)) (blk s (lblk st i)) (dsk s)" "blk u = (blk s)(W ! i := blk s (lblk st i))"
      "dirty u = (dirty s)(W ! i := False)"
    using install_step [OF Suc.prems(1-3) i room] by blast
  have d: "dirty u = (\<lambda>n. p \<and> n \<in> set (drop (Suc i) W))"
    unfolding u(6) Suc.prems(5) by (rule pending_step [OF Suc.prems(3) i])
  have j: "blk u (lblk st j) = blk s (lblk st j)" if "j < length W" for j
    using lblk_facts(3) [OF Suc.prems(3) that] i nth_mem [of i W] unfolding u(5) by auto
  obtain t where t: "install_loop k (Suc i) u = Ret () t" "cache_inv me {} t" "bio_same u t"
      "dsk t = put_all (map (\<lambda>j. (unat (W ! j), blk u (lblk st j))) [Suc i..<length W]) (dsk u)"
      "\<forall>n. n \<notin> set W \<longrightarrow> blk t n = blk u n" "dirty t = (\<lambda>_. False)"
    using Suc.IH [OF u(2), of "Suc i"] Suc.prems(2-4) u(3,4) d by auto
  have "map (\<lambda>j. (unat (W ! j), blk u (lblk st j))) [Suc i..<length W] = map (\<lambda>j. (unat (W ! j), blk s (lblk st j))) [Suc i..<length W]"
    using j by simp
  note dt = t(4) [unfolded this u(4)]
  have "\<forall>n. n \<notin> set W \<longrightarrow> blk t n = blk s n" using t(5) i unfolding u(5) by auto
  then show ?case
    using t(1,2,6) u(1) dt bio_same_trans [OF u(3) t(3)] unfolding upt_loop [OF Suc.prems(4)] by (intro exI [of _ t]) simp
qed

lemma write_log_loop_ok:
  "cache_inv me {} s \<Longrightarrow> log_at st W (logst s) \<Longrightarrow> log_layout st W (disksize (dsk s)) \<Longrightarrow> i + k = length W \<Longrightarrow>
   dirty s = (\<lambda>n. n \<in> set W) \<Longrightarrow>
   \<exists>t. write_log_loop k i s = Ret () t \<and> cache_inv me {} t \<and> bio_same s t \<and>
     dsk t = put_all (map (\<lambda>j. (unat (lblk st j), blk s (W ! j))) [i..<length W]) (dsk s) \<and>
     (\<forall>n. n \<notin> lblk st ` {..<length W} \<longrightarrow> blk t n = blk s n) \<and> dirty t = dirty s"
proof (induction k arbitrary: i s)
  case 0
  show ?case using 0(1,4) cache_inv_same [OF 0(1)] by (simp add: kern)
next
  case (Suc k)
  have i: "i < length W" using Suc.prems(4) by simp
  have room: "card {n. dirty s n} < NBUF" "dirty s (W ! i)"
    unfolding Suc.prems(5) using card_pending [OF Suc.prems(3), of True 0] i by simp_all
  obtain u where u: "write_log_loop (Suc k) i s = write_log_loop k (Suc i) u" "cache_inv me {} u" "bio_same s u"
      "dsk u = put_block (unat (lblk st i)) (blk s (W ! i)) (dsk s)" "blk u = (blk s)(lblk st i := blk s (W ! i))"
      "dirty u = (dirty s)(lblk st i := False)"
    using write_log_step [OF Suc.prems(1-3) i room(1) disjI1 [OF room(2)]] by blast
  have d: "dirty u = (\<lambda>n. n \<in> set W)"
    unfolding u(6) Suc.prems(5) using lblk_facts(3) [OF Suc.prems(3) i] by (auto simp: fun_eq_iff)
  have j: "blk u (W ! j) = blk s (W ! j)" if "j < length W" for j
    using lblk_facts(3) [OF Suc.prems(3) i] nth_mem [OF that] unfolding u(5) by auto
  obtain t where t: "write_log_loop k (Suc i) u = Ret () t" "cache_inv me {} t" "bio_same u t"
      "dsk t = put_all (map (\<lambda>j. (unat (lblk st j), blk u (W ! j))) [Suc i..<length W]) (dsk u)"
      "\<forall>n. n \<notin> lblk st ` {..<length W} \<longrightarrow> blk t n = blk u n" "dirty t = dirty u"
    using Suc.IH [OF u(2), of "Suc i"] Suc.prems(2-4) u(3,4) d by auto
  have "map (\<lambda>j. (unat (lblk st j), blk u (W ! j))) [Suc i..<length W] = map (\<lambda>j. (unat (lblk st j), blk s (W ! j))) [Suc i..<length W]"
    using j by simp
  note dt = t(4) [unfolded this u(4)]
  have "\<forall>n. n \<notin> lblk st ` {..<length W} \<longrightarrow> blk t n = blk s n" using t(5) i unfolding u(5) by auto
  then show ?case
    using t(1,2,6) u(1) d Suc.prems(5) dt bio_same_trans [OF u(3) t(3)] unfolding upt_loop [OF Suc.prems(4)] by (intro exI [of _ t]) simp
qed

lemma of_le32_le32 [simp]: "of_le32 (le32 x) = x"
proof (rule bit_word_eqI)
  fix n assume "n < LENGTH(32)"
  then have n: "n < 32" by simp
  consider "n < 8" | "8 \<le> n" "n < 16" | "16 \<le> n" "n < 24" | "24 \<le> n" "n < 32" using n by linarith
  then show "bit (of_le32 (le32 x)) n = bit x n"
    by cases (auto simp: of_le32_def le32_def bit_simps)
qed

lemma length_le32 [simp]: "length (le32 x) = 4" by (simp add: le32_def)

lemma rd_wr32 [simp]: "off + 4 \<le> length d \<Longrightarrow> rd32 (wr32 d off v) off = v"
  using take_drop_blit [of off "le32 v" d] by (simp add: rd32_def wr32_def)

lemma rd_wr32_other: "off + 4 \<le> length d \<Longrightarrow> o' + 4 \<le> off \<Longrightarrow> rd32 (wr32 d off v) o' = rd32 d o'"
  using le_diff_conv2 [of o' off 4] by (simp add: rd32_def wr32_def blit_def drop_take min_def)

lemma length_wr32 [simp]: "off + 4 \<le> length d \<Longrightarrow> length (wr32 d off v) = length d"
  by (simp add: wr32_def)

lemma length_put_words [simp]: "off + 4 * length ws \<le> length d \<Longrightarrow> length (put_words d off ws) = length d"
  by (induction ws arbitrary: d off) simp_all

lemma rd_put_words_before: "off + 4 * length ws \<le> length d \<Longrightarrow> o' + 4 \<le> off \<Longrightarrow> rd32 (put_words d off ws) o' = rd32 d o'"
  by (induction ws arbitrary: d off) (simp_all add: rd_wr32_other)

lemma rd_put_words: "off + 4 * length ws \<le> length d \<Longrightarrow> i < length ws \<Longrightarrow> rd32 (put_words d off ws) (off + 4 * i) = ws ! i"
proof (induction ws arbitrary: d off i)
  case (Cons w ws)
  show ?case
  proof (cases i)
    case 0
    then show ?thesis using Cons.prems by (simp add: rd_put_words_before)
  next
    case (Suc j)
    then show ?thesis using Cons.prems Cons.IH [of "off + 4" "wr32 d off w" j] by (simp add: add.assoc)
  qed
qed simp

definition head_of :: "u32 list \<Rightarrow> u8 list \<Rightarrow> u8 list" where
  "head_of W d = put_words (wr32 d 0 (of_nat (length W))) 4 W"

definition head_says :: "u8 list \<Rightarrow> u32 list \<Rightarrow> bool" where
  "head_says d W \<longleftrightarrow> sint (rd32 d 0) = int (length W) \<and> head_blocks d (length W) = W"

lemma head_roundtrip:
  assumes "length W \<le> LOGSIZE" and "length d = BSIZE"
  shows "head_says (head_of W d) W" "length (head_of W d) = BSIZE"
proof -
  have l: "4 + 4 * length W \<le> length d" using assms by (simp add: LOGSIZE_def MAXOPBLOCKS_def BSIZE_def)
  then show "length (head_of W d) = BSIZE" using assms by (simp add: head_of_def)
  have "rd32 (head_of W d) 0 = of_nat (length W)" using l by (simp add: head_of_def rd_put_words_before)
  moreover have "sint (of_nat (length W) :: u32) = int (length W)"
    using assms(1) by (simp add: LOGSIZE_def MAXOPBLOCKS_def signed_of_nat signed_take_bit_int_eq_self)
  moreover have "head_blocks (head_of W d) (length W) = W"
    using l by (intro nth_equalityI) (simp_all add: head_blocks_def head_of_def rd_put_words add.commute)
  ultimately show "head_says (head_of W d) W" by (simp add: head_says_def)
qed

section \<open>Header, commit and recovery\<close>

lemma logst_frame [simp]:
  "cache_inv me H (s\<lparr>logst := g\<rparr>) = cache_inv me H s" "blk (s\<lparr>logst := g\<rparr>) = blk s" "dirty (s\<lparr>logst := g\<rparr>) = dirty s"
  by (simp_all add: cache_inv_def bio_ready_def cache_ok_def in_use_def blk_def dirty_def fun_eq_iff cong: option.case_cong if_cong)

lemma write_head_ok:
  assumes I: "cache_inv me {} s" and L: "log_at st W (logst s)" and st: "st < disksize (dsk s)" and room: "card {n. dirty s n} < NBUF"
  shows "\<exists>t. write_head s = Ret () t \<and> cache_inv me {} t \<and> bio_same s t \<and>
    dsk t = put_block (unat st) (head_of W (blk s st)) (dsk s) \<and> blk t = (blk s)(st := head_of W (blk s st)) \<and>
    dirty t = (dirty s)(st := False)"
proof -
  note G = log_atD [OF L]
  have W: "take (nat (lh_n (lg_lh (logst s)))) (lh_block (lg_lh (logst s))) = W" "word_of_int (lh_n (lg_lh (logst s))) = (of_nat (length W) :: u32)"
    using L by (simp_all add: log_at_def)
  obtain b s1 where s1: "bread 1 st s = Ret b s1" "cache_inv me {b} s1" "bio_same s s1" "dsk s1 = dsk s" "blk s1 = blk s"
      "dirty s1 = dirty s" "b_blockno (bufs s1 ! b) = st"
    using bread_ok [OF I st] room by auto
  have d: "b_data (bufs s1 ! b) = blk s st" using blk_held [OF s1(2), of b] s1 by simp
  obtain s2 where s2: "andthen (buf_set b (\<lambda>u. u\<lparr>b_data := head_of W (b_data u)\<rparr>)) (bwrite b) s1 = Ret () s2" "cache_inv me {b} s2"
      "bio_same s1 s2" "dsk s2 = put_block (unat st) (head_of W (blk s st)) (dsk s)"
      "blk s2 = (blk s)(st := head_of W (blk s st))" "dirty s2 = (dirty s)(st := False)"
    using bwrite_ok [OF s1(2), of b "head_of W"] s1 d st by auto
  obtain t where t: "brelse b s2 = Ret () t" "cache_inv me {} t" "bio_same s2 t" "dsk t = dsk s2" "blk t = blk s2" "dirty t = dirty s2"
    using brelse_ok [OF s2(2), of b] by auto
  have l: "b < length (bufs s1)" using held_facts(2) [OF s1(2)] by simp
  have "write_head s = Ret () t"
    using s1(1,3) s2(1) t(1) G(1,2) W l
    by (simp add: write_head_def kern log_get_def lh_get_def set_data_def buf_set_def head_of_def comp_def)
  then show ?thesis using s2 t bio_same_trans [OF s1(3) bio_same_trans [OF s2(3) t(3)]] by auto
qed

lemma read_head_ok:
  assumes I: "cache_inv me {} s" and g: "lg_dev (logst s) = 1" "lg_start (logst s) = st" "length (lh_block (lg_lh (logst s))) = LOGSIZE"
    and st: "st < disksize (dsk s)" and room: "card {n. dirty s n} < NBUF"
    and W: "head_says (blk s st) W" "length W \<le> LOGSIZE"
  shows "\<exists>t. read_head s = Ret () t \<and> cache_inv me {} t \<and> log_at st W (logst t) \<and> dsk t = dsk s \<and> blk t = blk s \<and> dirty t = dirty s"
proof -
  obtain b s1 where s1: "bread 1 st s = Ret b s1" "cache_inv me {b} s1" "bio_same s s1" "dsk s1 = dsk s" "blk s1 = blk s"
      "dirty s1 = dirty s" "b_blockno (bufs s1 ! b) = st"
    using bread_ok [OF I st] room by auto
  have d: "b_data (bufs s1 ! b) = blk s st" using blk_held [OF s1(2), of b] s1 by simp
  let ?g = "(logst s)\<lparr>lg_lh := (lg_lh (logst s))\<lparr>lh_n := int (length W), lh_block := blit (lh_block (lg_lh (logst s))) 0 W\<rparr>\<rparr>"
  obtain t where t: "brelse b (s1\<lparr>logst := ?g\<rparr>) = Ret () t" "cache_inv me {} t" "bio_same (s1\<lparr>logst := ?g\<rparr>) t"
      "dsk t = dsk s" "blk t = blk s" "dirty t = dirty s"
    using brelse_ok [of me "{b}" "s1\<lparr>logst := ?g\<rparr>" b] s1 by auto
  have "read_head s = Ret () t"
    using s1(1,3) d t(1) g W
    by (simp add: read_head_def kern log_get_def lh_get_def lh_set_def log_set_def buf_get_def head_says_def Let_def)
  moreover have "logst t = ?g" using bio_same_log [OF t(3)] by simp
  ultimately show ?thesis using t(2,4-6) g W(2) by (intro exI [of _ t]) (simp add: log_at_def blit_def)
qed

definition commit_writes :: "u32 \<Rightarrow> u32 list \<Rightarrow> (u32 \<Rightarrow> u8 list) \<Rightarrow> (nat \<times> u8 list) list" where
  "commit_writes st W B = map (\<lambda>j. (unat (lblk st j), B (W ! j))) [0..<length W] @ [(unat st, head_of W (B st))] @
     map (\<lambda>j. (unat (W ! j), B (W ! j))) [0..<length W] @ [(unat st, head_of [] (head_of W (B st)))]"

lemma log_at_reset: "log_at st W g \<Longrightarrow> log_at st [] (g\<lparr>lg_lh := (lg_lh g)\<lparr>lh_n := 0\<rparr>\<rparr>)"
  by (simp add: log_at_def)

lemma NBUF_pos [simp]: "0 < NBUF"
  by (simp add: NBUF_def MAXOPBLOCKS_def)

lemma log_writes_at:
  assumes "log_layout st W sz" and "j < length W"
  shows "memdisk (put_all (map (\<lambda>j. (unat (lblk st j), F j)) [0..<length W]) d) (unat (lblk st j)) = F j"
proof -
  let ?ws = "map (\<lambda>j. (unat (lblk st j), F j)) [0..<length W]"
  have "distinct (map fst ?ws)" using lblk_unat [OF assms(1)] by (auto simp: distinct_map inj_on_def)
  from put_all_at [OF this, of j d] show ?thesis using assms(2) by simp
qed

lemma home_writes_at:
  assumes "log_layout st W sz" and "j < length W"
  shows "memdisk (put_all (map (\<lambda>j. (unat (W ! j), F j)) [0..<length W]) d) (unat (W ! j)) = F j"
proof -
  let ?ws = "map (\<lambda>j. (unat (W ! j), F j)) [0..<length W]"
  have "distinct (map fst ?ws)"
    using assms(1) by (auto simp: log_layout_def distinct_map inj_on_def nth_eq_iff_index_eq word_unat_eq_iff [symmetric])
  from put_all_at [OF this, of j d] show ?thesis using assms(2) by simp
qed

lemma commit_ok:
  assumes I: "cache_inv me {} s" and L: "log_at st W (logst s)" "log_layout st W (disksize (dsk s))" "W \<noteq> []"
    and d: "dirty s = (\<lambda>n. n \<in> set W)"
  shows "\<exists>t. commit s = Ret () t \<and> cache_inv me {} t \<and> log_at st [] (logst t) \<and>
    dsk t = put_all (commit_writes st W (blk s)) (dsk s) \<and> dirty t = (\<lambda>_. False)"
proof -
  note G = log_atD [OF L(1)]
  have st: "st < disksize (dsk s)" using L(2) by (auto simp: log_layout_def word_less_nat_alt)
  obtain s1 where s1: "write_log_loop (length W) 0 s = Ret () s1" "cache_inv me {} s1" "bio_same s s1"
      "dsk s1 = put_all (map (\<lambda>j. (unat (lblk st j), blk s (W ! j))) [0..<length W]) (dsk s)"
      "\<forall>n. n \<notin> lblk st ` {..<length W} \<longrightarrow> blk s1 n = blk s n" "dirty s1 = dirty s"
    using write_log_loop_ok [OF I L(1,2), of 0 "length W"] d by auto
  have "st \<notin> lblk st ` {..<length W}" using lblk_facts(2) [OF L(2)] by (metis imageE lessThan_iff)
  then have st1: "blk s1 st = blk s st" using s1(5) by simp
  have W1: "blk s1 (W ! j) = blk s (W ! j)" if "j < length W" for j
  proof -
    have "W ! j \<notin> lblk st ` {..<length W}" using lblk_facts(3) [OF L(2)] nth_mem [OF that] by (metis imageE lessThan_iff)
    then show ?thesis using s1(5) by simp
  qed
  have "card {n. dirty s1 n} < NBUF" unfolding s1(6) d using card_pending [OF L(2), of True 0] by simp
  then obtain s2 where s2: "write_head s1 = Ret () s2" "cache_inv me {} s2" "bio_same s1 s2"
      "dsk s2 = put_block (unat st) (head_of W (blk s st)) (dsk s1)" "blk s2 = (blk s1)(st := head_of W (blk s st))"
      "dirty s2 = (dirty s1)(st := False)"
    using write_head_ok [OF s1(2), of st W] s1(3,4) L(1) st st1 by auto
  have "st \<notin> set W" using L(2) by (auto simp: log_layout_def)
  then have d2: "dirty s2 = (\<lambda>n. True \<and> n \<in> set (drop 0 W))" unfolding s2(6) s1(6) d by (auto simp: fun_eq_iff)
  have lj: "blk s2 (lblk st j) = blk s (W ! j)" if "j < length W" for j
  proof -
    have "\<not> dirty s1 (lblk st j)" unfolding s1(6) d by (rule lblk_facts(3) [OF L(2) that])
    then have "blk s1 (lblk st j) = blk s (W ! j)"
      using blk_clean [OF cache_invD(2) [OF s1(2)]] log_writes_at [OF L(2) that] unfolding s1(4) by simp
    then show ?thesis using lblk_facts(2) [OF L(2) that] unfolding s2(5) by simp
  qed
  have l2: "log_at st W (logst s2)" "log_layout st W (disksize (dsk s2))" using L(1,2) s1(3,4) s2(3,4) by simp_all
  obtain s3 where s3: "install_loop (length W) 0 s2 = Ret () s3" "cache_inv me {} s3" "bio_same s2 s3"
      "dsk s3 = put_all (map (\<lambda>j. (unat (W ! j), blk s2 (lblk st j))) [0..<length W]) (dsk s2)"
      "\<forall>n. n \<notin> set W \<longrightarrow> blk s3 n = blk s2 n" "dirty s3 = (\<lambda>_. False)"
    using install_loop_ok [OF s2(2) l2 add_0 d2] by blast
  let ?s = "s3\<lparr>logst := (logst s3)\<lparr>lg_lh := (lg_lh (logst s3))\<lparr>lh_n := 0\<rparr>\<rparr>\<rparr>"
  have l3: "logst s3 = logst s" "disksize (dsk s3) = disksize (dsk s)" using s1(3,4) s2(3,4) s3(3,4) by simp_all
  have st3: "blk s3 st = head_of W (blk s st)" using s3(5) s2(5) \<open>st \<notin> set W\<close> by simp
  obtain t where t: "write_head ?s = Ret () t" "cache_inv me {} t" "bio_same ?s t"
      "dsk t = put_block (unat st) (head_of [] (head_of W (blk s st))) (dsk s3)" "dirty t = (dirty s3)(st := False)"
    using write_head_ok [of me ?s st "[]"] s3(2,6) l3 st3 st log_at_reset [OF L(1)] by auto
  have w: "map (\<lambda>j. (unat (W ! j), blk s2 (lblk st j))) [0..<length W] = map (\<lambda>j. (unat (W ! j), blk s (W ! j))) [0..<length W]"
    using lj by simp
  have "dsk t = put_all (commit_writes st W (blk s)) (dsk s)"
    unfolding t(4) s3(4) w s2(4) s1(4) commit_writes_def by simp
  moreover have "commit s = Ret () t"
    using G(3) L(3) s1(1,3) s2(1,3) s3(1) t(1)
    by (simp add: commit_def kern lh_get_def log_get_def lh_set_def log_set_def write_log_def install_trans_def)
  moreover have "log_at st [] (logst t)" using bio_same_log [OF t(3)] log_at_reset [OF L(1)] l3 by simp
  ultimately show ?thesis using t(2,5) s3(6) by (intro exI [of _ t]) auto
qed

lemma recover_ok:
  assumes I: "cache_inv me {} s" and g: "lg_dev (logst s) = 1" "lg_start (logst s) = st" "length (lh_block (lg_lh (logst s))) = LOGSIZE"
    and W: "head_says (memdisk (dsk s) (unat st)) W" "log_layout st W (disksize (dsk s))" and d: "dirty s = (\<lambda>_. False)"
  shows "\<exists>t. recover_from_log s = Ret () t \<and> cache_inv me {} t \<and> log_at st [] (logst t) \<and> dirty t = (\<lambda>_. False) \<and>
    dsk t = put_all (map (\<lambda>j. (unat (W ! j), memdisk (dsk s) (unat (lblk st j)))) [0..<length W] @
      [(unat st, head_of [] (memdisk (dsk s) (unat st)))]) (dsk s)"
proof -
  have B: "blk s n = memdisk (dsk s) (unat n)" for n using blk_clean [OF cache_invD(2) [OF I]] d by simp
  have st: "st < disksize (dsk s)" using W(2) by (auto simp: log_layout_def word_less_nat_alt)
  have len: "length W \<le> LOGSIZE" using W(2) by (simp add: log_layout_def NBUF_def LOGSIZE_def)
  have c0: "card {n. dirty s n} < NBUF" unfolding d by simp
  obtain s1 where s1: "read_head s = Ret () s1" "cache_inv me {} s1" "log_at st W (logst s1)" "dsk s1 = dsk s" "blk s1 = blk s"
      "dirty s1 = (\<lambda>n. False \<and> n \<in> set (drop 0 W))"
    using read_head_ok [OF I g st c0 W(1) [folded B] len] d by auto
  obtain s2 where s2: "install_loop (length W) 0 s1 = Ret () s2" "cache_inv me {} s2" "bio_same s1 s2"
      "dsk s2 = put_all (map (\<lambda>j. (unat (W ! j), blk s (lblk st j))) [0..<length W]) (dsk s)"
      "\<forall>n. n \<notin> set W \<longrightarrow> blk s2 n = blk s n" "dirty s2 = (\<lambda>_. False)"
    using install_loop_ok [OF s1(2,3) W(2) [folded s1(4)] add_0 s1(6), unfolded s1(4,5)] by blast
  let ?s = "s2\<lparr>logst := (logst s2)\<lparr>lg_lh := (lg_lh (logst s2))\<lparr>lh_n := 0\<rparr>\<rparr>\<rparr>"
  have l2: "logst s2 = logst s1" "disksize (dsk s2) = disksize (dsk s)" using s2(3,4) by simp_all
  have "st \<notin> set W" using W(2) by (auto simp: log_layout_def)
  then have st2: "blk s2 st = blk s st" using s2(5) by simp
  obtain t where t: "write_head ?s = Ret () t" "cache_inv me {} t" "bio_same ?s t"
      "dsk t = put_block (unat st) (head_of [] (blk s st)) (dsk s2)" "dirty t = (dirty s2)(st := False)"
    using write_head_ok [of me ?s st "[]"] s2(2,6) l2 st2 st log_at_reset [OF s1(3)] by auto
  have "recover_from_log s = Ret () t"
    using s1(1) s2(1) t(1) log_atD(3) [OF s1(3)]
    by (simp add: recover_from_log_def kern lh_get_def log_get_def lh_set_def log_set_def install_trans_def)
  moreover have "log_at st [] (logst t)" using bio_same_log [OF t(3)] log_at_reset [OF s1(3)] l2 by simp
  moreover have "dsk t = put_all (map (\<lambda>j. (unat (W ! j), memdisk (dsk s) (unat (lblk st j)))) [0..<length W] @
      [(unat st, head_of [] (memdisk (dsk s) (unat st)))]) (dsk s)"
    unfolding t(4) s2(4) B by simp
  ultimately show ?thesis using t(2,5) s2(6) by (intro exI [of _ t]) auto
qed

section \<open>A crash during commit\<close>

definition log_area :: "u32 \<Rightarrow> u32 list \<Rightarrow> nat set" where
  "log_area st W = {unat st..unat st + length W}"

abbreviation log_part :: "u32 \<Rightarrow> u32 list \<Rightarrow> (u32 \<Rightarrow> u8 list) \<Rightarrow> (nat \<times> u8 list) list" where
  "log_part st W B \<equiv> map (\<lambda>j. (unat (lblk st j), B (W ! j))) [0..<length W]"

abbreviation home_part :: "u32 list \<Rightarrow> (u32 \<Rightarrow> u8 list) \<Rightarrow> (nat \<times> u8 list) list" where
  "home_part W B \<equiv> map (\<lambda>j. (unat (W ! j), B (W ! j))) [0..<length W]"

lemma parts_fst:
  assumes "log_layout st W sz"
  shows "fst ` set (log_part st W B) \<subseteq> log_area st W - {unat st}" "fst ` set (home_part W B) = unat ` set W"
    "unat ` set W \<inter> log_area st W = {}" "unat st \<in> log_area st W" "j < length W \<Longrightarrow> unat (lblk st j) \<in> log_area st W - {unat st}"
proof -
  show "fst ` set (home_part W B) = unat ` set W" by (force simp: image_image in_set_conv_nth)
  show "unat ` set W \<inter> log_area st W = {}" using assms by (auto simp: log_layout_def log_area_def)
  show "unat st \<in> log_area st W" by (simp add: log_area_def)
  show l: "j < length W \<Longrightarrow> unat (lblk st j) \<in> log_area st W - {unat st}" for j
    using lblk_unat [OF assms] by (simp add: log_area_def)
  then show "fst ` set (log_part st W B) \<subseteq> log_area st W - {unat st}" by auto
qed

lemma take_other:
  assumes "n \<notin> fst ` set ws"
  shows "memdisk (put_all (take k ws) d) n = memdisk d n"
  using assms by (intro put_all_other) (auto dest: in_set_takeD)

lemma commit_writes_length [simp]: "length (commit_writes st W B) = 2 * length W + 2"
  by (simp add: commit_writes_def)

text \<open>What a crash after \<open>k\<close> of the writes leaves on the disk.\<close>

lemma crash_early:
  assumes "log_layout st W sz" and "k \<le> length W" and "n \<notin> log_area st W - {unat st}"
  shows "memdisk (put_all (take k (commit_writes st W B)) d) n = memdisk d n"
proof -
  have "take k (commit_writes st W B) = take k (log_part st W B)" using assms(2) by (simp add: commit_writes_def)
  moreover have "n \<notin> fst ` set (log_part st W B)" using parts_fst(1) [OF assms(1)] assms(3) by blast
  ultimately show ?thesis using take_other by simp
qed

lemma crash_middle:
  fixes B :: "u32 \<Rightarrow> u8 list" and d :: disk
  assumes L: "log_layout st W sz" and k: "length W < k" "k \<le> 2 * length W + 1"
  defines "D \<equiv> put_all (take k (commit_writes st W B)) d"
  shows "memdisk D (unat st) = head_of W (B st)" "j < length W \<Longrightarrow> memdisk D (unat (lblk st j)) = B (W ! j)"
    "n \<notin> log_area st W \<Longrightarrow> n \<notin> unat ` set W \<Longrightarrow> memdisk D n = memdisk d n"
proof -
  obtain m where m: "k = Suc (length W) + m" "m \<le> length W" using k by (intro that [of "k - Suc (length W)"]) simp_all
  have D: "D = put_all (take m (home_part W B)) (put_block (unat st) (head_of W (B st)) (put_all (log_part st W B) d))"
    unfolding D_def m(1) commit_writes_def using m(2) by (simp add: take_map)
  note P = parts_fst [OF L]
  have other: "memdisk D i = memdisk (put_block (unat st) (head_of W (B st)) (put_all (log_part st W B) d)) i" if "i \<notin> unat ` set W" for i
    unfolding D using take_other [of i "home_part W B"] that unfolding P(2) by blast
  show "memdisk D (unat st) = head_of W (B st)" using other [of "unat st"] P(3,4) by auto
  show "j < length W \<Longrightarrow> memdisk D (unat (lblk st j)) = B (W ! j)"
    using other [of "unat (lblk st j)"] P(3) P(5) [of j] log_writes_at [OF L] by auto
  show "n \<notin> log_area st W \<Longrightarrow> n \<notin> unat ` set W \<Longrightarrow> memdisk D n = memdisk d n"
  proof -
    assume n: "n \<notin> log_area st W" "n \<notin> unat ` set W"
    have "n \<notin> fst ` set (log_part st W B)" using n(1) P(1) by blast
    moreover have "n \<noteq> unat st" using n(1) P(4) by blast
    ultimately show ?thesis using other [OF n(2)] put_all_other by simp
  qed
qed

lemma crash_late:
  fixes B :: "u32 \<Rightarrow> u8 list" and d :: disk
  assumes L: "log_layout st W sz"
  defines "D \<equiv> put_all (commit_writes st W B) d"
  shows "memdisk D (unat st) = head_of [] (head_of W (B st))" "j < length W \<Longrightarrow> memdisk D (unat (W ! j)) = B (W ! j)"
    "n \<notin> log_area st W \<Longrightarrow> n \<notin> unat ` set W \<Longrightarrow> memdisk D n = memdisk d n"
proof -
  note P = parts_fst [OF L]
  have D: "memdisk D = (memdisk (put_all (home_part W B) (put_block (unat st) (head_of W (B st)) (put_all (log_part st W B) d))))
      (unat st := head_of [] (head_of W (B st)))"
    by (simp add: D_def commit_writes_def)
  show "memdisk D (unat st) = head_of [] (head_of W (B st))" by (simp add: D)
  show "memdisk D (unat (W ! j)) = B (W ! j)" if "j < length W"
  proof -
    have "unat (W ! j) \<in> unat ` set W" using nth_mem [OF that] by (rule imageI)
    then have "unat (W ! j) \<noteq> unat st" using P(3,4) by (metis disjoint_iff)
    then show ?thesis using home_writes_at [OF L that] by (simp add: D)
  qed
  show "n \<notin> log_area st W \<Longrightarrow> n \<notin> unat ` set W \<Longrightarrow> memdisk D n = memdisk d n"
  proof -
    assume n: "n \<notin> log_area st W" "n \<notin> unat ` set W"
    have a: "n \<notin> fst ` set (log_part st W B)" using n(1) P(1) by blast
    have b: "n \<notin> fst ` set (home_part W B)" using n(2) unfolding P(2) .
    have "n \<noteq> unat st" using n(1) P(4) by blast
    then show ?thesis using put_all_other [OF a] put_all_other [OF b] by (simp add: D)
  qed
qed

text \<open>The system after a crash: an empty cache over the disk the crash left.\<close>

definition rebooted :: "nat \<Rightarrow> u32 \<Rightarrow> disk \<Rightarrow> 'z lstate_scheme \<Rightarrow> bool" where
  "rebooted me st d r \<longleftrightarrow> cache_inv me {} r \<and> dirty r = (\<lambda>_. False) \<and> lg_dev (logst r) = 1 \<and> lg_start (logst r) = st \<and>
     length (lh_block (lg_lh (logst r))) = LOGSIZE \<and> disksize (dsk r) = disksize d \<and> memdisk (dsk r) = memdisk d"

definition installed :: "(u32 \<Rightarrow> u8 list) \<Rightarrow> u32 list \<Rightarrow> blocks \<Rightarrow> blocks" where
  "installed B W D n = (if n \<in> unat ` set W then B (of_nat n) else D n)"

lemma log_layout_nil: "log_layout st W sz \<Longrightarrow> log_layout st [] sz"
  by (simp add: log_layout_def)

lemma recover_clear:
  assumes R: "rebooted me st d r" and L: "log_layout st W (disksize d)" and h: "head_says (memdisk d (unat st)) []"
  shows "\<exists>u. recover_from_log r = Ret () u \<and> (\<forall>n. n \<notin> log_area st W \<longrightarrow> memdisk (dsk u) n = memdisk d n)"
proof -
  have r: "cache_inv me {} r" "lg_dev (logst r) = 1" "lg_start (logst r) = st" "length (lh_block (lg_lh (logst r))) = LOGSIZE"
    "dirty r = (\<lambda>_. False)" "memdisk (dsk r) = memdisk d" "disksize (dsk r) = disksize d"
    using R by (simp_all add: rebooted_def)
  obtain u where "recover_from_log r = Ret () u" "dsk u = put_all [(unat st, head_of [] (memdisk (dsk r) (unat st)))] (dsk r)"
    using recover_ok [OF r(1-4), of "[]"] h log_layout_nil [OF L] r(5-7) by auto
  moreover have "n \<noteq> unat st" if "n \<notin> log_area st W" for n using that parts_fst(4) [OF L] by blast
  ultimately show ?thesis using r(6) by (intro exI [of _ u]) simp
qed

lemma recover_committed:
  assumes R: "rebooted me st d r" and L: "log_layout st W (disksize d)" and h: "head_says (memdisk d (unat st)) W"
    and b: "\<And>j. j < length W \<Longrightarrow> memdisk d (unat (lblk st j)) = B (W ! j)"
  shows "\<exists>u. recover_from_log r = Ret () u \<and> (\<forall>n. n \<notin> log_area st W \<longrightarrow> memdisk (dsk u) n = installed B W (memdisk d) n)"
proof -
  have r: "cache_inv me {} r" "lg_dev (logst r) = 1" "lg_start (logst r) = st" "length (lh_block (lg_lh (logst r))) = LOGSIZE"
    "dirty r = (\<lambda>_. False)" "memdisk (dsk r) = memdisk d" "disksize (dsk r) = disksize d"
    using R by (simp_all add: rebooted_def)
  have w: "map (\<lambda>j. (unat (W ! j), memdisk d (unat (lblk st j)))) [0..<length W] = home_part W B" using b by simp
  obtain u where u: "recover_from_log r = Ret () u"
      "dsk u = put_all (home_part W B @ [(unat st, head_of [] (memdisk d (unat st)))]) (dsk r)"
    using recover_ok [OF r(1-4), of W] h L r(5-7) unfolding w [symmetric] by auto
  have "memdisk (dsk u) n = installed B W (memdisk d) n" if n: "n \<notin> log_area st W" for n
  proof -
    have "n \<noteq> unat st" using n parts_fst(4) [OF L] by blast
    then have m: "memdisk (dsk u) n = memdisk (put_all (home_part W B) (dsk r)) n" by (simp add: u(2))
    show ?thesis
    proof (cases "n \<in> unat ` set W")
      case True
      then obtain w where "w \<in> set W" "n = unat w" by blast
      then obtain j where "j < length W" "n = unat (W ! j)" by (auto simp: in_set_conv_nth)
      then show ?thesis using m True home_writes_at [OF L] by (simp add: installed_def)
    next
      case False
      then have "n \<notin> fst ` set (home_part W B)" unfolding parts_fst(2) [OF L] .
      then show ?thesis using m False put_all_other r(6) by (simp add: installed_def)
    qed
  qed
  then show ?thesis using u(1) by blast
qed

section \<open>Transactions\<close>

definition txn :: "nat \<Rightarrow> nat set \<Rightarrow> u32 \<Rightarrow> u32 list \<Rightarrow> 'z lstate_scheme \<Rightarrow> bool" where
  "txn me H st W s \<longleftrightarrow> cache_inv me H s \<and> unlocked (mach s) L_log \<and> log_at st W (logst s) \<and> lg_size (logst s) = int LOGSIZE \<and>
     unat st + LOGSIZE \<le> unat (disksize (dsk s)) \<and> length W < LOGSIZE \<and> distinct W \<and>
     (\<forall>w\<in>set W. w < disksize (dsk s) \<and> unat w \<notin> {unat st..<unat st + LOGSIZE}) \<and> dirty s = (\<lambda>n. n \<in> set W)"

lemma txnD:
  assumes "txn me H st W s"
  shows "cache_inv me H s" "log_at st W (logst s)" "log_layout st W (disksize (dsk s))" "dirty s = (\<lambda>n. n \<in> set W)"
proof -
  show "cache_inv me H s" "log_at st W (logst s)" "dirty s = (\<lambda>n. n \<in> set W)" using assms by (simp_all add: txn_def)
  have a: "unat st + LOGSIZE \<le> unat (disksize (dsk s))" "length W < LOGSIZE" "distinct W"
    "\<And>w. w \<in> set W \<Longrightarrow> w < disksize (dsk s) \<and> unat w \<notin> {unat st..<unat st + LOGSIZE}"
    using assms by (simp_all add: txn_def)
  have "{unat st..unat st + length W} \<subseteq> {unat st..<unat st + LOGSIZE}" using a(2) by (intro subsetI) simp
  then have "w < disksize (dsk s) \<and> unat w \<notin> {unat st..unat st + length W}" if "w \<in> set W" for w
    using a(4) [OF that] by blast
  moreover have "LOGSIZE = NBUF" by (simp add: LOGSIZE_def NBUF_def)
  ultimately show "log_layout st W (disksize (dsk s))" using a(1-3) unfolding log_layout_def by simp
qed

definition log_add :: "u32 \<Rightarrow> u32 list \<Rightarrow> u32 list" where
  "log_add n W = (if n \<in> set W then W else W @ [n])"

lemma log_add_facts: "set (log_add n W) = insert n (set W)" "distinct W \<Longrightarrow> distinct (log_add n W)"
  "length (log_add n W) \<le> Suc (length W)"
  by (auto simp: log_add_def)

lemma log_slot_at:
  assumes "log_at st W g" and "length W < LOGSIZE"
  shows "log_at st (log_add n W) (g\<lparr>lg_lh := (let h = (lg_lh g)\<lparr>lh_block := (lh_block (lg_lh g))[log_slot (lg_lh g) n := n]\<rparr> in
    if int (log_slot (lg_lh g) n) = lh_n h then h\<lparr>lh_n := lh_n h + 1\<rparr> else h)\<rparr>)"
proof -
  let ?h = "lg_lh g"
  have h: "lh_n ?h = int (length W)" "length (lh_block ?h) = LOGSIZE" "take (length W) (lh_block ?h) = W" using assms(1) by (simp_all add: log_at_def)
  have at: "lh_block ?h ! i = W ! i" if "i < length W" for i using that log_atD(4) [OF assms(1)] by simp
  show ?thesis
  proof (cases "scan (\<lambda>i. lh_block ?h ! i = n) 0 (length W)")
    case None
    then have n: "n \<notin> set W" by (auto simp: scan_None_iff in_set_conv_nth at)
    have s: "log_slot ?h n = length W" using None h(1) by (simp add: log_slot_def)
    have "take (Suc (length W)) ((lh_block ?h)[length W := n]) = W @ [n]"
      using h assms(2) by (simp add: take_Suc_conv_app_nth take_update_cancel)
    then show ?thesis using assms n h by (simp add: s log_add_def log_at_def Let_def)
  next
    case (Some i)
    then have i: "i < length W" "lh_block ?h ! i = n" by (auto simp: scan_Some_iff)
    then have n: "n \<in> set W" using at [of i] nth_mem [of i W] by simp
    have s: "log_slot ?h n = i" using Some h(1) by (simp add: log_slot_def)
    have "(lh_block ?h)[i := n] = lh_block ?h" using i(2) list_update_id [of "lh_block ?h" i] by simp
    then show ?thesis using assms(1) n h i(1) by (simp add: s log_add_def log_at_def Let_def)
  qed
qed

lemma mach_frame:
  "cache_inv me H s \<Longrightarrow> same_mach (mach s) m \<Longrightarrow> cache_inv me H (s\<lparr>mach := m\<rparr>)" "blk (s\<lparr>mach := m\<rparr>) = blk s"
  "dirty (s\<lparr>mach := m\<rparr>) = dirty s"
proof -
  show "blk (s\<lparr>mach := m\<rparr>) = blk s" "dirty (s\<lparr>mach := m\<rparr>) = dirty s"
    by (simp_all add: blk_def dirty_def fun_eq_iff cong: option.case_cong if_cong)
  show "cache_inv me H s \<Longrightarrow> same_mach (mach s) m \<Longrightarrow> cache_inv me H (s\<lparr>mach := m\<rparr>)"
    by (auto simp: cache_inv_def bio_ready_def cache_ok_def in_use_def same_mach_def)
qed

text \<open>What a transaction may change of the state; the rest, the inode cache among it, stays.\<close>

definition log_same :: "'z lstate_scheme \<Rightarrow> 'z lstate_scheme \<Rightarrow> bool" where
  "log_same s t \<longleftrightarrow> (\<exists>m T l b d g. t = s\<lparr>mach := m, pt := T, slocks := l, bufs := b, dsk := d, logst := g\<rparr>) \<and>
    same_mach (mach s) (mach t) \<and> map p_pid (procs (pt t)) = map p_pid (procs (pt s)) \<and>
    (\<forall>i. slocks t (SL_inode i) = slocks s (SL_inode i)) \<and> disksize (dsk t) = disksize (dsk s) \<and>
    lg_outstanding (logst t) = lg_outstanding (logst s)"

lemma log_same_trans: "log_same s t \<Longrightarrow> log_same t u \<Longrightarrow> log_same s u"
  by (auto simp: log_same_def intro: same_mach_trans) blast

lemma bio_log_same:
  fixes s :: "'z lstate_scheme"
  assumes "bio_same s t"
  shows "log_same s t"
proof -
  obtain m T l b d where "t = s\<lparr>mach := m, pt := T, slocks := l, bufs := b, dsk := d\<rparr>" using assms unfolding bio_same_def by blast
  then have "t = s\<lparr>mach := m, pt := T, slocks := l, bufs := b, dsk := d, logst := logst s\<rparr>" by simp
  then show ?thesis using assms unfolding log_same_def bio_same_def by (metis bio_same_log [OF assms])
qed

lemma log_write_txn:
  assumes T: "txn me H st W s" and b: "b \<in> H" and op: "1 \<le> lg_outstanding (logst s)" and W: "length W < LOGSIZE - 1"
    and n: "b_blockno (bufs s ! b) = n" "n < disksize (dsk s)" "unat n \<notin> {unat st..<unat st + LOGSIZE}"
  shows "\<exists>t. andthen (set_data b f) (log_write b) s = Ret () t \<and> txn me H st (log_add n W) t \<and>
    blk t = (blk s)(n := f (blk s n)) \<and> dsk t = dsk s \<and> log_same s t \<and> (\<forall>i. b_blockno (bufs t ! i) = b_blockno (bufs s ! i))"
proof -
  note T' = txnD [OF T] and F = held_facts [OF txnD(1) [OF T] b]
  let ?g = "(logst s)\<lparr>lg_lh := (let h = (lg_lh (logst s))\<lparr>lh_block := (lh_block (lg_lh (logst s)))[log_slot (lg_lh (logst s)) n := n]\<rparr> in
    if int (log_slot (lg_lh (logst s)) n) = lh_n h then h\<lparr>lh_n := lh_n h + 1\<rparr> else h)\<rparr>"
  have d: "b_data (bufs s ! b) = blk s n" using blk_held [OF T'(1) b] n(1) by simp
  let ?t = "s\<lparr>bufs := upd b (with_data (f (blk s n)) 6) (bufs s)\<rparr>"
  let ?u = "s\<lparr>mach := crit L_log (mach s), bufs := upd b (with_data (f (blk s n)) 6) (bufs s), logst := ?g\<rparr>"
  have P: "cache_inv me H ?t" "blk ?t = (blk s)(n := f (blk s n))" "dirty ?t = (dirty s)(n := True)"
    using pin_ok [OF T'(1) b refl, of "f (blk s n)"] n(1) by simp_all
  have e: "upd b (\<lambda>u. u\<lparr>b_flags := b_flags u OR B_DIRTY\<rparr>) (upd b (\<lambda>u. u\<lparr>b_data := f (b_data u)\<rparr>) (bufs s)) =
      upd b (with_data (f (blk s n)) 6) (bufs s)"
    using F(2,5) d by (auto simp: upd_def with_data_def)
  have g: "lg_size (logst s) = int LOGSIZE" "lh_n (lg_lh (logst s)) = int (length W)" "cpu_ok (mach s)" "unlocked (mach s) L_log"
    using T log_atD(3) [OF T'(2)] by (simp_all add: txn_def cache_inv_def bio_ready_def)
  have w: "\<not> LOGSIZE \<le> length W" "\<not> int LOGSIZE - 1 \<le> int (length W)" using W by linarith+
  have "andthen (set_data b f) (log_write b) s = Ret () ?u"
    using g op w n(1) F(2) e
    by (simp add: log_write_def kern set_data_def buf_set_def buf_get_def lh_get_def log_get_def lh_set_def log_set_def crit_def
        field_upd_at Let_def del: upd_upd_same)
  note run = this
  have u: "?u = ?t\<lparr>mach := crit L_log (mach s), logst := ?g\<rparr>" by simp
  have "same_mach (mach ?t) (crit L_log (mach s))" using crit_same [OF g(3,4)] by simp
  then have I: "cache_inv me H ?u" "blk ?u = (blk s)(n := f (blk s n))" "dirty ?u = (\<lambda>m. m \<in> set (log_add n W))"
    unfolding u using mach_frame(1) [OF P(1)] P(2,3) T'(4) by (auto simp: mach_frame log_add_facts fun_eq_iff)
  have "log_at st (log_add n W) ?g" by (rule log_slot_at [OF T'(2)]) (use W in simp)
  moreover have "distinct (log_add n W)" "length (log_add n W) < LOGSIZE"
    using T W log_add_facts(2,3) [where n = n and W = W] by (simp_all add: txn_def)
  moreover have "unat st + LOGSIZE \<le> unat (disksize (dsk s))"
    "\<forall>w\<in>set W. w < disksize (dsk s) \<and> unat w \<notin> {unat st..<unat st + LOGSIZE}"
    using T unfolding txn_def by blast+
  ultimately have "txn me H st (log_add n W) ?u"
    unfolding txn_def using g n(2,3) I(1,3) by (simp add: log_add_facts)
  moreover have "log_same s ?u"
    unfolding log_same_def using crit_same [OF g(3,4)]
    by (intro conjI exI [of _ "crit L_log (mach s)"] exI [of _ "pt s"] exI [of _ "slocks s"] exI [of _ "bufs ?u"]
        exI [of _ "dsk s"] exI [of _ ?g]) simp_all
  ultimately show ?thesis using run I(2) by (intro exI [of _ ?u]) (simp add: field_upd [of b_blockno] with_data_def)
qed


text \<open>
  C4: Commit is atomic under crashes. \<open>commit\<close> of a transaction returns, having written the log blocks,
  then the header, then the home blocks, then the cleared header. If the machine stops after any number
  \<open>k\<close> of these writes and recovery runs on the disk it left, then every block outside the log has its contents from before the
  transaction when \<open>k\<close> is at most the number of log blocks, and its contents from after it otherwise.
\<close>

theorem commit_crash_atomic:
  fixes s :: "'z lstate_scheme"
  assumes T: "txn me {} st W s" and W: "W \<noteq> []" and h: "head_says (memdisk (dsk s) (unat st)) []" "length (memdisk (dsk s) (unat st)) = BSIZE"
  defines "ws \<equiv> commit_writes st W (blk s)"
  shows "(\<exists>t. commit s = Ret () t \<and> d_writes (dsk t) = d_writes (dsk s) @ ws) \<and>
    (\<forall>k (r :: 'z lstate_scheme). k \<le> length ws \<longrightarrow> rebooted me' st (put_all (take k ws) (dsk s)) r \<longrightarrow>
      (\<exists>u. recover_from_log r = Ret () u \<and> (\<forall>n. n \<notin> log_area st W \<longrightarrow>
        memdisk (dsk u) n = (if k \<le> length W then memdisk (dsk s) n else installed (blk s) W (memdisk (dsk s)) n))))"
proof (intro conjI allI impI)
  note I = txnD(1) [OF T] and L = txnD(2,3) [OF T] W and d = txnD(4) [OF T]
  show "\<exists>t. commit s = Ret () t \<and> d_writes (dsk t) = d_writes (dsk s) @ ws"
    using commit_ok [OF I L d] by (auto simp: ws_def)
  fix k and r :: "'z lstate_scheme"
  assume k: "k \<le> length ws" and R: "rebooted me' st (put_all (take k ws) (dsk s)) r"
  let ?D = "put_all (take k ws) (dsk s)"
  have "st \<notin> set W" using L(2) by (auto simp: log_layout_def)
  then have B: "blk s st = memdisk (dsk s) (unat st)" using blk_clean [OF cache_invD(2) [OF I]] d by simp
  have L': "log_layout st W (disksize ?D)" using L(2) by simp
  have len: "length W \<le> LOGSIZE" using L(2) by (simp add: log_layout_def NBUF_def LOGSIZE_def)
  note H = head_roundtrip [OF len h(2), folded B]
  have "k \<le> 2 * length W + 2" using k by (simp add: ws_def)
  then consider "k \<le> length W" | "length W < k" "k \<le> 2 * length W + 1" | "k = 2 * length W + 2"
    by linarith
  then show "\<exists>u. recover_from_log r = Ret () u \<and> (\<forall>n. n \<notin> log_area st W \<longrightarrow>
        memdisk (dsk u) n = (if k \<le> length W then memdisk (dsk s) n else installed (blk s) W (memdisk (dsk s)) n))"
  proof cases
    case 1
    have e: "memdisk ?D n = memdisk (dsk s) n" if "n \<notin> log_area st W - {unat st}" for n
      unfolding ws_def by (rule crash_early [OF L(2) 1 that])
    then have "head_says (memdisk ?D (unat st)) []" using h(1) by simp
    then show ?thesis using recover_clear [OF R L'] e 1 by fastforce
  next
    case 2
    note M = crash_middle [OF L(2) 2, where B = "blk s" and d = "dsk s", folded ws_def]
    have e: "installed (blk s) W (memdisk ?D) n = installed (blk s) W (memdisk (dsk s)) n" if "n \<notin> log_area st W" for n
      using M(3) that by (simp add: installed_def)
    show ?thesis using recover_committed [OF R L' _ M(2)] H(1) M(1) e 2 by auto
  next
    case 3
    note E = crash_late [OF L(2), where B = "blk s" and d = "dsk s", folded ws_def]
    have all: "take k ws = ws" using 3 by (simp add: ws_def)
    have "head_says (memdisk ?D (unat st)) []" unfolding all E(1) by (rule head_roundtrip) (simp_all add: H(2))
    moreover have "memdisk ?D n = installed (blk s) W (memdisk (dsk s)) n" if n: "n \<notin> log_area st W" for n
    proof (cases "n \<in> unat ` set W")
      case True
      then obtain w where "w \<in> set W" "n = unat w" by blast
      then obtain j where "j < length W" "n = unat (W ! j)" by (auto simp: in_set_conv_nth)
      then show ?thesis unfolding all using True E(2) by (simp add: installed_def)
    qed (use E(3) n all in \<open>simp add: installed_def\<close>)
    ultimately show ?thesis using recover_clear [OF R L'] 3 by fastforce
  qed
qed

definition demo_log :: lstate where
  "demo_log = bstate.extend ((demo_cache (\<lambda>_. replicate BSIZE 0))\<lparr>bufs := upd 0 (\<lambda>u. u\<lparr>b_flags := 6, b_dev := 1, b_blockno := 40,
       b_data := replicate BSIZE 99\<rparr>) demo_bufs\<rparr>)
     (lstate.fields \<lparr>lg_start = 2, lg_size = 30, lg_outstanding = 1, lg_committing = False, lg_dev = 1,
       lg_lh = \<lparr>lh_n = 1, lh_block = 40 # replicate 29 0\<rparr>\<rparr>)"

lemma extend_frame:
  "cache_inv me H (bstate.extend t f) = cache_inv me H t" "blk (bstate.extend t f) = blk t" "dirty (bstate.extend t f) = dirty t"
  "dsk (bstate.extend t f) = dsk t" "mach (bstate.extend t f) = mach t"
  by (simp_all add: cache_inv_def bio_ready_def cache_ok_def in_use_def blk_def dirty_def fun_eq_iff bstate.defs
      cong: option.case_cong if_cong)

lemma demo_log_txn: "txn 0 {} 2 [40] demo_log" "blk demo_log 40 = replicate BSIZE 99"
proof -
  let ?s = "demo_cache (\<lambda>_. replicate BSIZE 0)"
  let ?g = "\<lambda>u. u\<lparr>b_flags := 6, b_dev := 1, b_blockno := 40 :: u32, b_data := replicate BSIZE (99 :: u8)\<rparr>"
  let ?t = "?s\<lparr>bufs := upd 0 ?g demo_bufs\<rparr>"
  note K = cache_invD [OF demo_cache_inv(1) [of "\<lambda>_. replicate BSIZE 0"]]
  have c: "cache_ok ?t \<and> dirty ?t = (dirty ?s)(40 := True) \<and> blk ?t = (blk ?s)(40 := replicate BSIZE 99)"
    using one_buffer [OF K(2) NBUF_pos, of ?t ?g 40] by (auto simp: demo_cache_at)
  have "in_use 0 {} ?t"
    by (rule in_use_upd [OF K(3), of 0 ?g]) (use cache_ok_cases(3) [OF K(2) NBUF_pos] in simp_all)
  then have I: "cache_inv 0 {} ?t" using c K(1) by (simp add: cache_inv_def bio_ready_def)
  have l: "logst demo_log = \<lparr>lg_start = 2, lg_size = 30, lg_outstanding = 1, lg_committing = False, lg_dev = 1,
       lg_lh = \<lparr>lh_n = 1, lh_block = 40 # replicate 29 0\<rparr>\<rparr>"
    by (simp add: demo_log_def bstate.defs lstate.defs)
  have "dirty ?t = (\<lambda>n. n \<in> set [40])" using c by (auto simp: fun_eq_iff demo_cache_inv)
  then show "txn 0 {} 2 [40] demo_log"
    using I unfolding txn_def l by (simp add: demo_log_def extend_frame log_at_def LOGSIZE_def MAXOPBLOCKS_def)
  show "blk demo_log 40 = replicate BSIZE 99" using c by (simp add: demo_log_def extend_frame)
qed

definition demo_reboot :: "blocks \<Rightarrow> lstate" where
  "demo_reboot img = bstate.extend (demo_cache img) (lstate.fields \<lparr>lg_start = 2, lg_size = 30, lg_outstanding = 0,
     lg_committing = False, lg_dev = 1, lg_lh = \<lparr>lh_n = 0, lh_block = replicate 30 0\<rparr>\<rparr>)"

lemma demo_reboot_ok: "disksize d = 64 \<Longrightarrow> rebooted 0 2 d (demo_reboot (memdisk d))"
  using demo_cache_inv by (simp add: rebooted_def demo_reboot_def extend_frame fun_eq_iff LOGSIZE_def MAXOPBLOCKS_def)
    (simp add: bstate.defs lstate.defs)

lemma demo_log_dsk: "dsk demo_log = \<lparr>disksize = 64, memdisk = (\<lambda>_. replicate BSIZE 0), d_writes = []\<rparr>"
  by (simp add: demo_log_def extend_frame)

lemma demo_log_head: "head_says (memdisk (dsk demo_log) (unat (2 :: u32))) []" "length (memdisk (dsk demo_log) (unat (2 :: u32))) = BSIZE"
  by (simp_all add: demo_log_dsk head_says_def head_blocks_def rd32_def of_le32_def BSIZE_def)

theorem commit_crash_atomic_witness:
  "\<exists>t (r :: lstate) u. commit demo_log = Ret () t \<and> recover_from_log r = Ret () u \<and>
    rebooted 0 2 (put_all (take 2 (commit_writes 2 [40] (blk demo_log))) (dsk demo_log)) r \<and>
    memdisk (dsk demo_log) 40 = replicate BSIZE 0 \<and> memdisk (dsk u) 40 = replicate BSIZE 99"
proof -
  let ?d = "put_all (take 2 (commit_writes 2 [40] (blk demo_log))) (dsk demo_log)"
  let ?r = "demo_reboot (memdisk ?d)"
  have ne: "[40 :: u32] \<noteq> []" by simp
  note C = commit_crash_atomic [where me' = 0, OF demo_log_txn(1) ne demo_log_head]
  have r: "rebooted 0 2 ?d ?r" by (rule demo_reboot_ok) (simp add: demo_log_dsk)
  obtain t where "commit demo_log = Ret () t" using C by blast
  moreover obtain u where u: "recover_from_log ?r = Ret () u"
    "\<forall>n. n \<notin> log_area 2 [40] \<longrightarrow> memdisk (dsk u) n = installed (blk demo_log) [40] (memdisk (dsk demo_log)) n"
    using C [THEN conjunct2, rule_format, of 2 ?r] r by auto
  moreover have "memdisk (dsk u) 40 = replicate BSIZE 99"
    using u(2) by (simp add: log_area_def installed_def demo_log_txn(2))
  moreover have "memdisk (dsk demo_log) 40 = replicate BSIZE 0" by (simp add: demo_log_dsk)
  ultimately show ?thesis using r by blast
qed

text \<open>
  C16: A change to a block inside a transaction stays in memory. After the caller changes a buffer it holds and calls
  \<open>log_write\<close>, the block is in the transaction exactly once however often it is written (absorption), the cache
  presents the new contents, the disk is untouched, and the buffer is pinned: the dirty blocks are
  exactly those of the transaction, which is what \<open>commit\<close> relies on.
\<close>

theorem log_write_pins:
  assumes "txn me H st W s" and "b \<in> H" and "1 \<le> lg_outstanding (logst s)" and "length W < LOGSIZE - 1"
    and "b_blockno (bufs s ! b) = n" "n < disksize (dsk s)" "unat n \<notin> {unat st..<unat st + LOGSIZE}"
  shows "\<exists>t. andthen (set_data b f) (log_write b) s = Ret () t \<and>
    txn me H st (if n \<in> set W then W else W @ [n]) t \<and> blk t = (blk s)(n := f (blk s n)) \<and> dsk t = dsk s"
  using log_write_txn [OF assms] unfolding log_add_def by blast

theorem log_write_pins_witness:
  "\<exists>b s t. bread 1 41 demo_log = Ret b s \<and> andthen (set_data b (\<lambda>d. d[0 := 7])) (log_write b) s = Ret () t \<and>
    txn 0 {b} 2 [40, 41] t \<and> dsk t = dsk demo_log"
proof -
  note T = txnD [OF demo_log_txn(1)]
  have "card {n. dirty demo_log n} + card ({} :: nat set) < NBUF" unfolding T(4) by (simp add: NBUF_def MAXOPBLOCKS_def)
  then obtain b s where s: "bread 1 41 demo_log = Ret b s" "cache_inv 0 {b} s" "bio_same demo_log s" "dsk s = dsk demo_log"
      "dirty s = dirty demo_log" "b_blockno (bufs s ! b) = 41"
    using bread_ok [OF T(1), of 41] by (auto simp: demo_log_dsk)
  have "unlocked (mach s) L_log = unlocked (mach demo_log) L_log" using s(3) by (simp add: bio_same_def same_mach_def)
  then have t: "txn 0 {b} 2 [40] s" using demo_log_txn(1) s(2-5) by (simp add: txn_def)
  have o: "1 \<le> lg_outstanding (logst s)" using s(3) by (simp add: demo_log_def bstate.defs lstate.defs)
  show ?thesis
    using log_write_pins [OF t _ o, of b 41 "\<lambda>d. d[0 := 7]"] s(1,4,6)
    by (auto simp: LOGSIZE_def MAXOPBLOCKS_def demo_log_dsk)
qed



end
