(* ===== verification/Inode.thy ===== *)
theory Inode
  imports Dir Commit
begin

text \<open>
  The block and file layers of the file system are right, on top of the buffer cache and the log: inside a
  transaction the blocks are a map from numbers to contents (\<open>blk\<close> of \<open>Cache\<close>), which \<open>bread\<close> reads and
  \<open>log_write\<close> updates.
\<close>

section \<open>Blocks inside a transaction\<close>

text \<open>A transaction with at most \<open>k\<close> blocks in the log, in which process \<open>me\<close> holds the buffers \<open>H\<close>.\<close>

definition ftx :: "nat \<Rightarrow> nat set \<Rightarrow> u32 \<Rightarrow> nat \<Rightarrow> 'z lstate_scheme \<Rightarrow> bool" where
  "ftx me H st k s \<longleftrightarrow> (\<exists>W. txn me H st W s \<and> length W \<le> k) \<and> 1 \<le> lg_outstanding (logst s) \<and> (\<forall>n. length (blk s n) = BSIZE)"

text \<open>The blocks a transaction may write: on the disk, outside the log.\<close>

definition home :: "u32 \<Rightarrow> u32 \<Rightarrow> u32 \<Rightarrow> bool" where
  "home st sz n \<longleftrightarrow> n < sz \<and> unat n \<notin> {unat st..<unat st + LOGSIZE}"

lemma ftx_mono: "ftx me H st k s \<Longrightarrow> k \<le> k' \<Longrightarrow> ftx me H st k' s"
  unfolding ftx_def using le_trans by blast

lemma ftxD: "ftx me H st k s \<Longrightarrow> cache_inv me H s" "ftx me H st k s \<Longrightarrow> length (blk s n) = BSIZE"
  by (auto simp: ftx_def txn_def)

lemma log_sameD: "log_same s t \<Longrightarrow> disksize (dsk t) = disksize (dsk s)"
  by (simp add: log_same_def)

lemma ftx_data: "ftx me H st k s \<Longrightarrow> b \<in> H \<Longrightarrow> b_data (bufs s ! b) = blk s (b_blockno (bufs s ! b))"
  by (rule blk_held [OF ftxD(1)])

lemma held_finite: "cache_inv me H s \<Longrightarrow> finite H"
  by (auto simp: cache_inv_def in_use_def intro: finite_subset)

lemma txn_same:
  assumes "txn me H st W s" "cache_inv me H' t" "bio_same s t" "dirty t = dirty s" "dsk t = dsk s"
  shows "txn me H' st W t"
proof -
  have "unlocked (mach t) L_log = unlocked (mach s) L_log" using assms(3) by (simp add: bio_same_def same_mach_def)
  moreover have "logst t = logst s" using assms(3) by simp
  ultimately show ?thesis using assms by (simp add: txn_def)
qed

lemma read_ok:
  assumes F: "ftx me H st k s" and n: "n < disksize (dsk s)" and H: "\<And>i. i \<in> H \<Longrightarrow> b_blockno (bufs s ! i) \<noteq> n"
    and room: "k + card H < NBUF"
  shows "\<exists>b t. bread 1 n s = Ret b t \<and> b \<notin> H \<and> ftx me (insert b H) st k t \<and> blk t = blk s \<and> log_same s t \<and>
    b_blockno (bufs t ! b) = n \<and> b_data (bufs t ! b) = blk s n \<and> (\<forall>i\<in>H. bufs t ! i = bufs s ! i)"
proof -
  obtain W where W: "txn me H st W s" "length W \<le> k" using F by (auto simp: ftx_def)
  note T = txnD [OF W(1)]
  have "card {n. dirty s n} \<le> length W" unfolding T(4) by (simp add: card_length)
  then have "card {n. dirty s n} + card H < NBUF" using W(2) room by linarith
  then obtain b t where t: "bread 1 n s = Ret b t" "b \<notin> H" "cache_inv me (insert b H) t" "bio_same s t" "dsk t = dsk s"
      "blk t = blk s" "dirty t = dirty s" "b_blockno (bufs t ! b) = n" "\<forall>i\<in>H. bufs t ! i = bufs s ! i"
    using bread_ok [OF T(1) n H] by blast
  have "txn me (insert b H) st W t" by (rule txn_same [OF W(1) t(3,4,7,5)])
  then have f: "ftx me (insert b H) st k t" using F W(2) t(4,6) unfolding ftx_def by auto
  then have "b_data (bufs t ! b) = blk s n" using ftx_data [OF f, of b] t(6,8) by simp
  then show ?thesis using t f bio_log_same [OF t(4)] by blast
qed

lemma rel_ok:
  assumes F: "ftx me H st k s" and b: "b \<in> H"
  shows "\<exists>t. brelse b s = Ret () t \<and> ftx me (H - {b}) st k t \<and> blk t = blk s \<and> log_same s t \<and>
    (\<forall>i. b_blockno (bufs t ! i) = b_blockno (bufs s ! i))"
proof -
  obtain W where W: "txn me H st W s" "length W \<le> k" using F by (auto simp: ftx_def)
  note T = txnD [OF W(1)]
  obtain t where t: "brelse b s = Ret () t" "cache_inv me (H - {b}) t" "bio_same s t" "dsk t = dsk s"
      "blk t = blk s" "dirty t = dirty s" "\<forall>i. b_blockno (bufs t ! i) = b_blockno (bufs s ! i)"
    using brelse_ok [OF T(1) b] by blast
  have "txn me (H - {b}) st W t" by (rule txn_same [OF W(1) t(2,3,6,4)])
  then have "ftx me (H - {b}) st k t" using F W(2) t(3,5) unfolding ftx_def by auto
  then show ?thesis using t bio_log_same [OF t(3)] by blast
qed

lemma put_ok:
  assumes F: "ftx me H st k s" and b: "b \<in> H" and k: "k < LOGSIZE - 1" and n: "b_blockno (bufs s ! b) = n" "home st (disksize (dsk s)) n"
    and f: "\<And>d. length d = BSIZE \<Longrightarrow> length (f d) = BSIZE"
  shows "\<exists>t. andthen (set_data b f) (log_write b) s = Ret () t \<and> ftx me H st (Suc k) t \<and>
    blk t = (blk s)(n := f (blk s n)) \<and> log_same s t \<and> (\<forall>i. b_blockno (bufs t ! i) = b_blockno (bufs s ! i))"
proof -
  obtain W where W: "txn me H st W s" "length W \<le> k" using F by (auto simp: ftx_def)
  have op: "1 \<le> lg_outstanding (logst s)" "length W < LOGSIZE - 1" using F W(2) k by (simp_all add: ftx_def)
  obtain t where t: "andthen (set_data b f) (log_write b) s = Ret () t" "txn me H st (log_add n W) t"
    "blk t = (blk s)(n := f (blk s n))" "log_same s t" "\<forall>i. b_blockno (bufs t ! i) = b_blockno (bufs s ! i)"
    using log_write_txn [OF W(1) b op n(1)] n(2) unfolding home_def by blast
  have "length (log_add n W) \<le> Suc k" using log_add_facts(3) [of n W] W(2) by linarith
  then have "ftx me H st (Suc k) t"
    using t(2,3,4) F f unfolding ftx_def log_same_def by auto
  then show ?thesis using t by blast
qed

text \<open>\<open>bread\<close>, change the data, \<open>log_write\<close>, \<open>brelse\<close>.\<close>

lemma update_ok:
  assumes F: "ftx me H st k s" and n: "home st (disksize (dsk s)) n" and H: "\<And>i. i \<in> H \<Longrightarrow> b_blockno (bufs s ! i) \<noteq> n"
    and room: "k + card H < LOGSIZE - 1" and f: "\<And>d. length d = BSIZE \<Longrightarrow> length (f d) = BSIZE"
  shows "\<exists>t. bind (bread 1 n) (\<lambda>b. andthen (set_data b f) (andthen (log_write b) (brelse b))) s = Ret () t \<and> ftx me H st (Suc k) t \<and>
    blk t = (blk s)(n := f (blk s n)) \<and> log_same s t \<and> (\<forall>i\<in>H. b_blockno (bufs t ! i) = b_blockno (bufs s ! i))"
proof -
  have "k + card H < NBUF" "k < LOGSIZE - 1" "n < disksize (dsk s)" using room n by (simp_all add: LOGSIZE_def NBUF_def home_def)
  then obtain b s1 where 1: "bread 1 n s = Ret b s1" "b \<notin> H" "ftx me (insert b H) st k s1" "blk s1 = blk s" "log_same s s1"
      "b_blockno (bufs s1 ! b) = n" "\<forall>i\<in>H. bufs s1 ! i = bufs s ! i"
    using read_ok [OF F _ H] by blast
  have h: "home st (disksize (dsk s1)) n" using n log_sameD [OF 1(5)] by simp
  obtain s2 where 2: "andthen (set_data b f) (log_write b) s1 = Ret () s2" "ftx me (insert b H) st (Suc k) s2"
      "blk s2 = (blk s1)(n := f (blk s1 n))" "log_same s1 s2" "\<forall>i. b_blockno (bufs s2 ! i) = b_blockno (bufs s1 ! i)"
    using put_ok [of me "insert b H" st k s1 b n f, OF 1(3) insertI1 \<open>k < LOGSIZE - 1\<close> 1(6) h f] by blast
  have e: "insert b H - {b} = H" using 1(2) by auto
  obtain t where 3: "brelse b s2 = Ret () t" "ftx me H st (Suc k) t" "blk t = blk s2" "log_same s2 t"
      "\<forall>i. b_blockno (bufs t ! i) = b_blockno (bufs s2 ! i)"
    using rel_ok [OF 2(2), of b] unfolding e by blast
  have "bind (bread 1 n) (\<lambda>b. andthen (set_data b f) (andthen (log_write b) (brelse b))) s = Ret () t"
    using 1(1) 2(1) 3(1) by (auto simp: bind_def andthen_def split: outcome.splits)
  moreover have "log_same s t" using log_same_trans [OF log_same_trans [OF 1(5) 2(4)] 3(4)] .
  ultimately show ?thesis using 1 2 3 by auto
qed

text \<open>\<open>bread\<close>, use the data, \<open>brelse\<close>.\<close>

lemma peek_ok:
  assumes F: "ftx me H st k s" and n: "n < disksize (dsk s)" and H: "\<And>i. i \<in> H \<Longrightarrow> b_blockno (bufs s ! i) \<noteq> n"
    and room: "k + card H < NBUF"
  shows "\<exists>b s1 t. bread 1 n s = Ret b s1 \<and> b_data (bufs s1 ! b) = blk s n \<and> brelse b s1 = Ret () t \<and> ftx me H st k t \<and>
    blk t = blk s \<and> log_same s t \<and> log_same s s1 \<and> (\<forall>i\<in>H. b_blockno (bufs t ! i) = b_blockno (bufs s ! i))"
proof -
  obtain b s1 where 1: "bread 1 n s = Ret b s1" "b \<notin> H" "ftx me (insert b H) st k s1" "blk s1 = blk s" "log_same s s1"
      "b_data (bufs s1 ! b) = blk s n" "\<forall>i\<in>H. bufs s1 ! i = bufs s ! i"
    using read_ok [OF assms] by blast
  have e: "insert b H - {b} = H" using 1(2) by auto
  obtain t where 3: "brelse b s1 = Ret () t" "ftx me H st k t" "blk t = blk s1" "log_same s1 t"
      "\<forall>i. b_blockno (bufs t ! i) = b_blockno (bufs s1 ! i)"
    using rel_ok [OF 1(3), of b] unfolding e by blast
  then show ?thesis using 1 log_same_trans [OF 1(5) 3(4)] by auto
qed

section \<open>The free-block bitmap\<close>

lemma bm_used_bit: "bm_used d i \<longleftrightarrow> bit (d ! (i div 8)) (i mod 8)"
  by (simp add: bm_used_def bm_mask_def bit_iff_and_push_bit_not_eq_0)

lemma bm_mask_bit: "bit (bm_mask i) j \<longleftrightarrow> j = i mod 8"
  by (auto simp: bm_mask_def bit_simps)

lemma same_bit: "i div 8 = j div 8 \<Longrightarrow> i mod 8 = j mod 8 \<longleftrightarrow> i = j" for i j :: nat
  by (metis mult_div_mod_eq)

lemma bm_used_set: "i div 8 < length d \<Longrightarrow> bm_used (bm_set i d) j \<longleftrightarrow> j = i \<or> bm_used d j"
  by (auto simp: bm_used_bit bm_set_def nth_list_update bit_or_iff bm_mask_bit same_bit)

lemma bm_used_clear: "i div 8 < length d \<Longrightarrow> bm_used (bm_clear i d) j \<longleftrightarrow> j \<noteq> i \<and> bm_used d j"
  by (auto simp: bm_used_bit bm_clear_def nth_list_update bit_and_iff bit_not_iff bm_mask_bit same_bit)

lemma length_bm [simp]: "length (bm_set i d) = length d" "length (bm_clear i d) = length d"
  by (simp_all add: bm_set_def bm_clear_def)

text \<open>Whether a block is marked in use, by the contents \<open>B\<close> of the blocks.\<close>

definition used :: "superblock \<Rightarrow> (u32 \<Rightarrow> u8 list) \<Rightarrow> u32 \<Rightarrow> bool" where
  "used sb B b \<longleftrightarrow> bm_used (B (BBLOCK b sb)) (unat b mod BPB)"

text \<open>
  The disk has the blocks of the file system and its bitmap, the bitmap is not in the log, and the boot block and the
  blocks of the log and the bitmap are marked in use.
\<close>

definition fs_ok :: "u32 \<Rightarrow> u32 \<Rightarrow> superblock \<Rightarrow> (u32 \<Rightarrow> u8 list) \<Rightarrow> bool" where
  "fs_ok st sz sb B \<longleftrightarrow> sb_size sb \<le> sz \<and> unat (sb_bmapstart sb) + unat (sb_size sb) div BPB < 2 ^ 32 \<and>
     used sb B 0 \<and> (\<forall>b < sb_size sb. home st sz (BBLOCK b sb)) \<and>
     (\<forall>c < sb_size sb. \<not> used sb B c \<longrightarrow> home st sz c \<and> (\<forall>b < sb_size sb. c \<noteq> BBLOCK b sb))"

lemma BBLOCK_unat:
  assumes "unat (sb_bmapstart sb) + unat (sb_size sb) div BPB < 2 ^ 32" and "b < sb_size sb"
  shows "unat (BBLOCK b sb) = unat (sb_bmapstart sb) + unat b div BPB"
proof -
  have "unat b div BPB \<le> unat (sb_size sb) div BPB" using assms(2) by (simp add: div_le_mono word_less_nat_alt)
  moreover have "unat (b div of_nat BPB) = unat b div BPB" by (simp add: unat_div BPB_def)
  ultimately show ?thesis using assms(1) by (simp add: BBLOCK_def unat_word_ariths)
qed

lemma BBLOCK_eq_iff:
  assumes "fs_ok st sz sb B" and "b < sb_size sb" "c < sb_size sb"
  shows "BBLOCK b sb = BBLOCK c sb \<longleftrightarrow> unat b div BPB = unat c div BPB"
  using assms BBLOCK_unat [of sb b] BBLOCK_unat [of sb c] by (auto simp: fs_ok_def word_unat_eq_iff)

lemma same_block: "b div BPB = c div BPB \<Longrightarrow> b mod BPB = c mod BPB \<longleftrightarrow> b = c" for b c :: nat
  by (metis mult_div_mod_eq)

lemma bm_room: "i mod BPB div 8 < BSIZE"
  by (simp add: BPB_def BSIZE_def less_mult_imp_div_less)

text \<open>Marking a block in the bitmap, and changing any block that is not of the bitmap.\<close>

lemma used_mark:
  assumes "fs_ok st sz sb B" and "\<And>n. length (B n) = BSIZE" and "b < sb_size sb" "c < sb_size sb"
  shows "used sb (B(BBLOCK c sb := bm_set (unat c mod BPB) (B (BBLOCK c sb)))) b \<longleftrightarrow> b = c \<or> used sb B b"
    "used sb (B(BBLOCK c sb := bm_clear (unat c mod BPB) (B (BBLOCK c sb)))) b \<longleftrightarrow> b \<noteq> c \<and> used sb B b"
proof -
  have r: "unat c mod BPB div 8 < length (B (BBLOCK c sb))" using bm_room assms(2) by simp
  have "used sb (B(BBLOCK c sb := bm_set (unat c mod BPB) (B (BBLOCK c sb)))) b = (b = c \<or> used sb B b) \<and>
      used sb (B(BBLOCK c sb := bm_clear (unat c mod BPB) (B (BBLOCK c sb)))) b = (b \<noteq> c \<and> used sb B b)"
  proof (cases "BBLOCK b sb = BBLOCK c sb")
    case True
    then have "unat b mod BPB = unat c mod BPB \<longleftrightarrow> b = c"
      using BBLOCK_eq_iff [OF assms(1,3,4)] same_block [of "unat b" "unat c"] word_unat_eq_iff [of b c] by simp
    then show ?thesis by (simp only: used_def True fun_upd_same bm_used_set [OF r] bm_used_clear [OF r])
  next
    case False
    then have "b \<noteq> c" by blast
    with False show ?thesis by (simp add: used_def)
  qed
  then show "used sb (B(BBLOCK c sb := bm_set (unat c mod BPB) (B (BBLOCK c sb)))) b = (b = c \<or> used sb B b)"
    "used sb (B(BBLOCK c sb := bm_clear (unat c mod BPB) (B (BBLOCK c sb)))) b = (b \<noteq> c \<and> used sb B b)" by blast+
qed

lemma used_other: "(\<And>b. b < sb_size sb \<Longrightarrow> n \<noteq> BBLOCK b sb) \<Longrightarrow> b < sb_size sb \<Longrightarrow> used sb (B(n := d)) b = used sb B b"
  by (auto simp: used_def)

lemma log_same_fs:
  fixes s :: "'z fstate_scheme"
  assumes "log_same s t"
  shows "fssb t = fssb s" "inodes t = inodes s"
  using assms by (auto simp: log_same_def)

lemma bzero_ok:
  assumes F: "ftx me H st k s" and n: "home st (disksize (dsk s)) n" and H: "\<And>i. i \<in> H \<Longrightarrow> b_blockno (bufs s ! i) \<noteq> n"
    and room: "k + card H < LOGSIZE - 1"
  shows "\<exists>t. bzero 1 n s = Ret () t \<and> ftx me H st (Suc k) t \<and> blk t = (blk s)(n := replicate BSIZE 0) \<and> log_same s t \<and>
    (\<forall>i\<in>H. b_blockno (bufs t ! i) = b_blockno (bufs s ! i))"
  unfolding bzero_def using update_ok [OF assms, of "\<lambda>_. replicate BSIZE 0"] by simp

text \<open>The contents of the blocks once \<open>c\<close> has been allocated, and once it has been freed.\<close>

definition take_block :: "superblock \<Rightarrow> u32 \<Rightarrow> (u32 \<Rightarrow> u8 list) \<Rightarrow> u32 \<Rightarrow> u8 list" where
  "take_block sb c B = B(BBLOCK c sb := bm_set (unat c mod BPB) (B (BBLOCK c sb)), c := replicate BSIZE 0)"

definition drop_block :: "superblock \<Rightarrow> u32 \<Rightarrow> (u32 \<Rightarrow> u8 list) \<Rightarrow> u32 \<Rightarrow> u8 list" where
  "drop_block sb c B = B(BBLOCK c sb := bm_clear (unat c mod BPB) (B (BBLOCK c sb)))"

lemma group_of:
  assumes "b mod BPB = 0" "b \<le> c" "c < b + BPB"
  shows "c div BPB = b div BPB" "c mod BPB = c - b"
proof -
  obtain q where q: "b = BPB * q" using assms(1) by auto
  then have "c = BPB * q + (c - b)" "c - b < BPB" using assms(2,3) by simp_all
  moreover have "BPB \<noteq> 0" by (simp add: BPB_def)
  ultimately show "c div BPB = b div BPB" "c mod BPB = c - b"
    by (metis q div_mult_self1_is_m add.right_neutral div_less div_mult_self4 neq0_conv, metis mod_mult_self4 mod_less)
qed

lemma unat_nat32: "n < unat (x :: u32) \<Longrightarrow> unat (of_nat n :: u32) = n"
  using unat_u32_less [of x] by (simp add: unat_of_nat)

lemma balloc_loop_ok:
  fixes s :: "'z fstate_scheme"
  assumes "ftx me H st k s" and "fs_ok st (disksize (dsk s)) (fssb s) (blk s)" and "b mod BPB = 0" "b \<le> unat c" "c < sb_size (fssb s)"
    and "\<not> used (fssb s) (blk s) c" "\<And>x. b \<le> unat x \<Longrightarrow> x < c \<Longrightarrow> used (fssb s) (blk s) x"
    and "\<And>i x. i \<in> H \<Longrightarrow> x < sb_size (fssb s) \<Longrightarrow> b_blockno (bufs s ! i) \<noteq> BBLOCK x (fssb s)" "\<And>i. i \<in> H \<Longrightarrow> b_blockno (bufs s ! i) \<noteq> c"
    and "k + card H < LOGSIZE - 2" "unat c < b + K * BPB"
  shows "\<exists>t. balloc_loop K 1 b s = Ret c t \<and> ftx me H st (k + 2) t \<and> blk t = take_block (fssb s) c (blk s) \<and> log_same s t \<and>
    (\<forall>i\<in>H. b_blockno (bufs t ! i) = b_blockno (bufs s ! i))"
  using assms
proof (induction K arbitrary: b s)
  case (Suc K)
  note F = Suc.prems(1) and ok = Suc.prems(2) and bb = Suc.prems(3,4) and c = Suc.prems(5,6) and below = Suc.prems(7)
    and H = Suc.prems(8,9) and room = Suc.prems(10) and fuel = Suc.prems(11)
  let ?sb = "fssb s" and ?n = "BBLOCK (of_nat b) (fssb s)" and ?lim = "min BPB (unat (sb_size (fssb s)) - b)"
  have b: "unat (of_nat b :: u32) = b" using bb(2) unat_u32_less [of c] by (simp add: unat_of_nat)
  have bs: "(of_nat b :: u32) < sb_size ?sb" using bb(2) c(1) by (simp add: word_less_nat_alt b)
  have n: "home st (disksize (dsk s)) ?n" using ok bs by (simp add: fs_ok_def)
  have nH: "\<And>i. i \<in> H \<Longrightarrow> b_blockno (bufs s ! i) \<noteq> ?n" using H(1) bs by blast
  have k: "k + card H < NBUF" "k < LOGSIZE - 1" "n < disksize (dsk s)" if "home st (disksize (dsk s)) n" for n
    using room that by (simp_all add: LOGSIZE_def NBUF_def home_def)
  have at: "BBLOCK (of_nat (b + i)) ?sb = ?n \<and> unat (of_nat (b + i) :: u32) = b + i \<and> (b + i) mod BPB = i"
    if "i < ?lim" for i
  proof -
    have u: "unat (of_nat (b + i) :: u32) = b + i" by (rule unat_nat32 [of _ "sb_size ?sb"]) (use that in linarith)
    moreover have "(of_nat (b + i) :: u32) < sb_size ?sb" using that unfolding word_less_nat_alt u by linarith
    moreover have "(b + i) div BPB = b div BPB" "(b + i) mod BPB = i" using that bb(1) group_of [of b "b + i"] by simp_all
    ultimately show ?thesis using BBLOCK_eq_iff [OF ok _ bs, of "of_nat (b + i)"] b by (simp del: of_nat_add)
  qed
  have usd: "used ?sb (blk s) (of_nat (b + i)) = bm_used (blk s ?n) i" if "i < ?lim" for i
    using at [OF that] by (simp add: used_def del: of_nat_add)
  show ?case
  proof (cases "unat c < b + BPB")
    case True
    let ?i = "unat c - b"
    have i: "?i < ?lim" "b + ?i = unat c" using True bb(2) c(1) by (auto simp: word_less_nat_alt)
    then have ci: "of_nat (b + ?i) = c" by simp
    have g: "BBLOCK c ?sb = ?n" "unat c mod BPB = ?i" using at [OF i(1)] unfolding ci i(2) by simp_all
    have "bm_used (blk s ?n) j" if "j < ?i" for j
    proof -
      have j: "j < ?lim" using that i(1) by linarith
      then have "of_nat (b + j) < c" using at [OF j] that unfolding word_less_nat_alt by linarith
      then show ?thesis using below [of "of_nat (b + j)"] usd [OF j] at [OF j] by (simp del: of_nat_add)
    qed
    then have sc: "scan (\<lambda>bi. \<not> bm_used (blk s ?n) bi) 0 ?lim = Some ?i"
      using i(1) usd [OF i(1)] c(2) unfolding ci by (simp add: scan_Some_iff)
    obtain bp s1 where 1: "bread 1 ?n s = Ret bp s1" "bp \<notin> H" "ftx me (insert bp H) st k s1" "blk s1 = blk s" "log_same s s1"
        "b_blockno (bufs s1 ! bp) = ?n" "b_data (bufs s1 ! bp) = blk s ?n" "\<forall>i\<in>H. bufs s1 ! i = bufs s ! i"
      using read_ok [OF F k(3) [OF n] nH k(1) [OF n]] by blast
    have n1: "home st (disksize (dsk s1)) ?n" using n log_sameD [OF 1(5)] by simp
    obtain s2 where 2: "andthen (set_data bp (bm_set ?i)) (log_write bp) s1 = Ret () s2" "ftx me (insert bp H) st (Suc k) s2"
        "blk s2 = (blk s1)(?n := bm_set ?i (blk s1 ?n))" "log_same s1 s2" "\<forall>i. b_blockno (bufs s2 ! i) = b_blockno (bufs s1 ! i)"
      using put_ok [of me "insert bp H" st k s1 bp ?n "bm_set ?i", OF 1(3) insertI1 k(2) [OF n] 1(6) n1] by auto
    have e: "insert bp H - {bp} = H" using 1(2) by auto
    obtain s3 where 3: "brelse bp s2 = Ret () s3" "ftx me H st (Suc k) s3" "blk s3 = blk s2" "log_same s2 s3"
        "\<forall>i. b_blockno (bufs s3 ! i) = b_blockno (bufs s2 ! i)"
      using rel_ok [OF 2(2), of bp] unfolding e by blast
    have S3: "log_same s s3" using log_same_trans [OF log_same_trans [OF 1(5) 2(4)] 3(4)] .
    have c3: "home st (disksize (dsk s3)) c" using ok c log_sameD [OF S3] by (simp add: fs_ok_def)
    have r3: "Suc k + card H < LOGSIZE - 1" using room by linarith
    have H3: "\<And>i. i \<in> H \<Longrightarrow> b_blockno (bufs s3 ! i) \<noteq> c" using H(2) 1(8) 2(5) 3(5) by simp
    obtain t where 4: "bzero 1 c s3 = Ret () t" "ftx me H st (Suc (Suc k)) t" "blk t = (blk s3)(c := replicate BSIZE 0)" "log_same s3 t"
        "\<forall>i\<in>H. b_blockno (bufs t ! i) = b_blockno (bufs s3 ! i)"
      using bzero_ok [OF 3(2) c3 H3 r3] by blast
    obtain s1' where sp: "set_data bp (bm_set ?i) s1 = Ret () s1'" "log_write bp s1' = Ret () s2"
      using 2(1) by (auto simp: andthen_Ret_iff)
    have "balloc_loop (Suc K) 1 b s = Ret c t"
      using 1(1,7) sp 3(1) 4(1) sc ci by (simp add: bind_def andthen_def gets_def buf_get_def return_def)
    moreover have "blk t = take_block ?sb c (blk s)" using 4(3) 3(3) 2(3) 1(4) by (simp add: take_block_def g)
    ultimately show ?thesis using 4 log_same_trans [OF S3 4(4)] 1(8) 2(5) 3(5) by auto
  next
    case False
    have lim: "?lim = BPB" using False c(1) by (simp add: word_less_nat_alt)
    have "bm_used (blk s ?n) j" if "j < BPB" for j
    proof -
      have j: "j < ?lim" using that lim by simp
      then have "of_nat (b + j) < c" using at [OF j] that False unfolding word_less_nat_alt by linarith
      then show ?thesis using below [of "of_nat (b + j)"] usd [OF j] at [OF j] by (simp del: of_nat_add)
    qed
    then have sc: "scan (\<lambda>bi. \<not> bm_used (blk s ?n) bi) 0 ?lim = None" by (simp add: scan_None_iff lim)
    obtain bp s1 s2 where 1: "bread 1 ?n s = Ret bp s1" "b_data (bufs s1 ! bp) = blk s ?n" "brelse bp s1 = Ret () s2" "ftx me H st k s2"
        "blk s2 = blk s" "log_same s s2" "\<forall>i\<in>H. b_blockno (bufs s2 ! i) = b_blockno (bufs s ! i)"
      using peek_ok [OF F k(3) [OF n] nH k(1) [OF n]] by blast
    have f: "fssb s2 = fssb s" "disksize (dsk s2) = disksize (dsk s)" using log_same_fs(1) [OF 1(6)] log_sameD [OF 1(6)] by simp_all
    have "\<exists>t. balloc_loop K 1 (b + BPB) s2 = Ret c t \<and> ftx me H st (k + 2) t \<and> blk t = take_block (fssb s2) c (blk s2) \<and> log_same s2 t \<and>
        (\<forall>i\<in>H. b_blockno (bufs t ! i) = b_blockno (bufs s2 ! i))"
      by (rule Suc.IH) (use 1 f ok bb c below H room fuel False in auto)
    then obtain t where t: "balloc_loop K 1 (b + BPB) s2 = Ret c t" "ftx me H st (k + 2) t" "blk t = take_block (fssb s2) c (blk s2)" "log_same s2 t"
        "\<forall>i\<in>H. b_blockno (bufs t ! i) = b_blockno (bufs s2 ! i)" by blast
    have "balloc_loop (Suc K) 1 b s = Ret c t"
      using 1(1-3) sc t(1) by (simp add: bind_def andthen_def gets_def buf_get_def return_def)
    then show ?thesis using t f 1 log_same_trans [OF 1(6) t(4)] by auto
  qed
qed simp

definition free_blocks :: "superblock \<Rightarrow> (u32 \<Rightarrow> u8 list) \<Rightarrow> u32 set" where
  "free_blocks sb B = {c. c < sb_size sb \<and> \<not> used sb B c}"

lemma least_free:
  assumes "free_blocks sb B \<noteq> {}"
  obtains c where "c \<in> free_blocks sb B" "\<And>x. x < c \<Longrightarrow> x \<notin> free_blocks sb B"
proof -
  obtain y where "y \<in> free_blocks sb B" using assms by blast
  then obtain c where c: "c \<in> free_blocks sb B" "\<And>x. x \<in> free_blocks sb B \<Longrightarrow> unat c \<le> unat x"
    using ex_has_least_nat [of "\<lambda>c. c \<in> free_blocks sb B" y unat] by blast
  have "x \<notin> free_blocks sb B" if "x < c" for x using c(2) [of x] that by (auto simp: word_less_nat_alt)
  then show thesis using that [OF c(1)] by blast
qed

lemma take_block_free:
  assumes "fs_ok st sz sb B" and "\<And>n. length (B n) = BSIZE" and "c \<in> free_blocks sb B"
  shows "fs_ok st sz sb (take_block sb c B)" "free_blocks sb (take_block sb c B) = free_blocks sb B - {c}"
    "\<And>b. b < sb_size sb \<Longrightarrow> used sb (take_block sb c B) b \<longleftrightarrow> b = c \<or> used sb B b" "c \<noteq> 0"
    "take_block sb c B c = replicate BSIZE 0" "\<And>n. length (take_block sb c B n) = BSIZE"
proof -
  have c: "c < sb_size sb" "\<not> used sb B c" "\<And>b. b < sb_size sb \<Longrightarrow> c \<noteq> BBLOCK b sb"
    using assms(1,3) by (auto simp: free_blocks_def fs_ok_def)
  show u: "used sb (take_block sb c B) b \<longleftrightarrow> b = c \<or> used sb B b" if "b < sb_size sb" for b
    unfolding take_block_def using used_mark(1) [OF assms(1,2) that c(1)] used_other [OF c(3) that] by simp
  show "c \<noteq> 0" using c(2) assms(1) by (auto simp: fs_ok_def)
  show "free_blocks sb (take_block sb c B) = free_blocks sb B - {c}" using u by (auto simp: free_blocks_def)
  have "0 < sb_size sb" using c(1) le_less_trans [OF word_zero_le] by blast
  then have "used sb (take_block sb c B) 0" using u [of 0] assms(1) by (auto simp: fs_ok_def)
  then show "fs_ok st sz sb (take_block sb c B)" using assms(1) u unfolding fs_ok_def by blast
  show "take_block sb c B c = replicate BSIZE 0" "\<And>n. length (take_block sb c B n) = BSIZE"
    using assms(2) by (simp_all add: take_block_def)
qed

text \<open>Blocks that are in use and not part of the bitmap keep their contents when one is allocated.\<close>

lemma take_block_other:
  assumes "c \<in> free_blocks sb B" "used sb B n" "n < sb_size sb" "\<And>b. b < sb_size sb \<Longrightarrow> n \<noteq> BBLOCK b sb"
  shows "take_block sb c B n = B n"
  using assms by (auto simp: take_block_def free_blocks_def)

lemma balloc_ok:
  fixes s :: "'z fstate_scheme"
  assumes F: "ftx me H st k s" and ok: "fs_ok st (disksize (dsk s)) (fssb s) (blk s)"
    and c: "c \<in> free_blocks (fssb s) (blk s)" "\<And>x. x < c \<Longrightarrow> x \<notin> free_blocks (fssb s) (blk s)"
    and H: "\<And>i. i \<in> H \<Longrightarrow> used (fssb s) (blk s) (b_blockno (bufs s ! i)) \<and> (\<forall>x < sb_size (fssb s). b_blockno (bufs s ! i) \<noteq> BBLOCK x (fssb s))"
    and room: "k + card H < LOGSIZE - 2"
  shows "\<exists>t. balloc 1 s = Ret c t \<and> ftx me H st (k + 2) t \<and> blk t = take_block (fssb s) c (blk s) \<and> log_same s t \<and>
    (\<forall>i\<in>H. b_blockno (bufs t ! i) = b_blockno (bufs s ! i))"
proof -
  let ?n = "unat (sb_size (fssb s))"
  have "?n \<le> (?n + BPB - 1) div BPB * BPB" by (simp add: BPB_def)
  then have fuel: "unat c < 0 + (?n + BPB - 1) div BPB * BPB" using c(1) by (simp add: free_blocks_def word_less_nat_alt)
  have cs: "c < sb_size (fssb s)" "\<not> used (fssb s) (blk s) c" using c(1) by (simp_all add: free_blocks_def)
  have "used (fssb s) (blk s) x" if "x < c" for x using c(2) [OF that] less_trans [OF that cs(1)] by (simp add: free_blocks_def)
  then have "\<exists>t. balloc_loop ((?n + BPB - 1) div BPB) 1 0 s = Ret c t \<and> ftx me H st (k + 2) t \<and> blk t = take_block (fssb s) c (blk s) \<and>
      log_same s t \<and> (\<forall>i\<in>H. b_blockno (bufs t ! i) = b_blockno (bufs s ! i))"
    using cs H by (intro balloc_loop_ok [OF F ok _ _ _ _ _ _ _ room fuel]) auto
  then show ?thesis by (simp add: balloc_def bind_def gets_def)
qed

lemma bfree_ok:
  fixes s :: "'z fstate_scheme"
  assumes F: "ftx me H st k s" and ok: "fs_ok st (disksize (dsk s)) (fssb s) (blk s)"
    and c: "c < sb_size (fssb s)" "used (fssb s) (blk s) c"
    and H: "\<And>i. i \<in> H \<Longrightarrow> \<forall>x < sb_size (fssb s). b_blockno (bufs s ! i) \<noteq> BBLOCK x (fssb s)"
    and room: "k + card H < LOGSIZE - 1"
  shows "\<exists>t. bfree 1 c s = Ret () t \<and> ftx me H st (Suc k) t \<and> blk t = drop_block (fssb s) c (blk s) \<and> log_same s t \<and>
    (\<forall>i\<in>H. b_blockno (bufs t ! i) = b_blockno (bufs s ! i))"
proof -
  let ?n = "BBLOCK c (fssb s)" and ?i = "unat c mod BPB"
  have n: "home st (disksize (dsk s)) ?n" using ok c(1) by (simp add: fs_ok_def)
  have k: "k + card H < NBUF" "k < LOGSIZE - 1" "?n < disksize (dsk s)"
    using room n by (simp_all add: LOGSIZE_def NBUF_def home_def)
  obtain bp s1 where 1: "bread 1 ?n s = Ret bp s1" "bp \<notin> H" "ftx me (insert bp H) st k s1" "blk s1 = blk s" "log_same s s1"
      "b_blockno (bufs s1 ! bp) = ?n" "b_data (bufs s1 ! bp) = blk s ?n" "\<forall>i\<in>H. bufs s1 ! i = bufs s ! i"
    using read_ok [OF F k(3) _ k(1)] H c(1) by blast
  have n1: "home st (disksize (dsk s1)) ?n" using n log_sameD [OF 1(5)] by simp
  obtain s2 where 2: "andthen (set_data bp (bm_clear ?i)) (log_write bp) s1 = Ret () s2" "ftx me (insert bp H) st (Suc k) s2"
      "blk s2 = (blk s1)(?n := bm_clear ?i (blk s1 ?n))" "log_same s1 s2" "\<forall>i. b_blockno (bufs s2 ! i) = b_blockno (bufs s1 ! i)"
    using put_ok [of me "insert bp H" st k s1 bp ?n "bm_clear ?i", OF 1(3) insertI1 k(2) 1(6) n1] by auto
  have e: "insert bp H - {bp} = H" using 1(2) by auto
  obtain s3 where 3: "brelse bp s2 = Ret () s3" "ftx me H st (Suc k) s3" "blk s3 = blk s2" "log_same s2 s3"
      "\<forall>i. b_blockno (bufs s3 ! i) = b_blockno (bufs s2 ! i)"
    using rel_ok [OF 2(2), of bp] unfolding e by blast
  obtain s1' where sp: "set_data bp (bm_clear ?i) s1 = Ret () s1'" "log_write bp s1' = Ret () s2"
    using 2(1) by (auto simp: andthen_Ret_iff)
  have "bm_used (blk s ?n) ?i" using c(2) by (simp add: used_def)
  then have "bfree 1 c s = Ret () s3"
    using 1(1,7) sp 3(1) by (simp add: bfree_def bind_def andthen_def gets_def buf_get_def return_def Let_def)
  moreover have "log_same s s3" using log_same_trans [OF log_same_trans [OF 1(5) 2(4)] 3(4)] .
  ultimately show ?thesis using 1 2 3 by (auto simp: drop_block_def)
qed

end
