(* ===== verification/Filemap.thy ===== *)
theory Filemap
  imports Inode
begin

text \<open>
  The block map of a file, \<open>bmap\<close>, and what it makes of a file: a sequence of bytes. \<open>bmap\<close> gives the block an
  index is mapped to and maps it to a new block of zeroes when it is not mapped, which no file can see.
\<close>

section \<open>The blocks of a file\<close>

text \<open>The block that holds block \<open>i\<close> of a file, 0 when there is none.\<close>

definition addr_of :: "(u32 \<Rightarrow> u8 list) \<Rightarrow> dinode \<Rightarrow> nat \<Rightarrow> u32" where
  "addr_of B d i = (if i < NDIRECT then d_addrs d ! i else if d_addrs d ! NDIRECT = 0 then 0
     else rd32 (B (d_addrs d ! NDIRECT)) (4 * (i - NDIRECT)))"

text \<open>A block that can belong to a file: in use, on the disk, neither of the log nor of the bitmap.\<close>

definition ptr_ok :: "u32 \<Rightarrow> u32 \<Rightarrow> superblock \<Rightarrow> (u32 \<Rightarrow> u8 list) \<Rightarrow> u32 \<Rightarrow> bool" where
  "ptr_ok st sz sb B n \<longleftrightarrow> n \<noteq> 0 \<and> n < sb_size sb \<and> used sb B n \<and> home st sz n \<and> (\<forall>b < sb_size sb. n \<noteq> BBLOCK b sb)"

definition file_ok :: "u32 \<Rightarrow> u32 \<Rightarrow> superblock \<Rightarrow> (u32 \<Rightarrow> u8 list) \<Rightarrow> dinode \<Rightarrow> bool" where
  "file_ok st sz sb B d \<longleftrightarrow> length (d_addrs d) = NDIRECT + 1 \<and>
     (d_addrs d ! NDIRECT \<noteq> 0 \<longrightarrow> ptr_ok st sz sb B (d_addrs d ! NDIRECT)) \<and>
     (\<forall>i<MAXFILE. addr_of B d i \<noteq> 0 \<longrightarrow> ptr_ok st sz sb B (addr_of B d i) \<and> addr_of B d i \<noteq> d_addrs d ! NDIRECT) \<and>
     (\<forall>i<MAXFILE. \<forall>j<MAXFILE. addr_of B d i \<noteq> 0 \<longrightarrow> addr_of B d i = addr_of B d j \<longrightarrow> i = j)"

text \<open>From one state of a file to another with more blocks mapped, all new ones free before and zero now.\<close>

definition grown :: "u32 \<Rightarrow> u32 \<Rightarrow> superblock \<Rightarrow> (u32 \<Rightarrow> u8 list) \<Rightarrow> dinode \<Rightarrow> (u32 \<Rightarrow> u8 list) \<Rightarrow> dinode \<Rightarrow> bool" where
  "grown st sz sb B d B' d' \<longleftrightarrow> fs_ok st sz sb B' \<and> file_ok st sz sb B' d' \<and> d' = d\<lparr>d_addrs := d_addrs d'\<rparr> \<and>
     (\<forall>i<MAXFILE. addr_of B d i \<noteq> 0 \<longrightarrow> addr_of B' d' i = addr_of B d i) \<and>
     (\<forall>i<MAXFILE. addr_of B d i = 0 \<longrightarrow> addr_of B' d' i \<noteq> 0 \<longrightarrow>
        addr_of B' d' i \<in> free_blocks sb B \<and> B' (addr_of B' d' i) = replicate BSIZE 0) \<and>
     (d_addrs d' ! NDIRECT = d_addrs d ! NDIRECT \<or> d_addrs d ! NDIRECT = 0 \<and> d_addrs d' ! NDIRECT \<in> free_blocks sb B) \<and>
     (\<forall>n. ptr_ok st sz sb B n \<longrightarrow> ptr_ok st sz sb B' n \<and> (n \<noteq> d_addrs d ! NDIRECT \<longrightarrow> B' n = B n)) \<and>
     free_blocks sb B' \<subseteq> free_blocks sb B"

lemma file_okD:
  assumes "file_ok st sz sb B d"
  shows "length (d_addrs d) = NDIRECT + 1" "d_addrs d ! NDIRECT \<noteq> 0 \<Longrightarrow> ptr_ok st sz sb B (d_addrs d ! NDIRECT)"
    "i < MAXFILE \<Longrightarrow> addr_of B d i \<noteq> 0 \<Longrightarrow> ptr_ok st sz sb B (addr_of B d i)"
    "i < MAXFILE \<Longrightarrow> addr_of B d i \<noteq> 0 \<Longrightarrow> addr_of B d i \<noteq> d_addrs d ! NDIRECT"
    "i < MAXFILE \<Longrightarrow> j < MAXFILE \<Longrightarrow> addr_of B d i \<noteq> 0 \<Longrightarrow> addr_of B d i = addr_of B d j \<Longrightarrow> i = j"
  using assms unfolding file_ok_def by blast+

lemma ptr_free: "ptr_ok st sz sb B n \<Longrightarrow> n \<notin> free_blocks sb B"
  by (simp add: ptr_ok_def free_blocks_def)

lemma grown_refl: "fs_ok st sz sb B \<Longrightarrow> file_ok st sz sb B d \<Longrightarrow> grown st sz sb B d B d"
  by (simp add: grown_def)

lemma grown_trans:
  assumes "file_ok st sz sb B d" "grown st sz sb B d B1 d1" "grown st sz sb B1 d1 B2 d2"
  shows "grown st sz sb B d B2 d2"
proof -
  note G = assms(2) [unfolded grown_def] and G' = assms(3) [unfolded grown_def]
  have ind: "d_addrs d2 ! NDIRECT = d_addrs d ! NDIRECT \<or> d_addrs d ! NDIRECT = 0 \<and> d_addrs d2 ! NDIRECT \<in> free_blocks sb B"
    using G G' by auto
  have kept: "addr_of B2 d2 i = addr_of B d i" if "i < MAXFILE" "addr_of B d i \<noteq> 0" for i
    using G G' that by auto
  have new: "addr_of B2 d2 i \<in> free_blocks sb B \<and> B2 (addr_of B2 d2 i) = replicate BSIZE 0"
    if i: "i < MAXFILE" "addr_of B d i = 0" "addr_of B2 d2 i \<noteq> 0" for i
  proof (cases "addr_of B1 d1 i = 0")
    case True
    then show ?thesis using G G' i by blast
  next
    case False
    then have a: "addr_of B2 d2 i = addr_of B1 d1 i" "addr_of B1 d1 i \<in> free_blocks sb B" "B1 (addr_of B1 d1 i) = replicate BSIZE 0"
      using G G' i by blast+
    have "ptr_ok st sz sb B1 (addr_of B1 d1 i)" "addr_of B1 d1 i \<noteq> d_addrs d1 ! NDIRECT"
      using file_okD(3,4) [of st sz sb B1 d1 i] G i(1) False by blast+
    then have "B2 (addr_of B1 d1 i) = B1 (addr_of B1 d1 i)" using G' by blast
    then show ?thesis using a by simp
  qed
  have other: "ptr_ok st sz sb B2 n \<and> (n \<noteq> d_addrs d ! NDIRECT \<longrightarrow> B2 n = B n)" if n: "ptr_ok st sz sb B n" for n
  proof -
    have p1: "ptr_ok st sz sb B1 n" "n \<noteq> d_addrs d ! NDIRECT \<longrightarrow> B1 n = B n" using G n by blast+
    have p2: "ptr_ok st sz sb B2 n" "n \<noteq> d_addrs d1 ! NDIRECT \<longrightarrow> B2 n = B1 n" using G' p1(1) by blast+
    have "n \<noteq> d_addrs d1 ! NDIRECT" if "n \<noteq> d_addrs d ! NDIRECT" using G that ptr_free [OF n] by metis
    then show ?thesis using p1 p2 by auto
  qed
  have dd: "d2 = d\<lparr>d_addrs := d_addrs d2\<rparr>"
  proof -
    have "d1 = d\<lparr>d_addrs := d_addrs d1\<rparr>" "d2 = d1\<lparr>d_addrs := d_addrs d2\<rparr>" using G G' by blast+
    then show ?thesis by (metis dinode.surjective dinode.update_convs(6))
  qed
  have "fs_ok st sz sb B2" "file_ok st sz sb B2 d2" "free_blocks sb B2 \<subseteq> free_blocks sb B" using G G' by blast+
  then show ?thesis using ind kept new other dd unfolding grown_def by blast
qed

section \<open>Words of an indirect block\<close>

lemma rd_wr32_after: "off + 4 \<le> o' \<Longrightarrow> off + 4 \<le> length d \<Longrightarrow> rd32 (wr32 d off v) o' = rd32 d o'"
  by (simp add: rd32_def wr32_def blit_def)

lemma rd_wr_words:
  assumes "length d = BSIZE" "i < NINDIRECT" "j < NINDIRECT"
  shows "rd32 (wr32 d (4 * i) v) (4 * j) = (if i = j then v else rd32 d (4 * j))"
proof -
  have "4 * i + 4 \<le> length d" using assms by (simp add: NINDIRECT_def BSIZE_def)
  then show ?thesis using rd_wr32_other [of "4 * i" d "4 * j" v] rd_wr32_after [of "4 * i" "4 * j" d v] by (cases i j rule: linorder_cases) auto
qed

lemma rd32_zero: "off + 4 \<le> BSIZE \<Longrightarrow> rd32 (replicate BSIZE 0) off = 0"
  by (simp add: rd32_def of_le32_def)

lemma length_wr_word [simp]: "length d = BSIZE \<Longrightarrow> i < NINDIRECT \<Longrightarrow> length (wr32 d (4 * i) v) = BSIZE"
  by (simp add: NINDIRECT_def BSIZE_def)

section \<open>Allocating for a file\<close>

lemma take_ptr:
  assumes "fs_ok st sz sb B" "\<And>n. length (B n) = BSIZE" "c \<in> free_blocks sb B"
  shows "ptr_ok st sz sb (take_block sb c B) c" "\<And>n. ptr_ok st sz sb B n \<Longrightarrow> ptr_ok st sz sb (take_block sb c B) n"
    "\<And>n. ptr_ok st sz sb B n \<Longrightarrow> take_block sb c B n = B n" "c \<noteq> 0"
proof -
  have "c < sb_size sb" "home st sz c" "\<And>b. b < sb_size sb \<Longrightarrow> c \<noteq> BBLOCK b sb"
    using assms(1,3) by (auto simp: free_blocks_def fs_ok_def)
  then show "ptr_ok st sz sb (take_block sb c B) c" using take_block_free(3) [OF assms, of c] take_block_free(4) [OF assms] by (simp add: ptr_ok_def)
  show "ptr_ok st sz sb (take_block sb c B) n" "take_block sb c B n = B n" if "ptr_ok st sz sb B n" for n
    using that take_block_free(3) [OF assms, of n] take_block_other [OF assms(3), of n] by (auto simp: ptr_ok_def)
  show "c \<noteq> 0" by (rule take_block_free(4) [OF assms])
qed

lemma one_more:
  assumes "x = (if j = i then c else y)" "z = (if l = i then c else w)" "x = z" "x \<noteq> 0" "c \<noteq> 0"
    "y \<noteq> 0 \<Longrightarrow> y \<noteq> c" "w \<noteq> 0 \<Longrightarrow> w \<noteq> c" "y \<noteq> 0 \<Longrightarrow> y = w \<Longrightarrow> j = l"
  shows "j = l"
  using assms by metis

text \<open>The three ways a block is added: a direct one, the indirect block, an entry of the indirect block.\<close>

lemma grown_direct:
  assumes ok: "fs_ok st sz sb B" "\<And>n. length (B n) = BSIZE" and c: "c \<in> free_blocks sb B"
    and f: "file_ok st sz sb B d" and i: "i < NDIRECT" "d_addrs d ! i = 0"
  defines "d' \<equiv> d\<lparr>d_addrs := (d_addrs d)[i := c]\<rparr>"
  shows "grown st sz sb B d (take_block sb c B) d'" "addr_of (take_block sb c B) d' i = c"
proof -
  note K = take_ptr [OF ok c] and T = take_block_free [OF ok c] and D = file_okD [OF f]
  have ind: "d_addrs d' ! NDIRECT = d_addrs d ! NDIRECT" using i(1) by (simp add: d'_def)
  have at: "addr_of (take_block sb c B) d' j = (if j = i then c else addr_of B d j)" if "j < MAXFILE" for j
    using i(1) D(1) K(3) [OF D(2)] by (auto simp: addr_of_def ind) (simp_all add: d'_def nth_list_update)
  show "addr_of (take_block sb c B) d' i = c" using at [of i] i(1) by (simp add: MAXFILE_def)
  have cn: "addr_of B d j \<noteq> c" if "j < MAXFILE" "addr_of B d j \<noteq> 0" for j using ptr_free [OF D(3) [OF that]] c by blast
  have ci: "c \<noteq> d_addrs d ! NDIRECT" using D(2) ptr_free c K(4) by metis
  have z: "addr_of B d i = 0" using i by (simp add: addr_of_def)
  have "file_ok st sz sb (take_block sb c B) d'"
    unfolding file_ok_def ind
  proof (intro conjI allI impI)
    show "length (d_addrs d') = NDIRECT + 1" using D(1) by (simp add: d'_def)
    show "ptr_ok st sz sb (take_block sb c B) (d_addrs d ! NDIRECT)" if "d_addrs d ! NDIRECT \<noteq> 0" using K(2) D(2) that by blast
    fix j assume j: "j < MAXFILE" "addr_of (take_block sb c B) d' j \<noteq> 0"
    show "ptr_ok st sz sb (take_block sb c B) (addr_of (take_block sb c B) d' j)"
      using at [OF j(1)] j K(1,2) D(3) [OF j(1)] by auto
    show "addr_of (take_block sb c B) d' j \<noteq> d_addrs d ! NDIRECT" using at [OF j(1)] j ci D(4) [OF j(1)] by auto
    fix l assume l: "l < MAXFILE" "addr_of (take_block sb c B) d' j = addr_of (take_block sb c B) d' l"
    show "j = l" by (rule one_more [OF at [OF j(1)] at [OF l(1)] l(2) j(2) K(4) cn [OF j(1)] cn [OF l(1)] D(5) [OF j(1) l(1)]])
  qed
  then show "grown st sz sb B d (take_block sb c B) d'"
    unfolding grown_def ind using T(1,2,5) at z K(2,3) c by (auto simp: d'_def)
qed

lemma grown_indirect:
  assumes ok: "fs_ok st sz sb B" "\<And>n. length (B n) = BSIZE" and c: "c \<in> free_blocks sb B"
    and f: "file_ok st sz sb B d" and i: "d_addrs d ! NDIRECT = 0"
  defines "d' \<equiv> d\<lparr>d_addrs := (d_addrs d)[NDIRECT := c]\<rparr>"
  shows "grown st sz sb B d (take_block sb c B) d'" "d_addrs d' ! NDIRECT = c"
proof -
  note K = take_ptr [OF ok c] and T = take_block_free [OF ok c] and D = file_okD [OF f]
  show ind: "d_addrs d' ! NDIRECT = c" using D(1) by (simp add: d'_def)
  have at: "addr_of (take_block sb c B) d' j = addr_of B d j" if "j < MAXFILE" for j
  proof (cases "j < NDIRECT")
    case True
    then show ?thesis by (simp add: addr_of_def d'_def)
  next
    case False
    then have "4 * (j - NDIRECT) + 4 \<le> BSIZE" using that by (simp add: MAXFILE_def NINDIRECT_def BSIZE_def)
    then show ?thesis using False i ind K(4) T(5) rd32_zero by (simp add: addr_of_def)
  qed
  have cn: "addr_of B d j \<noteq> c" if "j < MAXFILE" "addr_of B d j \<noteq> 0" for j using ptr_free [OF D(3) [OF that]] c by blast
  have "file_ok st sz sb (take_block sb c B) d'"
    unfolding file_ok_def ind using D at K(1,2) cn by (auto simp: d'_def)
  then show "grown st sz sb B d (take_block sb c B) d'"
    unfolding grown_def ind using T(1,2) at K(2,3) c i by (auto simp: d'_def)
qed

lemma grown_entry:
  assumes ok: "fs_ok st sz sb B" "\<And>n. length (B n) = BSIZE" and c: "c \<in> free_blocks sb B"
    and f: "file_ok st sz sb B d" and i: "d_addrs d ! NDIRECT = a" "a \<noteq> 0" "e < NINDIRECT" "rd32 (B a) (4 * e) = 0"
  defines "B' \<equiv> (take_block sb c B)(a := wr32 (B a) (4 * e) c)"
  shows "grown st sz sb B d B' d" "addr_of B' d (NDIRECT + e) = c"
proof -
  note K = take_ptr [OF ok c] and T = take_block_free [OF ok c] and D = file_okD [OF f]
  have pa: "ptr_ok st sz sb B a" using D(2) i by simp
  have nb: "\<And>b. b < sb_size sb \<Longrightarrow> a \<noteq> BBLOCK b sb" using pa by (simp add: ptr_ok_def)
  have us: "used sb B' b = used sb (take_block sb c B) b" if "b < sb_size sb" for b unfolding B'_def using used_other [OF nb that] .
  have ca: "c \<noteq> a" using ptr_free [OF pa] c by blast
  have at: "addr_of B' d j = (if j = NDIRECT + e then c else addr_of B d j)" if "j < MAXFILE" for j
    using i rd_wr_words [OF ok(2) [of a] i(3), of "j - NDIRECT" c] that by (auto simp: addr_of_def B'_def MAXFILE_def)
  have em: "NDIRECT + e < MAXFILE" using i(3) by (simp add: MAXFILE_def)
  have z: "addr_of B d (NDIRECT + e) = 0" using i by (simp add: addr_of_def)
  show "addr_of B' d (NDIRECT + e) = c" using at [OF em] by simp
  have cn: "addr_of B d j \<noteq> c" if "j < MAXFILE" "addr_of B d j \<noteq> 0" for j using ptr_free [OF D(3) [OF that]] c by blast
  have pt: "ptr_ok st sz sb B' n" if "ptr_ok st sz sb (take_block sb c B) n" for n using that us by (simp add: ptr_ok_def)
  have "file_ok st sz sb B' d"
    unfolding file_ok_def i(1)
  proof (intro conjI allI impI)
    show "length (d_addrs d) = NDIRECT + 1" by (rule D(1))
    show "ptr_ok st sz sb B' a" using pt K(2) [OF pa] by blast
    fix j assume j: "j < MAXFILE" "addr_of B' d j \<noteq> 0"
    show "ptr_ok st sz sb B' (addr_of B' d j)" using at [OF j(1)] j pt K(1,2) D(3) [OF j(1)] by auto
    show "addr_of B' d j \<noteq> a" using at [OF j(1)] j ca D(4) [OF j(1)] i(1) by auto
    fix l assume l: "l < MAXFILE" "addr_of B' d j = addr_of B' d l"
    show "j = l" by (rule one_more [OF at [OF j(1)] at [OF l(1)] l(2) j(2) K(4) cn [OF j(1)] cn [OF l(1)] D(5) [OF j(1) l(1)]])
  qed
  moreover have "fs_ok st sz sb B'"
  proof -
    have "0 < sb_size sb" using c le_less_trans [OF word_zero_le] unfolding free_blocks_def by blast
    then show ?thesis using T(1) us unfolding fs_ok_def by auto
  qed
  moreover have "free_blocks sb B' = free_blocks sb (take_block sb c B)" using us by (auto simp: free_blocks_def)
  moreover have "B' n = B n" if "ptr_ok st sz sb B n" "n \<noteq> a" for n using K(3) that by (simp add: B'_def)
  moreover have "B' c = replicate BSIZE 0" using ca T(5) by (simp add: B'_def)
  ultimately show "grown st sz sb B d B' d"
    unfolding grown_def i(1) using T(2) at z pt K(2) c by auto
qed

section \<open>bmap\<close>

definition inode_at :: "'z fstate_scheme \<Rightarrow> nat \<Rightarrow> dinode \<Rightarrow> bool" where
  "inode_at s ip d \<longleftrightarrow> ip < length (inodes s) \<and> i_dev (inodes s ! ip) = 1 \<and> i_d (inodes s ! ip) = d"

text \<open>Nothing but what a transaction changes and the inode cache is different.\<close>

definition fsame :: "'z fstate_scheme \<Rightarrow> 'z fstate_scheme \<Rightarrow> bool" where
  "fsame s t \<longleftrightarrow> log_same (s\<lparr>inodes := inodes t\<rparr>) t"

lemma inodes_frame [simp]:
  fixes s :: "'z fstate_scheme"
  shows "blk (s\<lparr>inodes := x\<rparr>) = blk s" "ftx me H st k (s\<lparr>inodes := x\<rparr>) = ftx me H st k s"
proof -
  show b: "blk (s\<lparr>inodes := x\<rparr>) = blk s"
    by (simp add: blk_def fun_eq_iff cong: option.case_cong if_cong)
  have "dirty (s\<lparr>inodes := x\<rparr>) = dirty s" by (simp add: dirty_def fun_eq_iff)
  moreover have "cache_inv me H (s\<lparr>inodes := x\<rparr>) = cache_inv me H s"
    by (simp add: cache_inv_def bio_ready_def cache_ok_def in_use_def)
  ultimately show "ftx me H st k (s\<lparr>inodes := x\<rparr>) = ftx me H st k s"
    unfolding ftx_def txn_def b by simp
qed

lemma log_same_inodes:
  fixes s :: "'z fstate_scheme"
  assumes "log_same s t"
  shows "log_same (s\<lparr>inodes := x\<rparr>) (t\<lparr>inodes := x\<rparr>)"
proof -
  obtain m T l b d g where t: "t = s\<lparr>mach := m, pt := T, slocks := l, bufs := b, dsk := d, logst := g\<rparr>"
    using assms unfolding log_same_def by blast
  then have "t\<lparr>inodes := x\<rparr> = s\<lparr>inodes := x\<rparr>\<lparr>mach := m, pt := T, slocks := l, bufs := b, dsk := d, logst := g\<rparr>" by simp
  then have "\<exists>m T l b d g. t\<lparr>inodes := x\<rparr> = s\<lparr>inodes := x\<rparr>\<lparr>mach := m, pt := T, slocks := l, bufs := b, dsk := d, logst := g\<rparr>" by blast
  moreover have "same_mach (mach s) (mach t)" "map p_pid (procs (pt t)) = map p_pid (procs (pt s))"
    "\<forall>i. slocks t (SL_inode i) = slocks s (SL_inode i)" "disksize (dsk t) = disksize (dsk s)"
    "lg_outstanding (logst t) = lg_outstanding (logst s)"
    using assms unfolding log_same_def by blast+
  ultimately show ?thesis unfolding log_same_def by (intro conjI) simp_all
qed

lemma fsame_log: "log_same s t \<Longrightarrow> fsame s t" for s :: "'z fstate_scheme"
  using log_same_inodes [of s t "inodes t"] by (simp add: fsame_def)

lemma fsame_inodes: "fsame s t \<Longrightarrow> fsame s (t\<lparr>inodes := x\<rparr>)"
  using log_same_inodes [of "s\<lparr>inodes := inodes t\<rparr>" t x] by (simp add: fsame_def)

lemma fsame_trans: "fsame s t \<Longrightarrow> fsame t u \<Longrightarrow> fsame s u"
  using log_same_inodes [of "s\<lparr>inodes := inodes t\<rparr>" t "inodes u"]
  by (auto simp: fsame_def intro: log_same_trans)

lemma fsameD: "fsame s t \<Longrightarrow> fssb t = fssb s" "fsame s t \<Longrightarrow> disksize (dsk t) = disksize (dsk s)"
  using log_same_fs(1) [of "s\<lparr>inodes := inodes t\<rparr>" t] log_sameD [of "s\<lparr>inodes := inodes t\<rparr>" t] by (simp_all add: fsame_def)

lemma ftx_refl: "ftx me H st k s \<Longrightarrow> log_same s s"
proof -
  assume "ftx me H st k s"
  then have "same_mach (mach s) (mach s)" by (auto simp: ftx_def txn_def cache_inv_def bio_ready_def intro: same_mach_refl)
  moreover have "s = s\<lparr>mach := mach s, pt := pt s, slocks := slocks s, bufs := bufs s, dsk := dsk s, logst := logst s\<rparr>" by simp
  ultimately show "log_same s s" unfolding log_same_def by blast
qed

lemma alloc_ok:
  fixes s :: "'z fstate_scheme"
  assumes F: "ftx me {} st k s" and ok: "fs_ok st (disksize (dsk s)) (fssb s) (blk s)" and I: "inode_at s ip d"
    and free: "free_blocks (fssb s) (blk s) \<noteq> {}" and room: "k < LOGSIZE - 2" and a: "d_addrs d ! j = 0"
  shows "\<exists>c t. c \<in> free_blocks (fssb s) (blk s) \<and> addr_or_alloc ip j s = Ret c t \<and> ftx me {} st (k + 2) t \<and>
    blk t = take_block (fssb s) c (blk s) \<and> inodes t = upd ip (\<lambda>i. i\<lparr>i_d := d\<lparr>d_addrs := (d_addrs d)[j := c]\<rparr>\<rparr>) (inodes s) \<and> fsame s t"
proof -
  obtain c where c: "c \<in> free_blocks (fssb s) (blk s)" "\<And>x. x < c \<Longrightarrow> x \<notin> free_blocks (fssb s) (blk s)"
    using least_free [OF free] by blast
  obtain t where t: "balloc 1 s = Ret c t" "ftx me {} st (k + 2) t" "blk t = take_block (fssb s) c (blk s)" "log_same s t"
    using balloc_ok [OF F ok c] room by auto
  have i: "inodes t = inodes s" "ip < length (inodes s)" "i_dev (inodes s ! ip) = 1" "i_d (inodes s ! ip) = d"
    using log_same_fs(2) [OF t(4)] I by (simp_all add: inode_at_def)
  let ?x = "upd ip (\<lambda>i. i\<lparr>i_d := d\<lparr>d_addrs := (d_addrs d)[j := c]\<rparr>\<rparr>) (inodes s)"
  have u: "upd ip (\<lambda>i. i\<lparr>i_d := (i_d i)\<lparr>d_addrs := (d_addrs (i_d i))[j := c]\<rparr>\<rparr>) (inodes s) = ?x"
    using i by (intro upd_cong_at) simp
  have "addr_or_alloc ip j s = Ret c (t\<lparr>inodes := ?x\<rparr>)"
    using a t(1) i u by (simp add: addr_or_alloc_def addrs_get_def ino_get_def addrs_set_def din_set_def ino_set_def kern)
  then show ?thesis using c(1) t fsame_inodes [OF fsame_log [OF t(4)]]
    by (intro exI [of _ c] exI [of _ "t\<lparr>inodes := ?x\<rparr>"]) simp
qed

lemma no_alloc: "inode_at s ip d \<Longrightarrow> d_addrs d ! j \<noteq> 0 \<Longrightarrow> addr_or_alloc ip j s = Ret (d_addrs d ! j) s"
  by (simp add: addr_or_alloc_def addrs_get_def ino_get_def inode_at_def kern)

lemma bmap_direct: "bn < NDIRECT \<Longrightarrow> bmap ip bn = addr_or_alloc ip bn"
  by (simp add: bmap_def)

text \<open>The part of \<open>bmap\<close> behind the indirect block.\<close>

definition bmap_entry :: "nat \<Rightarrow> nat \<Rightarrow> u32 \<Rightarrow> (u32, 'z fstate_scheme) kern" where
  "bmap_entry ip e a =
    bind (ino_get ip i_dev) (\<lambda>dev.
    bind (bread dev a) (\<lambda>bp.
    bind (buf_get bp (\<lambda>u. rd32 (b_data u) (4 * e))) (\<lambda>addr.
    bind (if addr \<noteq> 0 then return addr else
      bind (balloc dev) (\<lambda>a'.
      andthen (set_data bp (\<lambda>d. wr32 d (4 * e) a')) (
      andthen (log_write bp) (return a')))) (\<lambda>addr'.
    andthen (brelse bp) (return addr')))))"

lemma bmap_indirect: "e < NINDIRECT \<Longrightarrow> bmap ip (NDIRECT + e) = bind (addr_or_alloc ip NDIRECT) (bmap_entry ip e)"
  by (simp add: bmap_def bmap_entry_def [abs_def])

lemma entry_mapped:
  fixes s :: "'z fstate_scheme"
  assumes F: "ftx me {} st k s" and I: "inode_at s ip d" and a: "a < disksize (dsk s)" and k: "k < NBUF" and e: "rd32 (blk s a) (4 * e) \<noteq> 0"
  shows "\<exists>t. bmap_entry ip e a s = Ret (rd32 (blk s a) (4 * e)) t \<and> ftx me {} st k t \<and> blk t = blk s \<and> log_same s t"
proof -
  obtain b s1 t where "bread 1 a s = Ret b s1" "b_data (bufs s1 ! b) = blk s a" "brelse b s1 = Ret () t" "ftx me {} st k t" "blk t = blk s" "log_same s t"
    using peek_ok [OF F a] k by auto
  then show ?thesis using e I by (simp add: bmap_entry_def kern ino_get_def buf_get_def inode_at_def)
qed

lemma entry_new:
  fixes s :: "'z fstate_scheme"
  assumes F: "ftx me {} st k s" and ok: "fs_ok st (disksize (dsk s)) (fssb s) (blk s)" and I: "inode_at s ip d"
    and a: "ptr_ok st (disksize (dsk s)) (fssb s) (blk s) a" and free: "free_blocks (fssb s) (blk s) \<noteq> {}" and room: "k + 1 < LOGSIZE - 2"
    and e: "e < NINDIRECT" "rd32 (blk s a) (4 * e) = 0"
  shows "\<exists>c t. c \<in> free_blocks (fssb s) (blk s) \<and> bmap_entry ip e a s = Ret c t \<and> ftx me {} st (k + 3) t \<and>
    blk t = (take_block (fssb s) c (blk s))(a := wr32 (blk s a) (4 * e) c) \<and> log_same s t"
proof -
  have k: "a < disksize (dsk s)" "k + card ({} :: nat set) < NBUF" "k + card {x} < LOGSIZE - 2" for x :: nat
    using room a by (simp_all add: LOGSIZE_def NBUF_def home_def ptr_ok_def)
  obtain b s1 where 1: "bread 1 a s = Ret b s1" "ftx me {b} st k s1" "blk s1 = blk s" "log_same s s1"
      "b_blockno (bufs s1 ! b) = a" "b_data (bufs s1 ! b) = blk s a"
    using read_ok [OF F k(1) _ k(2)] by auto
  have s1: "fssb s1 = fssb s" "disksize (dsk s1) = disksize (dsk s)" using log_same_fs(1) [OF 1(4)] log_sameD [OF 1(4)] by simp_all
  obtain c where c: "c \<in> free_blocks (fssb s) (blk s)" "\<And>x. x < c \<Longrightarrow> x \<notin> free_blocks (fssb s) (blk s)"
    using least_free [OF free] by blast
  have h: "used (fssb s1) (blk s1) (b_blockno (bufs s1 ! i)) \<and> (\<forall>x < sb_size (fssb s1). b_blockno (bufs s1 ! i) \<noteq> BBLOCK x (fssb s1))" if "i \<in> {b}" for i
    using that a 1(3,5) s1 by (simp add: ptr_ok_def)
  obtain s2 where 2: "balloc 1 s1 = Ret c s2" "ftx me {b} st (k + 2) s2" "blk s2 = take_block (fssb s) c (blk s)" "log_same s1 s2"
      "b_blockno (bufs s2 ! b) = a"
    using balloc_ok [OF 1(2) _ _ _ h k(3), of c] ok c 1(3,5) s1 by auto
  have S2: "log_same s s2" by (rule log_same_trans [OF 1(4) 2(4)])
  have ha: "home st (disksize (dsk s2)) a" using a log_sameD [OF S2] by (simp add: ptr_ok_def)
  have k2: "k + 2 < LOGSIZE - 1" using room by linarith
  have same: "blk s2 a = blk s a"
    unfolding 2(3) using take_block_other [OF c(1)] a unfolding ptr_ok_def by blast
  obtain s3 where 3: "andthen (set_data b (\<lambda>d. wr32 d (4 * e) c)) (log_write b) s2 = Ret () s3" "ftx me {b} st (Suc (k + 2)) s3"
      "blk s3 = (blk s2)(a := wr32 (blk s2 a) (4 * e) c)" "log_same s2 s3"
    using put_ok [of me "{b}" st "k + 2" s2 b a "\<lambda>d. wr32 d (4 * e) c", OF 2(2) singletonI k2 2(5) ha] e(1) by auto
  obtain t where 4: "brelse b s3 = Ret () t" "ftx me {} st (Suc (k + 2)) t" "blk t = blk s3" "log_same s3 t"
    using rel_ok [OF 3(2), of b] by auto
  obtain s2' where sp: "set_data b (\<lambda>d. wr32 d (4 * e) c) s2 = Ret () s2'" "log_write b s2' = Ret () s3"
    using 3(1) by (auto simp: andthen_Ret_iff)
  have "bmap_entry ip e a s = Ret c t"
    using 1(1,6) 2(1) sp 4(1) e(2) I by (simp add: bmap_entry_def bind_def andthen_def return_def gets_def ino_get_def buf_get_def inode_at_def)
  then show ?thesis using c(1) 4 3(3) 2(3) same log_same_trans [OF log_same_trans [OF S2 3(4)] 4(4)]
    by (intro exI [of _ c] exI [of _ t]) (simp add: numeral_3_eq_3)
qed

end
