(* ===== verification/Filedata.thy ===== *)
theory Filedata
  imports Filemap
begin

text \<open>
  Reading and writing files, \<open>readi\<close> and \<open>writei\<close>: inside a transaction a file is the sequence of its bytes, blocks
  that are not mapped read as zeroes, and writing changes the bytes written and nothing of other files.
\<close>

section \<open>bmap\<close>

lemma bmap_mapped:
  fixes s :: "'z fstate_scheme"
  assumes F: "ftx me {} st k s" and I: "inode_at s ip d" and f: "file_ok st (disksize (dsk s)) sb (blk s) d" and k: "k < NBUF"
    and bn: "bn < MAXFILE" "addr_of (blk s) d bn \<noteq> 0"
  shows "\<exists>t. bmap ip bn s = Ret (addr_of (blk s) d bn) t \<and> ftx me {} st k t \<and> blk t = blk s \<and> log_same s t"
proof (cases "bn < NDIRECT")
  case True
  then have "bmap ip bn s = Ret (addr_of (blk s) d bn) s" using no_alloc [OF I, of bn] bn(2) by (simp add: bmap_direct addr_of_def)
  then show ?thesis using F ftx_refl [OF F] by blast
next
  case False
  define e where "e = bn - NDIRECT"
  have e: "bn = NDIRECT + e" "e < NINDIRECT" using False bn(1) by (simp_all add: e_def MAXFILE_def)
  have a: "d_addrs d ! NDIRECT \<noteq> 0" "addr_of (blk s) d bn = rd32 (blk s (d_addrs d ! NDIRECT)) (4 * e)"
    using bn(2) by (auto simp: e(1) addr_of_def split: if_splits)
  have "d_addrs d ! NDIRECT < disksize (dsk s)" using file_okD(2) [OF f a(1)] by (simp add: ptr_ok_def home_def)
  then show ?thesis
    using entry_mapped [OF F I _ k, of "d_addrs d ! NDIRECT" e] no_alloc [OF I a(1)] bn(2) a(2)
    by (simp add: e(1) bmap_indirect [OF e(2)] bind_def)
qed

lemma card_take: "c \<in> F \<Longrightarrow> finite F \<Longrightarrow> card F = Suc (card (F - {c}))"
  by (metis card_Suc_Diff1)

text \<open>\<open>bmap\<close> maps the block if need be; it takes at most two blocks and five slots of the log.\<close>

lemma bmap_ok:
  fixes s :: "'z fstate_scheme"
  assumes F: "ftx me {} st k s" and ok: "fs_ok st (disksize (dsk s)) (fssb s) (blk s)" and I: "inode_at s ip d"
    and f: "file_ok st (disksize (dsk s)) (fssb s) (blk s) d" and free: "2 \<le> card (free_blocks (fssb s) (blk s))"
    and room: "k + 5 < LOGSIZE" and bn: "bn < MAXFILE"
  shows "\<exists>t d'. bmap ip bn s = Ret (addr_of (blk t) d' bn) t \<and> addr_of (blk t) d' bn \<noteq> 0 \<and> ftx me {} st (k + 5) t \<and>
    inodes t = upd ip (\<lambda>i. i\<lparr>i_d := d'\<rparr>) (inodes s) \<and> grown st (disksize (dsk s)) (fssb s) (blk s) d (blk t) d' \<and> fsame s t \<and>
    card (free_blocks (fssb s) (blk s)) \<le> card (free_blocks (fssb s) (blk t)) + 2"
proof -
  let ?sz = "disksize (dsk s)" and ?sb = "fssb s" and ?B = "blk s"
  have len: "\<And>n. length (?B n) = BSIZE" using ftxD(2) [OF F] .
  have r2: "k < LOGSIZE - 2" using room by linarith
  have ne: "free_blocks ?sb ?B \<noteq> {}" using free by auto
  have fin: "finite (free_blocks ?sb B)" for B by simp
  have same_i: "upd ip (\<lambda>i. i\<lparr>i_d := d\<rparr>) (inodes s) = inodes s" using I by (intro upd_id_same) (simp_all add: inode_at_def)
  have le: "bn < NDIRECT \<or> \<not> bn < NDIRECT \<and> bn = NDIRECT + (bn - NDIRECT) \<and> bn - NDIRECT < NINDIRECT" using bn by (auto simp: MAXFILE_def)
  consider (mapped) "addr_of ?B d bn \<noteq> 0" | (direct) "bn < NDIRECT" "d_addrs d ! bn = 0"
    | (entry) e where "bn = NDIRECT + e" "e < NINDIRECT" "d_addrs d ! NDIRECT \<noteq> 0" "rd32 (?B (d_addrs d ! NDIRECT)) (4 * e) = 0"
    | (both) e where "bn = NDIRECT + e" "e < NINDIRECT" "d_addrs d ! NDIRECT = 0"
    using le unfolding addr_of_def by metis
  then show ?thesis
  proof cases
    case mapped
    have "k < NBUF" using room by (simp add: LOGSIZE_def NBUF_def)
    then obtain t where t: "bmap ip bn s = Ret (addr_of ?B d bn) t" "ftx me {} st k t" "blk t = ?B" "log_same s t"
      using bmap_mapped [OF F I f _ bn mapped] by blast
    then show ?thesis using mapped ftx_mono [OF t(2), of "k + 5"] grown_refl [OF ok f] log_same_fs(2) [OF t(4)] same_i fsame_log [OF t(4)]
      by (intro exI [of _ t] exI [of _ d]) simp
  next
    case direct
    obtain c t where t: "c \<in> free_blocks ?sb ?B" "addr_or_alloc ip bn s = Ret c t" "ftx me {} st (k + 2) t" "blk t = take_block ?sb c ?B"
        "inodes t = upd ip (\<lambda>i. i\<lparr>i_d := d\<lparr>d_addrs := (d_addrs d)[bn := c]\<rparr>\<rparr>) (inodes s)" "fsame s t"
      using alloc_ok [OF F ok I ne r2 direct(2)] by blast
    note T = take_block_free [OF ok len t(1)]
    show ?thesis
      using grown_direct [OF ok len t(1) f direct] t T(2,4) direct(1) ftx_mono [OF t(3), of "k + 5"] card_take [OF t(1) fin]
      by (intro exI [of _ t] exI [of _ "d\<lparr>d_addrs := (d_addrs d)[bn := c]\<rparr>"]) (simp add: bmap_direct)
  next
    case entry
    note a = file_okD(2) [OF f entry(3)]
    have r: "k + 1 < LOGSIZE - 2" using room by linarith
    obtain c t where t: "c \<in> free_blocks ?sb ?B" "bmap_entry ip e (d_addrs d ! NDIRECT) s = Ret c t" "ftx me {} st (k + 3) t"
        "blk t = (take_block ?sb c ?B)(d_addrs d ! NDIRECT := wr32 (?B (d_addrs d ! NDIRECT)) (4 * e) c)" "log_same s t"
      using entry_new [OF F ok I a ne r entry(2,4)] by blast
    note G = grown_entry [OF ok len t(1) f refl entry(3,2,4)]
    have fr: "free_blocks ?sb (blk t) = free_blocks ?sb (take_block ?sb c ?B)"
      using a used_other [of ?sb "d_addrs d ! NDIRECT"] unfolding t(4) by (auto simp: free_blocks_def ptr_ok_def)
    show ?thesis
      using G t take_block_free(2,4) [OF ok len t(1)] fr ftx_mono [OF t(3), of "k + 5"] card_take [OF t(1) fin] no_alloc [OF I entry(3)]
        log_same_fs(2) [OF t(5)] same_i fsame_log [OF t(5)]
      by (intro exI [of _ t] exI [of _ d]) (simp add: entry(1) bmap_indirect [OF entry(2)] bind_def)
  next
    case both
    obtain c1 s1 where 1: "c1 \<in> free_blocks ?sb ?B" "addr_or_alloc ip NDIRECT s = Ret c1 s1" "ftx me {} st (k + 2) s1" "blk s1 = take_block ?sb c1 ?B"
        "inodes s1 = upd ip (\<lambda>i. i\<lparr>i_d := d\<lparr>d_addrs := (d_addrs d)[NDIRECT := c1]\<rparr>\<rparr>) (inodes s)" "fsame s s1"
      using alloc_ok [OF F ok I ne r2 both(3)] by blast
    define d1 where "d1 = d\<lparr>d_addrs := (d_addrs d)[NDIRECT := c1]\<rparr>"
    note T = take_block_free [OF ok len 1(1)]
    have G1: "grown st ?sz ?sb ?B d (blk s1) d1" "d_addrs d1 ! NDIRECT = c1"
      using grown_indirect [OF ok len 1(1) f both(3)] by (simp_all add: 1(4) d1_def)
    have eq: "fssb s1 = ?sb" "disksize (dsk s1) = ?sz" using fsameD [OF 1(6)] by simp_all
    have ok1: "fs_ok st (disksize (dsk s1)) (fssb s1) (blk s1)" "file_ok st (disksize (dsk s1)) (fssb s1) (blk s1) d1"
      using G1(1) by (simp_all add: grown_def eq)
    have I1: "inode_at s1 ip d1" using I by (simp add: inode_at_def 1(5) d1_def)
    have c1: "card (free_blocks ?sb ?B) = Suc (card (free_blocks ?sb (blk s1)))" using card_take [OF 1(1) fin] T(2) 1(4) by simp
    then have ne1: "free_blocks (fssb s1) (blk s1) \<noteq> {}" using free eq by auto
    have e1: "rd32 (blk s1 c1) (4 * e) = 0" using both(2) T(5) rd32_zero [of "4 * e"] by (simp add: 1(4) NINDIRECT_def BSIZE_def)
    have a1: "ptr_ok st (disksize (dsk s1)) (fssb s1) (blk s1) c1" using take_ptr(1) [OF ok len 1(1)] by (simp add: 1(4) eq)
    have r: "k + 2 + 1 < LOGSIZE - 2" using room by linarith
    obtain c t where t: "c \<in> free_blocks ?sb (blk s1)" "bmap_entry ip e c1 s1 = Ret c t" "ftx me {} st (k + 2 + 3) t"
        "blk t = (take_block ?sb c (blk s1))(c1 := wr32 (blk s1 c1) (4 * e) c)" "log_same s1 t"
      using entry_new [OF 1(3) ok1(1) I1 a1 ne1 r both(2) e1] unfolding eq by blast
    note len1 = ftxD(2) [OF 1(3)]
    have ok1': "fs_ok st ?sz ?sb (blk s1)" "file_ok st ?sz ?sb (blk s1) d1" using ok1 by (simp_all add: eq)
    note G = grown_entry [OF ok1'(1) len1 t(1) ok1'(2) G1(2) T(4) both(2) e1]
    have fr: "free_blocks ?sb (blk t) = free_blocks ?sb (take_block ?sb c (blk s1))"
      using a1 used_other [of ?sb c1] unfolding t(4) eq by (auto simp: free_blocks_def ptr_ok_def)
    have g: "grown st ?sz ?sb ?B d (blk t) d1" by (rule grown_trans [OF f G1(1)]) (simp add: t(4) G(1))
    have "card (free_blocks ?sb (blk s1)) = Suc (card (free_blocks ?sb (blk t)))"
      using card_take [OF t(1) fin] take_block_free(2) [OF ok1'(1) len1 t(1)] fr by simp
    then show ?thesis
      using g G(2) t ftx_mono [OF t(3), of "k + 5"] take_block_free(4) [OF ok1'(1) len1 t(1)] c1 1(2,5) log_same_fs(2) [OF t(5)] fsame_trans [OF 1(6) fsame_log [OF t(5)]]
      by (intro exI [of _ t] exI [of _ d1]) (simp add: both(1) bmap_indirect [OF both(2)] bind_def d1_def)
  qed
qed

section \<open>The bytes of a file\<close>

definition fbyte :: "(u32 \<Rightarrow> u8 list) \<Rightarrow> dinode \<Rightarrow> nat \<Rightarrow> u8" where
  "fbyte B d i = (if addr_of B d (i div BSIZE) = 0 then 0 else B (addr_of B d (i div BSIZE)) ! (i mod BSIZE))"

lemma BSIZE_pos [simp]: "0 < BSIZE" by (simp add: BSIZE_def)

lemma grown_fbyte:
  assumes "file_ok st sz sb B d" "grown st sz sb B d B' d'" "i div BSIZE < MAXFILE"
  shows "fbyte B' d' i = fbyte B d i"
proof (cases "addr_of B d (i div BSIZE) = 0")
  case True
  show ?thesis
  proof (cases "addr_of B' d' (i div BSIZE) = 0")
    case False
    then have "B' (addr_of B' d' (i div BSIZE)) = replicate BSIZE 0" using True assms(2,3) unfolding grown_def by blast
    then show ?thesis using True False by (simp add: fbyte_def)
  qed (simp add: fbyte_def True)
next
  case False
  then have a: "addr_of B' d' (i div BSIZE) = addr_of B d (i div BSIZE)" using assms(2,3) unfolding grown_def by blast
  have "B' (addr_of B d (i div BSIZE)) = B (addr_of B d (i div BSIZE))"
    using assms(2) file_okD(3,4) [OF assms(1,3) False] unfolding grown_def by blast
  then show ?thesis using a by (simp add: fbyte_def)
qed

lemma in_block:
  assumes "k < chunk off n"
  shows "(off + k) div BSIZE = off div BSIZE" "(off + k) mod BSIZE = off mod BSIZE + k"
proof -
  have l: "off mod BSIZE + k < BSIZE" using assms unfolding chunk_def by linarith
  have e: "off + k = (off mod BSIZE + k) + off div BSIZE * BSIZE" by (metis add.assoc add.commute mod_div_mult_eq)
  show "(off + k) div BSIZE = off div BSIZE" unfolding e div_mult_self1 [OF less_imp_neq [OF BSIZE_pos, symmetric]] using l by simp
  show "(off + k) mod BSIZE = off mod BSIZE + k" unfolding e mod_mult_self1 using l by simp
qed

lemma chunk_bytes:
  assumes "addr_of B d (off div BSIZE) \<noteq> 0" "length (B (addr_of B d (off div BSIZE))) = BSIZE"
  shows "take (chunk off n) (drop (off mod BSIZE) (B (addr_of B d (off div BSIZE)))) = map (fbyte B d) [off..<off + chunk off n]"
proof (rule nth_equalityI)
  show "length (take (chunk off n) (drop (off mod BSIZE) (B (addr_of B d (off div BSIZE))))) = length (map (fbyte B d) [off..<off + chunk off n])"
    using assms(2) by (simp add: chunk_def)
  fix k assume "k < length (take (chunk off n) (drop (off mod BSIZE) (B (addr_of B d (off div BSIZE)))))"
  then have k: "k < chunk off n" by simp
  show "take (chunk off n) (drop (off mod BSIZE) (B (addr_of B d (off div BSIZE)))) ! k = map (fbyte B d) [off..<off + chunk off n] ! k"
    using k assms in_block [OF k] by (simp add: fbyte_def chunk_def)
qed

lemma chunk_le: "chunk off n \<le> n" by (simp add: chunk_def)

lemma split_range: "chunk off n \<le> n \<Longrightarrow> [off..<off + n] = [off..<off + chunk off n] @ [off + chunk off n..<off + n]"
  using upt_add_eq_append [of off "off + chunk off n" "n - chunk off n"] by simp

lemma readi_loop_ok:
  fixes s :: "'z fstate_scheme"
  assumes "ftx me {} st k s" and "inode_at s ip d" and "file_ok st (disksize (dsk s)) sb (blk s) d" and "k < NBUF"
    and "\<And>i. off \<le> i \<Longrightarrow> i < off + n \<Longrightarrow> i div BSIZE < MAXFILE \<and> addr_of (blk s) d (i div BSIZE) \<noteq> 0"
  shows "\<exists>t. readi_loop ip ToVar tot off n s = Ret (map (fbyte (blk s) d) [off..<off + n]) t \<and> ftx me {} st k t \<and> blk t = blk s \<and> log_same s t"
  using assms
proof (induction n arbitrary: tot off s rule: less_induct)
  case (less n)
  note F = less.prems(1) and I = less.prems(2) and f = less.prems(3) and k = less.prems(4) and m = less.prems(5)
  show ?case
  proof (cases "n = 0")
    case True
    then show ?thesis using F ftx_refl [OF F] by (simp add: readi_loop.simps return_def)
  next
    case False
    let ?a = "addr_of (blk s) d (off div BSIZE)"
    have a: "off div BSIZE < MAXFILE" "?a \<noteq> 0" using m [of off] False by auto
    obtain s1 where 1: "bmap ip (off div BSIZE) s = Ret ?a s1" "ftx me {} st k s1" "blk s1 = blk s" "log_same s s1"
      using bmap_mapped [OF F I f k a] by blast
    have da: "?a < disksize (dsk s1)" using file_okD(3) [OF f a] log_sameD [OF 1(4)] by (simp add: ptr_ok_def home_def)
    obtain b s2 s3 where 2: "bread 1 ?a s1 = Ret b s2" "b_data (bufs s2 ! b) = blk s ?a" "brelse b s2 = Ret () s3" "ftx me {} st k s3"
        "blk s3 = blk s" "log_same s1 s3"
      using peek_ok [OF 1(2) da] k 1(3) by auto
    have S3: "log_same s s3" by (rule log_same_trans [OF 1(4) 2(6)])
    have I3: "inode_at s3 ip d" using I log_same_fs(2) [OF S3] by (simp add: inode_at_def)
    have f3: "file_ok st (disksize (dsk s3)) sb (blk s3) d" using f 2(5) log_sameD [OF S3] by simp
    let ?c = "chunk off n"
    have c: "0 < ?c" "?c \<le> n" using False chunk_pos chunk_le by auto
    have "\<exists>t. readi_loop ip ToVar (tot + ?c) (off + ?c) (n - ?c) s3 = Ret (map (fbyte (blk s3) d) [off + ?c..<off + ?c + (n - ?c)]) t \<and>
        ftx me {} st k t \<and> blk t = blk s3 \<and> log_same s3 t"
      by (rule less.IH) (use c 2(4,5) I3 f3 k m in auto)
    then obtain t where t: "readi_loop ip ToVar (tot + ?c) (off + ?c) (n - ?c) s3 = Ret (map (fbyte (blk s) d) [off + ?c..<off + n]) t"
        "ftx me {} st k t" "blk t = blk s" "log_same s3 t" using c(2) 2(5) by auto
    have "readi_loop ip ToVar tot off n s = Ret (map (fbyte (blk s) d) [off..<off + n]) t"
      using False 1(1) 2(1-3) t(1) I chunk_bytes [OF a(2) ftxD(2) [OF F], of n] split_range [OF c(2)]
      by (simp add: readi_loop.simps [of ip ToVar tot off n] bind_def andthen_def gets_def return_def ino_get_def buf_get_def put_dst_def inode_at_def)
    then show ?thesis using t log_same_trans [OF S3 t(4)] by blast
  qed
qed

section \<open>Writing\<close>

definition owns :: "(u32 \<Rightarrow> u8 list) \<Rightarrow> dinode \<Rightarrow> u32 \<Rightarrow> bool" where
  "owns B d n \<longleftrightarrow> n \<noteq> 0 \<and> (n = d_addrs d ! NDIRECT \<or> (\<exists>i<MAXFILE. addr_of B d i = n))"

text \<open>
  From one state of a file to another: no block is unmapped, new blocks were free, blocks in use by anything else
  are as they were.
\<close>

definition wrote :: "u32 \<Rightarrow> u32 \<Rightarrow> superblock \<Rightarrow> (u32 \<Rightarrow> u8 list) \<Rightarrow> dinode \<Rightarrow> (u32 \<Rightarrow> u8 list) \<Rightarrow> dinode \<Rightarrow> bool" where
  "wrote st sz sb B d B' d' \<longleftrightarrow> fs_ok st sz sb B' \<and> file_ok st sz sb B' d' \<and> d' = d\<lparr>d_addrs := d_addrs d'\<rparr> \<and>
     (\<forall>i<MAXFILE. addr_of B d i \<noteq> 0 \<longrightarrow> addr_of B' d' i = addr_of B d i) \<and>
     (\<forall>n. owns B' d' n \<longrightarrow> owns B d n \<or> n \<in> free_blocks sb B) \<and>
     (\<forall>n. ptr_ok st sz sb B n \<longrightarrow> ptr_ok st sz sb B' n \<and> (\<not> owns B d n \<longrightarrow> B' n = B n)) \<and>
     free_blocks sb B' \<subseteq> free_blocks sb B"

lemma owns_ptr: "file_ok st sz sb B d \<Longrightarrow> owns B d n \<Longrightarrow> ptr_ok st sz sb B n"
  unfolding owns_def using file_okD(2,3) by blast

lemma wrote_refl: "fs_ok st sz sb B \<Longrightarrow> file_ok st sz sb B d \<Longrightarrow> wrote st sz sb B d B d"
  by (simp add: wrote_def)

lemma wrote_trans:
  assumes "file_ok st sz sb B d" "wrote st sz sb B d B1 d1" "wrote st sz sb B1 d1 B2 d2"
  shows "wrote st sz sb B d B2 d2"
proof -
  note G = assms(2) [unfolded wrote_def] and G' = assms(3) [unfolded wrote_def]
  have "ptr_ok st sz sb B2 n \<and> (\<not> owns B d n \<longrightarrow> B2 n = B n)" if n: "ptr_ok st sz sb B n" for n
  proof -
    have p: "ptr_ok st sz sb B1 n" "\<not> owns B d n \<longrightarrow> B1 n = B n" "ptr_ok st sz sb B2 n" "\<not> owns B1 d1 n \<longrightarrow> B2 n = B1 n"
      using G G' n by blast+
    moreover have "\<not> owns B1 d1 n" if "\<not> owns B d n" using G that ptr_free [OF n] by blast
    ultimately show ?thesis by auto
  qed
  moreover have "d2 = d\<lparr>d_addrs := d_addrs d2\<rparr>"
  proof -
    have "d1 = d\<lparr>d_addrs := d_addrs d1\<rparr>" "d2 = d1\<lparr>d_addrs := d_addrs d2\<rparr>" using G G' by blast+
    then show ?thesis by (metis dinode.surjective dinode.update_convs(6))
  qed
  moreover have "addr_of B2 d2 i = addr_of B d i" if "i < MAXFILE" "addr_of B d i \<noteq> 0" for i
    using G G' that by metis
  moreover have "owns B d n \<or> n \<in> free_blocks sb B" if "owns B2 d2 n" for n using G G' that by blast
  moreover have "fs_ok st sz sb B2" "file_ok st sz sb B2 d2" "free_blocks sb B2 \<subseteq> free_blocks sb B" using G G' by blast+
  ultimately show ?thesis unfolding wrote_def by blast
qed

lemma grown_wrote:
  assumes "file_ok st sz sb B d" "grown st sz sb B d B' d'"
  shows "wrote st sz sb B d B' d'"
proof -
  note G = assms(2) [unfolded grown_def]
  have "owns B d n \<or> n \<in> free_blocks sb B" if "owns B' d' n" for n
    using that G unfolding owns_def by metis
  moreover have "n \<noteq> d_addrs d ! NDIRECT" if "ptr_ok st sz sb B n" "\<not> owns B d n" for n
    using that unfolding owns_def ptr_ok_def by metis
  ultimately show ?thesis using G unfolding wrote_def by blast
qed

lemma wrote_data:
  assumes "fs_ok st sz sb B" "file_ok st sz sb B d" "i < MAXFILE" "addr_of B d i = a" "a \<noteq> 0"
  shows "wrote st sz sb B d (B(a := x)) d" "free_blocks sb (B(a := x)) = free_blocks sb B"
    "\<And>j. j div BSIZE < MAXFILE \<Longrightarrow> fbyte (B(a := x)) d j = (if j div BSIZE = i then x ! (j mod BSIZE) else fbyte B d j)"
    "addr_of (B(a := x)) d = addr_of B d"
proof -
  note D = file_okD [OF assms(2)]
  have a: "ptr_ok st sz sb B a" "a \<noteq> d_addrs d ! NDIRECT" using D(3,4) [OF assms(3)] assms(4,5) by auto
  show at: "addr_of (B(a := x)) d = addr_of B d" using a(2) by (simp add: addr_of_def fun_eq_iff)
  have nb: "\<And>b. b < sb_size sb \<Longrightarrow> a \<noteq> BBLOCK b sb" and sz: "0 < sb_size sb"
    using a(1) le_less_trans [OF word_zero_le] by (auto simp: ptr_ok_def)
  have us: "used sb (B(a := x)) b = used sb B b" if "b < sb_size sb" for b using used_other [OF nb that] .
  show fr: "free_blocks sb (B(a := x)) = free_blocks sb B" using us by (auto simp: free_blocks_def)
  have p: "ptr_ok st sz sb (B(a := x)) n = ptr_ok st sz sb B n" for n unfolding ptr_ok_def using us [of n] by blast
  have ok: "fs_ok st sz sb (B(a := x))" using assms(1) unfolding fs_ok_def us [OF sz] by (simp add: us)
  have f: "file_ok st sz sb (B(a := x)) d" using assms(2) unfolding file_ok_def at p .
  have "owns B d a" using assms(3-5) by (auto simp: owns_def)
  then have same: "(B(a := x)) n = B n" if "\<not> owns B d n" for n using that by (cases "n = a") simp_all
  have ow: "owns (B(a := x)) d = owns B d" by (simp add: owns_def at fun_eq_iff)
  show "wrote st sz sb B d (B(a := x)) d" unfolding wrote_def at fr p ow using ok f same by simp
  show "fbyte (B(a := x)) d j = (if j div BSIZE = i then x ! (j mod BSIZE) else fbyte B d j)" if j: "j div BSIZE < MAXFILE" for j
  proof (cases "j div BSIZE = i")
    case True
    then show ?thesis unfolding fbyte_def at using assms(4,5) by simp
  next
    case False
    then have "addr_of B d (j div BSIZE) \<noteq> a" using D(5) [OF assms(3) j] assms(4,5) by metis
    then show ?thesis unfolding fbyte_def at using False by simp
  qed
qed

text \<open>The number of blocks the bytes from \<open>off\<close> on lie in.\<close>

definition blocks_of :: "nat \<Rightarrow> nat \<Rightarrow> nat" where
  "blocks_of off n = (if n = 0 then 0 else Suc ((off + n - 1) div BSIZE - off div BSIZE))"

lemma blocks_of_step:
  assumes "0 < n"
  shows "blocks_of off n = Suc (blocks_of (off + chunk off n) (n - chunk off n))"
proof (cases "n \<le> BSIZE - off mod BSIZE")
  case True
  then have c: "chunk off n = n" by (simp add: chunk_def)
  have "(off + (n - 1)) div BSIZE = off div BSIZE" by (rule in_block(1) [of _ _ n]) (use assms c in simp)
  then show ?thesis using assms by (simp add: blocks_of_def c)
next
  case False
  let ?q = "off div BSIZE"
  have m: "off mod BSIZE < BSIZE" by simp
  have c: "chunk off n = BSIZE - off mod BSIZE" using False by (simp add: chunk_def)
  have e: "off + chunk off n = (?q + 1) * BSIZE" using m div_mult_mod_eq [of off BSIZE] unfolding c add_mult_distrib by linarith
  have "(?q + 1) * BSIZE \<le> off + n - 1" using e False unfolding c by linarith
  then have "?q + 1 \<le> (off + n - 1) div BSIZE" using less_eq_div_iff_mult_less_eq [OF BSIZE_pos] by blast
  moreover have "n - chunk off n \<noteq> 0" "off + chunk off n + (n - chunk off n) = off + n" using False unfolding c by linarith+
  moreover have "(off + chunk off n) div BSIZE = ?q + 1" unfolding e by simp
  ultimately show ?thesis using assms unfolding blocks_of_def by simp
qed

text \<open>A block updated, and what follows.\<close>

lemma update_then:
  assumes "bind (bread dev n) (\<lambda>b. andthen (set_data b f) (andthen (log_write b) (brelse b))) s = Ret () t"
  shows "bind (bread dev n) (\<lambda>b. andthen (set_data b f) (andthen (log_write b) (andthen (brelse b) K))) s = K t"
  using assms by (auto simp: bind_def andthen_def split: outcome.splits)

lemma blit_byte:
  assumes "length d = BSIZE" "length bs = chunk off n" "j div BSIZE = off div BSIZE"
  shows "blit d (off mod BSIZE) bs ! (j mod BSIZE) = (if off \<le> j \<and> j < off + chunk off n then bs ! (j - off) else d ! (j mod BSIZE))"
proof -
  have c: "off mod BSIZE + chunk off n \<le> BSIZE"
  proof -
    have "chunk off n \<le> BSIZE - off mod BSIZE" "off mod BSIZE < BSIZE" by (simp_all add: chunk_def)
    then show ?thesis by linarith
  qed
  have e: "j = off div BSIZE * BSIZE + j mod BSIZE" "off = off div BSIZE * BSIZE + off mod BSIZE"
    using assms(3) div_mult_mod_eq [of j BSIZE] div_mult_mod_eq [of off BSIZE] by simp_all
  then have "off mod BSIZE \<le> j mod BSIZE \<longleftrightarrow> off \<le> j" "j mod BSIZE < off mod BSIZE + chunk off n \<longleftrightarrow> j < off + chunk off n"
    "off \<le> j \<Longrightarrow> j mod BSIZE - off mod BSIZE = j - off" by linarith+
  then show ?thesis using assms(1,2) c by (subst nth_blit) auto
qed


lemma bind_return_left: "bind (return x) f = f x" by (simp add: bind_def return_def fun_eq_iff)

lemma writei_loop_var:
  assumes "n \<noteq> 0"
  shows "writei_loop ip (FromVar bs) tot off n = bind (ino_get ip i_dev) (\<lambda>dev. bind (bmap ip (off div BSIZE)) (\<lambda>a.
    bind (bread dev a) (\<lambda>b. andthen (set_data b (\<lambda>d. blit d (off mod BSIZE) (take (chunk off n) (drop tot bs))))
      (andthen (log_write b) (andthen (brelse b)
        (writei_loop ip (FromVar bs) (tot + chunk off n) (off + chunk off n) (n - chunk off n)))))))"
  using assms by (subst writei_loop.simps) (simp add: get_src_def bind_return_left)

lemma ino_get_then: "bind (ino_get ip f) K s = K (f (inodes s ! ip)) s"
  by (simp add: ino_get_def bind_def gets_def)

text \<open>One turn of the loop of \<open>writei\<close>.\<close>

lemma write_chunk_ok:
  fixes s :: "'z fstate_scheme"
  assumes F: "ftx me {} st k s" and ok: "fs_ok st (disksize (dsk s)) (fssb s) (blk s)" and I: "inode_at s ip d"
    and f: "file_ok st (disksize (dsk s)) (fssb s) (blk s) d" and r: "2 \<le> card (free_blocks (fssb s) (blk s))"
    and k6: "k + 6 < LOGSIZE" and n: "0 < n" and mx: "off + n \<le> MAXFILE * BSIZE" and ln: "tot + n \<le> length bs"
  shows "\<exists>t d'. (\<forall>K :: (unit, 'z fstate_scheme) kern. bind (bmap ip (off div BSIZE)) (\<lambda>a. bind (bread 1 a) (\<lambda>b.
      andthen (set_data b (\<lambda>d. blit d (off mod BSIZE) (take (chunk off n) (drop tot bs)))) (andthen (log_write b) (andthen (brelse b) K)))) s = K t) \<and>
    ftx me {} st (k + 6) t \<and> inodes t = upd ip (\<lambda>i. i\<lparr>i_d := d'\<rparr>) (inodes s) \<and>
    wrote st (disksize (dsk s)) (fssb s) (blk s) d (blk t) d' \<and> fsame s t \<and> addr_of (blk t) d' (off div BSIZE) \<noteq> 0 \<and>
    card (free_blocks (fssb s) (blk s)) \<le> card (free_blocks (fssb s) (blk t)) + 2 \<and>
    (\<forall>i<MAXFILE * BSIZE. fbyte (blk t) d' i = (if off \<le> i \<and> i < off + chunk off n then bs ! (tot + (i - off)) else fbyte (blk s) d i))"
proof -
  let ?sz = "disksize (dsk s)" and ?sb = "fssb s" and ?c = "chunk off n" and ?bn = "off div BSIZE"
  have c: "?c \<le> n" by (rule chunk_le)
  have bn: "?bn < MAXFILE" using mx n by (intro less_mult_imp_div_less) linarith
  have k5: "k + 5 < LOGSIZE" "k + 5 + card ({} :: nat set) < LOGSIZE - 1" using k6 by simp_all
  obtain s1 d1 where 1: "bmap ip ?bn s = Ret (addr_of (blk s1) d1 ?bn) s1" "addr_of (blk s1) d1 ?bn \<noteq> 0" "ftx me {} st (k + 5) s1"
      "inodes s1 = upd ip (\<lambda>i. i\<lparr>i_d := d1\<rparr>) (inodes s)" "grown st ?sz ?sb (blk s) d (blk s1) d1" "fsame s s1"
      "card (free_blocks ?sb (blk s)) \<le> card (free_blocks ?sb (blk s1)) + 2"
    using bmap_ok [OF F ok I f r k5(1) bn] by blast
  define a where "a = addr_of (blk s1) d1 ?bn"
  have ok1: "fs_ok st ?sz ?sb (blk s1)" "file_ok st ?sz ?sb (blk s1) d1" using 1(5) by (simp_all add: grown_def)
  have eq1: "fssb s1 = ?sb" "disksize (dsk s1) = ?sz" using fsameD [OF 1(6)] by simp_all
  have ha: "home st (disksize (dsk s1)) a" using file_okD(3) [OF ok1(2) bn 1(2)] eq1 by (simp add: a_def ptr_ok_def)
  let ?x = "take ?c (drop tot bs)"
  have lx: "length ?x = ?c" using c ln by simp
  have cb: "off mod BSIZE + ?c \<le> BSIZE" by (metis chunk_def add.commute le_diff_conv2 min.cobounded2 mod_le_divisor BSIZE_pos)
  obtain s2 where 2: "bind (bread 1 a) (\<lambda>b. andthen (set_data b (\<lambda>d. blit d (off mod BSIZE) ?x)) (andthen (log_write b) (brelse b))) s1 = Ret () s2"
      "ftx me {} st (Suc (k + 5)) s2" "blk s2 = (blk s1)(a := blit (blk s1 a) (off mod BSIZE) ?x)" "log_same s1 s2"
    using update_ok [OF 1(3) ha _ k5(2), of "\<lambda>d. blit d (off mod BSIZE) ?x"] cb lx by auto
  have a0: "a \<noteq> 0" using 1(2) by (simp add: a_def)
  note W = wrote_data [OF ok1 bn a_def [symmetric] a0, where x = "blit (blk s1 a) (off mod BSIZE) (take ?c (drop tot bs))"]
  have w2: "wrote st ?sz ?sb (blk s) d (blk s2) d1"
    using wrote_trans [OF f grown_wrote [OF f 1(5)] W(1)] by (simp add: 2(3))
  have eq2: "inodes s2 = inodes s1"
    using log_same_fs [OF 2(4)] by simp_all
  have by2: "fbyte (blk s2) d1 i = (if off \<le> i \<and> i < off + ?c then bs ! (tot + (i - off)) else fbyte (blk s) d i)" if i: "i < MAXFILE * BSIZE" for i
  proof -
    have im: "i div BSIZE < MAXFILE" using i by (rule less_mult_imp_div_less)
    have g: "fbyte (blk s1) d1 i = fbyte (blk s) d i" by (rule grown_fbyte [OF f 1(5) im])
    show ?thesis
    proof (cases "i div BSIZE = ?bn")
      case True
      then have "fbyte (blk s1) d1 i = blk s1 a ! (i mod BSIZE)" using a0 by (simp add: fbyte_def a_def)
      moreover have "?x ! (i - off) = bs ! (tot + (i - off))" if "off \<le> i" "i < off + ?c" using that ln c by simp
      ultimately show ?thesis
        using W(3) [OF im] True blit_byte [OF ftxD(2) [OF 1(3)] lx True, of a] g unfolding 2(3) by metis
    next
      case False
      then have "\<not> (off \<le> i \<and> i < off + ?c)" using in_block(1) [of "i - off" off n] by (auto simp: less_diff_conv2)
      then show ?thesis using W(3) [OF im] False g unfolding 2(3) by metis
    qed
  qed
  have fr2: "card (free_blocks ?sb (blk s)) \<le> card (free_blocks ?sb (blk s2)) + 2" using 1(7) W(2) by (simp add: 2(3))
  have ad: "addr_of (blk s2) d1 ?bn \<noteq> 0" using W(4) a0 by (simp add: 2(3) a_def)
  have run: "bind (bmap ip ?bn) (\<lambda>a. bind (bread 1 a) (\<lambda>b. andthen (set_data b (\<lambda>d. blit d (off mod BSIZE) ?x))
      (andthen (log_write b) (andthen (brelse b) K)))) s = K s2" for K :: "(unit, 'z fstate_scheme) kern"
    using 1(1) update_then [OF 2(1)] by (simp add: bind_def [of "bmap ip ?bn"] flip: a_def)
  have "ftx me {} st (k + 6) s2" using 2(2) by (simp add: eval_nat_numeral)
  then show ?thesis
    using run 1(4) eq2 w2 fsame_trans [OF 1(6) fsame_log [OF 2(4)]] ad fr2 by2 by (intro exI [of _ s2] exI [of _ d1]) simp
qed

lemma writei_loop_ok:
  fixes s :: "'z fstate_scheme"
  assumes "ftx me {} st k s" and "fs_ok st (disksize (dsk s)) (fssb s) (blk s)" and "inode_at s ip d"
    and "file_ok st (disksize (dsk s)) (fssb s) (blk s) d" and "2 * blocks_of off n \<le> card (free_blocks (fssb s) (blk s))"
    and "k + 6 * blocks_of off n < LOGSIZE" and "off + n \<le> MAXFILE * BSIZE" and "tot + n \<le> length bs"
  shows "\<exists>t d'. writei_loop ip (FromVar bs) tot off n s = Ret () t \<and> ftx me {} st (k + 6 * blocks_of off n) t \<and>
    inodes t = upd ip (\<lambda>i. i\<lparr>i_d := d'\<rparr>) (inodes s) \<and> wrote st (disksize (dsk s)) (fssb s) (blk s) d (blk t) d' \<and> fsame s t \<and>
    (\<forall>i<MAXFILE * BSIZE. fbyte (blk t) d' i = (if off \<le> i \<and> i < off + n then bs ! (tot + (i - off)) else fbyte (blk s) d i)) \<and>
    (\<forall>i. off \<le> i \<and> i < off + n \<longrightarrow> addr_of (blk t) d' (i div BSIZE) \<noteq> 0)"
  using assms
proof (induction n arbitrary: k tot off s d rule: less_induct)
  case (less n)
  note F = less.prems(1) and ok = less.prems(2) and I = less.prems(3) and f = less.prems(4) and free = less.prems(5)
    and room = less.prems(6) and mx = less.prems(7) and ln = less.prems(8)
  let ?sz = "disksize (dsk s)" and ?sb = "fssb s" and ?c = "chunk off n" and ?bn = "off div BSIZE"
  show ?case
  proof (cases "n = 0")
    case True
    have "upd ip (\<lambda>i. i\<lparr>i_d := d\<rparr>) (inodes s) = inodes s" using I by (intro upd_id_same) (simp_all add: inode_at_def)
    then show ?thesis using True F fsame_log [OF ftx_refl [OF F]] wrote_refl [OF ok f]
      by (intro exI [of _ s] exI [of _ d]) (simp add: writei_loop.simps return_def blocks_of_def; linarith)
  next
    case False
    then have n: "0 < n" by simp
    have c: "0 < ?c" "?c \<le> n" using chunk_pos [OF n] chunk_le by auto
    have st: "blocks_of off n = Suc (blocks_of (off + ?c) (n - ?c))" by (rule blocks_of_step [OF n])
    have r: "2 \<le> card (free_blocks ?sb (blk s))" "k + 6 < LOGSIZE" using free room st by linarith+
    obtain s2 d1 where 2: "\<And>K :: (unit, 'z fstate_scheme) kern. bind (bmap ip ?bn) (\<lambda>a. bind (bread 1 a) (\<lambda>b. andthen (set_data b (\<lambda>d. blit d (off mod BSIZE)
          (take ?c (drop tot bs)))) (andthen (log_write b) (andthen (brelse b) K)))) s = K s2"
        "ftx me {} st (k + 6) s2" "inodes s2 = upd ip (\<lambda>i. i\<lparr>i_d := d1\<rparr>) (inodes s)" "fsame s s2" "addr_of (blk s2) d1 ?bn \<noteq> 0"
        "card (free_blocks ?sb (blk s)) \<le> card (free_blocks ?sb (blk s2)) + 2"
        "\<And>i. i < MAXFILE * BSIZE \<Longrightarrow> fbyte (blk s2) d1 i = (if off \<le> i \<and> i < off + ?c then bs ! (tot + (i - off)) else fbyte (blk s) d i)"
      and w2: "wrote st ?sz ?sb (blk s) d (blk s2) d1"
      using write_chunk_ok [OF F ok I f r n mx ln] by blast
    have eq2: "fssb s2 = ?sb" "disksize (dsk s2) = ?sz" using fsameD [OF 2(4)] by simp_all
    have I2: "inode_at s2 ip d1" using I by (simp add: inode_at_def 2(3))
    have "\<exists>t d'. writei_loop ip (FromVar bs) (tot + ?c) (off + ?c) (n - ?c) s2 = Ret () t \<and>
        ftx me {} st (k + 6 + 6 * blocks_of (off + ?c) (n - ?c)) t \<and>
        inodes t = upd ip (\<lambda>i. i\<lparr>i_d := d'\<rparr>) (inodes s2) \<and> wrote st (disksize (dsk s2)) (fssb s2) (blk s2) d1 (blk t) d' \<and> fsame s2 t \<and>
        (\<forall>i<MAXFILE * BSIZE. fbyte (blk t) d' i =
          (if off + ?c \<le> i \<and> i < off + ?c + (n - ?c) then bs ! (tot + ?c + (i - (off + ?c))) else fbyte (blk s2) d1 i)) \<and>
        (\<forall>i. off + ?c \<le> i \<and> i < off + ?c + (n - ?c) \<longrightarrow> addr_of (blk t) d' (i div BSIZE) \<noteq> 0)"
    proof (rule less.IH)
      show "n - ?c < n" using c by linarith
      show "ftx me {} st (k + 6) s2" by (rule 2(2))
      show "fs_ok st (disksize (dsk s2)) (fssb s2) (blk s2)" "file_ok st (disksize (dsk s2)) (fssb s2) (blk s2) d1" "inode_at s2 ip d1"
        using w2 I2 by (simp_all add: wrote_def eq2)
      show "2 * blocks_of (off + ?c) (n - ?c) \<le> card (free_blocks (fssb s2) (blk s2))" using free st 2(6) by (simp add: eq2)
      show "k + 6 + 6 * blocks_of (off + ?c) (n - ?c) < LOGSIZE" using room st by linarith
      show "off + ?c + (n - ?c) \<le> MAXFILE * BSIZE" "tot + ?c + (n - ?c) \<le> length bs" using mx ln c by linarith+
    qed
    then obtain t d' where t: "writei_loop ip (FromVar bs) (tot + ?c) (off + ?c) (n - ?c) s2 = Ret () t"
        "ftx me {} st (k + 6 + 6 * blocks_of (off + ?c) (n - ?c)) t" "inodes t = upd ip (\<lambda>i. i\<lparr>i_d := d'\<rparr>) (inodes s2)"
        "wrote st ?sz ?sb (blk s2) d1 (blk t) d'" "fsame s2 t"
        "\<And>i. i < MAXFILE * BSIZE \<Longrightarrow> fbyte (blk t) d' i =
          (if off + ?c \<le> i \<and> i < off + n then bs ! (tot + ?c + (i - (off + ?c))) else fbyte (blk s2) d1 i)"
        "\<And>i. off + ?c \<le> i \<Longrightarrow> i < off + n \<Longrightarrow> addr_of (blk t) d' (i div BSIZE) \<noteq> 0"
      using c(2) unfolding eq2 by auto
    have "writei_loop ip (FromVar bs) tot off n s = writei_loop ip (FromVar bs) (tot + ?c) (off + ?c) (n - ?c) s2"
      using False I 2(1) by (simp add: writei_loop_var ino_get_then inode_at_def)
    then have "writei_loop ip (FromVar bs) tot off n s = Ret () t" using t(1) by simp
    moreover have "ftx me {} st (k + 6 * blocks_of off n) t" using t(2) st by (simp add: add.assoc)
    moreover have "inodes t = upd ip (\<lambda>i. i\<lparr>i_d := d'\<rparr>) (inodes s)"
      using t(3) I by (simp add: 2(3) inode_at_def comp_def)
    moreover have "wrote st ?sz ?sb (blk s) d (blk t) d'" by (rule wrote_trans [OF f w2 t(4)])
    moreover have "fsame s t" by (rule fsame_trans [OF 2(4) t(5)])
    moreover have "fbyte (blk t) d' i = (if off \<le> i \<and> i < off + n then bs ! (tot + (i - off)) else fbyte (blk s) d i)"
      if "i < MAXFILE * BSIZE" for i
      using t(6) [OF that] 2(7) [OF that] c by auto
    moreover have "addr_of (blk t) d' (i div BSIZE) \<noteq> 0" if "off \<le> i \<and> i < off + n" for i
    proof (cases "off + ?c \<le> i")
      case False
      then have "i div BSIZE = ?bn" using in_block(1) [of "i - off" off n] that by (simp add: less_diff_conv2)
      moreover have "?bn < MAXFILE" using mx n by (intro less_mult_imp_div_less) linarith
      ultimately show ?thesis using t(4) 2(5) unfolding wrote_def by metis
    qed (use t(7) that in simp)
    ultimately show ?thesis by blast
  qed
qed

end
