(* ===== verification/Fileio.thy ===== *)
theory Fileio
  imports Filedata
begin

text \<open>
  \<open>readi\<close>, \<open>writei\<close> and \<open>iupdate\<close> of \<^verbatim>\<open>src/fs.c\<close> against a file as a list of bytes: the abstraction, the simulation
  lemmas, and a small file system on which they run.
\<close>


section \<open>A file as a list of bytes\<close>

definition file_bytes :: "(u32 \<Rightarrow> u8 list) \<Rightarrow> dinode \<Rightarrow> u8 list" where
  "file_bytes B d = map (fbyte B d) [0..<unat (d_size d)]"

text \<open>Every byte below the size has a block.\<close>

definition whole :: "(u32 \<Rightarrow> u8 list) \<Rightarrow> dinode \<Rightarrow> bool" where
  "whole B d \<longleftrightarrow> unat (d_size d) \<le> MAXFILE * BSIZE \<and> (\<forall>i<unat (d_size d). addr_of B d (i div BSIZE) \<noteq> 0)"

text \<open>
  An inode in the cache during a transaction with at most \<open>k\<close> blocks logged: a file or a directory whose blocks are its own,
  its block of the inode table apart from them.
\<close>

definition open_file :: "nat \<Rightarrow> u32 \<Rightarrow> nat \<Rightarrow> 'z fstate_scheme \<Rightarrow> nat \<Rightarrow> dinode \<Rightarrow> bool" where
  "open_file me st k s ip d \<longleftrightarrow> ftx me {} st k s \<and> fs_ok st (disksize (dsk s)) (fssb s) (blk s) \<and> inode_at s ip d \<and>
     file_ok st (disksize (dsk s)) (fssb s) (blk s) d \<and> whole (blk s) d \<and> d_type d \<noteq> T_DEV \<and>
     ptr_ok st (disksize (dsk s)) (fssb s) (blk s) (IBLOCK (i_inum (inodes s ! ip)) (fssb s)) \<and>
     \<not> owns (blk s) d (IBLOCK (i_inum (inodes s ! ip)) (fssb s))"

lemma length_file_bytes [simp]: "length (file_bytes B d) = unat (d_size d)"
  by (simp add: file_bytes_def)

lemma nth_file_bytes: "i < unat (d_size d) \<Longrightarrow> file_bytes B d ! i = fbyte B d i"
  by (simp add: file_bytes_def)

lemma map_fbyte: "off + n \<le> unat (d_size d) \<Longrightarrow> map (fbyte B d) [off..<off + n] = take n (drop off (file_bytes B d))"
  by (simp add: file_bytes_def take_map drop_map)

lemma whole_small: "whole B d \<Longrightarrow> unat (d_size d) < 2 ^ 31"
  by (simp add: whole_def MAXFILE_def NDIRECT_def NINDIRECT_def BSIZE_def)

lemma sint_small: "unat (x :: u32) < 2 ^ 31 \<Longrightarrow> sint x = int (unat x)"
  by (simp add: sint_uint signed_take_bit_int_eq_self order_trans [OF _ uint_ge_0] nat_less_iff flip: nat_uint_eq)

lemma open_file_same:
  assumes "open_file me st k s ip d" "ftx me {} st k t" "blk t = blk s" "log_same s t"
  shows "open_file me st k t ip d"
  using assms log_same_fs [OF assms(4)] log_sameD [OF assms(4)] by (simp add: open_file_def inode_at_def)

lemma readi_runs:
  fixes s :: "'z dstate_scheme"
  assumes O: "open_file me st k s ip d" and k: "k < NBUF" and off: "off \<le> d_size d" "unat off + unat n < 2 ^ 32"
  shows "\<exists>t. readi ip ToVar off n s = Ret (int (min (unat n) (unat (d_size d) - unat off)), take (unat n) (drop (unat off) (file_bytes (blk s) d))) t \<and>
    open_file me st k t ip d \<and> blk t = blk s \<and> log_same s t"
proof -
  note O' = O [unfolded open_file_def]
  define m where "m = min (unat n) (unat (d_size d) - unat off)"
  define n' where "n' = (if off + n > d_size d then d_size d - off else n)"
  have on: "unat (off + n) = unat off + unat n" using off(2) by (simp add: unat_word_ariths)
  have n': "unat n' = m" using off(1) by (auto simp: n'_def m_def word_less_nat_alt on unat_sub word_le_nat_alt)
  have le: "unat off + m \<le> unat (d_size d)" using off(1) by (simp add: m_def word_le_nat_alt)
  have w: "unat (d_size d) \<le> MAXFILE * BSIZE" "\<And>i. i < unat (d_size d) \<Longrightarrow> addr_of (blk s) d (i div BSIZE) \<noteq> 0"
    using O' by (auto simp: whole_def)
  have "i div BSIZE < MAXFILE \<and> addr_of (blk s) d (i div BSIZE) \<noteq> 0" if "i < unat off + m" for i
    using that le w by (auto intro: less_mult_imp_div_less)
  then obtain t where t: "readi_loop ip ToVar 0 (unat off) m s = Ret (map (fbyte (blk s) d) [unat off..<unat off + m]) t"
      "ftx me {} st k t" "blk t = blk s" "log_same s t"
    using readi_loop_ok [of me st k s ip d "fssb s" "unat off" m 0] O' k by blast
  have "map (fbyte (blk s) d) [unat off..<unat off + m] = take (unat n) (drop (unat off) (file_bytes (blk s) d))"
    unfolding map_fbyte [OF le] by (simp add: m_def min_def)
  moreover have "sint n' = int m" using whole_small [of "blk s" d] O' le n' by (simp add: sint_small)
  moreover have "readi ip ToVar off n s = bind (readi_loop ip ToVar 0 (unat off) (unat n')) (\<lambda>bs. return (sint n', bs)) s"
    using O' off on unfolding readi_def ino_get_then n'_def by (auto simp: inode_at_def Let_def word_less_nat_alt word_le_nat_alt)
  ultimately show ?thesis
    using t open_file_same [OF O t(2-4)] unfolding n' by (simp add: bind_def return_def m_def)
qed

section \<open>The inode on disk\<close>

lemma of_le16_le16: "of_le16 (le16 x) = x"
  by (rule bit_word_eqI) (auto simp: of_le16_def le16_def bit_simps)

lemma length_dinode_bytes: "length (d_addrs d) = NDIRECT + 1 \<Longrightarrow> length (dinode_bytes d) = 64"
  by (simp add: dinode_bytes_def le16_def le32_def length_concat comp_def NDIRECT_def sum_list_triv)

lemma take_le32s: "i < length xs \<Longrightarrow> take 4 (drop (4 * i) (concat (map le32 xs))) = le32 (xs ! i)"
proof (induction xs arbitrary: i)
  case (Cons x xs)
  have l: "length (le32 x) = 4" by (simp add: le32_def)
  show ?case
  proof (cases i)
    case (Suc j)
    then show ?thesis using Cons l by simp
  qed (simp add: l)
qed simp

lemma dinode_roundtrip:
  assumes "length (d_addrs d) = NDIRECT + 1"
  shows "bytes_dinode (dinode_bytes d) = d"
proof -
  have l: "length (le32 x) = 4" "length (le16 y) = 2" for x y by (simp_all add: le32_def le16_def)
  have "map (\<lambda>i. of_le32 (take 4 (drop (12 + 4 * i) (dinode_bytes d)))) [0..<NDIRECT + 1] = d_addrs d"
    by (rule nth_equalityI) (use assms in \<open>simp_all add: dinode_bytes_def l take_le32s del: upt_Suc\<close>)
  then show ?thesis by (simp add: bytes_dinode_def dinode_bytes_def l of_le16_le16 del: upt_Suc)
qed

lemma dip_off_le: "dip_off i + 64 \<le> BSIZE"
proof -
  have "unat (i mod IPB) < 8" by (simp add: IPB_def unat_mod)
  then show ?thesis by (simp add: dip_off_def BSIZE_def)
qed

lemma get_put_dinode:
  assumes "length (d_addrs d) = NDIRECT + 1" "length b = BSIZE"
  shows "get_dinode (put_dinode d i b) i = d"
  using dip_off_le [of i] assms by (simp add: get_dinode_def put_dinode_def blit_def length_dinode_bytes dinode_roundtrip)

lemma get_put_dinode_other:
  assumes "length (d_addrs d) = NDIRECT + 1" "length b = BSIZE" "i mod IPB \<noteq> j mod IPB"
  shows "get_dinode (put_dinode d i b) j = get_dinode b j"
proof -
  have "dip_off i + 64 \<le> dip_off j \<or> dip_off j + 64 \<le> dip_off i" using assms(3) unfolding dip_off_def word_unat_eq_iff by linarith
  then have "take 64 (drop (dip_off j) (blit b (dip_off i) (dinode_bytes d))) = take 64 (drop (dip_off j) b)"
    using dip_off_le [of i] dip_off_le [of j] assms(1,2)
    by (intro nth_equalityI) (auto simp: length_dinode_bytes nth_blit)
  then show ?thesis by (simp add: get_dinode_def put_dinode_def)
qed

text \<open>A block of no file and not of the bitmap changes nothing of a file.\<close>

lemma other_block:
  assumes "fs_ok st sz sb B" "file_ok st sz sb B d" "ptr_ok st sz sb B n" "\<not> owns B d n"
  shows "fs_ok st sz sb (B(n := x))" "file_ok st sz sb (B(n := x)) d" "ptr_ok st sz sb (B(n := x)) = ptr_ok st sz sb B"
    "addr_of (B(n := x)) d = addr_of B d" "\<And>j. j div BSIZE < MAXFILE \<Longrightarrow> fbyte (B(n := x)) d j = fbyte B d j"
    "owns (B(n := x)) d = owns B d" "free_blocks sb (B(n := x)) = free_blocks sb B"
proof -
  have n: "n \<noteq> 0" "\<And>b. b < sb_size sb \<Longrightarrow> n \<noteq> BBLOCK b sb" and sz: "0 < sb_size sb"
    using assms(3) le_less_trans [OF word_zero_le] by (auto simp: ptr_ok_def)
  have us: "used sb (B(n := x)) b = used sb B b" if "b < sb_size sb" for b using used_other [OF n(2) that] .
  have nd: "n \<noteq> d_addrs d ! NDIRECT" and na: "\<And>i. i < MAXFILE \<Longrightarrow> addr_of B d i \<noteq> n" using assms(4) n(1) unfolding owns_def by blast+
  show at: "addr_of (B(n := x)) d = addr_of B d" using nd by (simp add: addr_of_def fun_eq_iff)
  show p: "ptr_ok st sz sb (B(n := x)) = ptr_ok st sz sb B" unfolding fun_eq_iff ptr_ok_def using us by blast
  show "fs_ok st sz sb (B(n := x))" using assms(1) unfolding fs_ok_def us [OF sz] by (simp add: us)
  show "file_ok st sz sb (B(n := x)) d" using assms(2) unfolding file_ok_def at p .
  show "owns (B(n := x)) d = owns B d" by (simp add: owns_def at fun_eq_iff)
  show "free_blocks sb (B(n := x)) = free_blocks sb B" using us by (auto simp: free_blocks_def)
  show "fbyte (B(n := x)) d j = fbyte B d j" if "j div BSIZE < MAXFILE" for j unfolding fbyte_def at using na [OF that] by simp
qed

lemma iupdate_ok:
  fixes s :: "'z fstate_scheme"
  assumes F: "ftx me {} st k s" and I: "inode_at s ip d" and l: "length (d_addrs d) = NDIRECT + 1"
    and h: "home st (disksize (dsk s)) (IBLOCK (i_inum (inodes s ! ip)) (fssb s))" and k: "k < LOGSIZE - 1"
  shows "\<exists>t. iupdate ip s = Ret () t \<and> ftx me {} st (Suc k) t \<and> log_same s t \<and>
    blk t = (blk s)(IBLOCK (i_inum (inodes s ! ip)) (fssb s) :=
      put_dinode d (i_inum (inodes s ! ip)) (blk s (IBLOCK (i_inum (inodes s ! ip)) (fssb s))))"
proof -
  let ?n = "i_inum (inodes s ! ip)"
  have lp: "length (put_dinode d ?n b) = BSIZE" if "length b = BSIZE" for b
    using that dip_off_le [of ?n] l by (simp add: put_dinode_def length_dinode_bytes)
  have "iupdate ip s = bind (bread 1 (IBLOCK ?n (fssb s))) (\<lambda>b. andthen (set_data b (put_dinode d ?n)) (andthen (log_write b) (brelse b))) s"
    using I unfolding iupdate_def ino_get_then by (simp add: bind_def [of "gets fssb"] gets_def inode_at_def)
  then show ?thesis using update_ok [OF F h, of "put_dinode d ?n"] lp k by auto
qed

section \<open>Writing a file\<close>

text \<open>The file after the loop, with its new size.\<close>

lemma resized:
  assumes "\<And>i. i < MAXFILE * BSIZE \<Longrightarrow> fbyte B' d' i = (if off \<le> i \<and> i < off + length bs then bs ! (i - off) else fbyte B d i)"
    and "off \<le> unat (d_size d)" "unat (d_size d') = max (unat (d_size d)) (off + length bs)" "unat (d_size d') \<le> MAXFILE * BSIZE"
  shows "file_bytes B' d' = blit (file_bytes B d) off bs"
proof (rule nth_equalityI)
  show "length (file_bytes B' d') = length (blit (file_bytes B d) off bs)" using assms(2,3) by (simp add: blit_def max_def)
  fix i assume "i < length (file_bytes B' d')"
  then have i: "i < unat (d_size d')" by simp
  then have "i < MAXFILE * BSIZE" using assms(4) by linarith
  then show "file_bytes B' d' ! i = blit (file_bytes B d) off bs ! i"
    using i assms(1) [of i] assms(2,3) unfolding nth_file_bytes [OF i]
    by (auto simp: blit_def nth_append min_def nth_file_bytes not_less le_Suc_ex split: if_splits)
qed

text \<open>The size is written back when the file grows.\<close>

definition set_size :: "nat \<Rightarrow> bool \<Rightarrow> u32 \<Rightarrow> (unit, 'z fstate_scheme) kern" where
  "set_size ip c z = whenk c (andthen (din_set ip (\<lambda>d. d\<lparr>d_size := z\<rparr>)) (iupdate ip))"

lemma set_size_ok:
  fixes s :: "'z fstate_scheme"
  assumes F: "ftx me {} st k s" and I: "inode_at s ip d" and l: "length (d_addrs d) = NDIRECT + 1"
    and h: "home st (disksize (dsk s)) (IBLOCK (i_inum (inodes s ! ip)) (fssb s))" and k: "k < LOGSIZE - 1"
  shows "\<exists>t. set_size ip c z s = Ret () t \<and> ftx me {} st (Suc k) t \<and> inode_at t ip (if c then d\<lparr>d_size := z\<rparr> else d) \<and>
    i_inum (inodes t ! ip) = i_inum (inodes s ! ip) \<and> fsame s t \<and>
    blk t = (if c then (blk s)(IBLOCK (i_inum (inodes s ! ip)) (fssb s) := put_dinode (d\<lparr>d_size := z\<rparr>) (i_inum (inodes s ! ip))
      (blk s (IBLOCK (i_inum (inodes s ! ip)) (fssb s)))) else blk s)"
proof (cases c)
  case True
  let ?s = "s\<lparr>inodes := upd ip (\<lambda>i. i\<lparr>i_d := (i_d i)\<lparr>d_size := z\<rparr>\<rparr>) (inodes s)\<rparr>"
  have s1: "ftx me {} st k ?s" "inode_at ?s ip (d\<lparr>d_size := z\<rparr>)" "i_inum (inodes ?s ! ip) = i_inum (inodes s ! ip)" "blk ?s = blk s"
    using F I by (simp_all add: inode_at_def)
  have "\<exists>t. iupdate ip ?s = Ret () t \<and> ftx me {} st (Suc k) t \<and> log_same ?s t \<and>
      blk t = (blk s)(IBLOCK (i_inum (inodes s ! ip)) (fssb s) := put_dinode (d\<lparr>d_size := z\<rparr>) (i_inum (inodes s ! ip))
        (blk s (IBLOCK (i_inum (inodes s ! ip)) (fssb s))))"
    using iupdate_ok [OF s1(1,2)] l h k s1(3,4) by simp
  then obtain t where t: "iupdate ip ?s = Ret () t" "ftx me {} st (Suc k) t" "log_same ?s t"
      "blk t = (blk s)(IBLOCK (i_inum (inodes s ! ip)) (fssb s) := put_dinode (d\<lparr>d_size := z\<rparr>) (i_inum (inodes s ! ip))
        (blk s (IBLOCK (i_inum (inodes s ! ip)) (fssb s))))" by blast
  have "set_size ip c z s = Ret () t" using True t(1) by (simp add: set_size_def whenk_def andthen_def bind_def din_set_def ino_set_def modify_def)
  moreover have "fsame s t" using fsame_trans [OF fsame_inodes [OF fsame_log [OF ftx_refl [OF F]]] fsame_log [OF t(3)]] .
  moreover have "inodes t = inodes ?s" using log_same_fs [OF t(3)] by simp
  ultimately show ?thesis using True t(2,4) I by (intro exI [of _ t]) (simp add: inode_at_def)
next
  case False
  then show ?thesis using F I fsame_log [OF ftx_refl [OF F]] ftx_mono [OF F, of "Suc k"]
    by (intro exI [of _ s]) (simp add: set_size_def whenk_def return_def)
qed

lemma size_frame [simp]:
  "addr_of B (d\<lparr>d_size := z\<rparr>) = addr_of B d" "fbyte B (d\<lparr>d_size := z\<rparr>) = fbyte B d" "owns B (d\<lparr>d_size := z\<rparr>) = owns B d"
  "file_ok st sz sb B (d\<lparr>d_size := z\<rparr>) = file_ok st sz sb B d"
proof -
  show a: "addr_of B (d\<lparr>d_size := z\<rparr>) = addr_of B d" by (simp add: addr_of_def fun_eq_iff)
  show "fbyte B (d\<lparr>d_size := z\<rparr>) = fbyte B d" "owns B (d\<lparr>d_size := z\<rparr>) = owns B d"
    "file_ok st sz sb B (d\<lparr>d_size := z\<rparr>) = file_ok st sz sb B d"
    by (simp_all add: fbyte_def owns_def file_ok_def a fun_eq_iff)
qed

lemma max_file: "unat (of_nat MAXFILE * of_nat BSIZE :: u32) = MAXFILE * BSIZE"
  by (simp add: MAXFILE_def NDIRECT_def NINDIRECT_def BSIZE_def)

lemma writei_runs:
  fixes s :: "'z dstate_scheme"
  assumes O: "open_file me st k s ip d" and off: "off \<le> d_size d" and bs: "length bs = unat n" and mx: "unat off + length bs \<le> MAXFILE * BSIZE"
    and free: "2 * blocks_of (unat off) (length bs) \<le> card (free_blocks (fssb s) (blk s))"
    and room: "k + 6 * blocks_of (unat off) (length bs) + 1 < LOGSIZE" and ib: "ib = IBLOCK (i_inum (inodes s ! ip)) (fssb s)"
  shows "\<exists>t d'. writei ip (FromVar bs) off n s = Ret (int (length bs)) t \<and>
    open_file me st (k + 6 * blocks_of (unat off) (length bs) + 1) t ip d' \<and>
    file_bytes (blk t) d' = blit (file_bytes (blk s) d) (unat off) bs \<and> fsame s t \<and>
    (\<forall>m. ptr_ok st (disksize (dsk s)) (fssb s) (blk s) m \<and> \<not> owns (blk s) d m \<and> m \<noteq> ib \<longrightarrow> blk t m = blk s m) \<and>
    (d_size d < off + n \<longrightarrow> get_dinode (blk t ib) (i_inum (inodes s ! ip)) = d')"
proof -
  note O' = O [unfolded open_file_def, folded ib]
  let ?sz = "disksize (dsk s)" and ?sb = "fssb s" and ?i = "i_inum (inodes s ! ip)" and ?k = "k + 6 * blocks_of (unat off) (length bs)"
  have small: "unat off + length bs < 2 ^ 31" using mx by (simp add: MAXFILE_def NDIRECT_def NINDIRECT_def BSIZE_def)
  have on: "unat (off + n) = unat off + length bs" using small bs by (simp add: unat_word_ariths)
  obtain s1 d1 where 1: "writei_loop ip (FromVar bs) 0 (unat off) (unat n) s = Ret () s1" "ftx me {} st ?k s1"
      "inodes s1 = upd ip (\<lambda>i. i\<lparr>i_d := d1\<rparr>) (inodes s)" "fsame s s1"
      "\<And>i. i < MAXFILE * BSIZE \<Longrightarrow> fbyte (blk s1) d1 i = (if unat off \<le> i \<and> i < unat off + length bs then bs ! (i - unat off) else fbyte (blk s) d i)"
      "\<And>i. unat off \<le> i \<Longrightarrow> i < unat off + length bs \<Longrightarrow> addr_of (blk s1) d1 (i div BSIZE) \<noteq> 0"
    and W: "wrote st ?sz ?sb (blk s) d (blk s1) d1"
    using writei_loop_ok [of me st k s ip d "unat off" "length bs" 0 bs] O' free room mx bs by auto
  have eq1: "fssb s1 = ?sb" "disksize (dsk s1) = ?sz" "i_inum (inodes s1 ! ip) = ?i" "inode_at s1 ip d1"
    using fsameD [OF 1(4)] O' by (simp_all add: 1(3) inode_at_def)
  note w = W [unfolded wrote_def]
  have d1: "d_size d1 = d_size d" "d_type d1 = d_type d" using w by (metis dinode.surjective dinode.update_convs(6) dinode.select_convs)+
  have l: "length (d_addrs d1) = NDIRECT + 1" using w file_okD(1) by blast
  have pib: "ptr_ok st ?sz ?sb (blk s1) ib" "\<not> owns (blk s1) d1 ib" using w O' ptr_free by blast+
  define c where "c = (n > 0 \<and> off + n > d_size d)"
  define d' where "d' = (if c then d1\<lparr>d_size := off + n\<rparr> else d1)"
  have h: "home st (disksize (dsk s1)) (IBLOCK (i_inum (inodes s1 ! ip)) (fssb s1))" using pib(1) by (simp add: eq1 ib ptr_ok_def)
  have rk: "?k < LOGSIZE - 1" using room by linarith
  obtain t where t: "set_size ip c (off + n) s1 = Ret () t" "ftx me {} st (?k + 1) t" "inode_at t ip d'"
      "i_inum (inodes t ! ip) = ?i" "fsame s1 t" "blk t = (if c then (blk s1)(ib := put_dinode d' ?i (blk s1 ib)) else blk s1)"
    using set_size_ok [OF 1(2) eq1(4) l h rk, of c "off + n"] unfolding eq1 ib d'_def by (cases c) auto
  have "writei ip (FromVar bs) off n s = andthen (set_size ip c (off + n)) (return (sint n)) s1"
    using O' off on small mx 1(1) eq1(4) d1(1) unfolding writei_def ino_get_then
    by (auto simp: inode_at_def andthen_def bind_def [of "writei_loop ip (FromVar bs) 0 (unat off) (unat n)"] ino_get_then set_size_def c_def
        word_less_nat_alt word_le_nat_alt max_file)
  then have run: "writei ip (FromVar bs) off n s = Ret (int (length bs)) t"
    using t(1) small bs by (simp add: andthen_def bind_def return_def sint_small)
  note ob = other_block [OF conjunct1 [OF w] conjunct1 [OF conjunct2 [OF w]] pib]
  have fr: "fs_ok st ?sz ?sb (blk t)" "file_ok st ?sz ?sb (blk t) d'" "ptr_ok st ?sz ?sb (blk t) = ptr_ok st ?sz ?sb (blk s1)"
    "addr_of (blk t) d' = addr_of (blk s1) d1" "owns (blk t) d' = owns (blk s1) d1"
    using w ob by (simp_all add: t(6) d'_def)
  have fb: "fbyte (blk t) d' i = fbyte (blk s1) d1 i" if "i < MAXFILE * BSIZE" for i
    using ob(5) [OF less_mult_imp_div_less [OF that]] by (simp add: t(6) d'_def)
  have sz: "unat (d_size d') = max (unat (d_size d)) (unat off + length bs)"
    using off on bs by (auto simp: d'_def c_def d1 word_less_nat_alt word_le_nat_alt max_def unat_gt_0)
  have sm: "unat (d_size d') \<le> MAXFILE * BSIZE" using O' mx by (auto simp: sz whole_def)
  have "file_bytes (blk t) d' = blit (file_bytes (blk s) d) (unat off) bs"
    by (rule resized) (use fb 1(5) sz sm off in \<open>auto simp: word_le_nat_alt\<close>)
  moreover have "addr_of (blk t) d' (i div BSIZE) \<noteq> 0" if i: "i < unat (d_size d')" for i
  proof (cases "i < unat (d_size d)")
    case True
    then have "i < MAXFILE * BSIZE" using O' by (simp add: whole_def)
    then show ?thesis using True O' w less_mult_imp_div_less [of i MAXFILE BSIZE] unfolding fr whole_def by metis
  qed (use i sz off 1(6) fr in \<open>auto simp: word_le_nat_alt\<close>)
  moreover have "blk t m = blk s m" if "ptr_ok st ?sz ?sb (blk s) m" "\<not> owns (blk s) d m" "m \<noteq> ib" for m using w that t(6) by auto
  moreover have "get_dinode (blk t ib) ?i = d'" if "d_size d < off + n"
  proof -
    have "c" using that off unfolding c_def by (metis add.right_neutral not_less word_neq_0_conv)
    then show ?thesis using l ftxD(2) [OF 1(2)] by (simp add: t(6) get_put_dinode d'_def)
  qed
  moreover have "open_file me st (?k + 1) t ip d'"
    using t(2-4) fr sm calculation(2) O' d1(2) pib fsameD [OF t(5)] eq1 unfolding open_file_def whole_def
    by (simp add: ib d'_def)
  ultimately show ?thesis using run fsame_trans [OF 1(4) t(5)] by blast
qed

section \<open>A small file system\<close>

text \<open>
  A disk of 64 blocks: the log from block 2, inodes from block 32, the bitmap in block 45 with blocks 0 to 46 in use. Inode 3 is a
  file of three bytes in block 46. A transaction has begun.
\<close>

definition demo_sb :: superblock where
  "demo_sb = \<lparr>sb_size = 64, sb_nblocks = 18, sb_ninodes = 50, sb_nlog = 30, sb_logstart = 2, sb_inodestart = 32, sb_bmapstart = 45\<rparr>"

definition demo_image :: blocks where
  "demo_image n = (if n = 45 then replicate 5 255 @ 127 # replicate (BSIZE - 6) 0
     else if n = 46 then [10, 20, 30] @ replicate (BSIZE - 3) 0 else replicate BSIZE 0)"

definition demo_dinode :: dinode where
  "demo_dinode = \<lparr>d_type = T_FILE, d_major = 0, d_minor = 0, d_nlink = 1, d_size = 3, d_addrs = 46 # replicate 12 0\<rparr>"

definition demo_fs :: dstate where
  "demo_fs = fstate.extend (lstate.extend (bstate.extend (demo_cache demo_image)
     (lstate.fields \<lparr>lg_start = 2, lg_size = 30, lg_outstanding = 1, lg_committing = False, lg_dev = 1,
       lg_lh = \<lparr>lh_n = 0, lh_block = replicate 30 0\<rparr>\<rparr>))
     (fstate.fields [\<lparr>i_dev = 1, i_inum = 3, i_ref = 1, i_valid = True, i_d = demo_dinode\<rparr>] demo_sb))
     (dstate.fields \<lparr>dv_sw = [], kbd_shift = 0, ioapic = (\<lambda>_. 0), ioapicid = 0, port_out = []\<rparr>)"

lemma demo_fs_sel [simp]:
  "logst demo_fs = \<lparr>lg_start = 2, lg_size = 30, lg_outstanding = 1, lg_committing = False, lg_dev = 1,
       lg_lh = \<lparr>lh_n = 0, lh_block = replicate 30 0\<rparr>\<rparr>"
  "inodes demo_fs = [\<lparr>i_dev = 1, i_inum = 3, i_ref = 1, i_valid = True, i_d = demo_dinode\<rparr>]" "fssb demo_fs = demo_sb"
  "dsk demo_fs = \<lparr>disksize = 64, memdisk = demo_image, d_writes = []\<rparr>" "mach demo_fs = demo_mach (Some 0) 0x202"
  using demo_cache_sel by (simp_all add: demo_fs_def fstate.defs lstate.defs bstate.defs dstate.defs)

lemma demo_fs_cache: "cache_inv 0 {} demo_fs" "blk demo_fs n = demo_image (unat n)" "dirty demo_fs n = False"
proof -
  have e: "cache_inv me H demo_fs = cache_inv me H (demo_cache demo_image)" "blk demo_fs = blk (demo_cache demo_image)"
    "dirty demo_fs = dirty (demo_cache demo_image)" for me H
    by (simp_all add: demo_fs_def cache_inv_def bio_ready_def cache_ok_def in_use_def blk_def dirty_def fun_eq_iff fstate.defs lstate.defs
        bstate.defs dstate.defs cong: option.case_cong if_cong)
  show "cache_inv 0 {} demo_fs" "blk demo_fs n = demo_image (unat n)" "dirty demo_fs n = False" unfolding e by (simp_all add: demo_cache_inv)
qed

lemma demo_image_length: "length (demo_image n) = BSIZE"
  by (simp add: demo_image_def BSIZE_def)

lemma demo_fs_ftx: "ftx 0 {} 2 0 demo_fs"
  using demo_fs_cache by (simp add: ftx_def txn_def log_at_def LOGSIZE_def MAXOPBLOCKS_def demo_image_length fun_eq_iff)

lemma demo_bits: "b < 64 \<Longrightarrow> bm_used (demo_image 45) b = (b < 47)"
proof -
  have "list_all (\<lambda>b. bm_used (demo_image 45) b = (b < 47)) [0..<64]" by code_simp
  then show "b < 64 \<Longrightarrow> bm_used (demo_image 45) b = (b < 47)" by (simp add: list_all_iff)
qed

lemma demo_used: "b < 64 \<Longrightarrow> BBLOCK b demo_sb = 45" "b < 64 \<Longrightarrow> used demo_sb (blk demo_fs) b = (b < 47)"
proof -
  assume b: "b < 64"
  then have u: "unat b < 64" by (simp add: word_less_nat_alt)
  then show k: "BBLOCK b demo_sb = 45" by (simp add: BBLOCK_def demo_sb_def BPB_def word_unat_eq_iff unat_word_ariths unat_div)
  show "used demo_sb (blk demo_fs) b = (b < 47)"
    using u demo_bits [OF u] by (simp add: used_def k demo_fs_cache BPB_def word_less_nat_alt)
qed

lemma demo_free: "free_blocks demo_sb (blk demo_fs) = {47..<64}"
proof (rule set_eqI)
  fix b :: u32
  have z: "sb_size demo_sb = 64" by (simp add: demo_sb_def)
  show "b \<in> free_blocks demo_sb (blk demo_fs) \<longleftrightarrow> b \<in> {47..<64}"
  proof (cases "b < 64")
    case True
    then show ?thesis unfolding free_blocks_def mem_Collect_eq z demo_used(2) [OF True] atLeastLessThan_iff linorder_not_less by blast
  next
    case False
    then show ?thesis unfolding free_blocks_def mem_Collect_eq z atLeastLessThan_iff by blast
  qed
qed

lemma demo_fs_ok: "fs_ok 2 64 demo_sb (blk demo_fs)"
proof -
  have z: "sb_size demo_sb = 64" "sb_bmapstart demo_sb = 45" by (simp_all add: demo_sb_def)
  have h: "home 2 64 45" by (simp add: home_def LOGSIZE_def MAXOPBLOCKS_def)
  have "home 2 64 c \<and> (\<forall>b<64. c \<noteq> BBLOCK b demo_sb)" if "c < 64" "\<not> used demo_sb (blk demo_fs) c" for c
  proof -
    have c: "47 \<le> unat c" using that demo_used(2) [OF that(1)] by (simp add: not_less word_le_nat_alt)
    then have "c \<noteq> 45" by auto
    moreover have "home 2 64 c" using that(1) c by (simp add: home_def LOGSIZE_def MAXOPBLOCKS_def)
    ultimately show ?thesis using demo_used(1) by auto
  qed
  then show ?thesis unfolding fs_ok_def z using h demo_used by (simp add: BPB_def)
qed

lemma demo_ptr: "n < 47 \<Longrightarrow> n \<noteq> 0 \<Longrightarrow> n \<noteq> 45 \<Longrightarrow> 32 \<le> n \<Longrightarrow> ptr_ok 2 64 demo_sb (blk demo_fs) n"
proof -
  assume n: "n < 47" "n \<noteq> 0" "n \<noteq> 45" "32 \<le> n"
  then have "n < 64" "32 \<le> unat n" by (auto simp: word_le_nat_alt intro: less_trans)
  moreover have z: "sb_size demo_sb = 64" by (simp add: demo_sb_def)
  ultimately show ?thesis using n demo_used unfolding ptr_ok_def z by (auto simp: home_def LOGSIZE_def MAXOPBLOCKS_def)
qed

lemma demo_addr: "i < MAXFILE \<Longrightarrow> addr_of B demo_dinode i = (if i = 0 then 46 else 0)"
  by (auto simp: addr_of_def demo_dinode_def NDIRECT_def nth_Cons')

lemma demo_open: "open_file 0 2 0 demo_fs 0 demo_dinode" "file_bytes (blk demo_fs) demo_dinode = [10, 20, 30]"
proof -
  have d: "d_addrs demo_dinode ! NDIRECT = 0" "length (d_addrs demo_dinode) = NDIRECT + 1" "d_size demo_dinode = 3" "d_type demo_dinode = T_FILE"
    by (simp_all add: demo_dinode_def NDIRECT_def)
  have mf: "0 < MAXFILE" by (simp add: MAXFILE_def NDIRECT_def)
  have p: "ptr_ok 2 64 demo_sb (blk demo_fs) 46" "ptr_ok 2 64 demo_sb (blk demo_fs) 32" by (rule demo_ptr; simp)+
  have f: "file_ok 2 64 demo_sb (blk demo_fs) demo_dinode" using p(1) by (auto simp: file_ok_def d demo_addr)
  have w: "whole (blk demo_fs) demo_dinode" using mf by (simp add: whole_def d demo_addr BSIZE_def MAXFILE_def NDIRECT_def)
  have o: "\<not> owns (blk demo_fs) demo_dinode 32" by (auto simp: owns_def d demo_addr)
  have i: "IBLOCK 3 demo_sb = 32" by (simp add: IBLOCK_def IPB_def demo_sb_def word_unat_eq_iff unat_word_ariths unat_div)
  show "open_file 0 2 0 demo_fs 0 demo_dinode"
    using demo_fs_ftx demo_fs_ok f w o p(2) by (simp add: open_file_def inode_at_def i d T_FILE_def T_DEV_def)
  show "file_bytes (blk demo_fs) demo_dinode = [10, 20, 30]"
    using mf by (simp add: file_bytes_def d fbyte_def demo_addr demo_fs_cache demo_image_def BSIZE_def upt_rec [of 0] upt_rec [of "Suc n" for n])
qed

section \<open>The promises of the file layer\<close>

text \<open>C7: \<open>readi\<close> reads the list of bytes the block map and the disk stand for: the bytes from \<open>off\<close> on, at most \<open>n\<close> and
  none beyond the size, and it changes no block; an offset beyond the size is an error.\<close>

theorem readi_reads:
  fixes s :: "'z dstate_scheme"
  assumes "open_file me st k s ip d" and "k < NBUF" and "unat off + unat n < 2 ^ 32"
  shows "if off \<le> d_size d
    then \<exists>t. readi ip ToVar off n s = Ret (int (length (take (unat n) (drop (unat off) (file_bytes (blk s) d)))),
        take (unat n) (drop (unat off) (file_bytes (blk s) d))) t \<and> open_file me st k t ip d \<and> blk t = blk s
    else readi ip ToVar off n s = Ret (-1, []) s"
proof (cases "off \<le> d_size d")
  case True
  obtain t where t: "readi ip ToVar off n s = Ret (int (min (unat n) (unat (d_size d) - unat off)), take (unat n) (drop (unat off) (file_bytes (blk s) d))) t"
      "open_file me st k t ip d" "blk t = blk s"
    using readi_runs [OF assms(1,2) True assms(3)] by blast
  have l: "length (take (unat n) (drop (unat off) (file_bytes (blk s) d))) = min (unat n) (unat (d_size d) - unat off)" by simp
  show ?thesis unfolding if_P [OF True] l using t by blast
next
  case False
  have "i_d (inodes s ! ip) = d" "d_type d \<noteq> T_DEV" using assms(1) unfolding open_file_def inode_at_def by blast+
  moreover have "d_size d < off" using False by (rule not_le_imp_less)
  ultimately show ?thesis unfolding if_not_P [OF False] readi_def ino_get_then by (simp add: return_def)
qed

theorem readi_reads_witness: "\<exists>t. readi 0 ToVar 1 9 demo_fs = Ret (2, [20, 30]) t"
  using readi_reads [OF demo_open(1), of 1 9] demo_open(2)
  by (auto simp: NBUF_def MAXOPBLOCKS_def demo_dinode_def split: if_splits)

text \<open>C6: \<open>writei\<close> replaces the bytes from \<open>off\<close> on by the ones it is given and lengthens the file if need be, allocating the
  blocks that are missing, within one transaction; a later \<open>readi\<close> gives them back; a grown file has its new inode on disk; blocks
  in use by anything else are as they were.\<close>

theorem writei_writes:
  fixes s :: "'z dstate_scheme"
  assumes "open_file me st k s ip d" and "off \<le> d_size d" and "length bs = unat n" and "unat off + length bs \<le> MAXFILE * BSIZE"
    and "2 * blocks_of (unat off) (length bs) \<le> card (free_blocks (fssb s) (blk s))"
    and "k + 6 * blocks_of (unat off) (length bs) + 1 < LOGSIZE" and "ib = IBLOCK (i_inum (inodes s ! ip)) (fssb s)"
  shows "\<exists>t d' u. writei ip (FromVar bs) off n s = Ret (int (length bs)) t \<and>
    open_file me st (k + 6 * blocks_of (unat off) (length bs) + 1) t ip d' \<and>
    file_bytes (blk t) d' = blit (file_bytes (blk s) d) (unat off) bs \<and>
    (\<forall>m. ptr_ok st (disksize (dsk s)) (fssb s) (blk s) m \<and> \<not> owns (blk s) d m \<and> m \<noteq> ib \<longrightarrow> blk t m = blk s m) \<and>
    (d_size d < off + n \<longrightarrow> get_dinode (blk t ib) (i_inum (inodes s ! ip)) = d') \<and>
    readi ip ToVar off n t = Ret (int (length bs), bs) u"
proof -
  let ?k = "k + 6 * blocks_of (unat off) (length bs) + 1"
  obtain t d' where t: "writei ip (FromVar bs) off n s = Ret (int (length bs)) t" "open_file me st ?k t ip d'"
      "file_bytes (blk t) d' = blit (file_bytes (blk s) d) (unat off) bs"
      "\<forall>m. ptr_ok st (disksize (dsk s)) (fssb s) (blk s) m \<and> \<not> owns (blk s) d m \<and> m \<noteq> ib \<longrightarrow> blk t m = blk s m"
      "d_size d < off + n \<longrightarrow> get_dinode (blk t ib) (i_inum (inodes s ! ip)) = d'"
    using writei_runs [OF assms] by blast
  have o: "unat off \<le> unat (d_size d)" using assms(2) by (simp add: word_le_nat_alt)
  have "length (file_bytes (blk t) d') = max (unat (d_size d)) (unat off + length bs)" unfolding t(3) using o by (simp add: blit_def max_def)
  then have z: "off \<le> d_size d'" "unat (d_size d') - unat off \<ge> length bs" using o by (simp_all add: word_le_nat_alt)
  have "take (unat n) (drop (unat off) (file_bytes (blk t) d')) = bs" unfolding t(3) using o assms(3) by (simp add: blit_def)
  moreover have "?k < NBUF" "unat off + unat n < 2 ^ 32" using assms(3,4,6)
    by (simp_all add: NBUF_def LOGSIZE_def MAXFILE_def NDIRECT_def NINDIRECT_def BSIZE_def)
  ultimately obtain u where "readi ip ToVar off n t = Ret (int (length bs), bs) u"
    using readi_runs [OF t(2) _ z(1), of n] z(2) assms(3) by auto
  then show ?thesis using t by blast
qed

theorem writei_writes_witness:
  "\<exists>t d' u. writei 0 (FromVar [7, 8]) 2 2 demo_fs = Ret 2 t \<and> file_bytes (blk t) d' = [10, 20, 7, 8] \<and> get_dinode (blk t 32) 3 = d' \<and>
    readi 0 ToVar 2 2 t = Ret (2, [7, 8]) u"
proof -
  have i: "32 = IBLOCK (i_inum (inodes demo_fs ! 0)) (fssb demo_fs)"
    by (simp add: IBLOCK_def IPB_def demo_sb_def word_unat_eq_iff unat_word_ariths unat_div)
  have b: "blocks_of 2 (Suc (Suc 0)) = 1" by (simp add: blocks_of_def BSIZE_def)
  have "card {47 :: u32, 48} \<le> card (free_blocks demo_sb (blk demo_fs))" unfolding demo_free by (rule card_mono) auto
  then have f: "2 * blocks_of (unat (2 :: u32)) (length [7 :: u8, 8]) \<le> card (free_blocks (fssb demo_fs) (blk demo_fs))" by (simp add: b)
  show ?thesis
    using writei_writes [OF demo_open(1) _ _ _ f _ i, of 2] demo_open(2) b
    by (auto simp: demo_dinode_def blit_def LOGSIZE_def MAXOPBLOCKS_def MAXFILE_def NDIRECT_def NINDIRECT_def BSIZE_def)
qed

text \<open>C28: \<open>balloc\<close> hands out the first free block, zeroed and marked in use, and touches no other block but the bitmap;
  \<open>bfree\<close> of it makes the set of free blocks what it was.\<close>

theorem balloc_bfree:
  fixes s :: "'z fstate_scheme"
  assumes "ftx me {} st k s" and "fs_ok st (disksize (dsk s)) (fssb s) (blk s)" and "c \<in> free_blocks (fssb s) (blk s)"
    and "\<And>x. x < c \<Longrightarrow> x \<notin> free_blocks (fssb s) (blk s)" and "k + 3 < LOGSIZE"
  shows "\<exists>t u. balloc 1 s = Ret c t \<and> c \<noteq> 0 \<and> blk t c = replicate BSIZE 0 \<and>
    free_blocks (fssb s) (blk t) = free_blocks (fssb s) (blk s) - {c} \<and>
    (\<forall>n. n \<noteq> c \<and> n \<noteq> BBLOCK c (fssb s) \<longrightarrow> blk t n = blk s n) \<and>
    bfree 1 c t = Ret () u \<and> free_blocks (fssb s) (blk u) = free_blocks (fssb s) (blk s)"
proof -
  let ?sb = "fssb s" and ?sz = "disksize (dsk s)"
  have k: "k + card ({} :: nat set) < LOGSIZE - 2" "k + 2 + card ({} :: nat set) < LOGSIZE - 1" using assms(5) by simp_all
  obtain t where t: "balloc 1 s = Ret c t" "ftx me {} st (k + 2) t" "blk t = take_block ?sb c (blk s)" "log_same s t"
    using balloc_ok [OF assms(1-4) _ k(1)] by auto
  have len: "\<And>n. length (blk s n) = BSIZE" using ftxD(2) [OF assms(1)] .
  note T = take_block_free [OF assms(2) len assms(3)]
  have c: "c < sb_size ?sb" "\<not> used ?sb (blk s) c" using assms(3) by (simp_all add: free_blocks_def)
  have e: "fssb t = ?sb" "disksize (dsk t) = ?sz" using log_same_fs [OF t(4)] log_sameD [OF t(4)] by simp_all
  have u1: "used ?sb (blk t) c" using T(3) [OF c(1)] by (simp add: t(3))
  have ok: "fs_ok st (disksize (dsk t)) (fssb t) (blk t)" using T(1) by (simp add: e t(3))
  obtain u where u: "bfree 1 c t = Ret () u" "blk u = drop_block ?sb c (blk t)"
    using bfree_ok [OF t(2) ok _ _ _ k(2), of c] c(1) u1 unfolding e by auto
  have "used ?sb (blk u) b \<longleftrightarrow> used ?sb (blk s) b" if b: "b < sb_size ?sb" for b
    using used_mark(2) [OF T(1,6) b c(1)] T(3) [OF b] c(2) unfolding u(2) t(3) drop_block_def by auto
  then have "free_blocks ?sb (blk u) = free_blocks ?sb (blk s)" by (auto simp: free_blocks_def)
  moreover have "blk t n = blk s n" if "n \<noteq> c" "n \<noteq> BBLOCK c ?sb" for n using that by (simp add: t(3) take_block_def)
  moreover have "blk t c = replicate BSIZE 0" "free_blocks ?sb (blk t) = free_blocks ?sb (blk s) - {c}" unfolding t(3) by (fact T)+
  ultimately show ?thesis using t(1) u(1) T(4) by (intro exI [of _ t] exI [of _ u]) simp
qed

theorem balloc_bfree_witness: "\<exists>t u. balloc 1 demo_fs = Ret 47 t \<and> blk t 47 = replicate BSIZE 0 \<and> bfree 1 47 t = Ret () u"
proof -
  have o: "fs_ok 2 (disksize (dsk demo_fs)) (fssb demo_fs) (blk demo_fs)" using demo_fs_ok by simp
  have m: "47 \<in> free_blocks (fssb demo_fs) (blk demo_fs)" by (simp add: demo_free)
  have "x \<notin> free_blocks (fssb demo_fs) (blk demo_fs)" if "x < 47" for x using that by (simp add: demo_free flip: not_less)
  then show ?thesis using balloc_bfree [OF demo_fs_ftx o m] by (auto simp: LOGSIZE_def MAXOPBLOCKS_def)
qed

text \<open>C40: an inode written into its block of the inode table reads back, and the other inodes of the block are as they were.\<close>

theorem dinode_put_get:
  assumes "length (d_addrs d) = NDIRECT + 1" and "length b = BSIZE"
  shows "get_dinode (put_dinode d i b) i = d \<and> length (put_dinode d i b) = BSIZE \<and>
    (\<forall>j. j mod IPB \<noteq> i mod IPB \<longrightarrow> get_dinode (put_dinode d i b) j = get_dinode b j)"
  using get_put_dinode [OF assms] get_put_dinode_other [OF assms] dip_off_le [of i] assms
  by (metis length_blit length_dinode_bytes put_dinode_def)

theorem dinode_put_get_witness: "get_dinode (put_dinode demo_dinode 11 (demo_image 46)) 11 = demo_dinode"
  using dinode_put_get [of demo_dinode "demo_image 46" 11] by (simp add: demo_image_length demo_dinode_def NDIRECT_def)

end
