(* ===== verification/Spec2Isabelle.thy ===== *)
theory Spec2Isabelle
  imports Grep Umalloc Shell Utils Boot Ide Bootload Mkfs Fileio
begin

text \<open>
  A verification development of the xv6 kernel with a Round-Robin scheduler, process statistics
  and semaphores (\<^verbatim>\<open>src/\<close>).
\<close>

end
